(* ===== verification/Prelude.thy ===== *)
theory Prelude
  imports Main "HOL-Library.Word" "HOL-Library.Signed_Division"
begin

text \<open>
  Shared material: the theorem collections of the development, C's truncating
  integer division, list operations that stand for the array shifts of the
  code, and the lemmas on them that the component theories use.
\<close>

unbundle bit_operations_syntax

named_theorems row_simps "positional list updates on \<open>pre @ r # post\<close>"
named_theorems status_consts "unfolding of the status constants and masks"
named_theorems code_simps "unfolding of the small accessors of the state records"

section \<open>C integers\<close>

text \<open>
  Status words are \<open>long long\<close> used as bit fields: 64-bit words.  Sector
  numbers and sizes are \<open>long long\<close> too; signed overflow is undefined in C and
  a sector number of a real device is far below \<open>2^63\<close>, so they are \<open>int\<close>.
\<close>

type_synonym status_word = "64 word"

text \<open>\<open>(first + last) / 2\<close> of C truncates towards zero.\<close>

abbreviation cdiv :: "int \<Rightarrow> int \<Rightarrow> int" where
  "cdiv a b \<equiv> a sdiv b"

abbreviation cmod :: "int \<Rightarrow> int \<Rightarrow> int" where
  "cmod a b \<equiv> a smod b"

lemma cdiv_nonneg [simp]: "0 \<le> a \<Longrightarrow> 0 < b \<Longrightarrow> cdiv a b = a div b"
  by (cases "a = 0") (simp_all add: signed_divide_int_def)

lemma cmod_nonneg [simp]: "0 \<le> a \<Longrightarrow> 0 < b \<Longrightarrow> cmod a b = a mod b"
  by (cases "a = 0") (simp_all add: signed_modulo_int_def)

lemma cdiv_mid_bounds:
  assumes "f \<le> l"
  shows "f \<le> cdiv (f + l) 2 \<and> cdiv (f + l) 2 \<le> l"
proof (cases "0 \<le> f + l")
  case True
  then have "cdiv (f + l) 2 = (f + l) div 2" by simp
  with assms True show ?thesis by auto
next
  case False
  then have "cdiv (f + l) 2 = - ((- (f + l)) div 2)"
    by (simp add: signed_divide_int_def)
  with assms False show ?thesis by auto
qed

section \<open>Array shifts as list operations\<close>

text \<open>
  \<open>insert_row\<close> and \<open>delete_row\<close> are what the shifting loops of the code do to the
  first \<open>total\<close> entries of its arrays (the loops themselves are in
  \<open>Chunk_Table\<close>, with the proof that they do this); \<open>upd_row\<close> is a write to
  one entry.
\<close>

definition insert_row :: "nat \<Rightarrow> 'a \<Rightarrow> 'a list \<Rightarrow> 'a list" where
  "insert_row i r rs = take i rs @ r # drop i rs"

definition delete_row :: "nat \<Rightarrow> 'a list \<Rightarrow> 'a list" where
  "delete_row i rs = (if i < length rs then take i rs @ drop (Suc i) rs else butlast rs)"

definition upd_row :: "nat \<Rightarrow> ('a \<Rightarrow> 'a) \<Rightarrow> 'a list \<Rightarrow> 'a list" where
  "upd_row i f rs = rs[i := f (rs ! i)]"

lemma length_insert_row [simp]: "length (insert_row i r rs) = Suc (length rs)"
  by (simp add: insert_row_def)

lemma length_delete_row [simp]: "length (delete_row i rs) = length rs - 1"
  by (auto simp: delete_row_def min_def)

lemma length_upd_row [simp]: "length (upd_row i f rs) = length rs"
  by (simp add: upd_row_def)

lemma insert_row_here [row_simps]: "n = length pre \<Longrightarrow> insert_row n x (pre @ post) = pre @ x # post"
  by (simp add: insert_row_def)

lemma insert_row_after [row_simps]:
  "n = length pre \<Longrightarrow> insert_row (Suc n) x (pre @ r # post) = pre @ r # x # post"
  by (simp add: insert_row_def)

lemma delete_row_here [row_simps]: "n = length pre \<Longrightarrow> delete_row n (pre @ r # post) = pre @ post"
  by (simp add: delete_row_def)

lemma delete_row_after [row_simps]:
  "n = length pre \<Longrightarrow> delete_row (Suc n) (pre @ q # r # post) = pre @ q # post"
  by (simp add: delete_row_def)

lemma upd_row_here [row_simps]: "n = length pre \<Longrightarrow> upd_row n f (pre @ r # post) = pre @ f r # post"
  by (simp add: upd_row_def)

lemma upd_row_after [row_simps]:
  "n = length pre \<Longrightarrow> upd_row (Suc n) f (pre @ q # r # post) = pre @ q # f r # post"
  by (simp add: upd_row_def list_update_append nth_append)

lemma nth_here [row_simps]: "n = length pre \<Longrightarrow> (pre @ r # post) ! n = r"
  by simp

lemma nth_after [row_simps]: "n = length pre \<Longrightarrow> (pre @ q # r # post) ! Suc n = r"
  by (simp add: nth_append)

lemma split_at_index:
  assumes "i < length rs"
  obtains pre r post where "rs = pre @ r # post" "length pre = i" "r = rs ! i"
  using assms id_take_nth_drop [of i rs] by (metis length_take min.absorb4)

end
