(* ===== verification/Chunk_Table.thy ===== *)
theory Chunk_Table
  imports Prelude
begin

text \<open>
  The table of chunks: the three parallel arrays \<open>lposition_ccc\<close>, \<open>lsize_ccc\<close>,
  \<open>lstatus_ccc\<close> of the progress log (and \<open>dposition_ccc\<close>, \<open>dsize_ccc\<close>,
  \<open>dstatus_ccc\<close> of the domain) as a list of rows, what it means that the rows tile
  a range of sectors, and the status a sector has in a table.
\<close>

section \<open>Rows\<close>

record row =
  lposition :: int
  lsize :: int
  lstatus :: status_word

definition mk_row :: "int \<Rightarrow> int \<Rightarrow> status_word \<Rightarrow> row" where
  "mk_row p s st = \<lparr>lposition = p, lsize = s, lstatus = st\<rparr>"

lemma mk_row_sel [simp]:
  "lposition (mk_row p s st) = p" "lsize (mk_row p s st) = s" "lstatus (mk_row p s st) = st"
  by (simp_all add: mk_row_def)

definition row_end :: "row \<Rightarrow> int" where
  "row_end r = lposition r + lsize r"

definition covers :: "row \<Rightarrow> int \<Rightarrow> bool" where
  "covers r x \<longleftrightarrow> lposition r \<le> x \<and> x < lposition r + lsize r"

text \<open>\<open>tiles a rs b\<close>: the rows are non-empty and lie end to end from \<open>a\<close> to \<open>b\<close>.\<close>

fun tiles :: "int \<Rightarrow> row list \<Rightarrow> int \<Rightarrow> bool" where
  "tiles a [] b \<longleftrightarrow> a = b"
| "tiles a (r # rs) b \<longleftrightarrow> lposition r = a \<and> 0 < lsize r \<and> tiles (a + lsize r) rs b"

fun status_at :: "row list \<Rightarrow> int \<Rightarrow> status_word option" where
  "status_at [] x = None"
| "status_at (r # rs) x = (if covers r x then Some (lstatus r) else status_at rs x)"

lemma tiles_append: "tiles a (xs @ ys) b \<longleftrightarrow> (\<exists>m. tiles a xs m \<and> tiles m ys b)"
  by (induction xs arbitrary: a) auto

lemma tiles_le: "tiles a rs b \<Longrightarrow> a \<le> b"
  by (induction rs arbitrary: a) force+

lemma tiles_mem:
  "tiles a rs b \<Longrightarrow> r \<in> set rs \<Longrightarrow> a \<le> lposition r \<and> 0 < lsize r \<and> lposition r + lsize r \<le> b"
  by (induction rs arbitrary: a) (fastforce dest: tiles_le)+


lemma tiles_row: "tiles a (pre @ r # post) b \<Longrightarrow> 0 < lsize r"
  by (auto simp: tiles_append)

lemma tiles_pair:
  "tiles a (pre @ q # r # post) b \<Longrightarrow>
   lposition r = lposition q + lsize q \<and> 0 < lsize q \<and> 0 < lsize r"
  by (auto simp: tiles_append)

lemma row_eta: "lposition r = p \<Longrightarrow> lsize r = s \<Longrightarrow> lstatus r = st \<Longrightarrow> r = mk_row p s st"
  by (simp add: mk_row_def)

lemma status_at_append:
  "status_at (xs @ ys) x = (case status_at xs x of None \<Rightarrow> status_at ys x | Some s \<Rightarrow> Some s)"
  by (induction xs) auto

lemma status_at_outside: "tiles a rs b \<Longrightarrow> x < a \<or> b \<le> x \<Longrightarrow> status_at rs x = None"
  by (induction rs arbitrary: a) (auto simp: covers_def dest: tiles_le)

lemma status_at_inside: "tiles a rs b \<Longrightarrow> a \<le> x \<Longrightarrow> x < b \<Longrightarrow> status_at rs x \<noteq> None"
proof (induction rs arbitrary: a)
  case Nil
  then show ?case by simp
next
  case (Cons r rs)
  then show ?case
    by (cases "x < a + lsize r") (auto simp: covers_def)
qed

lemma status_at_covered: "status_at rs x \<noteq> None \<longleftrightarrow> (\<exists>r \<in> set rs. covers r x)"
  by (induction rs) auto

lemma status_at_defined: "tiles a rs b \<Longrightarrow> status_at rs x = None \<longleftrightarrow> x < a \<or> b \<le> x"
  using status_at_inside status_at_outside by (metis linorder_not_le)

text \<open>The status of a sector in a tiled table, read off the row that holds it.\<close>

lemma status_at_mid:
  assumes "tiles a (pre @ r # post) b" "covers r x"
  shows "status_at (pre @ r # post) x = Some (lstatus r)"
proof -
  from assms have "status_at pre x = None"
    by (auto simp: tiles_append covers_def intro: status_at_outside)
  with assms(2) show ?thesis by (simp add: status_at_append)
qed

text \<open>
  \<open>spaced a rs\<close>: non-empty rows from \<open>a\<close> on, in order and without overlap, gaps allowed
  (what \<open>check_domain_ccc\<close> asks of a domain).
\<close>

fun spaced :: "int \<Rightarrow> row list \<Rightarrow> bool" where
  "spaced a [] \<longleftrightarrow> True"
| "spaced a (r # rs) \<longleftrightarrow> a \<le> lposition r \<and> 0 < lsize r \<and> spaced (lposition r + lsize r) rs"

lemma tiles_spaced: "tiles a rs b \<Longrightarrow> spaced a rs"
  by (induction rs arbitrary: a) auto

lemma spaced_mem: "spaced a rs \<Longrightarrow> r \<in> set rs \<Longrightarrow> a \<le> lposition r \<and> 0 < lsize r"
  by (induction rs arbitrary: a) force+

lemma spaced_before: "spaced a rs \<Longrightarrow> x < a \<Longrightarrow> status_at rs x = None"
  by (induction rs arbitrary: a) (auto simp: covers_def)

lemma spaced_snoc:
  "spaced a rs \<Longrightarrow> rs \<noteq> [] \<Longrightarrow> lposition (last rs) + lsize (last rs) \<le> lposition r \<Longrightarrow> 0 < lsize r \<Longrightarrow>
   spaced a (rs @ [r])"
proof (induction rs arbitrary: a)
  case Nil
  then show ?case by simp
next
  case (Cons q rs)
  then show ?case by (cases rs) auto
qed

lemma tiles_hd_last:
  "tiles a rs e \<Longrightarrow> rs \<noteq> [] \<Longrightarrow> lposition (hd rs) = a \<and> lposition (last rs) + lsize (last rs) = e"
proof (induction rs arbitrary: a)
  case Nil
  then show ?case by simp
next
  case (Cons q rs)
  then show ?case by (cases rs) auto
qed

lemma spaced_nth:
  assumes "spaced a rs" "i < j" "j < length rs"
  shows "lposition (rs ! i) + lsize (rs ! i) \<le> lposition (rs ! j)"
  using assms
proof (induction rs arbitrary: a i j)
  case Nil
  then show ?case by simp
next
  case (Cons r rs)
  then have t: "spaced (lposition r + lsize r) rs" by simp
  show ?case
  proof (cases i)
    case 0
    with Cons.prems have "rs ! (j - 1) \<in> set rs" by auto
    from spaced_mem [OF t this] 0 Cons.prems(2) show ?thesis by (simp add: nth_Cons')
  next
    case (Suc k)
    with Cons.prems have "k < j - 1" "j - 1 < length rs" by auto
    from Cons.IH [OF t this] Suc Cons.prems(2) show ?thesis by (simp add: nth_Cons')
  qed
qed

lemma spaced_nth_size: "spaced a rs \<Longrightarrow> i < length rs \<Longrightarrow> 0 < lsize (rs ! i)"
  using spaced_mem nth_mem by blast

lemma spaced_covers_index:
  assumes "spaced a rs" "i < length rs" "j < length rs" "covers (rs ! i) x" "covers (rs ! j) x"
  shows "i = j"
proof (rule ccontr)
  assume "i \<noteq> j"
  then consider "i < j" | "j < i" by linarith
  then show False
    using spaced_nth [OF assms(1) _ assms(3), of i] spaced_nth [OF assms(1) _ assms(2), of j] assms(4,5)
    by cases (auto simp: covers_def)
qed

lemma spaced_covers_unique:
  assumes "spaced a rs" "q \<in> set rs" "r \<in> set rs" "covers q x" "covers r x"
  shows "q = r"
  using assms by (metis in_set_conv_nth spaced_covers_index)

section \<open>The arrays and their shifting loops\<close>

text \<open>
  In the code a table is arrays indexed from 0 and a count; here an array is a
  function of the index, and the loops of \<open>insert_line_ccc\<close> and
  \<open>delete_line_ccc\<close> (\<open>insert_domain_line_ccc\<close>, \<open>delete_domain_line_ccc\<close>) are
  written as they stand.  The three arrays move together, so one array of rows stands
  for them.
\<close>

fun shift_left :: "nat \<Rightarrow> nat \<Rightarrow> (nat \<Rightarrow> row) \<Rightarrow> (nat \<Rightarrow> row)" where
  \<comment> \<open>\<open>k\<close> iterations of \<open>for (i = line; i < total; i++) a[i] = a[i+1]\<close>, from \<open>i\<close>\<close>
  "shift_left 0 i a = a"
| "shift_left (Suc k) i a = shift_left k (Suc i) (a(i := a (Suc i)))"

definition delete_line_array :: "nat \<Rightarrow> (nat \<Rightarrow> row) \<times> nat \<Rightarrow> (nat \<Rightarrow> row) \<times> nat" where
  "delete_line_array l A =
     (let (a, n) = A in (shift_left (n - l) l a, n - 1))"

function shift_right :: "nat \<Rightarrow> nat \<Rightarrow> (nat \<Rightarrow> row) \<Rightarrow> nat \<times> (nat \<Rightarrow> row)" where
  \<comment> \<open>\<open>for (i = total; i > line; i--) a[i] = a[i-1]\<close>: the final \<open>i\<close> and the array\<close>
  "shift_right l i a = (if i > l then shift_right l (i - 1) (a(i := a (i - 1))) else (i, a))"
  by pat_completeness auto
termination
  by (relation "measure (\<lambda>(l, i, a). i)") auto

declare shift_right.simps [simp del]

definition insert_line_array :: "nat \<Rightarrow> row \<Rightarrow> (nat \<Rightarrow> row) \<times> nat \<Rightarrow> (nat \<Rightarrow> row) \<times> nat" where
  "insert_line_array l r A =
     (let (a, n) = A; (i, a') = shift_right l n a in (a'(i := r), Suc n))"

definition rows_of :: "(nat \<Rightarrow> row) \<times> nat \<Rightarrow> row list" where
  "rows_of A = map (fst A) [0..<snd A]"

lemma shift_left_eq:
  "shift_left k i a j = (if i \<le> j \<and> j < i + k then a (Suc j) else a j)"
  by (induction k arbitrary: i a) auto

lemma shift_right_eq:
  "shift_right l i a =
     (min i l, \<lambda>j. if l < j \<and> j \<le> i then a (j - 1) else a j)"
proof (induction l i a rule: shift_right.induct)
  case (1 l i a)
  show ?case
  proof (cases "i > l")
    case True
    then have "shift_right l i a = shift_right l (i - 1) (a(i := a (i - 1)))"
      by (subst shift_right.simps) simp
    also have "\<dots> = (min (i - 1) l,
        \<lambda>j. if l < j \<and> j \<le> i - 1 then (a(i := a (i - 1))) (j - 1) else (a(i := a (i - 1))) j)"
      by (rule 1 [OF True])
    also have "\<dots> = (min i l, \<lambda>j. if l < j \<and> j \<le> i then a (j - 1) else a j)"
      using True by (auto simp: fun_eq_iff min_def)
    finally show ?thesis .
  next
    case False
    then show ?thesis by (subst shift_right.simps) (auto simp: fun_eq_iff min_def)
  qed
qed

lemma rows_of_delete:
  assumes "l < n"
  shows "rows_of (delete_line_array l (a, n)) = delete_row l (rows_of (a, n))"
  using assms
  by (intro nth_equalityI)
     (auto simp: rows_of_def delete_line_array_def delete_row_def shift_left_eq nth_append min_def)

lemma rows_of_insert:
  assumes "l \<le> n"
  shows "rows_of (insert_line_array l r (a, n)) = insert_row l r (rows_of (a, n))"
proof (rule nth_equalityI)
  show "length (rows_of (insert_line_array l r (a, n))) =
    length (insert_row l r (rows_of (a, n)))"
    by (simp add: rows_of_def insert_line_array_def shift_right_eq)
  fix i
  assume "i < length (rows_of (insert_line_array l r (a, n)))"
  then have "i < Suc n"
    by (simp add: rows_of_def insert_line_array_def shift_right_eq)
  with assms show "rows_of (insert_line_array l r (a, n)) ! i =
    insert_row l r (rows_of (a, n)) ! i"
    by (auto simp: rows_of_def insert_line_array_def insert_row_def shift_right_eq
        nth_append nth_Cons' min_def simp del: upt_Suc)
qed

end
