(* ===== verification/Status.thy ===== *)
theory Status
  imports Prelude
begin

text \<open>
  The status word of a chunk (\<open>hddsuperclone.h\<close>): the constants, the masks, and how the
  clone engine packs the return status, the skip information and the sense or
  ATA error bytes into it (\<open>set_additional_status_ccc\<close>, \<open>get_timing_byte_ccc\<close>).
\<close>

section \<open>Constants\<close>

definition NONTRIED :: status_word where [status_consts]: "NONTRIED = 0"
definition NONTRIMMED :: status_word where [status_consts]: "NONTRIMMED = 0x10"
definition NONDIVIDED :: status_word where [status_consts]: "NONDIVIDED = 0x20"
definition NONSCRAPED :: status_word where [status_consts]: "NONSCRAPED = 0x30"
definition BAD :: status_word where [status_consts]: "BAD = 0x40"
definition BAD_HEAD :: status_word where [status_consts]: "BAD_HEAD = 0x80"
definition FINISHED :: status_word where [status_consts]: "FINISHED = 0x7f"
definition STATUS_MASK :: status_word where [status_consts]: "STATUS_MASK = 0xff"
definition BAD_HEAD_STATUS :: status_word where [status_consts]: "BAD_HEAD_STATUS = 0x80"
definition SKIP_INFO_MASK :: status_word where [status_consts]: "SKIP_INFO_MASK = 0xff00"
definition FULL_MASK :: status_word where [status_consts]: "FULL_MASK = 0xffffffffffffffff"
definition BAD_HEAD_MASK :: status_word where [status_consts]: "BAD_HEAD_MASK = 0xffffffffffffff7f"

text \<open>The values of \<open>current_status_ccc\<close>: the phases of the clone.\<close>

definition PHASE1 :: status_word where [status_consts]: "PHASE1 = 0"
definition PHASE2 :: status_word where [status_consts]: "PHASE2 = 0x2"
definition PHASE3 :: status_word where [status_consts]: "PHASE3 = 0x6"
definition PHASE4 :: status_word where [status_consts]: "PHASE4 = 0x8"
definition TRIMMING :: status_word where [status_consts]: "TRIMMING = 0x10"
definition DIVIDING1 :: status_word where [status_consts]: "DIVIDING1 = 0x20"
definition DIVIDING2 :: status_word where [status_consts]: "DIVIDING2 = 0x22"
definition SCRAPING :: status_word where [status_consts]: "SCRAPING = 0x30"
definition RETRYING :: status_word where [status_consts]: "RETRYING = 0x40"
definition REBUILDASSIST :: status_word where [status_consts]: "REBUILDASSIST = 0x80"
definition FILLING :: status_word where [status_consts]: "FILLING = 0x100"
definition SKIP_RESET_MASK :: status_word where [status_consts]: "SKIP_RESET_MASK = 0xffffffffffff00ff"
definition INFO_MASK :: status_word where [status_consts]: "INFO_MASK = 0xffffff00"

text \<open>Return codes (\<open>common.h\<close>).\<close>

definition GENERAL_ERROR_RETURN_CODE :: int where [status_consts]: "GENERAL_ERROR_RETURN_CODE = -1"
definition LOGFILE_ERROR_RETURN_CODE :: int where [status_consts]: "LOGFILE_ERROR_RETURN_CODE = -2"
definition OUTPUT_DEVICE_ERROR_RETURN_CODE :: int where [status_consts]: "OUTPUT_DEVICE_ERROR_RETURN_CODE = -3"
definition INPUT_DEVICE_ERROR_RETURN_CODE :: int where [status_consts]: "INPUT_DEVICE_ERROR_RETURN_CODE = -4"
definition EXIT_ON_SLOW_RETURN_CODE :: int where [status_consts]: "EXIT_ON_SLOW_RETURN_CODE = -16"
definition DEVICE_FAULT_RETURN_CODE :: int where [status_consts]: "DEVICE_FAULT_RETURN_CODE = -32"
definition DEVICE_ERROR_RETURN_CODE :: int where [status_consts]: "DEVICE_ERROR_RETURN_CODE = -64"
definition INTERNAL_ERROR_RETURN_CODE :: int where [status_consts]: "INTERNAL_ERROR_RETURN_CODE = -15"
definition STOP_SIGNAL_RETURN_CODE :: int where [status_consts]: "STOP_SIGNAL_RETURN_CODE = -128"

lemma full_mask_minus_one: "FULL_MASK = -1"
  by (simp add: FULL_MASK_def)

lemma full_mask_and [simp]: "s AND FULL_MASK = s"
  by (simp add: full_mask_minus_one)

section \<open>Fields of the status word\<close>

text \<open>
  What the last command reported: the access mode and the sense or ATA error bytes.
\<close>

record sense_info =
  direct_mode :: bool
  passthrough :: bool
  ata_return_valid :: bool
  ata_identify_success :: bool
  ata_error :: "8 word"
  ata_status :: "8 word"
  sense_key :: "8 word"
  asc :: "8 word"
  ascq :: "8 word"

definition set_additional_status :: "sense_info \<Rightarrow> int \<Rightarrow> int \<Rightarrow> status_word" where
  "set_additional_status e retstat skip_info =
     (if direct_mode e \<or> (passthrough e \<and> ata_return_valid e \<and> ata_identify_success e)
      then push_bit 16 (word_of_int retstat) OR push_bit 8 (word_of_int skip_info)
        OR push_bit 48 (ucast (ata_error e)) OR push_bit 40 (ucast (ata_status e))
      else push_bit 16 (word_of_int retstat) OR push_bit 8 (word_of_int skip_info)
        OR push_bit 56 (ucast (sense_key e)) OR push_bit 48 (ucast (asc e)) OR push_bit 40 (ucast (ascq e)))"

definition get_timing_byte :: "64 word \<Rightarrow> status_word" where
  "get_timing_byte readtime =
     (let t = readtime div 1000000; t = (if t > 0x3f then 0x3f else t) in push_bit 32 t)"

definition skip_number :: "status_word \<Rightarrow> nat" where
  "skip_number st = unat (drop_bit 8 (st AND 0x3f00))"

definition skip_direction :: "status_word \<Rightarrow> status_word" where
  "skip_direction st = drop_bit 8 (st AND 0xc000)"

definition FORWARD_SKIP :: status_word where [status_consts]: "FORWARD_SKIP = 0x80"
definition REVERSE_SKIP :: status_word where [status_consts]: "REVERSE_SKIP = 0xc0"

lemma push_bit_low_byte:
  assumes "8 \<le> n"
  shows "push_bit n (w :: status_word) AND STATUS_MASK = 0"
proof -
  have "STATUS_MASK = mask 8" by (simp add: STATUS_MASK_def mask_eq_exp_minus_1)
  with assms show ?thesis by (auto simp: bit_eq_iff bit_simps)
qed

lemma status_mask_or: "(a OR b) AND STATUS_MASK = (a AND STATUS_MASK) OR (b AND STATUS_MASK)"
  by (rule bit.conj_disj_distrib2)

lemma additional_status_low: "set_additional_status e ret skip AND STATUS_MASK = 0"
  by (simp add: set_additional_status_def status_mask_or push_bit_low_byte)

lemma timing_byte_low: "get_timing_byte t AND STATUS_MASK = 0"
  by (simp add: get_timing_byte_def Let_def push_bit_low_byte)

lemma mask_eqs: "SKIP_INFO_MASK = push_bit 8 (mask 8)" "STATUS_MASK = mask 8"
  by (simp_all add: SKIP_INFO_MASK_def STATUS_MASK_def mask_eq_exp_minus_1)

lemma additional_status_skip:
  assumes "st AND STATUS_MASK = st" "0 \<le> skip" "skip < 2 ^ 8"
  shows "(st OR set_additional_status e ret skip OR get_timing_byte t) AND SKIP_INFO_MASK = push_bit 8 (word_of_int skip)"
proof -
  have st: "8 \<le> n \<Longrightarrow> \<not> bit st n" for n
    using assms(1) by (metis bit_and_iff bit_mask_iff mask_eqs(2) not_le)
  have sk: "bit skip n \<Longrightarrow> n < 8" for n
    using take_bit_int_eq_self [OF assms(2,3)] by (metis bit_take_bit_iff)
  show ?thesis
    unfolding mask_eqs set_additional_status_def get_timing_byte_def Let_def
    by (auto simp: bit_eq_iff bit_simps st dest: sk)
qed

lemma skip_field:
  assumes "x AND SKIP_INFO_MASK = push_bit 8 (word_of_int k)" and m: "\<And>j. bit m j \<Longrightarrow> j < 8"
  shows "drop_bit 8 (x AND push_bit 8 m) = word_of_int k AND (m :: status_word)"
proof -
  have "push_bit 8 m = SKIP_INFO_MASK AND push_bit 8 m"
    unfolding mask_eqs by (auto simp: bit_eq_iff bit_simps dest: m)
  then have "x AND push_bit 8 m = (x AND SKIP_INFO_MASK) AND push_bit 8 m" by (metis and.assoc)
  also have "\<dots> = push_bit 8 (word_of_int k AND m)" by (simp add: assms(1))
  finally have eq: "x AND push_bit 8 m = push_bit 8 (word_of_int k AND m)" .
  show ?thesis unfolding eq by (auto simp: bit_eq_iff bit_simps dest: m)
qed

text \<open>
  the fields do not run into each other.  Combined with a status, the additional status and
  the timing byte leave the status in the low byte, and the skip information, a count of at
  most 63 with a direction, reads back as it was put in.
\<close>

theorem status_fields:
  assumes "st AND STATUS_MASK = st" "n \<le> 63" "d = 0x80 \<or> d = 0xc0"
    and "x = st OR set_additional_status e ret (int n OR d) OR get_timing_byte t"
  shows "x AND STATUS_MASK = st \<and> skip_number x = n \<and> skip_direction x = word_of_int d"
proof -
  have d: "take_bit 6 d = 0" "take_bit 8 d = d" "0 \<le> d" using assms(3) by auto
  have n: "take_bit 6 (int n) = int n" "take_bit 8 (int n) = int n"
    using assms(2) by (simp_all add: take_bit_int_eq_self)
  have skip: "0 \<le> int n OR d" "take_bit 8 (int n OR d) = int n OR d"
    using d n by (simp_all add: take_bit_or)
  then have lt: "int n OR d < 2 ^ 8" by (metis take_bit_int_less_exp)
  note f = additional_status_skip [OF assms(1) skip(1) lt, of e ret t]
  have m: "push_bit 8 (mask 6) = (0x3f00 :: status_word)" "push_bit 8 (push_bit 6 (mask 2)) = (0xc000 :: status_word)"
    "0xc0 = (push_bit 6 (mask 2) :: status_word)"
    by (simp_all add: mask_eq_exp_minus_1)
  have m8: "bit (mask 6 :: status_word) j \<Longrightarrow> j < 8" "bit (push_bit 6 (mask 2) :: status_word) j \<Longrightarrow> j < 8" for j
    by (auto simp: bit_simps)
  note fields = skip_field [OF f [folded assms(4)], of "mask 6", OF m8(1)]
    skip_field [OF f [folded assms(4)], of "push_bit 6 (mask 2)", OF m8(2)]
  have "word_of_int (int n OR d) AND mask 6 = (word_of_int (take_bit 6 (int n OR d)) :: status_word)"
    by (auto simp: bit_eq_iff bit_simps)
  then have "drop_bit 8 (x AND 0x3f00) = (word_of_int (int n) :: status_word)"
    using fields(1) d n by (simp add: m take_bit_or)
  moreover have "word_of_int (int n OR d) = (word_of_int (int n) OR word_of_int d :: status_word)"
    by (auto simp: bit_eq_iff bit_simps)
  moreover have "word_of_int (int n) AND 0xc0 = (0 :: status_word)"
  proof -
    have "6 \<le> j \<Longrightarrow> \<not> bit (int n) j" for j using n(1) by (metis bit_take_bit_iff not_le)
    then show ?thesis unfolding m(3) by (auto simp: bit_eq_iff bit_simps)
  qed
  moreover have "word_of_int d AND 0xc0 = (word_of_int d :: status_word)"
    using assms(3) by auto
  ultimately have "drop_bit 8 (x AND 0x3f00) = (word_of_int (int n) :: status_word)"
    "word_of_int (int n OR d) AND 0xc0 = (word_of_int d :: status_word)"
    by (simp_all add: bit.conj_disj_distrib2)
  moreover from this(2) have "drop_bit 8 (x AND 0xc000) = (word_of_int d :: status_word)"
    using fields(2) by (simp only: m)
  moreover have "x AND STATUS_MASK = st"
    using assms(1,4) by (simp add: status_mask_or additional_status_low timing_byte_low)
  ultimately show ?thesis
    using assms(2) by (simp add: skip_number_def skip_direction_def unsigned_of_nat take_bit_nat_eq_self)
qed

lemma status_fields_witness:
  "skip_number (NONTRIMMED OR set_additional_status
      \<lparr>direct_mode = True, passthrough = False, ata_return_valid = True, ata_identify_success = True,
        ata_error = 0x40, ata_status = 0x51, sense_key = 0, asc = 0, ascq = 0\<rparr> 3 (5 OR 0x80)
      OR get_timing_byte 2000000) = 5"
proof -
  have "NONTRIMMED AND STATUS_MASK = NONTRIMMED" "(5 :: nat) \<le> 63" "(0x80 :: int) = 0x80 \<or> (0x80 :: int) = 0xc0"
    by (simp_all add: status_consts)
  from status_fields [OF this refl] show ?thesis by simp
qed

end
