(* ===== verification/Log_Map.thy ===== *)
theory Log_Map
  imports Chunk_Table Status
begin

text \<open>
  The progress log (\<open>hddsuperclone.c\<close>): lookup of a block, insertion and deletion of
  lines, growth of the arrays, and \<open>change_chunk_status_ccc\<close>, the one
  operation by which the clone engine records what happened to a chunk.
\<close>

section \<open>State\<close>

datatype table_array = PositionArray | SizeArray | StatusArray

text \<open>
  \<open>lines\<close> are the first' \<open>total_lines_ccc\<close> (\<open>domain_lines_ccc\<close>) entries of the three
  arrays, \<open>line_rows\<close> is \<open>log_rows_ccc\<close> (\<open>domain_rows_ccc\<close>), the size the code
  believes the arrays have.  \<open>allocated\<close> is the size all three really have, and
  \<open>realloc_ok a n\<close> says whether \<open>realloc\<close> gives array \<open>a\<close> room for \<open>n\<close> rows.
\<close>

record table =
  lines :: "row list"
  line_rows :: nat
  allocated :: nat
  realloc_ok :: "table_array \<Rightarrow> nat \<Rightarrow> bool"

abbreviation total_lines :: "table \<Rightarrow> nat" where
  "total_lines T \<equiv> length (lines T)"

record maps =
  log_table :: table
  domain_table :: table
  critical_process :: bool
  logfile_changed :: bool
  domainfile_changed :: bool

section \<open>Growth, insertion, deletion\<close>

definition increase_log_memory :: "nat \<Rightarrow> table \<Rightarrow> int \<times> table" where
  "increase_log_memory new_lines T =
     (let n = line_rows T + new_lines; T1 = T\<lparr>line_rows := n\<rparr> in
      if \<not> realloc_ok T PositionArray n then (GENERAL_ERROR_RETURN_CODE, T1)
      else if \<not> realloc_ok T SizeArray n then (GENERAL_ERROR_RETURN_CODE, T1)
      else if \<not> realloc_ok T StatusArray n then (GENERAL_ERROR_RETURN_CODE, T1)
      else (0, T1\<lparr>allocated := n\<rparr>))"

definition insert_line :: "nat \<Rightarrow> int \<Rightarrow> int \<Rightarrow> status_word \<Rightarrow> table \<Rightarrow> int \<times> table" where
  "insert_line l pos sz st T =
     (let (ret, T1) = (if total_lines T + 1 \<ge> line_rows T then increase_log_memory 1000 T else (0, T))
      in if ret \<noteq> 0 then (ret, T1)
         else (0, T1\<lparr>lines := insert_row l (mk_row pos sz st) (lines T1)\<rparr>))"

definition delete_line :: "nat \<Rightarrow> table \<Rightarrow> table" where
  "delete_line l T = T\<lparr>lines := delete_row l (lines T)\<rparr>"

definition upd_line :: "nat \<Rightarrow> (row \<Rightarrow> row) \<Rightarrow> table \<Rightarrow> table" where
  "upd_line l f T = T\<lparr>lines := upd_row l f (lines T)\<rparr>"

section \<open>Searching\<close>

function find_loop :: "row list \<Rightarrow> int \<Rightarrow> int \<Rightarrow> int \<Rightarrow> int" where
  "find_loop rs position first' last' =
     (let middle = cdiv (first' + last') 2; r = rs ! nat middle in
      if first' \<le> last' then
        if position \<ge> lposition r \<and> position < lposition r + lsize r then middle
        else if position > lposition r then find_loop rs position (middle + 1) last'
        else find_loop rs position first' (middle - 1)
      else -1)"
  by pat_completeness auto
termination
proof (relation "measure (\<lambda>(rs, position, first', last'). nat (last' - first' + 1))", goal_cases)
  case 1
  show ?case by simp
next
  case (2 rs position first' last' m r)
  then show ?case using cdiv_mid_bounds [of first' last'] by auto
next
  case (3 rs position first' last' m r)
  then show ?case using cdiv_mid_bounds [of first' last'] by auto
qed

declare find_loop.simps [simp del]

definition find_block :: "int \<Rightarrow> table \<Rightarrow> int" where
  "find_block position T = find_loop (lines T) position 0 (int (total_lines T) - 1)"

fun find_next_from :: "row list \<Rightarrow> int \<Rightarrow> status_word \<Rightarrow> status_word \<Rightarrow> int" where
  \<comment> \<open>the loop, on the rows from index \<open>i\<close> on\<close>
  "find_next_from [] i st msk = -1"
| "find_next_from (r # rs) i st msk =
     (if lstatus r AND msk = st AND msk then i else find_next_from rs (i + 1) st msk)"

definition find_next_block :: "int \<Rightarrow> status_word \<Rightarrow> status_word \<Rightarrow> table \<Rightarrow> int" where
  "find_next_block l st msk T = find_next_from (drop (nat (l + 1)) (lines T)) (max 0 (l + 1)) st msk"

fun find_prev_from :: "row list \<Rightarrow> nat \<Rightarrow> status_word \<Rightarrow> status_word \<Rightarrow> int" where
  \<comment> \<open>the loop \<open>for (i = n - 1; i >= 0; i--)\<close>\<close>
  "find_prev_from rs 0 st msk = -1"
| "find_prev_from rs (Suc i) st msk =
     (if lstatus (rs ! i) AND msk = st AND msk then int i else find_prev_from rs i st msk)"

definition find_previous_block :: "int \<Rightarrow> status_word \<Rightarrow> status_word \<Rightarrow> table \<Rightarrow> int" where
  "find_previous_block l st msk T = find_prev_from (lines T) (nat l) st msk"

section \<open>The search finds the row that holds the sector\<close>

lemma find_loop_found:
  "find_loop rs p f l = m \<Longrightarrow> m \<noteq> -1 \<Longrightarrow> 0 \<le> f \<Longrightarrow>
   f \<le> m \<and> m \<le> l \<and> covers (rs ! nat m) p"
proof (induction rs p f l rule: find_loop.induct)
  case (1 rs p f l)
  note res = "1.prems"(1) and ne = "1.prems"(2) and f0 = "1.prems"(3)
  define m' where "m' = cdiv (f + l) 2"
  define r where "r = rs ! nat m'"
  have fl: "f \<le> l"
    using res ne by (subst (asm) find_loop.simps) (auto simp: Let_def split: if_splits)
  then have mb: "f \<le> m'" "m' \<le> l"
    unfolding m'_def using cdiv_mid_bounds [of f l] by auto
  have eq: "m = (if p \<ge> lposition r \<and> p < lposition r + lsize r then m'
      else if p > lposition r then find_loop rs p (m' + 1) l else find_loop rs p f (m' - 1))"
    using res fl unfolding m'_def r_def by (subst (asm) find_loop.simps) (simp add: Let_def)
  show ?case
  proof (cases "p \<ge> lposition r \<and> p < lposition r + lsize r")
    case True
    with eq have "m = m'" by simp
    with True mb show ?thesis by (simp add: r_def covers_def)
  next
    case no: False
    show ?thesis
    proof (cases "p > lposition r")
      case True
      with eq no have "find_loop rs p (m' + 1) l = m" by simp
      from "1.IH"(1) [OF m'_def r_def fl no True this ne] mb f0 show ?thesis by simp
    next
      case False
      from eq have "find_loop rs p f (m' - 1) = m" by (simp only: no False if_False)
      from "1.IH"(2) [OF m'_def r_def fl no False this ne f0] mb show ?thesis by simp
    qed
  qed
qed

lemma find_loop_complete:
  "spaced a rs \<Longrightarrow> covers (rs ! i) p \<Longrightarrow> f \<le> int i \<Longrightarrow> int i \<le> l \<Longrightarrow> 0 \<le> f \<Longrightarrow>
   l < int (length rs) \<Longrightarrow> find_loop rs p f l = int i"
proof (induction rs p f l rule: find_loop.induct)
  case (1 rs p f l)
  note sp = "1.prems"(1) and cov = "1.prems"(2) and rng = "1.prems"(3-6)
  define m' where "m' = cdiv (f + l) 2"
  define r where "r = rs ! nat m'"
  have fl: "f \<le> l" using rng by simp
  then have mb: "f \<le> m'" "m' \<le> l" "0 \<le> m'" "nat m' < length rs"
    unfolding m'_def using cdiv_mid_bounds [of f l] rng by auto
  have sz: "0 < lsize r" unfolding r_def by (rule spaced_nth_size [OF sp mb(4)])
  have eq: "find_loop rs p f l = (if p \<ge> lposition r \<and> p < lposition r + lsize r then m'
      else if p > lposition r then find_loop rs p (m' + 1) l else find_loop rs p f (m' - 1))"
    using fl unfolding m'_def r_def by (subst find_loop.simps) (simp add: Let_def)
  have before: "lposition (rs ! i) + lsize (rs ! i) \<le> lposition r" if "int i < m'"
    unfolding r_def by (rule spaced_nth [OF sp _ mb(4)]) (use that in linarith)
  have after: "lposition r + lsize r \<le> lposition (rs ! i)" if "m' < int i"
    unfolding r_def by (rule spaced_nth [OF sp]) (use that rng mb(3) in linarith)+
  consider (hit) "m' = int i" | (right) "m' < int i" | (left) "int i < m'" by linarith
  then show ?case
  proof cases
    case hit
    with eq cov show ?thesis by (simp add: r_def covers_def)
  next
    case right
    with after sz cov have no: "\<not> (p \<ge> lposition r \<and> p < lposition r + lsize r)" "p > lposition r"
      by (auto simp: covers_def)
    have "find_loop rs p (m' + 1) l = int i"
      by (rule "1.IH"(1) [OF m'_def r_def fl no sp cov]) (use right rng mb in linarith)+
    with eq no show ?thesis by simp
  next
    case left
    with before cov have no: "\<not> (p \<ge> lposition r \<and> p < lposition r + lsize r)" "\<not> p > lposition r"
      by (auto simp: covers_def)
    have "find_loop rs p f (m' - 1) = int i"
      by (rule "1.IH"(2) [OF m'_def r_def fl no sp cov]) (use left rng mb in linarith)+
    with eq show ?thesis by (simp only: no if_False)
  qed
qed

lemma find_block_hit:
  assumes "spaced a (lines T)" "i < total_lines T" "covers (lines T ! i) p"
  shows "find_block p T = int i"
  unfolding find_block_def by (rule find_loop_complete [OF assms(1,3)]) (use assms(2) in auto)

lemma find_block_found:
  assumes "find_block p T \<noteq> -1"
  shows "0 \<le> find_block p T \<and> nat (find_block p T) < total_lines T \<and>
    covers (lines T ! nat (find_block p T)) p"
  using find_loop_found [of "lines T" p 0 "int (total_lines T) - 1" "find_block p T"] assms
  by (auto simp: find_block_def)

lemma find_block_none:
  assumes "tiles a (lines T) b"
  shows "find_block p T = -1 \<longleftrightarrow> p < a \<or> b \<le> p"
proof
  assume "find_block p T = -1"
  show "p < a \<or> b \<le> p"
  proof (rule ccontr)
    assume "\<not> (p < a \<or> b \<le> p)"
    with assms have "status_at (lines T) p \<noteq> None" by (simp add: status_at_defined)
    then obtain i where "i < total_lines T" "covers (lines T ! i) p"
      by (metis in_set_conv_nth status_at_covered)
    from find_block_hit [OF tiles_spaced [OF assms] this] \<open>find_block p T = -1\<close> show False by simp
  qed
next
  assume out: "p < a \<or> b \<le> p"
  show "find_block p T = -1"
  proof (rule ccontr)
    assume "find_block p T \<noteq> -1"
    from find_block_found [OF this] have "lines T ! nat (find_block p T) \<in> set (lines T)"
      "covers (lines T ! nat (find_block p T)) p" by auto
    with tiles_mem [OF assms] out show False by (fastforce simp: covers_def)
  qed
qed

lemma find_block_split:
  assumes "tiles a (lines T) b" "a \<le> p" "p < b"
  obtains pre r post where "lines T = pre @ r # post" "find_block p T = int (length pre)" "covers r p"
proof -
  from assms find_block_none [OF assms(1)] have ne: "find_block p T \<noteq> -1" by auto
  note f = find_block_found [OF this]
  then have "nat (find_block p T) < total_lines T" by simp
  then show thesis
    by (rule split_at_index) (rule that, use f in \<open>auto\<close>)
qed

section \<open>Changing the status of a chunk\<close>

text \<open>The status that is stored: a bad-head mark and skip information already there are kept.\<close>

definition kept_status :: "status_word \<Rightarrow> status_word \<Rightarrow> status_word" where
  "kept_status old st =
     (let st1 = (if old AND BAD_HEAD_STATUS = BAD_HEAD_STATUS then st OR BAD_HEAD_STATUS else st)
      in if old AND SKIP_INFO_MASK \<noteq> 0 \<and> st1 AND SKIP_INFO_MASK = 0
         then st1 OR (old AND SKIP_INFO_MASK) else st1)"

definition same_masked :: "status_word \<Rightarrow> row \<Rightarrow> row \<Rightarrow> bool" where
  "same_masked msk q r \<longleftrightarrow> lstatus q AND msk = lstatus r AND msk"

text \<open>
  The marking code is in the source twice, for the log arrays with \<open>insert_line_ccc\<close>
  and \<open>delete_line_ccc\<close> (here) and for the domain arrays with their \<open>_domain_\<close>
  counterparts (\<open>add_to_domain_ccc\<close>); it is written once, over the two operations.
\<close>

type_synonym insert_op = "nat \<Rightarrow> int \<Rightarrow> int \<Rightarrow> status_word \<Rightarrow> table \<Rightarrow> int \<times> table"
type_synonym delete_op = "nat \<Rightarrow> table \<Rightarrow> table"

text \<open>The chunk is the whole block: change the status, then merge with the line below, then above.\<close>

definition join_below :: "delete_op \<Rightarrow> nat \<Rightarrow> int \<Rightarrow> status_word \<Rightarrow> table \<Rightarrow> table" where
  "join_below del b sz msk T =
     (if b < total_lines T - 1 \<and> same_masked msk (lines T ! b) (lines T ! (b + 1))
      then del b (upd_line (b + 1) (\<lambda>r. r\<lparr>lposition := lposition r - sz, lsize := lsize r + sz\<rparr>) T)
      else T)"

definition join_above :: "delete_op \<Rightarrow> nat \<Rightarrow> status_word \<Rightarrow> table \<Rightarrow> table" where
  "join_above del b msk T =
     (if b > 0 \<and> same_masked msk (lines T ! b) (lines T ! (b - 1))
      then del b (upd_line (b - 1) (\<lambda>r. r\<lparr>lsize := lsize r + lsize (lines T ! b)\<rparr>) T)
      else T)"

definition mark_whole :: "delete_op \<Rightarrow> nat \<Rightarrow> int \<Rightarrow> status_word \<Rightarrow> status_word \<Rightarrow> table \<Rightarrow> table" where
  "mark_whole del b sz st msk T =
     join_above del b msk (join_below del b sz msk (upd_line b (\<lambda>r. r\<lparr>lstatus := st\<rparr>) T))"

text \<open>The chunk starts the block: it joins the line above or gets a line of its own.\<close>

definition mark_front ::
  "insert_op \<Rightarrow> nat \<Rightarrow> int \<Rightarrow> int \<Rightarrow> status_word \<Rightarrow> status_word \<Rightarrow> table \<Rightarrow> table" where
  "mark_front ins b pos sz st msk T =
     (if b > 0 \<and> st AND msk = lstatus (lines T ! (b - 1)) AND msk
      then upd_line b (\<lambda>r. r\<lparr>lposition := lposition r + sz, lsize := lsize r - sz\<rparr>)
             (upd_line (b - 1) (\<lambda>r. r\<lparr>lsize := lsize r + sz\<rparr>) T)
      else upd_line b (\<lambda>r. mk_row pos sz st)
             (snd (ins (b + 1) (pos + sz) (lsize (lines T ! b) - sz) (lstatus (lines T ! b)) T)))"

text \<open>The chunk ends the block: it joins the line below or gets a line of its own.\<close>

definition mark_back ::
  "insert_op \<Rightarrow> nat \<Rightarrow> int \<Rightarrow> status_word \<Rightarrow> status_word \<Rightarrow> table \<Rightarrow> table" where
  "mark_back ins b sz st msk T =
     (if b < total_lines T - 1 \<and> st AND msk = lstatus (lines T ! (b + 1)) AND msk
      then upd_line b (\<lambda>r. r\<lparr>lsize := lsize r - sz\<rparr>)
             (upd_line (b + 1) (\<lambda>r. r\<lparr>lposition := lposition r - sz, lsize := lsize r + sz\<rparr>) T)
      else (let r = lines T ! b;
                T1 = snd (ins b (lposition r) (lsize r - sz) (lstatus r) T)
            in upd_line (b + 1)
                 (\<lambda>_. mk_row (lposition (lines T1 ! b) + lsize (lines T1 ! b)) sz st) T1))"

text \<open>The chunk lies inside the block: two lines are inserted around it.\<close>

definition mark_middle ::
  "insert_op \<Rightarrow> nat \<Rightarrow> int \<Rightarrow> int \<Rightarrow> status_word \<Rightarrow> table \<Rightarrow> table" where
  "mark_middle ins b pos sz st T =
     (let block_end = lposition (lines T ! b) + lsize (lines T ! b);
          T1 = snd (ins (b + 1) (pos + sz) (block_end - (pos + sz)) (lstatus (lines T ! b)) T);
          T2 = snd (ins b (lposition (lines T1 ! b)) (pos - lposition (lines T1 ! b))
                 (lstatus (lines T1 ! b)) T1)
      in upd_line (b + 1) (\<lambda>_. mk_row pos sz st) T2)"

definition mark_chunk ::
  "insert_op \<Rightarrow> delete_op \<Rightarrow> nat \<Rightarrow> int \<Rightarrow> int \<Rightarrow> status_word \<Rightarrow> status_word \<Rightarrow> table \<Rightarrow> table" where
  "mark_chunk ins del b pos sz st msk T =
     (let r = lines T ! b in
      if pos = lposition r \<and> sz = lsize r then mark_whole del b sz st msk T
      else if pos = lposition r then mark_front ins b pos sz st msk T
      else if pos + sz = lposition r + lsize r then mark_back ins b sz st msk T
      else mark_middle ins b pos sz st T)"

definition change_chunk_status ::
  "int \<Rightarrow> int \<Rightarrow> status_word \<Rightarrow> status_word \<Rightarrow> 'a maps_scheme \<Rightarrow> int \<times> 'a maps_scheme" where
  "change_chunk_status pos sz st msk s =
     (let T = log_table s; block = find_block pos T in
      if block = -1 then (INTERNAL_ERROR_RETURN_CODE, s)
      else let b = nat block; r = lines T ! b in
      if pos < lposition r \<or> pos + sz > lposition r + lsize r then (INTERNAL_ERROR_RETURN_CODE, s)
      else if lstatus r AND msk = st AND msk then (1, s)
      else (0, s\<lparr>log_table := mark_chunk insert_line delete_line b pos sz (kept_status (lstatus r) st) msk T,
               critical_process := False, logfile_changed := True\<rparr>))"

section \<open>What marking does: the interface of the arrays\<close>

text \<open>
  \<open>table_ok\<close>: memory is available, and the code's idea of the size of the arrays is
  right and leaves the free entry that \<open>delete_line_ccc\<close> reads.
\<close>

definition table_ok :: "table \<Rightarrow> bool" where
  "table_ok T \<longleftrightarrow> (\<forall>a n. realloc_ok T a n) \<and> total_lines T < line_rows T \<and> line_rows T \<le> allocated T"

lemma table_ok_upd_line [simp]: "table_ok (upd_line b f T) = table_ok T"
  by (simp add: table_ok_def upd_line_def)

lemma lines_upd_line [simp]: "lines (upd_line b f T) = upd_row b f (lines T)"
  by (simp add: upd_line_def)

text \<open>The abstract view of a table: the masked status of every sector.\<close>

definition masked_at :: "status_word \<Rightarrow> row list \<Rightarrow> int \<Rightarrow> status_word option" where
  "masked_at msk rs x = map_option (\<lambda>s. s AND msk) (status_at rs x)"

lemma masked_at_Nil [simp]: "masked_at msk [] x = None"
  by (simp add: masked_at_def)

lemma masked_at_Cons [simp]:
  "masked_at msk (r # rs) x = (if covers r x then Some (lstatus r AND msk) else masked_at msk rs x)"
  by (simp add: masked_at_def)

lemma masked_at_append:
  "masked_at msk (xs @ ys) x =
     (case masked_at msk xs x of None \<Rightarrow> masked_at msk ys x | Some s \<Rightarrow> Some s)"
  by (simp add: masked_at_def status_at_append split: option.split)

lemma masked_at_outside: "tiles a rs b \<Longrightarrow> x < a \<or> b \<le> x \<Longrightarrow> masked_at msk rs x = None"
  by (simp add: masked_at_def status_at_outside)

lemma masked_at_full [simp]: "masked_at FULL_MASK rs x = status_at rs x"
  by (cases "status_at rs x") (simp_all add: masked_at_def)

text \<open>\<open>repainted\<close>: the range is still tiled, and exactly the sectors of the chunk have the new status.\<close>

definition repainted ::
  "status_word \<Rightarrow> status_word \<Rightarrow> int \<Rightarrow> int \<Rightarrow> int \<Rightarrow> int \<Rightarrow> row list \<Rightarrow> row list \<Rightarrow> bool" where
  "repainted msk st lo hi a e rs rs' \<longleftrightarrow> tiles a rs' e \<and>
     (\<forall>x. masked_at msk rs' x = (if lo \<le> x \<and> x < hi then Some (st AND msk) else masked_at msk rs x))"

lemma tiles_end_eq: "tiles m rs n \<Longrightarrow> tiles m rs n' \<Longrightarrow> n' = n"
proof (induction rs arbitrary: m)
  case Nil
  then show ?case by simp
next
  case (Cons r rs)
  from Cons.IH [of "m + lsize r"] Cons.prems show ?case by simp
qed

lemma tiles_start_eq: "tiles m mid n \<Longrightarrow> tiles m' mid n' \<Longrightarrow> mid \<noteq> [] \<Longrightarrow> m' = m \<and> n' = n"
  by (metis neq_Nil_conv tiles.simps(2) tiles_end_eq)

lemma tiles_around:
  assumes "tiles a (pre @ mid @ post) e" "tiles m mid n" "mid \<noteq> []"
  shows "tiles a pre m \<and> tiles n post e"
proof -
  from assms(1) obtain m' n' where "tiles a pre m'" "tiles m' mid n'" "tiles n' post e"
    unfolding tiles_append by blast
  with tiles_start_eq [OF assms(2) _ assms(3)] show ?thesis by blast
qed

text \<open>Repainting is local: it is enough to look at the rows that are replaced.\<close>

lemma repaint_segment:
  assumes t: "tiles a (pre @ mid @ post) e" and mid: "tiles m mid n" "mid \<noteq> []"
    and mid': "tiles m mid' n"
    and eq: "\<And>x. m \<le> x \<Longrightarrow> x < n \<Longrightarrow> masked_at msk mid' x =
      (if lo \<le> x \<and> x < hi then Some (st AND msk) else masked_at msk mid x)"
    and rng: "m \<le> lo" "hi \<le> n"
  shows "repainted msk st lo hi a e (pre @ mid @ post) (pre @ mid' @ post)"
proof -
  from tiles_around [OF t mid] have pre: "tiles a pre m" and post: "tiles n post e" by auto
  have "masked_at msk (pre @ mid' @ post) x =
      (if lo \<le> x \<and> x < hi then Some (st AND msk) else masked_at msk (pre @ mid @ post) x)" for x
  proof (cases "m \<le> x \<and> x < n")
    case True
    with masked_at_outside [OF pre] have "masked_at msk pre x = None" by simp
    with True eq [of x] show ?thesis
      using status_at_inside [OF mid'] by (auto simp: masked_at_append split: option.split)
  next
    case False
    then have "masked_at msk mid x = None" "masked_at msk mid' x = None"
      using masked_at_outside [OF mid(1)] masked_at_outside [OF mid'] by auto
    with False rng show ?thesis by (auto simp: masked_at_append split: option.split)
  qed
  moreover from pre mid' post have "tiles a (pre @ mid' @ post) e" by (auto simp: tiles_append)
  ultimately show ?thesis by (simp add: repainted_def)
qed

lemma repainted_then_same:
  "repainted msk st lo hi a e rs rs1 \<Longrightarrow> repainted msk st' m m a e rs1 rs2 \<Longrightarrow>
   repainted msk st lo hi a e rs rs2"
  unfolding repainted_def by (auto simp: not_less)

lemma merge_rows:
  assumes t: "tiles a (pre @ [q, r] @ post) e" and s: "lstatus q AND msk = lstatus r AND msk"
    and c: "lposition c = lposition q" "lsize c = lsize q + lsize r" "lstatus c AND msk = lstatus r AND msk"
  shows "repainted msk st m m a e (pre @ [q, r] @ post) (pre @ [c] @ post)"
proof -
  from t tiles_pair [of a pre q r post e]
  have pos: "lposition r = lposition q + lsize q" "0 < lsize q" "0 < lsize r" by auto
  have "repainted msk st (lposition q) (lposition q) a e (pre @ [q, r] @ post) (pre @ [c] @ post)"
    by (rule repaint_segment [OF t, where m = "lposition q" and n = "lposition r + lsize r"])
       (use pos s c in \<open>auto simp: covers_def\<close>)
  then show ?thesis unfolding repainted_def by (auto simp: not_less)
qed

text \<open>
  The interface of the arrays that the marking code relies on; it is provided by the
  operations on the log arrays and by those on the domain arrays.
\<close>

locale chunk_arrays =
  fixes find :: "int \<Rightarrow> table \<Rightarrow> int"
    and ins :: insert_op
    and del :: delete_op
  assumes find_inside: "tiles a (lines T) e \<Longrightarrow> a \<le> p \<Longrightarrow> p < e \<Longrightarrow>
      \<exists>pre r post. lines T = pre @ r # post \<and> find p T = int (length pre) \<and> covers r p"
    and find_outside: "tiles a (lines T) e \<Longrightarrow> p < a \<or> e \<le> p \<Longrightarrow> find p T = -1"
    and ins_lines: "table_ok T \<Longrightarrow> l \<le> total_lines T \<Longrightarrow>
      fst (ins l p z st T) = 0 \<and> lines (snd (ins l p z st T)) = insert_row l (mk_row p z st) (lines T)"
    and ins_ok: "table_ok T \<Longrightarrow> l \<le> total_lines T \<Longrightarrow> table_ok (snd (ins l p z st T))"
    and del_lines: "l < total_lines T \<Longrightarrow> lines (del l T) = delete_row l (lines T)"
    and del_ok: "table_ok T \<Longrightarrow> table_ok (del l T)"
begin

lemmas array_laws = ins_lines ins_ok del_lines del_ok row_simps

lemma mark_front_repaints:
  assumes ok: "table_ok T" and rs: "lines T = pre @ r # post" and t: "tiles a (lines T) e"
    and sz: "0 < sz" "sz < lsize r" and b: "b = length pre"
  shows "table_ok (mark_front ins b (lposition r) sz st msk T) \<and>
    repainted msk st (lposition r) (lposition r + sz) a e (lines T)
      (lines (mark_front ins b (lposition r) sz st msk T))"
proof (cases "b > 0 \<and> st AND msk = lstatus (lines T ! (b - 1)) AND msk")
  case True
  with b obtain pre' q where pre: "pre = pre' @ [q]" by (cases pre rule: rev_cases) auto
  have b': "b = Suc (length pre')" using b pre by simp
  have old: "lines T = pre' @ [q, r] @ post" by (simp add: rs pre)
  have q: "st AND msk = lstatus q AND msk" using True by (simp add: old b' row_simps)
  let ?q = "q\<lparr>lsize := lsize q + sz\<rparr>" and ?r = "r\<lparr>lposition := lposition r + sz, lsize := lsize r - sz\<rparr>"
  have eq: "mark_front ins b (lposition r) sz st msk T =
      upd_line b (\<lambda>r. r\<lparr>lposition := lposition r + sz, lsize := lsize r - sz\<rparr>)
             (upd_line (b - 1) (\<lambda>r. r\<lparr>lsize := lsize r + sz\<rparr>) T)"
    using True by (simp add: mark_front_def)
  have new: "lines (mark_front ins b (lposition r) sz st msk T) = pre' @ [?q, ?r] @ post"
    unfolding eq by (simp add: old b' row_simps)
  have t': "tiles a (pre' @ [q, r] @ post) e" using t by (simp only: old)
  note pos = tiles_pair [of a pre' q r post e]
  have "repainted msk st (lposition r) (lposition r + sz) a e (pre' @ [q, r] @ post) (pre' @ [?q, ?r] @ post)"
    by (rule repaint_segment [OF t', where m = "lposition q" and n = "lposition r + lsize r"])
       (use pos t' sz q in \<open>auto simp: covers_def\<close>)
  moreover have "table_ok (mark_front ins b (lposition r) sz st msk T)" by (simp add: eq ok)
  ultimately show ?thesis by (simp only: new old)
next
  case False
  let ?mid = "[mk_row (lposition r) sz st, mk_row (lposition r + sz) (lsize r - sz) (lstatus r)]"
  have le: "Suc (length pre) \<le> total_lines T" by (simp add: rs)
  have eq: "mark_front ins b (lposition r) sz st msk T =
      upd_line b (\<lambda>_. mk_row (lposition r) sz st)
        (snd (ins (Suc (length pre)) (lposition r + sz) (lsize r - sz) (lstatus r) T))"
    using False unfolding mark_front_def by (subst if_not_P) (simp_all add: rs b row_simps)
  have new: "lines (mark_front ins b (lposition r) sz st msk T) = pre @ ?mid @ post"
    unfolding eq using ins_lines [OF ok le] by (simp add: rs b row_simps)
  have t': "tiles a (pre @ [r] @ post) e" using t by (simp add: rs)
  have "repainted msk st (lposition r) (lposition r + sz) a e (pre @ [r] @ post) (pre @ ?mid @ post)"
    by (rule repaint_segment [OF t', where m = "lposition r" and n = "lposition r + lsize r"])
       (use sz in \<open>auto simp: covers_def\<close>)
  moreover have "table_ok (mark_front ins b (lposition r) sz st msk T)"
    using ins_ok [OF ok le] by (simp add: eq)
  ultimately show ?thesis by (simp only: new) (simp add: rs)
qed

lemma mark_back_repaints:
  assumes ok: "table_ok T" and rs: "lines T = pre @ r # post" and t: "tiles a (lines T) e"
    and sz: "0 < sz" "sz < lsize r" and b: "b = length pre"
    and pos: "pos = lposition r + lsize r - sz"
  shows "table_ok (mark_back ins b sz st msk T) \<and>
    repainted msk st pos (pos + sz) a e (lines T) (lines (mark_back ins b sz st msk T))"
proof (cases "b < total_lines T - 1 \<and> st AND msk = lstatus (lines T ! (b + 1)) AND msk")
  case True
  with b rs obtain q post' where post: "post = q # post'" by (cases post) auto
  have old: "lines T = pre @ [r, q] @ post'" by (simp add: rs post)
  have q: "st AND msk = lstatus q AND msk" using True by (simp add: old b nth_append)
  let ?q = "q\<lparr>lposition := lposition q - sz, lsize := lsize q + sz\<rparr>" and ?r = "r\<lparr>lsize := lsize r - sz\<rparr>"
  have eq: "mark_back ins b sz st msk T =
      upd_line b (\<lambda>r. r\<lparr>lsize := lsize r - sz\<rparr>)
        (upd_line (Suc b) (\<lambda>r. r\<lparr>lposition := lposition r - sz, lsize := lsize r + sz\<rparr>) T)"
    using True by (simp add: mark_back_def)
  have new: "lines (mark_back ins b sz st msk T) = pre @ [?r, ?q] @ post'"
    unfolding eq by (simp add: old b row_simps)
  have t': "tiles a (pre @ [r, q] @ post') e" using t by (simp only: old)
  note pq = tiles_pair [of a pre r q post' e]
  have "repainted msk st pos (pos + sz) a e (pre @ [r, q] @ post') (pre @ [?r, ?q] @ post')"
    by (rule repaint_segment [OF t', where m = "lposition r" and n = "lposition q + lsize q"])
       (use pq t' sz q pos in \<open>auto simp: covers_def\<close>)
  moreover have "table_ok (mark_back ins b sz st msk T)" by (simp add: eq ok)
  ultimately show ?thesis by (simp only: new old)
next
  case False
  let ?mid = "[mk_row (lposition r) (lsize r - sz) (lstatus r), mk_row pos sz st]"
  have le: "length pre \<le> total_lines T" by (simp add: rs)
  define T1 where "T1 = snd (ins (length pre) (lposition r) (lsize r - sz) (lstatus r) T)"
  have T1: "table_ok T1" "lines T1 = pre @ mk_row (lposition r) (lsize r - sz) (lstatus r) # r # post"
    using ins_lines [OF ok le] ins_ok [OF ok le] by (simp_all add: T1_def rs row_simps)
  have eq: "mark_back ins b sz st msk T = upd_line (Suc (length pre)) (\<lambda>_. mk_row pos sz st) T1"
    using False unfolding mark_back_def
    by (subst if_not_P) (simp_all add: rs b row_simps Let_def pos T1 add_diff_eq flip: T1_def)
  have new: "lines (mark_back ins b sz st msk T) = pre @ ?mid @ post"
    unfolding eq by (simp add: T1 row_simps)
  have t': "tiles a (pre @ [r] @ post) e" using t by (simp add: rs)
  have "repainted msk st pos (pos + sz) a e (pre @ [r] @ post) (pre @ ?mid @ post)"
    by (rule repaint_segment [OF t', where m = "lposition r" and n = "lposition r + lsize r"])
       (use sz pos in \<open>auto simp: covers_def\<close>)
  moreover have "table_ok (mark_back ins b sz st msk T)" by (simp add: eq T1)
  ultimately show ?thesis by (simp only: new) (simp add: rs)
qed

lemma mark_middle_repaints:
  assumes ok: "table_ok T" and rs: "lines T = pre @ r # post" and t: "tiles a (lines T) e"
    and sz: "0 < sz" "lposition r < pos" "pos + sz < lposition r + lsize r" and b: "b = length pre"
  shows "table_ok (mark_middle ins b pos sz st T) \<and>
    repainted msk st pos (pos + sz) a e (lines T) (lines (mark_middle ins b pos sz st T))"
proof -
  let ?mid = "[mk_row (lposition r) (pos - lposition r) (lstatus r), mk_row pos sz st,
      mk_row (pos + sz) (lposition r + lsize r - (pos + sz)) (lstatus r)]"
  have le: "Suc (length pre) \<le> total_lines T" by (simp add: rs)
  define T1 where "T1 = snd (ins (Suc (length pre)) (pos + sz)
      (lposition r + lsize r - (pos + sz)) (lstatus r) T)"
  have T1: "table_ok T1" "lines T1 = pre @ r # mk_row (pos + sz) (lposition r + lsize r - (pos + sz)) (lstatus r) # post"
    using ins_lines [OF ok le] ins_ok [OF ok le] by (simp_all add: T1_def rs row_simps)
  have le1: "length pre \<le> total_lines T1" by (simp add: T1)
  define T2 where "T2 = snd (ins (length pre) (lposition r) (pos - lposition r) (lstatus r) T1)"
  have T2: "table_ok T2" "lines T2 = pre @ mk_row (lposition r) (pos - lposition r) (lstatus r) # r #
      mk_row (pos + sz) (lposition r + lsize r - (pos + sz)) (lstatus r) # post"
    using ins_lines [OF T1(1) le1] ins_ok [OF T1(1) le1] by (simp_all add: T2_def T1 row_simps)
  have eq: "mark_middle ins b pos sz st T = upd_line (Suc (length pre)) (\<lambda>_. mk_row pos sz st) T2"
    by (simp add: mark_middle_def Let_def rs b row_simps T1 flip: T1_def T2_def)
  have new: "lines (mark_middle ins b pos sz st T) = pre @ ?mid @ post"
    unfolding eq by (simp add: T2 row_simps)
  have t': "tiles a (pre @ [r] @ post) e" using t by (simp add: rs)
  have "repainted msk st pos (pos + sz) a e (pre @ [r] @ post) (pre @ ?mid @ post)"
    by (rule repaint_segment [OF t', where m = "lposition r" and n = "lposition r + lsize r"])
       (use sz in \<open>auto simp: covers_def\<close>)
  moreover have "table_ok (mark_middle ins b pos sz st T)" by (simp add: eq T2)
  ultimately show ?thesis by (simp only: new) (simp add: rs)
qed

lemma join_below_same:
  assumes ok: "table_ok T" and rs: "lines T = pre @ r # post" and t: "tiles a (lines T) e"
    and b: "b = length pre"
  shows "table_ok (join_below del b (lsize r) msk T) \<and>
    repainted msk st m m a e (lines T) (lines (join_below del b (lsize r) msk T)) \<and>
    (\<exists>c post2. lines (join_below del b (lsize r) msk T) = pre @ c # post2 \<and>
      lstatus c AND msk = lstatus r AND msk)"
proof (cases "b < total_lines T - 1 \<and> same_masked msk (lines T ! b) (lines T ! (b + 1))")
  case True
  then obtain q post' where post: "post = q # post'" by (cases post) (auto simp: rs b)
  let ?f = "\<lambda>q. q\<lparr>lposition := lposition q - lsize r, lsize := lsize q + lsize r\<rparr>"
  have old: "lines T = pre @ [r, q] @ post'" by (simp add: rs post)
  have q: "lstatus r AND msk = lstatus q AND msk"
    using True by (simp add: old b row_simps same_masked_def)
  have eq: "join_below del b (lsize r) msk T = del b (upd_line (Suc b) ?f T)"
    using True by (simp add: join_below_def)
  have len: "b < total_lines (upd_line (Suc b) ?f T)" by (simp add: rs b)
  have new: "lines (join_below del b (lsize r) msk T) = pre @ [?f q] @ post'"
    unfolding eq del_lines [OF len] by (simp add: old b row_simps)
  have tl: "tiles a (pre @ [r, q] @ post') e" using t by (simp only: old)
  from tiles_pair [of a pre r q post' e] tl have "lposition q = lposition r + lsize r" by simp
  then have "repainted msk st m m a e (pre @ [r, q] @ post') (pre @ [?f q] @ post')"
    by (intro merge_rows [OF tl q]) auto
  then have "repainted msk st m m a e (lines T) (lines (join_below del b (lsize r) msk T))"
    by (simp only: old new)
  moreover have "table_ok (join_below del b (lsize r) msk T)" by (simp add: eq del_ok ok)
  moreover have "\<exists>c post2. lines (join_below del b (lsize r) msk T) = pre @ c # post2 \<and>
      lstatus c AND msk = lstatus r AND msk"
    using q by (intro exI [of _ "?f q"] exI [of _ post']) (simp add: new)
  ultimately show ?thesis by blast
next
  case False
  then have "join_below del b (lsize r) msk T = T" unfolding join_below_def by (rule if_not_P)
  with ok t rs show ?thesis by (auto simp: repainted_def)
qed

lemma join_above_same:
  assumes ok: "table_ok T" and rs: "lines T = pre @ c # post" and t: "tiles a (lines T) e"
    and b: "b = length pre"
  shows "table_ok (join_above del b msk T) \<and>
    repainted msk st m m a e (lines T) (lines (join_above del b msk T))"
proof (cases "b > 0 \<and> same_masked msk (lines T ! b) (lines T ! (b - 1))")
  case True
  then obtain pre' p where pre: "pre = pre' @ [p]" by (cases pre rule: rev_cases) (auto simp: b)
  have b': "b = Suc (length pre')" by (simp add: b pre)
  have old: "lines T = pre' @ [p, c] @ post" by (simp add: rs pre)
  let ?f = "\<lambda>p. p\<lparr>lsize := lsize p + lsize c\<rparr>"
  have cb: "lines T ! b = c" by (simp add: rs b)
  have p: "lstatus p AND msk = lstatus c AND msk"
    using True by (simp add: old b' row_simps same_masked_def)
  have eq: "join_above del b msk T = del b (upd_line (b - 1) ?f T)"
    using True by (simp add: join_above_def cb)
  have len: "b < total_lines (upd_line (b - 1) ?f T)" by (simp add: rs b)
  have new: "lines (join_above del b msk T) = pre' @ [?f p] @ post"
    unfolding eq del_lines [OF len] by (simp add: old b' row_simps)
  have tl: "tiles a (pre' @ [p, c] @ post) e" using t by (simp only: old)
  have "repainted msk st m m a e (pre' @ [p, c] @ post) (pre' @ [?f p] @ post)"
    by (intro merge_rows [OF tl p]) (use p in auto)
  then have "repainted msk st m m a e (lines T) (lines (join_above del b msk T))"
    by (simp only: old new)
  moreover have "table_ok (join_above del b msk T)" by (simp add: eq del_ok ok)
  ultimately show ?thesis by blast
next
  case False
  then have "join_above del b msk T = T" unfolding join_above_def by (rule if_not_P)
  with ok t show ?thesis by (auto simp: repainted_def)
qed

lemma mark_whole_repaints:
  assumes ok: "table_ok T" and rs: "lines T = pre @ r # post" and t: "tiles a (lines T) e"
    and b: "b = length pre"
  shows "table_ok (mark_whole del b (lsize r) st msk T) \<and>
    repainted msk st (lposition r) (lposition r + lsize r) a e (lines T)
      (lines (mark_whole del b (lsize r) st msk T))"
proof -
  let ?r = "r\<lparr>lstatus := st\<rparr>"
  let ?rep = "repainted msk st (lposition r) (lposition r + lsize r) a e (lines T)"
  define T1 where "T1 = upd_line b (\<lambda>r. r\<lparr>lstatus := st\<rparr>) T"
  have T1: "table_ok T1" "lines T1 = pre @ ?r # post"
    using ok by (simp_all add: T1_def rs b row_simps)
  have t': "tiles a (pre @ [r] @ post) e" using t by (simp add: rs)
  have "repainted msk st (lposition r) (lposition r + lsize r) a e (pre @ [r] @ post) (pre @ [?r] @ post)"
    by (rule repaint_segment [OF t', where m = "lposition r" and n = "lposition r + lsize r"])
       (use t' tiles_row [of a pre r post e] in \<open>auto simp: covers_def\<close>)
  then have r1: "?rep (lines T1)" by (simp add: T1 rs)
  then have t1: "tiles a (lines T1) e" by (simp add: repainted_def)
  define T2 where "T2 = join_below del b (lsize r) msk T1"
  from join_below_same [OF T1 t1 b, of msk st 0] obtain c post2 where
    T2: "table_ok T2" "lines T2 = pre @ c # post2" and r2: "repainted msk st 0 0 a e (lines T1) (lines T2)"
    by (auto simp: T2_def)
  then have t2: "tiles a (lines T2) e" by (simp add: repainted_def)
  have eq: "mark_whole del b (lsize r) st msk T = join_above del b msk T2"
    by (simp add: mark_whole_def T2_def T1_def)
  from join_above_same [OF T2 t2 b, of msk st 0] show ?thesis
    unfolding eq using r1 r2 by (blast intro: repainted_then_same)
qed

lemma mark_chunk_repaints:
  assumes ok: "table_ok T" and rs: "lines T = pre @ r # post" and t: "tiles a (lines T) e"
    and b: "b = length pre" and sz: "0 < sz" "lposition r \<le> pos" "pos + sz \<le> lposition r + lsize r"
  shows "table_ok (mark_chunk ins del b pos sz st msk T) \<and>
    repainted msk st pos (pos + sz) a e (lines T) (lines (mark_chunk ins del b pos sz st msk T))"
proof -
  have rb: "lines T ! b = r" by (simp add: rs b)
  consider "pos = lposition r" "sz = lsize r" | "pos = lposition r" "sz < lsize r"
    | "lposition r < pos" "pos + sz = lposition r + lsize r"
    | "lposition r < pos" "pos + sz < lposition r + lsize r"
    using sz by fastforce
  then show ?thesis
  proof cases
    case 1
    with mark_whole_repaints [OF ok rs t b] show ?thesis by (simp add: mark_chunk_def rb)
  next
    case 2
    with mark_front_repaints [OF ok rs t sz(1) _ b] show ?thesis by (simp add: mark_chunk_def rb)
  next
    case 3
    with sz have "sz < lsize r" "pos = lposition r + lsize r - sz" by auto
    from mark_back_repaints [OF ok rs t sz(1) this(1) b this(2)] 3 show ?thesis
      by (simp add: mark_chunk_def rb)
  next
    case 4
    with mark_middle_repaints [OF ok rs t sz(1) _ _ b] show ?thesis by (simp add: mark_chunk_def rb)
  qed
qed

text \<open>What \<open>find\<close> and the marking give together, for a client that marks a chunk within one block.\<close>

lemma find_then_mark:
  assumes ok: "table_ok T" and t: "tiles a (lines T) e" and sz: "0 < sz" "a \<le> pos" "pos < e"
    and fits: "pos + sz \<le> lposition (lines T ! nat (find pos T)) + lsize (lines T ! nat (find pos T))"
  shows "table_ok (mark_chunk ins del (nat (find pos T)) pos sz st msk T) \<and>
    repainted msk st pos (pos + sz) a e (lines T)
      (lines (mark_chunk ins del (nat (find pos T)) pos sz st msk T))"
proof -
  from find_inside [OF t sz(2,3)] obtain pre r post where
    rs: "lines T = pre @ r # post" and f: "find pos T = int (length pre)" and c: "covers r pos" by blast
  have b: "nat (find pos T) = length pre" by (simp add: f)
  show ?thesis
    by (rule mark_chunk_repaints [OF ok rs t b sz(1)]) (use c fits in \<open>auto simp: covers_def b rs\<close>)
qed

end

section \<open>The log arrays provide the interface\<close>

lemma insert_line_ok:
  assumes "table_ok T" "l \<le> total_lines T"
  shows "fst (insert_line l p z st T) = 0 \<and>
    lines (snd (insert_line l p z st T)) = insert_row l (mk_row p z st) (lines T) \<and>
    table_ok (snd (insert_line l p z st T))"
  using assms by (auto simp: insert_line_def increase_log_memory_def table_ok_def Let_def)

lemma delete_line_ok: "table_ok T \<Longrightarrow> table_ok (delete_line l T)"
  by (auto simp: delete_line_def table_ok_def)

interpretation log_arrays: chunk_arrays find_block insert_line delete_line
proof unfold_locales
  fix a e p and T :: table
  assume t: "tiles a (lines T) e" and p: "a \<le> p" "p < e"
  show "\<exists>pre r post. lines T = pre @ r # post \<and> find_block p T = int (length pre) \<and> covers r p"
    by (rule find_block_split [OF t p]) blast
next
  fix a e p and T :: table
  assume "tiles a (lines T) e" "p < a \<or> e \<le> p"
  then show "find_block p T = -1" using find_block_none by blast
qed (simp_all add: insert_line_ok delete_line_ok, simp add: delete_line_def)

section \<open>Properties of \<open>change_chunk_status_ccc\<close>\<close>

lemma change_chunk_status_cases:
  assumes "change_chunk_status pos sz st msk s = (ret, s')"
  shows "ret = INTERNAL_ERROR_RETURN_CODE \<and> s' = s \<or> ret = 1 \<and> s' = s \<or>
    ret = 0 \<and> find_block pos (log_table s) \<noteq> -1 \<and>
    (let b = nat (find_block pos (log_table s)); r = lines (log_table s) ! b in
      lposition r \<le> pos \<and> pos + sz \<le> lposition r + lsize r \<and> covers r pos \<and>
      s' = s\<lparr>log_table := mark_chunk insert_line delete_line b pos sz (kept_status (lstatus r) st) msk (log_table s),
             critical_process := False, logfile_changed := True\<rparr>)"
  using assms find_block_found [of pos "log_table s"]
  by (auto simp: change_chunk_status_def Let_def split: if_splits)

lemma change_chunk_status_refines_rule:
  assumes "table_ok (log_table s)" "tiles a (lines (log_table s)) e" "0 < sz"
    and "change_chunk_status pos sz st msk s = (0, s')"
    and "status_at (lines (log_table s)) pos = Some old"
  shows "tiles a (lines (log_table s')) e \<and> table_ok (log_table s') \<and>
    (\<forall>x. masked_at msk (lines (log_table s')) x =
      (if pos \<le> x \<and> x < pos + sz then Some (kept_status old st AND msk)
       else masked_at msk (lines (log_table s)) x))"
proof -
  let ?T = "log_table s" and ?b = "nat (find_block pos (log_table s))"
  let ?r = "lines ?T ! ?b"
  have rng: "a \<le> pos" "pos < e"
    using assms(2,5) status_at_outside [of a "lines ?T" e pos] by force+
  from change_chunk_status_cases [OF assms(4)] have
    fits: "pos + sz \<le> lposition ?r + lsize ?r" and cov: "covers ?r pos" and
    s': "log_table s' = mark_chunk insert_line delete_line ?b pos sz (kept_status (lstatus ?r) st) msk ?T"
    by (auto simp: Let_def INTERNAL_ERROR_RETURN_CODE_def)
  from find_block_split [OF assms(2) rng] obtain pre r post where
    sp: "lines ?T = pre @ r # post" "find_block pos ?T = int (length pre)" "covers r pos" by blast
  then have "old = lstatus ?r" using assms(2,5) status_at_mid [of a pre r post e pos] by simp
  then show ?thesis
    using log_arrays.find_then_mark [OF assms(1-3) rng fits, of "kept_status (lstatus ?r) st" msk] s'
    by (simp add: repainted_def)
qed

text \<open>
  C18: recording the outcome of a chunk refines the update of the sector-to-status map.  If
  \<open>change_chunk_status_ccc\<close> returns 0 on a log that tiles the range from \<open>a\<close> to \<open>e\<close>, the new log
  tiles the same range, the sectors of the chunk have the new status (bad-head mark and skip
  information of the old one kept), and every other sector has the status it had, all under
  the mask by which the code compares.
\<close>

theorem change_chunk_status_refines:
  assumes "table_ok (log_table s)" "tiles a (lines (log_table s)) e" "0 < sz"
    and "change_chunk_status pos sz st msk s = (0, s')"
    and "status_at (lines (log_table s)) pos = Some old"
  shows "tiles a (lines (log_table s')) e \<and> table_ok (log_table s') \<and>
    (\<forall>x. masked_at msk (lines (log_table s')) x =
      (if pos \<le> x \<and> x < pos + sz then Some (kept_status old st AND msk)
       else masked_at msk (lines (log_table s)) x))"
  using assms by (rule change_chunk_status_refines_rule)

lemma change_chunk_status_outcomes_rule:
  assumes "tiles a (lines (log_table s)) e"
    and "change_chunk_status pos sz st msk s = (ret, s')"
  shows "(ret = INTERNAL_ERROR_RETURN_CODE \<longleftrightarrow>
        \<not> (\<exists>r \<in> set (lines (log_table s)). covers r pos \<and> pos + sz \<le> lposition r + lsize r)) \<and>
    (ret = 1 \<longleftrightarrow> (\<exists>r \<in> set (lines (log_table s)).
        covers r pos \<and> pos + sz \<le> lposition r + lsize r \<and> lstatus r AND msk = st AND msk)) \<and>
    (ret \<noteq> 0 \<longrightarrow> s' = s)"
proof (cases "a \<le> pos \<and> pos < e")
  case True
  then obtain pre r post where sp: "lines (log_table s) = pre @ r # post"
    "find_block pos (log_table s) = int (length pre)" "covers r pos"
    using find_block_split [OF assms(1)] by metis
  have r: "r \<in> set (lines (log_table s))" by (simp add: sp)
  have uniq: "q = r" if "q \<in> set (lines (log_table s))" "covers q pos" for q
    using spaced_covers_unique [OF tiles_spaced [OF assms(1)]] that r sp(3) by blast
  have eq: "change_chunk_status pos sz st msk s =
      (if pos < lposition r \<or> pos + sz > lposition r + lsize r then (INTERNAL_ERROR_RETURN_CODE, s)
       else if lstatus r AND msk = st AND msk then (1, s)
       else (0, s\<lparr>log_table := mark_chunk insert_line delete_line (length pre) pos sz
               (kept_status (lstatus r) st) msk (log_table s),
               critical_process := False, logfile_changed := True\<rparr>))"
    by (simp add: change_chunk_status_def Let_def sp)
  have inside: "(\<exists>q \<in> set (lines (log_table s)). covers q pos \<and> pos + sz \<le> lposition q + lsize q) \<longleftrightarrow>
      pos + sz \<le> lposition r + lsize r"
    using r sp(3) uniq by blast
  have same: "(\<exists>q \<in> set (lines (log_table s)). covers q pos \<and> pos + sz \<le> lposition q + lsize q \<and>
        lstatus q AND msk = st AND msk) \<longleftrightarrow>
      pos + sz \<le> lposition r + lsize r \<and> lstatus r AND msk = st AND msk"
    using r sp(3) uniq by blast
  have "lposition r \<le> pos" using sp(3) by (simp add: covers_def)
  then consider (out) "pos + sz > lposition r + lsize r" "ret = INTERNAL_ERROR_RETURN_CODE" "s' = s"
    | (same) "pos + sz \<le> lposition r + lsize r" "lstatus r AND msk = st AND msk" "ret = 1" "s' = s"
    | (new) "pos + sz \<le> lposition r + lsize r" "lstatus r AND msk \<noteq> st AND msk" "ret = 0"
    using assms(2) unfolding eq by (simp split: if_splits)
  then show ?thesis
    unfolding inside same by cases (simp_all add: INTERNAL_ERROR_RETURN_CODE_def)
next
  case False
  then have "find_block pos (log_table s) = -1" using find_block_none [OF assms(1), of pos] by auto
  then have "change_chunk_status pos sz st msk s = (INTERNAL_ERROR_RETURN_CODE, s)"
    by (simp add: change_chunk_status_def)
  moreover have "\<not> covers r pos" if "r \<in> set (lines (log_table s))" for r
    using tiles_mem [OF assms(1) that] False by (auto simp: covers_def)
  ultimately show ?thesis using assms(2) by (auto simp: INTERNAL_ERROR_RETURN_CODE_def)
qed


text \<open>A small log used by the witnesses: 100 sectors, the first 40 read, the rest not tried.\<close>

definition demo_table :: "row list \<Rightarrow> table" where
  "demo_table rs = \<lparr>lines = rs, line_rows = 1000, allocated = 1000, realloc_ok = (\<lambda>_ _. True)\<rparr>"

definition demo_rows :: "row list" where
  "demo_rows = [mk_row 0 40 FINISHED, mk_row 40 60 NONTRIED]"

definition demo_maps :: "row list \<Rightarrow> row list \<Rightarrow> maps" where
  "demo_maps rs ds = \<lparr>log_table = demo_table rs, domain_table = demo_table ds,
     critical_process = False, logfile_changed = False, domainfile_changed = False\<rparr>"

lemma demo_sel [simp]:
  "lines (demo_table rs) = rs" "log_table (demo_maps rs ds) = demo_table rs"
  "domain_table (demo_maps rs ds) = demo_table ds"
  by (simp_all add: demo_table_def demo_maps_def)

lemma demo_table_ok: "length rs < 1000 \<Longrightarrow> table_ok (demo_table rs)"
  by (simp add: table_ok_def demo_table_def)

lemma change_chunk_status_refines_witness:
  "fst (change_chunk_status 50 8 NONTRIMMED FULL_MASK (demo_maps demo_rows [])) = 0 \<and>
   tiles 0 (lines (log_table (snd (change_chunk_status 50 8 NONTRIMMED FULL_MASK (demo_maps demo_rows []))))) 100"
proof -
  let ?s = "demo_maps demo_rows []"
  have t: "tiles 0 (lines (log_table ?s)) 100" by (simp add: demo_rows_def)
  have st: "status_at (lines (log_table ?s)) 50 = Some 0"
    by (simp add: demo_rows_def covers_def NONTRIED_def)
  have ok: "table_ok (log_table ?s)" by (simp add: demo_table_ok demo_rows_def)
  have r: "fst (change_chunk_status 50 8 NONTRIMMED FULL_MASK ?s) = 0"
    by (simp add: change_chunk_status_def find_block_def find_loop.simps demo_rows_def
        status_consts Let_def)
  from change_chunk_status_refines [OF ok t, of 8 50 NONTRIMMED FULL_MASK _ 0] r st
  show ?thesis by (metis prod.collapse zero_less_numeral)
qed


text \<open>
  A chunk of size 0 (the code passes \<open>rsize - block_size_ccc\<close>) at the start of a block that
  has another status is recorded as a line of size 0, unless the line above can absorb it: the
  log no longer tiles its range.
\<close>

theorem change_chunk_status_zero_size:
  assumes "table_ok (log_table s)" "lines (log_table s) = pre @ r # post" "tiles a (lines (log_table s)) e"
    and "lstatus r AND msk \<noteq> st AND msk"
    and "pre = [] \<or> kept_status (lstatus r) st AND msk \<noteq> lstatus (last pre) AND msk"
  shows "\<exists>s'. change_chunk_status (lposition r) 0 st msk s = (0, s') \<and>
    lines (log_table s') = pre @ mk_row (lposition r) 0 (kept_status (lstatus r) st) #
      mk_row (lposition r) (lsize r) (lstatus r) # post \<and> \<not> tiles a (lines (log_table s')) e"
proof -
  let ?T = "log_table s" and ?st = "kept_status (lstatus r) st"
  have sz: "0 < lsize r" using assms(2,3) tiles_row by simp
  have b: "find_block (lposition r) ?T = int (length pre)"
    using find_block_hit [OF tiles_spaced [OF assms(3)], of "length pre"] sz by (simp add: assms(2) covers_def)
  have above: "\<not> (length pre > 0 \<and> ?st AND msk = lstatus (lines ?T ! (length pre - 1)) AND msk)"
    using assms(5) by (cases pre rule: rev_cases) (auto simp: assms(2) nth_append)
  have le: "Suc (length pre) \<le> total_lines ?T" by (simp add: assms(2))
  have "lines (mark_front insert_line (length pre) (lposition r) 0 ?st msk ?T) =
      pre @ mk_row (lposition r) 0 ?st # mk_row (lposition r) (lsize r) (lstatus r) # post"
    unfolding mark_front_def if_not_P [OF above]
    using insert_line_ok [OF assms(1) le] by (simp add: assms(2) row_simps)
  moreover have "\<not> tiles a (pre @ mk_row (lposition r) 0 ?st # mk_row (lposition r) (lsize r) (lstatus r) # post) e"
    by (auto simp: tiles_append)
  ultimately show ?thesis
    using assms(4) sz b by (simp add: change_chunk_status_def Let_def mark_chunk_def assms(2))
qed

lemma change_chunk_status_zero_size_witness:
  "\<exists>s'. change_chunk_status 40 0 NONTRIMMED FULL_MASK (demo_maps demo_rows []) = (0, s') \<and>
    \<not> tiles 0 (lines (log_table s')) 100"
proof -
  let ?s = "demo_maps demo_rows []"
  have "table_ok (log_table ?s)" "tiles 0 (lines (log_table ?s)) 100"
    "lines (log_table ?s) = [mk_row 0 40 FINISHED] @ mk_row 40 60 NONTRIED # []"
    by (simp_all add: demo_rows_def demo_table_ok)
  from change_chunk_status_zero_size [OF this(1,3,2), of FULL_MASK NONTRIMMED] show ?thesis
    by (simp add: kept_status_def status_consts Let_def) blast
qed

text \<open>
  C32: memory safety of insertion.  As long as \<open>realloc\<close> succeeds, a line is inserted inside the
  arrays, and one free entry is left.
\<close>

theorem insert_line_in_bounds:
  assumes "table_ok T" "l \<le> total_lines T"
  shows "\<exists>T'. insert_line l p z st T = (0, T') \<and> total_lines T' = Suc (total_lines T) \<and>
    total_lines T' < allocated T' \<and> table_ok T' \<and> lines T' ! l = mk_row p z st"
proof -
  from insert_line_ok [OF assms, of p z st] assms(2)
  have "fst (insert_line l p z st T) = 0" "table_ok (snd (insert_line l p z st T))"
    "total_lines (snd (insert_line l p z st T)) = Suc (total_lines T)"
    "lines (snd (insert_line l p z st T)) ! l = mk_row p z st"
    by (auto simp: insert_row_def nth_append)
  then show ?thesis by (cases "insert_line l p z st T") (auto simp: table_ok_def)
qed

lemma insert_line_in_bounds_witness:
  "\<exists>T'. insert_line 1 40 10 BAD (demo_table demo_rows) = (0, T') \<and> total_lines T' < allocated T'"
  using insert_line_in_bounds [of "demo_table demo_rows" 1 40 10 BAD]
  by (auto simp: demo_table_ok demo_rows_def)

text \<open>
  When \<open>realloc\<close> fails, \<open>increase_log_memory_ccc\<close> has already raised \<open>log_rows_ccc\<close>; the first
  insertion is refused, the next two are accepted, and the second of them is written past the
  end of the arrays.
\<close>

theorem insert_line_after_failed_growth:
  assumes "line_rows T = allocated T" "Suc (total_lines T) = line_rows T" "l \<le> total_lines T"
    and "\<not> realloc_ok T PositionArray (line_rows T + 1000)"
  shows "let (r1, T1) = insert_line l p z st T; (r2, T2) = insert_line l p z st T1;
      (r3, T3) = insert_line l p z st T2 in
    r1 = GENERAL_ERROR_RETURN_CODE \<and> lines T1 = lines T \<and> r2 = 0 \<and> r3 = 0 \<and>
    total_lines T3 = Suc (allocated T3)"
  using assms by (simp add: insert_line_def increase_log_memory_def Let_def GENERAL_ERROR_RETURN_CODE_def)

lemma insert_line_after_failed_growth_witness:
  "let T = \<lparr>lines = [mk_row 0 9 0], line_rows = 2, allocated = 2, realloc_ok = (\<lambda>_ _. False)\<rparr>;
      T2 = snd (insert_line 1 5 1 BAD (snd (insert_line 1 5 1 BAD T)));
      T3 = snd (insert_line 1 5 1 BAD T2) in total_lines T3 = Suc (allocated T3)"
  using insert_line_after_failed_growth
    [of "\<lparr>lines = [mk_row 0 9 0], line_rows = 2, allocated = 2, realloc_ok = (\<lambda>_ _. False)\<rparr>" 1 5 1 BAD]
  by (simp add: Let_def split_beta)

end
