(* ===== verification/Log_Check.thy ===== *)
theory Log_Check
  imports Log_Map
begin

text \<open>
  Checking, repairing and resetting the progress log (\<open>check_log_ccc\<close>,
  \<open>check_and_repair_log_ccc\<close>, \<open>reset_log_status_ccc\<close>, \<open>complete_log_reset_ccc\<close>,
  \<open>initialize_new_log_ccc\<close>).  Messages are not modelled; writing the backup log is
  file output, its return code is a parameter.
\<close>

section \<open>State\<close>

record log_env = maps +
  source_total_size :: int
  current_position :: int
  current_status :: status_word
  importdd :: bool
  repair_log :: bool
  check_log_size :: bool
  no_log_backup :: bool
  total_skip_count :: int
  total_skip_resets :: int
  total_skip_runs :: int
  total_slow_skips :: int

definition initialize_new_log :: "'a log_env_scheme \<Rightarrow> 'a log_env_scheme" where
  "initialize_new_log s =
     s\<lparr>current_position := 0, current_status := NONTRIED,
       log_table := (log_table s)\<lparr>lines := [mk_row 0 (source_total_size s) NONTRIED]\<rparr>\<rparr>"

definition complete_log_reset :: "'a log_env_scheme \<Rightarrow> int \<times> 'a log_env_scheme" where
  "complete_log_reset s =
     (0, s\<lparr>current_position := 0, current_status := NONTRIED,
       log_table := (log_table s)\<lparr>lines := [mk_row 0 (source_total_size s) NONTRIED]\<rparr>\<rparr>)"

section \<open>Checking\<close>

definition flag :: "bool \<Rightarrow> int \<Rightarrow> int" where
  "flag c b = (if c then b else 0)"

fun check_lines :: "row list \<Rightarrow> int \<Rightarrow> int" where
  "check_lines (r # q # rs) fail =
     check_lines (q # rs) (fail
       OR flag (lposition r + lsize r > lposition q) 2
       OR flag (lsize r = 0) 4
       OR flag (lposition r + lsize r < lposition q) 8
       OR flag (lstatus r = lstatus q) 0x10)"
| "check_lines [r] fail = fail"
| "check_lines [] fail = fail"

text \<open>The log has at least one line whenever the code checks it.\<close>

definition check_log :: "'a log_env_scheme \<Rightarrow> int" where
  "check_log s =
     (let rs = lines (log_table s); full = (\<not> importdd s \<or> repair_log s);
          fail = check_lines rs (flag (full \<and> lposition (rs ! 0) \<noteq> 0) 1);
          lst = rs ! (length rs - 1)
      in fail OR flag (full \<and> check_log_size s \<and> lposition lst + lsize lst \<noteq> source_total_size s) 0x20)"

section \<open>The loops of the repair\<close>

fun fix_overlaps :: "row list \<Rightarrow> row list" where
  "fix_overlaps (r # q # rs) =
     (let block_end = lposition r + lsize r; d = block_end - lposition q in
      if block_end > lposition q
      then r\<lparr>lsize := (if lsize r \<ge> d then lsize r - d else 0)\<rparr> #
           fix_overlaps ((if d \<le> lsize q then q\<lparr>lposition := lposition q + d\<rparr> else q) # rs)
      else r # fix_overlaps (q # rs))"
| "fix_overlaps [r] = [r]"
| "fix_overlaps [] = []"

text \<open>\<open>i--\<close> is skipped at index 0, so the line that moves into index 0 is not looked at again.\<close>

function delete_zero :: "nat \<Rightarrow> row list \<Rightarrow> row list" where
  "delete_zero i rs =
     (if i < length rs then
        if lsize (rs ! i) = 0 then delete_zero (if i > 0 then i else 1) (delete_row i rs)
        else delete_zero (i + 1) rs
      else rs)"
  by pat_completeness auto
termination
  by (relation "measure (\<lambda>(i, rs). length rs - i)") (auto split: if_splits)

definition absorb_next :: "nat \<Rightarrow> row list \<Rightarrow> row list" where
  "absorb_next i rs =
     delete_row (i + 1) (upd_row i (\<lambda>r. r\<lparr>lsize := lsize r + lsize (rs ! (i + 1))\<rparr>) rs)"

lemma length_absorb_next [simp]: "length (absorb_next i rs) = length rs - 1"
  by (simp add: absorb_next_def)

function merge_same :: "nat \<Rightarrow> row list \<Rightarrow> row list" where
  "merge_same i rs =
     (if i + 1 < length rs then
        if lstatus (rs ! i) = lstatus (rs ! (i + 1))
        then merge_same (if i > 0 then i else 1) (absorb_next i rs)
        else merge_same (i + 1) rs
      else rs)"
  by pat_completeness auto
termination
  by (relation "measure (\<lambda>(i, rs). length rs - i)") (auto split: if_splits)

declare delete_zero.simps [simp del] merge_same.simps [simp del]

text \<open>
  The gap loop inserts lines while it walks, so the count it runs to grows; the fuel bounds
  the number of iterations (\<open>fill_gaps_loop_eq\<close>: twice the number of lines is enough).
\<close>

fun fill_gaps_loop :: "nat \<Rightarrow> nat \<Rightarrow> table \<Rightarrow> table" where
  "fill_gaps_loop 0 i T = T"
| "fill_gaps_loop (Suc n) i T =
     (if i + 1 < total_lines T then
        let r = lines T ! i; q = lines T ! (i + 1); block_end = lposition r + lsize r in
        fill_gaps_loop n (i + 1)
          (if block_end < lposition q
           then snd (insert_line (i + 1) block_end (lposition q - block_end) NONTRIED T) else T)
      else T)"

section \<open>Repair and reset\<close>

text \<open>
  The two ends.  \<open>stale\<close> is what the arrays hold in the entry after the last line: with one
  line, \<open>lposition_ccc[1]\<close> is read there.  \<open>None\<close> is the write to index -1 that happens
  when no block holds the sector after the last one of the drive.
\<close>

definition row_at :: "row \<Rightarrow> row list \<Rightarrow> nat \<Rightarrow> row" where
  "row_at stale rs i = (if i < length rs then rs ! i else stale)"

definition repair_first :: "row \<Rightarrow> table \<Rightarrow> table" where
  "repair_first stale T =
     (if lposition (row_at stale (lines T) 0) \<noteq> 0
      then snd (insert_line 0 0 (lposition (row_at stale (lines T) 1)) NONTRIED T) else T)"

definition repair_last :: "int \<Rightarrow> table \<Rightarrow> table option" where
  "repair_last tsize T =
     (let lst = lines T ! (total_lines T - 1); block_end = lposition lst + lsize lst in
      if block_end \<noteq> tsize then
        if block_end < tsize
        then Some (snd (insert_line (total_lines T) block_end (tsize - block_end) NONTRIED T))
        else (let ret = find_block tsize T in
              if ret = -1 then None
              else Some (T\<lparr>lines := take (nat ret + 1)
                (upd_row (nat ret) (\<lambda>r. r\<lparr>lsize := tsize - lposition r\<rparr>) (lines T))\<rparr>))
      else Some T)"

definition repair_lines :: "table \<Rightarrow> table" where
  "repair_lines T =
     (let T1 = T\<lparr>lines := delete_zero 0 (fix_overlaps (lines T))\<rparr>;
          T2 = fill_gaps_loop (2 * total_lines T1) 0 T1
      in T2\<lparr>lines := merge_same 0 (lines T2)\<rparr>)"

definition check_and_repair_log ::
  "int \<Rightarrow> row \<Rightarrow> 'a log_env_scheme \<Rightarrow> (int \<times> 'a log_env_scheme) option" where
  "check_and_repair_log backup_ret stale s =
     (if repair_log s \<and> \<not> no_log_backup s \<and> backup_ret \<noteq> 0
      then Some (LOGFILE_ERROR_RETURN_CODE, s)
      else case (if repair_log s \<and> check_log_size s
                 then repair_last (source_total_size s) (repair_first stale (log_table s))
                 else Some (log_table s)) of
        None \<Rightarrow> None
      | Some T \<Rightarrow> Some (0, s\<lparr>log_table := repair_lines T\<rparr>))"

definition reset_row :: "row \<Rightarrow> row" where
  "reset_row r =
     (let st = lstatus r AND (STATUS_MASK AND BAD_HEAD_MASK)
      in r\<lparr>lstatus := (if st \<noteq> FINISHED then NONTRIED else st)\<rparr>)"

definition reset_log_status :: "'a log_env_scheme \<Rightarrow> int \<times> 'a log_env_scheme" where
  "reset_log_status s =
     (0, s\<lparr>current_position := 0, current_status := NONTRIED,
       log_table := (log_table s)\<lparr>lines := merge_same 0 (map reset_row (lines (log_table s)))\<rparr>,
       total_skip_count := 0, total_skip_resets := 0, total_skip_runs := 0, total_slow_skips := 0\<rparr>)"

section \<open>Merging lines of the same status\<close>

text \<open>\<open>same_map\<close>: the second table tiles the same range and gives every sector the same status.\<close>

definition same_map :: "int \<Rightarrow> int \<Rightarrow> row list \<Rightarrow> row list \<Rightarrow> bool" where
  "same_map a e rs rs' \<longleftrightarrow> tiles a rs' e \<and> (\<forall>x. status_at rs' x = status_at rs x)"

definition changes_between :: "nat \<Rightarrow> nat \<Rightarrow> row list \<Rightarrow> bool" where
  "changes_between lo hi rs \<longleftrightarrow>
     (\<forall>j. lo \<le> j \<longrightarrow> j < hi \<longrightarrow> j + 1 < length rs \<longrightarrow> lstatus (rs ! j) \<noteq> lstatus (rs ! (j + 1)))"

definition status_changes :: "row list \<Rightarrow> bool" where
  "status_changes rs \<longleftrightarrow> changes_between 0 (length rs) rs"

lemma split_at_pair:
  assumes "i + 1 < length rs"
  obtains pre r q post where "rs = pre @ r # q # post" "length pre = i"
proof -
  have "i < length rs" using assms by simp
  then obtain pre r post where 1: "rs = pre @ r # post" "length pre = i" by (rule split_at_index)
  with assms obtain q post' where "post = q # post'" by (cases post) auto
  with 1 that show thesis by simp
qed

lemma absorb_next_split:
  "length pre = i \<Longrightarrow> absorb_next i (pre @ r # q # post) = pre @ r\<lparr>lsize := lsize r + lsize q\<rparr> # post"
  by (auto simp: absorb_next_def nth_append row_simps)

lemma absorb_next_status:
  assumes "i + 1 < length rs" "j \<le> i"
  shows "lstatus (absorb_next i rs ! j) = lstatus (rs ! j)"
proof -
  obtain pre r q post where rs: "rs = pre @ r # q # post" "length pre = i"
    using assms(1) by (rule split_at_pair)
  show ?thesis
    using assms(2) unfolding rs(1) absorb_next_split [OF rs(2)]
    by (auto simp: nth_append nth_Cons' rs(2))
qed

lemma merge_same_step:
  "i + 1 < length rs \<Longrightarrow> lstatus (rs ! i) = lstatus (rs ! (i + 1)) \<Longrightarrow>
   merge_same i rs = merge_same (if i > 0 then i else 1) (absorb_next i rs)"
  by (subst merge_same.simps) simp

lemma merge_same_skip:
  "i + 1 < length rs \<Longrightarrow> lstatus (rs ! i) \<noteq> lstatus (rs ! (i + 1)) \<Longrightarrow>
   merge_same i rs = merge_same (i + 1) rs"
  by (subst merge_same.simps) simp

lemma merge_same_done: "\<not> i + 1 < length rs \<Longrightarrow> merge_same i rs = rs"
  by (subst merge_same.simps) simp

lemma absorb_next_same_map:
  assumes "tiles a rs e" "i + 1 < length rs" "lstatus (rs ! i) = lstatus (rs ! (i + 1))"
  shows "same_map a e rs (absorb_next i rs)"
proof -
  obtain pre r q post where rs: "rs = pre @ r # q # post" and i: "length pre = i"
    using assms(2) by (rule split_at_pair)
  then have "lstatus r = lstatus q" using assms(3) by (auto simp: nth_append)
  with assms(1) rs have "repainted FULL_MASK 0 0 0 a e (pre @ [r, q] @ post)
      (pre @ [r\<lparr>lsize := lsize r + lsize q\<rparr>] @ post)"
    by (intro merge_rows) auto
  then show ?thesis
    unfolding rs absorb_next_split [OF i] by (auto simp: repainted_def same_map_def)
qed

lemma merge_same_keeps: "tiles a rs e \<Longrightarrow> same_map a e rs (merge_same i rs)"
proof (induction i rs rule: merge_same.induct)
  case (1 i rs)
  show ?case
  proof (cases "i + 1 < length rs")
    case more: True
    show ?thesis
    proof (cases "lstatus (rs ! i) = lstatus (rs ! (i + 1))")
      case True
      note sm = absorb_next_same_map [OF "1.prems" more True]
      then have "tiles a (absorb_next i rs) e" by (simp add: same_map_def)
      from "1.IH"(1) [OF more True this] sm show ?thesis
        by (simp add: merge_same_step [OF more True] same_map_def)
    next
      case False
      from "1.IH"(2) [OF more False "1.prems"] show ?thesis
        by (simp add: merge_same_skip [OF more False])
    qed
  next
    case False
    with "1.prems" show ?thesis by (simp add: merge_same_done same_map_def)
  qed
qed

lemma absorb_next_changes:
  assumes "changes_between lo i rs" "i + 1 < length rs"
  shows "changes_between lo i (absorb_next i rs)"
  unfolding changes_between_def
proof (intro allI impI)
  fix j
  assume j: "lo \<le> j" "j < i" "j + 1 < length (absorb_next i rs)"
  with assms have "lstatus (rs ! j) \<noteq> lstatus (rs ! (j + 1))" by (simp add: changes_between_def)
  moreover have "lstatus (absorb_next i rs ! j) = lstatus (rs ! j)"
    "lstatus (absorb_next i rs ! (j + 1)) = lstatus (rs ! (j + 1))"
    using j by (auto intro: absorb_next_status [OF assms(2)])
  ultimately show "lstatus (absorb_next i rs ! j) \<noteq> lstatus (absorb_next i rs ! (j + 1))" by simp
qed

lemma merge_same_changes_from:
  "changes_between lo i rs \<Longrightarrow> 0 < i \<Longrightarrow>
   changes_between lo (length (merge_same i rs)) (merge_same i rs)"
proof (induction i rs rule: merge_same.induct)
  case (1 i rs)
  show ?case
  proof (cases "i + 1 < length rs")
    case more: True
    show ?thesis
    proof (cases "lstatus (rs ! i) = lstatus (rs ! (i + 1))")
      case True
      from "1.IH"(1) [OF more True] absorb_next_changes [OF "1.prems"(1) more] "1.prems"(2)
      show ?thesis by (simp add: merge_same_step [OF more True])
    next
      case False
      then have "changes_between lo (i + 1) rs"
        using "1.prems"(1) by (auto simp: changes_between_def less_Suc_eq)
      from "1.IH"(2) [OF more False this] show ?thesis by (simp add: merge_same_skip [OF more False])
    qed
  next
    case False
    with "1.prems"(1) show ?thesis by (auto simp: merge_same_done changes_between_def)
  qed
qed

lemma merge_same_status_changes:
  assumes "length rs < 2 \<or> lstatus (rs ! 0) \<noteq> lstatus (rs ! 1)"
  shows "status_changes (merge_same 0 rs)"
proof (cases "length rs < 2")
  case True
  then have "merge_same 0 rs = rs" by (simp add: merge_same_done)
  with True show ?thesis by (simp add: status_changes_def changes_between_def)
next
  case False
  with assms have "merge_same 0 rs = merge_same 1 rs" by (simp add: merge_same_skip)
  moreover have "changes_between 0 1 rs" using assms False by (auto simp: changes_between_def)
  ultimately show ?thesis using merge_same_changes_from [of 0 1 rs] by (simp add: status_changes_def)
qed

lemma merge_same_changes_tail: "changes_between 1 (length (merge_same 0 rs)) (merge_same 0 rs)"
proof (cases "length rs < 2 \<or> lstatus (rs ! 0) \<noteq> lstatus (rs ! 1)")
  case True
  from merge_same_status_changes [OF this] show ?thesis by (simp add: status_changes_def changes_between_def)
next
  case False
  then have "merge_same 0 rs = merge_same 1 (absorb_next 0 rs)" by (simp add: merge_same_step)
  moreover have "changes_between 1 1 (absorb_next 0 rs)" by (simp add: changes_between_def)
  ultimately show ?thesis using merge_same_changes_from [of 1 1 "absorb_next 0 rs"] by simp
qed

lemma merge_same_id: "status_changes rs \<Longrightarrow> merge_same i rs = rs"
proof (induction i rs rule: merge_same.induct)
  case (1 i rs)
  show ?case
  proof (cases "i + 1 < length rs")
    case True
    with "1.prems" have "lstatus (rs ! i) \<noteq> lstatus (rs ! (i + 1))"
      by (simp add: status_changes_def changes_between_def)
    from "1.IH"(2) [OF True this "1.prems"] merge_same_skip [OF True this] show ?thesis by simp
  qed (simp add: merge_same_done)
qed

section \<open>The other loops on rows in order\<close>

lemma fix_overlaps_spaced: "spaced a rs \<Longrightarrow> fix_overlaps rs = rs"
  by (induction rs arbitrary: a rule: fix_overlaps.induct) (auto simp: Let_def)

lemma delete_zero_id: "\<forall>r \<in> set rs. lsize r \<noteq> 0 \<Longrightarrow> delete_zero i rs = rs"
proof (induction i rs rule: delete_zero.induct)
  case (1 i rs)
  then show ?case by (subst delete_zero.simps) auto
qed

text \<open>What the gap loop computes, as a recursion over the lines.\<close>

fun fill_gaps :: "row list \<Rightarrow> row list" where
  "fill_gaps (r # q # rs) =
     (if lposition r + lsize r < lposition q
      then r # mk_row (lposition r + lsize r) (lposition q - (lposition r + lsize r)) NONTRIED # fill_gaps (q # rs)
      else r # fill_gaps (q # rs))"
| "fill_gaps [r] = [r]"
| "fill_gaps [] = []"

lemma fill_gaps_loop_step:
  assumes "lines T = pre @ r # q # rs" "i = length pre"
  shows "fill_gaps_loop (Suc n) i T = fill_gaps_loop n (Suc i)
    (if lposition r + lsize r < lposition q
     then snd (insert_line (Suc i) (lposition r + lsize r) (lposition q - (lposition r + lsize r)) NONTRIED T)
     else T)"
  using assms by (simp add: Let_def nth_append)

lemma fill_gaps_loop_eq:
  assumes "table_ok T" "lines T = pre @ rs" "i = length pre" "2 * (length rs - 1) \<le> n"
  shows "table_ok (fill_gaps_loop n i T) \<and> lines (fill_gaps_loop n i T) = pre @ fill_gaps rs"
  using assms
proof (induction rs arbitrary: T pre i n rule: fill_gaps.induct)
  case (1 r q rs)
  note ok = "1.prems"(1) and ls = "1.prems"(2) and i = "1.prems"(3)
  from "1.prems"(4) obtain m where n: "n = Suc (Suc m)" and m: "2 * (length (q # rs) - 1) \<le> m"
    by (cases n) (auto intro: that [of "n - 2"])
  let ?gap = "lposition r + lsize r < lposition q"
  show ?case
  proof (cases ?gap)
    case True
    let ?g = "mk_row (lposition r + lsize r) (lposition q - (lposition r + lsize r)) NONTRIED"
    define T' where "T' = snd (insert_line (Suc i) (lposition r + lsize r)
        (lposition q - (lposition r + lsize r)) NONTRIED T)"
    have "Suc i \<le> total_lines T" by (simp add: ls i)
    from insert_line_ok [OF ok this] i have T': "table_ok T'" "lines T' = (pre @ [r]) @ ?g # q # rs"
      by (simp_all add: T'_def ls row_simps)
    have "fill_gaps_loop n i T = fill_gaps_loop m (Suc (Suc i)) T'"
      using True fill_gaps_loop_step [OF ls i] fill_gaps_loop_step [OF T'(2), of "Suc i"] i
      by (simp add: n T'_def)
    with "1.IH"(1) [OF True T'(1), of "pre @ [r, ?g]" "Suc (Suc i)" m] T'(2) m i True
    show ?thesis by simp
  next
    case False
    have "fill_gaps_loop n i T = fill_gaps_loop (Suc m) (Suc i) T"
      using False fill_gaps_loop_step [OF ls i] by (simp add: n)
    with "1.IH"(2) [OF False ok, of "pre @ [r]" "Suc i" "Suc m"] ls m i False
    show ?thesis by simp
  qed
next
  case (2 r)
  then show ?case by (cases n) auto
next
  case 3
  then show ?case by (cases n) auto
qed

lemma fill_gaps_id: "tiles a rs e \<Longrightarrow> fill_gaps rs = rs"
  by (induction rs arbitrary: a rule: fill_gaps.induct) auto

text \<open>\<open>with_gaps\<close>: the status map of a table in which the gaps between two sectors are not tried.\<close>

definition with_gaps :: "int \<Rightarrow> int \<Rightarrow> row list \<Rightarrow> int \<Rightarrow> status_word option" where
  "with_gaps lo hi rs x =
     (if status_at rs x = None \<and> lo \<le> x \<and> x < hi then Some NONTRIED else status_at rs x)"

definition last_end :: "row list \<Rightarrow> int" where
  "last_end rs = lposition (last rs) + lsize (last rs)"

lemma spaced_le_last_end: "spaced a rs \<Longrightarrow> rs \<noteq> [] \<Longrightarrow> lposition (hd rs) < last_end rs"
proof (induction rs arbitrary: a)
  case Nil
  then show ?case by simp
next
  case (Cons r rs)
  then show ?case by (cases rs) (force simp: last_end_def)+
qed

lemma fill_gaps_spaced:
  "spaced a rs \<Longrightarrow> rs \<noteq> [] \<Longrightarrow>
   tiles (lposition (hd rs)) (fill_gaps rs) (last_end rs) \<and>
   (\<forall>x. status_at (fill_gaps rs) x = with_gaps (lposition (hd rs)) (last_end rs) rs x)"
proof (induction rs arbitrary: a rule: fill_gaps.induct)
  case (1 r q rs)
  have r: "0 < lsize r" and qs: "spaced (lposition r + lsize r) (q # rs)"
    and rq: "lposition r + lsize r \<le> lposition q" using "1.prems"(1) by auto
  let ?E = "last_end (q # rs)"
  have "tiles (lposition q) (fill_gaps (q # rs)) ?E \<and>
      (\<forall>x. status_at (fill_gaps (q # rs)) x = with_gaps (lposition q) ?E (q # rs) x)"
    using "1.IH"(1) [OF _ qs] "1.IH"(2) [OF _ qs] by (metis list.sel(1) list.distinct(1))
  then have t: "tiles (lposition q) (fill_gaps (q # rs)) ?E"
    and st: "\<And>x. status_at (fill_gaps (q # rs)) x = with_gaps (lposition q) ?E (q # rs) x" by auto
  have le: "lposition q < ?E" using spaced_le_last_end [OF qs] by simp
  have E: "last_end (r # q # rs) = ?E" by (simp add: last_end_def)
  have "spaced (lposition q) (q # rs)" using qs by simp
  then have none: "status_at (q # rs) x = None" if "x < lposition q" for x
    using that spaced_before by blast
  have "status_at (fill_gaps (r # q # rs)) x = with_gaps (lposition r) ?E (r # q # rs) x" for x
  proof (cases "x < lposition q")
    case True
    with none [OF True] st [of x] r rq le show ?thesis
      by (auto simp: with_gaps_def covers_def split: if_splits)
  next
    case False
    with st [of x] r rq show ?thesis by (auto simp: with_gaps_def covers_def)
  qed
  moreover have "tiles (lposition r) (fill_gaps (r # q # rs)) ?E" using t r rq by auto
  ultimately show ?case by (simp only: E list.sel) blast
next
  case (2 r)
  then show ?case by (auto simp: covers_def with_gaps_def last_end_def)
next
  case 3
  then show ?case by simp
qed

section \<open>Properties of the check\<close>

lemma flag_zero [simp]: "b \<noteq> 0 \<Longrightarrow> flag c b = 0 \<longleftrightarrow> \<not> c"
  by (simp add: flag_def)

definition line_pair_ok :: "row \<Rightarrow> row \<Rightarrow> bool" where
  "line_pair_ok r q \<longleftrightarrow> lposition r + lsize r = lposition q \<and> lsize r \<noteq> 0 \<and> lstatus r \<noteq> lstatus q"

lemma check_lines_zero: "check_lines rs fail = 0 \<longleftrightarrow> fail = 0 \<and> successively line_pair_ok rs"
proof (induction rs fail rule: check_lines.induct)
  case (1 r q rs fail)
  show ?case
    unfolding check_lines.simps "1.IH" by (auto simp: or_eq_0_iff line_pair_ok_def)
qed auto

lemma successively_tiles:
  assumes "rs \<noteq> []" "\<forall>r \<in> set rs. 0 \<le> lsize r" "0 < lsize (last rs)"
  shows "successively line_pair_ok rs \<longleftrightarrow>
    tiles (lposition (hd rs)) rs (last_end rs) \<and> successively (\<lambda>r q. lstatus r \<noteq> lstatus q) rs"
  using assms
proof (induction rs rule: induct_list012)
  case (3 r q rs)
  have "0 \<le> lsize r" using "3.prems"(2) by simp
  with 3 show ?case by (auto simp: line_pair_ok_def last_end_def)
qed (auto simp: last_end_def)

text \<open>
  C20: the check is exact.  For a log of non-negative sizes whose last line is not empty,
  \<open>check_log_ccc\<close> returns 0 exactly when the lines tile the drive from sector 0 to its total
  size and neighbouring lines have different status.
\<close>

theorem check_log_correct:
  assumes "lines (log_table s) \<noteq> []" "\<forall>r \<in> set (lines (log_table s)). 0 \<le> lsize r"
    and "0 < lsize (last (lines (log_table s)))"
    and "\<not> importdd s \<or> repair_log s" "check_log_size s"
  shows "check_log s = 0 \<longleftrightarrow> tiles 0 (lines (log_table s)) (source_total_size s) \<and>
    successively (\<lambda>r q. lstatus r \<noteq> lstatus q) (lines (log_table s))"
proof -
  let ?rs = "lines (log_table s)"
  have "check_log s = 0 \<longleftrightarrow> lposition (hd ?rs) = 0 \<and> last_end ?rs = source_total_size s \<and>
      successively line_pair_ok ?rs"
    using assms(1,4,5)
    by (auto simp: check_log_def Let_def or_eq_0_iff check_lines_zero hd_conv_nth last_conv_nth last_end_def)
  also have "\<dots> \<longleftrightarrow> lposition (hd ?rs) = 0 \<and> last_end ?rs = source_total_size s \<and>
      tiles (lposition (hd ?rs)) ?rs (last_end ?rs) \<and> successively (\<lambda>r q. lstatus r \<noteq> lstatus q) ?rs"
    by (simp add: successively_tiles [OF assms(1-3)])
  also have "\<dots> \<longleftrightarrow> tiles 0 ?rs (source_total_size s) \<and> successively (\<lambda>r q. lstatus r \<noteq> lstatus q) ?rs"
  proof -
    have "tiles 0 ?rs e \<Longrightarrow> lposition (hd ?rs) = 0 \<and> last_end ?rs = e" for e
      using assms(1) tiles_hd_last [of 0 ?rs e] by (simp add: last_end_def)
    then show ?thesis by metis
  qed
  finally show ?thesis .
qed

definition demo_env :: "row list \<Rightarrow> int \<Rightarrow> log_env" where
  "demo_env rs tsize = \<lparr>log_table = demo_table rs, domain_table = demo_table [],
     critical_process = False, logfile_changed = False, domainfile_changed = False,
     source_total_size = tsize, current_position = 0, current_status = NONTRIED,
     importdd = False, repair_log = True, check_log_size = True, no_log_backup = False,
     total_skip_count = 0, total_skip_resets = 0, total_skip_runs = 0, total_slow_skips = 0\<rparr>"

lemma demo_env_sel [simp]:
  "log_table (demo_env rs n) = demo_table rs" "source_total_size (demo_env rs n) = n"
  "importdd (demo_env rs n) = False" "repair_log (demo_env rs n) = True"
  "check_log_size (demo_env rs n) = True" "no_log_backup (demo_env rs n) = False"
  by (simp_all add: demo_env_def)

lemma check_log_correct_witness: "check_log (demo_env demo_rows 100) = 0"
  using check_log_correct [of "demo_env demo_rows 100"]
  by (simp add: demo_rows_def FINISHED_def NONTRIED_def)

section \<open>Properties of the repair\<close>

lemma status_changes_successively:
  "status_changes rs \<longleftrightarrow> successively (\<lambda>r q. lstatus r \<noteq> lstatus q) rs"
  by (auto simp: status_changes_def changes_between_def successively_conv_nth)

lemma repair_lines_cleaned:
  "delete_zero 0 (fix_overlaps (lines T)) = rs \<Longrightarrow> delete_zero 0 (fix_overlaps rs) = rs \<Longrightarrow>
   repair_lines T = repair_lines (T\<lparr>lines := rs\<rparr>)"
  by (simp add: repair_lines_def)

lemma repair_lines_run:
  assumes "delete_zero 0 (fix_overlaps (lines T)) = rs" "table_ok (T\<lparr>lines := rs\<rparr>)"
  shows "lines (repair_lines T) = merge_same 0 (fill_gaps rs)"
  using fill_gaps_loop_eq [OF assms(2), of "[]" rs 0] by (simp add: repair_lines_def Let_def assms(1))

lemma repair_lines_spaced:
  assumes ok: "table_ok T" and sp: "spaced a (lines T)" and ne: "lines T \<noteq> []"
  shows "same_map (lposition (hd (lines T))) (last_end (lines T)) (fill_gaps (lines T)) (lines (repair_lines T))"
proof -
  have nz: "\<forall>r \<in> set (lines T). lsize r \<noteq> 0" using spaced_mem [OF sp] by fastforce
  have eq: "delete_zero 0 (fix_overlaps (lines T)) = lines T"
    by (simp add: fix_overlaps_spaced [OF sp] delete_zero_id [OF nz])
  have "T\<lparr>lines := lines T\<rparr> = T" by simp
  with eq have "lines (repair_lines T) = merge_same 0 (lines (fill_gaps_loop (2 * total_lines T) 0 T))"
    by (simp add: repair_lines_def Let_def)
  also have "lines (fill_gaps_loop (2 * total_lines T) 0 T) = fill_gaps (lines T)"
    using fill_gaps_loop_eq [OF ok, of "[]" "lines T" 0] by simp
  finally show ?thesis using fill_gaps_spaced [OF sp ne] merge_same_keeps by simp
qed

lemma repair_last_spaced:
  assumes ok: "table_ok T" and sp: "spaced a (lines T)" and ne: "lines T \<noteq> []"
    and e: "last_end (lines T) \<le> n"
  shows "\<exists>T'. repair_last n T = Some T' \<and> table_ok T' \<and> spaced a (lines T') \<and> lines T' \<noteq> [] \<and>
    hd (lines T') = hd (lines T) \<and> last_end (lines T') = n \<and>
    (\<forall>x. with_gaps (lposition (hd (lines T))) n (lines T') x = with_gaps (lposition (hd (lines T))) n (lines T) x)"
proof (cases "last_end (lines T) = n")
  case True
  then have "repair_last n T = Some T"
    using ne by (simp add: repair_last_def Let_def last_end_def last_conv_nth)
  with True ok sp ne show ?thesis by simp
next
  case False
  with e have lt: "last_end (lines T) < n" by simp
  define T' where "T' = snd (insert_line (total_lines T) (last_end (lines T)) (n - last_end (lines T)) NONTRIED T)"
  have T': "table_ok T'" "lines T' = lines T @ [mk_row (last_end (lines T)) (n - last_end (lines T)) NONTRIED]"
    using insert_line_ok [OF ok order_refl] by (simp_all add: T'_def insert_row_def)
  have "repair_last n T = Some T'"
    using lt ne by (simp add: repair_last_def Let_def last_end_def last_conv_nth T'_def)
  moreover have "spaced a (lines T')"
    unfolding T'(2) using spaced_snoc [OF sp ne] lt by (simp add: last_end_def)
  moreover have "with_gaps lo n (lines T') x = with_gaps lo n (lines T) x" if "lo \<le> last_end (lines T)" for lo x
    using lt that by (auto simp: with_gaps_def T'(2) status_at_append covers_def split: option.split)
  ultimately show ?thesis
    using T' ne spaced_le_last_end [OF sp ne] by (auto simp: last_end_def)
qed



text \<open>
  repair does nothing to a log that passes the check (sizes non-negative, last line not
  empty): it returns 0 and the lines are the same.
\<close>

theorem repair_keeps_checked_log:
  assumes "table_ok (log_table s)" "lines (log_table s) \<noteq> []"
    and "\<forall>r \<in> set (lines (log_table s)). 0 \<le> lsize r" "0 < lsize (last (lines (log_table s)))"
    and "repair_log s" "check_log_size s" "no_log_backup s \<or> backup_ret = 0"
    and "check_log s = 0"
  shows "\<exists>s'. check_and_repair_log backup_ret stale s = Some (0, s') \<and>
    lines (log_table s') = lines (log_table s)"
proof -
  let ?T = "log_table s" and ?n = "source_total_size s"
  from check_log_correct [OF assms(2-4)] assms(5,6,8) have
    t: "tiles 0 (lines ?T) ?n" and ch: "status_changes (lines ?T)"
    by (simp_all add: status_changes_successively)
  note ends = tiles_hd_last [OF t assms(2)]
  have first: "repair_first stale ?T = ?T"
    using assms(2) ends by (simp add: repair_first_def row_at_def hd_conv_nth)
  have lst: "repair_last ?n ?T = Some ?T"
    using assms(2) ends by (simp add: repair_last_def Let_def last_conv_nth)
  note sp = tiles_spaced [OF t]
  have nz: "\<forall>r \<in> set (lines ?T). lsize r \<noteq> 0" using spaced_mem [OF sp] by fastforce
  have "delete_zero 0 (fix_overlaps (lines ?T)) = lines ?T"
    by (simp add: fix_overlaps_spaced [OF sp] delete_zero_id [OF nz])
  moreover have "?T\<lparr>lines := lines ?T\<rparr> = ?T" by simp
  ultimately have "lines (repair_lines ?T) = merge_same 0 (lines (fill_gaps_loop (2 * total_lines ?T) 0 ?T))"
    by (simp add: repair_lines_def Let_def)
  also have "\<dots> = lines ?T"
    using fill_gaps_loop_eq [OF assms(1), of "[]" "lines ?T" 0] fill_gaps_id [OF t] merge_same_id [OF ch] by simp
  finally show ?thesis
    using assms(5-7) by (auto simp: check_and_repair_log_def first lst)
qed

lemma repair_keeps_checked_log_witness:
  "\<exists>s'. check_and_repair_log 0 (mk_row 0 0 0) (demo_env demo_rows 100) = Some (0, s') \<and>
    lines (log_table s') = demo_rows"
proof -
  have "check_log (demo_env demo_rows 100) = 0"
    by (simp add: check_log_def Let_def demo_rows_def flag_def FINISHED_def NONTRIED_def)
  then show ?thesis
    using repair_keeps_checked_log [of "demo_env demo_rows 100" 0 "mk_row 0 0 0"]
    by (simp add: demo_table_ok demo_rows_def)
qed

text \<open>
  Two overlapping lines.  The overlap is cut off the first line, but the second line is
  moved up by it with its size unchanged: after the repair the log reaches \<open>d\<close> sectors further
  than before, and the \<open>d\<close> sectors behind its old end have the status of the second line.
\<close>

theorem repair_overlap_moves_line:
  assumes "table_ok T" "lines T = [r, q]" "d = lposition r + lsize r - lposition q"
    and "0 < d" "d < lsize r" "d \<le> lsize q"
  shows "tiles (lposition r) (lines (repair_lines T)) (lposition q + lsize q + d) \<and>
    (\<forall>x. lposition q + lsize q \<le> x \<and> x < lposition q + lsize q + d \<longrightarrow>
      status_at (lines (repair_lines T)) x = Some (lstatus q))"
proof -
  let ?T = "T\<lparr>lines := [r\<lparr>lsize := lsize r - d\<rparr>, q\<lparr>lposition := lposition q + d\<rparr>]\<rparr>"
  have ov: "fix_overlaps (lines T) = lines ?T" using assms(2-6) by (auto simp: Let_def)
  have nz: "\<forall>r \<in> set (lines ?T). lsize r \<noteq> 0" using assms(4-6) by auto
  have sp: "spaced (lposition r) (lines ?T)" using assms(3-6) by simp
  have dz: "delete_zero 0 (fix_overlaps (lines T)) = lines ?T"
    unfolding ov by (rule delete_zero_id [OF nz])
  have "delete_zero 0 (fix_overlaps (lines ?T)) = lines ?T"
    unfolding fix_overlaps_spaced [OF sp] by (rule delete_zero_id [OF nz])
  from repair_lines_cleaned [OF dz this] have same: "repair_lines T = repair_lines ?T" by simp
  have ok: "table_ok ?T" using assms(1,2) by (simp add: table_ok_def)
  have ends: "lposition (hd (lines ?T)) = lposition r" "last_end (lines ?T) = lposition q + lsize q + d"
    "lines ?T \<noteq> []"
    by (simp_all add: last_end_def)
  note res = repair_lines_spaced [OF ok sp ends(3), unfolded ends same_map_def]
  note gaps = fill_gaps_spaced [OF sp ends(3), unfolded ends same_map_def]
  have "status_at (lines (repair_lines ?T)) x = Some (lstatus q)"
    if "lposition q + lsize q \<le> x" "x < lposition q + lsize q + d" for x
  proof -
    have "status_at (lines ?T) x = Some (lstatus q)" using that assms(3-6) by (auto simp: covers_def)
    with res gaps show ?thesis by (simp add: with_gaps_def del: table.simps)
  qed
  with res show ?thesis unfolding same by blast
qed

lemma repair_overlap_moves_line_witness:
  "tiles 0 (lines (repair_lines (demo_table [mk_row 0 60 NONTRIED, mk_row 50 50 FINISHED]))) 110"
  using repair_overlap_moves_line
    [of "demo_table [mk_row 0 60 NONTRIED, mk_row 50 50 FINISHED]" "mk_row 0 60 NONTRIED" "mk_row 50 50 FINISHED" 10]
  by (simp add: demo_table_ok)

text \<open>
  The line inserted when the first position is not 0 gets the position of the second line
  as its size, so it overlaps the first line.  On a log of the sectors 10 to 30 of which the
  first ten are read, the repair loses them: no sector of the drive is finished afterwards, the
  log ends ten sectors behind the drive, and it no longer passes the check.
\<close>

theorem repair_first_line_loses_data:
  "\<exists>s'. check_and_repair_log 0 (mk_row 0 0 0)
      (demo_env [mk_row 10 10 FINISHED, mk_row 20 10 BAD] 30) = Some (0, s') \<and>
    lines (log_table s') = [mk_row 0 30 NONTRIED, mk_row 30 10 BAD] \<and> check_log s' \<noteq> 0"
proof -
  let ?s = "demo_env [mk_row 10 10 FINISHED, mk_row 20 10 BAD] 30"
  let ?T = "demo_table [mk_row 0 20 NONTRIED, mk_row 10 10 FINISHED, mk_row 20 10 BAD]"
  have first: "repair_first (mk_row 0 0 0) (demo_table [mk_row 10 10 FINISHED, mk_row 20 10 BAD]) = ?T"
    by (simp add: repair_first_def row_at_def insert_line_def insert_row_def demo_table_def)
  have "repair_last 30 ?T = Some ?T" by (simp add: repair_last_def)
  then have r: "check_and_repair_log 0 (mk_row 0 0 0) ?s = Some (0, ?s\<lparr>log_table := repair_lines ?T\<rparr>)"
    by (simp add: check_and_repair_log_def first)
  have "fix_overlaps (lines ?T) = [mk_row 0 10 NONTRIED, mk_row 20 0 FINISHED, mk_row 30 10 BAD]"
    by (simp add: Let_def mk_row_def)
  moreover have "delete_zero 0 [mk_row 0 10 NONTRIED, mk_row 20 0 FINISHED, mk_row 30 10 BAD] =
      [mk_row 0 10 NONTRIED, mk_row 30 10 BAD]"
    by (simp add: delete_zero.simps delete_row_def)
  ultimately have "delete_zero 0 (fix_overlaps (lines ?T)) = [mk_row 0 10 NONTRIED, mk_row 30 10 BAD]"
    by (simp only:)
  then have "lines (repair_lines ?T) = merge_same 0 (fill_gaps [mk_row 0 10 NONTRIED, mk_row 30 10 BAD])"
    by (rule repair_lines_run) (simp add: demo_table_def table_ok_def)
  also have "\<dots> = merge_same 0 [mk_row 0 10 NONTRIED, mk_row 10 20 NONTRIED, mk_row 30 10 BAD]"
    by simp
  also have "\<dots> = [mk_row 0 30 NONTRIED, mk_row 30 10 BAD]"
    by (simp add: merge_same.simps absorb_next_def delete_row_def upd_row_def mk_row_def NONTRIED_def BAD_def)
  finally have l: "lines (repair_lines ?T) = [mk_row 0 30 NONTRIED, mk_row 30 10 BAD]" .
  then have "check_log (?s\<lparr>log_table := repair_lines ?T\<rparr>) \<noteq> 0"
    by (simp add: check_log_def Let_def flag_def NONTRIED_def BAD_def)
  with r l show ?thesis by simp
qed

text \<open>
  C22: merging never changes the status map, and from the second line on no two neighbours of
  the result have the same status; if the first two lines had different status, no two
  neighbours have.
\<close>

theorem merge_same_correct:
  assumes "tiles a rs e"
  shows "tiles a (merge_same 0 rs) e \<and> (\<forall>x. status_at (merge_same 0 rs) x = status_at rs x) \<and>
    changes_between 1 (length (merge_same 0 rs)) (merge_same 0 rs) \<and>
    (length rs < 2 \<or> lstatus (rs ! 0) \<noteq> lstatus (rs ! 1) \<longrightarrow> status_changes (merge_same 0 rs))"
  using merge_same_keeps [OF assms, of 0] merge_same_changes_tail merge_same_status_changes
  by (auto simp: same_map_def)

lemma merge_same_correct_witness:
  "tiles 0 (merge_same 0 [mk_row 0 5 BAD, mk_row 5 5 BAD, mk_row 10 5 FINISHED]) 15"
  using merge_same_correct [of 0 "[mk_row 0 5 BAD, mk_row 5 5 BAD, mk_row 10 5 FINISHED]" 15] by simp

text \<open>
  Three lines of one status at the start of a log are not merged into one: the loop does
  not step back at index 0.
\<close>

theorem merge_same_stops_at_first:
  assumes "lstatus r = lstatus q" "lstatus q = lstatus t"
  shows "merge_same 0 [r, q, t] = [r\<lparr>lsize := lsize r + lsize q\<rparr>, t] \<and>
    \<not> status_changes (merge_same 0 [r, q, t])"
  using assms
  by (simp add: merge_same.simps absorb_next_def delete_row_def upd_row_def status_changes_def changes_between_def)

lemma merge_same_stops_at_first_witness:
  "\<not> status_changes (merge_same 0 [mk_row 0 5 BAD, mk_row 5 5 BAD, mk_row 10 5 BAD])"
  by (rule conjunct2 [OF merge_same_stops_at_first]) simp_all

section \<open>Properties of the reset\<close>

lemma tiles_reset: "tiles a (map reset_row rs) e = tiles a rs e"
  by (induction rs arbitrary: a) (simp_all add: reset_row_def Let_def)

lemma reset_row_status: "lstatus (reset_row r) = (if lstatus r AND 0x7f = 0x7f then FINISHED else NONTRIED)"
  by (simp add: reset_row_def Let_def status_consts)

lemma reset_row_covers: "covers (reset_row r) x = covers r x"
  by (simp add: reset_row_def Let_def covers_def)

lemma status_at_reset:
  "status_at (map reset_row rs) x =
   map_option (\<lambda>st. if st AND 0x7f = 0x7f then FINISHED else NONTRIED) (status_at rs x)"
  by (induction rs) (auto simp: reset_row_covers reset_row_status)

text \<open>
  C23: resetting the status keeps the range of the log; a sector is finished afterwards exactly
  when its status byte was finished, up to the bad-head bit, and every other sector is not tried.
\<close>

theorem reset_log_status_map:
  assumes "tiles a (lines (log_table s)) e" "reset_log_status s = (ret, s')"
  shows "ret = 0 \<and> tiles a (lines (log_table s')) e \<and>
    (\<forall>x. status_at (lines (log_table s')) x =
      map_option (\<lambda>st. if st AND 0x7f = 0x7f then FINISHED else NONTRIED) (status_at (lines (log_table s)) x)) \<and>
    current_position s' = 0 \<and> current_status s' = NONTRIED"
proof -
  have "tiles a (map reset_row (lines (log_table s))) e" by (simp add: tiles_reset assms(1))
  from merge_same_keeps [OF this, of 0] assms(2) show ?thesis
    by (auto simp: reset_log_status_def same_map_def status_at_reset)
qed

lemma reset_log_status_map_witness:
  "tiles 0 (lines (log_table (snd (reset_log_status (demo_env demo_rows 100))))) 100"
proof -
  have "tiles 0 (lines (log_table (demo_env demo_rows 100))) 100" by (simp add: demo_rows_def)
  from reset_log_status_map [OF this prod.collapse [symmetric]] show ?thesis by blast
qed

end
