(* ===== verification/Domain.thy ===== *)
theory Domain
  imports Log_Check
begin

text \<open>
  The domain: the second table, which says which sectors a recovery is restricted to
  (\<open>initialize_domain_log_ccc\<close>, \<open>check_domain_ccc\<close>, \<open>add_to_domain_ccc\<close>).
  The debug prints, which read and never write the table, are left out.
\<close>

section \<open>State\<close>

record domain_env = log_env +
  do_domain :: bool
  reverse :: bool
  driver_mode :: int
  domain_status :: status_word
  start_position :: int
  end_position :: int
  driver_minimum_cluster_size :: int

definition initialize_domain_log :: "'a log_env_scheme \<Rightarrow> 'a log_env_scheme" where
  "initialize_domain_log s =
     s\<lparr>domain_table := (domain_table s)\<lparr>lines := [mk_row 0 (source_total_size s) NONTRIED]\<rparr>\<rparr>"

fun check_domain_lines :: "row list \<Rightarrow> int \<Rightarrow> int" where
  "check_domain_lines (r # q # rs) fail =
     check_domain_lines (q # rs) (if lposition r + lsize r > lposition q then 2 else fail)"
| "check_domain_lines [r] fail = fail"
| "check_domain_lines [] fail = fail"

definition check_domain :: "'a log_env_scheme \<Rightarrow> int" where
  "check_domain s = check_domain_lines (lines (domain_table s)) 0"

section \<open>The operations on the domain arrays\<close>

definition increase_domain_memory :: "nat \<Rightarrow> table \<Rightarrow> int \<times> table" where
  "increase_domain_memory n T =
     (let T1 = T\<lparr>line_rows := line_rows T + n\<rparr> in
      if \<not> realloc_ok T1 PositionArray (line_rows T1) then (GENERAL_ERROR_RETURN_CODE, T1)
      else if \<not> realloc_ok T1 SizeArray (line_rows T1) then (GENERAL_ERROR_RETURN_CODE, T1)
      else if \<not> realloc_ok T1 StatusArray (line_rows T1) then (GENERAL_ERROR_RETURN_CODE, T1)
      else (0, T1\<lparr>allocated := line_rows T1\<rparr>))"

definition insert_domain_line :: "nat \<Rightarrow> int \<Rightarrow> int \<Rightarrow> status_word \<Rightarrow> table \<Rightarrow> int \<times> table" where
  "insert_domain_line l p z st T =
     (let (ret, T1) = (if total_lines T + 1 \<ge> line_rows T then increase_domain_memory 1000 T else (0, T))
      in if ret \<noteq> 0 then (ret, T1)
         else (0, T1\<lparr>lines := insert_row l (mk_row p z st) (lines T1)\<rparr>))"

definition delete_domain_line :: "nat \<Rightarrow> table \<Rightarrow> table" where
  "delete_domain_line l T = T\<lparr>lines := delete_row l (lines T)\<rparr>"

definition find_domain_block :: "int \<Rightarrow> table \<Rightarrow> int" where
  "find_domain_block p T = find_loop (lines T) p 0 (int (total_lines T) - 1)"

lemma domain_ops_eq:
  "insert_domain_line = insert_line" "delete_domain_line = delete_line" "find_domain_block = find_block"
  by (simp_all add: fun_eq_iff insert_domain_line_def insert_line_def increase_domain_memory_def
      increase_log_memory_def delete_domain_line_def delete_line_def find_domain_block_def find_block_def Let_def)

interpretation domain_arrays: chunk_arrays find_domain_block insert_domain_line delete_domain_line
  unfolding domain_ops_eq by (rule log_arrays.chunk_arrays_axioms)

section \<open>Adding a chunk\<close>

text \<open>\<open>finished_line\<close>: the test \<open>(dstatus & STATUS_MASK) == (FINISHED & STATUS_MASK)\<close>.\<close>

definition finished_line :: "row \<Rightarrow> bool" where
  "finished_line r \<longleftrightarrow> lstatus r AND STATUS_MASK = FINISHED AND STATUS_MASK"

text \<open>
  A block that the chunk covers to its end, from its start: it is marked, then merged with the
  line below it and the line above it when they are finished.
\<close>

definition take_block :: "nat \<Rightarrow> table \<Rightarrow> table" where
  "take_block b T =
     (let T1 = join_below delete_domain_line b (lsize (lines T ! b)) STATUS_MASK
                 (upd_line b (\<lambda>r. r\<lparr>lstatus := FINISHED\<rparr>) T)
      in if b > 0 \<and> finished_line (lines T1 ! (b - 1))
         then delete_domain_line b (upd_line (b - 1) (\<lambda>r. r\<lparr>lsize := lsize r + lsize (lines T1 ! b)\<rparr>) T1)
         else T1)"

text \<open>A block that the chunk enters in the middle and leaves at its end.\<close>

definition enter_block :: "nat \<Rightarrow> int \<Rightarrow> table \<Rightarrow> table" where
  "enter_block b pos T =
     (if b < total_lines T - 1 \<and> finished_line (lines T ! (b + 1))
      then upd_line (b + 1) (\<lambda>q. q\<lparr>lsize := lsize q + (lposition q - pos), lposition := pos\<rparr>) T
      else T)"

text \<open>
  The loop: it stops at an error, at a rest of the chunk that is finished already, or with a
  rest that fits its block.  Each result carries the value of \<open>critical_process_ccc\<close>.
\<close>

datatype add_result =
    Add_Error bool table
  | Add_Done table
  | Add_Fits nat int int table

lemma find_domain_covers:
  "find_domain_block p T \<noteq> -1 \<Longrightarrow> covers (lines T ! nat (find_domain_block p T)) p"
  using find_block_found by (simp add: domain_ops_eq)

function add_loop :: "int \<Rightarrow> int \<Rightarrow> bool \<Rightarrow> table \<Rightarrow> add_result" where
  "add_loop pos sz critical T =
     (let ret = find_domain_block pos T; b = nat ret; r = lines T ! b in
      if ret = -1 then Add_Error critical T
      else if pos \<ge> lposition r \<and> pos + sz \<le> lposition r + lsize r then
        (if finished_line r then Add_Done T else Add_Fits b pos sz T)
      else if pos = lposition r then add_loop (pos + lsize r) (sz - lsize r) True (take_block b T)
      else if pos > lposition r then
        (let diff = (lposition r + lsize r) - pos
         in add_loop (pos + diff) (sz - diff) True (enter_block b pos T))
      else Add_Error False T)"
  by pat_completeness auto
termination
proof (relation "measure (\<lambda>(pos, sz, _). nat sz)", goal_cases)
  case 1
  show ?case by simp
next
  case (2 pos sz critical T ret b r)
  from 2(1-4) have cov: "covers r pos" by (metis find_domain_covers)
  from 2(5) cov have "lposition r + lsize r < pos + sz" "0 < lsize r"
    using 2(6) by (simp_all add: covers_def)
  with 2(6) have "nat (sz - lsize r) < nat sz" by linarith
  then show ?case by simp
next
  case (3 pos sz critical T ret b r diff)
  from 3(1-4) have cov: "covers r pos" by (metis find_domain_covers)
  from 3(5) cov have "lposition r + lsize r < pos + sz" "pos < lposition r + lsize r"
    by (simp_all add: covers_def)
  with 3(8) have "nat (sz - diff) < nat sz" by linarith
  then show ?case by simp
qed

declare add_loop.simps [simp del]

definition mark_domain_chunk :: "nat \<Rightarrow> int \<Rightarrow> int \<Rightarrow> table \<Rightarrow> table" where
  "mark_domain_chunk b pos sz =
     mark_chunk insert_domain_line delete_domain_line b pos sz FINISHED STATUS_MASK"

text \<open>\<open>upd_ret\<close> is what \<open>update_domainfile_ccc\<close> returns.\<close>

definition add_to_domain :: "int \<Rightarrow> int \<Rightarrow> int \<Rightarrow> 'a maps_scheme \<Rightarrow> int \<times> 'a maps_scheme" where
  "add_to_domain upd_ret pos sz s =
     (case add_loop pos sz (critical_process s) (domain_table s) of
        Add_Error c T \<Rightarrow> (INTERNAL_ERROR_RETURN_CODE, s\<lparr>domain_table := T, critical_process := c\<rparr>)
      | Add_Done T \<Rightarrow> (0, s\<lparr>domain_table := T, critical_process := False\<rparr>)
      | Add_Fits b p z T \<Rightarrow>
          (upd_ret, s\<lparr>domain_table := mark_domain_chunk b p z T,
            critical_process := False, domainfile_changed := True\<rparr>))"

section \<open>What adding does to the map of the domain\<close>

definition no_twins :: "row list \<Rightarrow> bool" where
  "no_twins rs \<longleftrightarrow> successively (\<lambda>q r. \<not> (finished_line q \<and> finished_line r)) rs"

lemmas no_twins_simps = no_twins_def successively_append_iff successively_Cons

lemma finished_line_upd [simp]:
  "finished_line (r\<lparr>lsize := z\<rparr>) = finished_line r" "finished_line (r\<lparr>lposition := p\<rparr>) = finished_line r"
  "finished_line (r\<lparr>lstatus := FINISHED\<rparr>)" "finished_line (mk_row p z FINISHED)"
  by (simp_all add: finished_line_def)

lemma take_block_repaints:
  assumes ok: "table_ok T" and rs: "lines T = pre @ r # post" and t: "tiles a (lines T) e"
    and tw: "no_twins (lines T)"
  shows "table_ok (take_block (length pre) T) \<and> no_twins (lines (take_block (length pre) T)) \<and>
    repainted STATUS_MASK FINISHED (lposition r) (lposition r + lsize r) a e (lines T)
      (lines (take_block (length pre) T))"
proof -
  let ?b = "length pre" and ?r = "r\<lparr>lstatus := FINISHED\<rparr>"
  define T0 where "T0 = upd_line ?b (\<lambda>r. r\<lparr>lstatus := FINISHED\<rparr>) T"
  define T1 where "T1 = join_below delete_domain_line ?b (lsize r) STATUS_MASK T0"
  have T0: "lines T0 = pre @ ?r # post" by (simp add: T0_def rs row_simps)
  have "\<exists>c post2. lines T1 = pre @ c # post2 \<and> finished_line c \<and> no_twins (c # post2)"
  proof (cases "\<exists>q post'. post = q # post' \<and> finished_line q")
    case True
    then obtain q post' where post: "post = q # post'" "finished_line q" by blast
    then have "lines T1 = pre @ q\<lparr>lposition := lposition q - lsize r, lsize := lsize q + lsize r\<rparr> # post'"
      by (simp add: T1_def join_below_def T0 same_masked_def finished_line_def delete_domain_line_def row_simps)
    moreover have "no_twins (q # post')" using tw by (auto simp: rs post no_twins_simps)
    ultimately show ?thesis
      using post(2)
      by (intro exI [of _ "q\<lparr>lposition := lposition q - lsize r, lsize := lsize q + lsize r\<rparr>"] exI [of _ post'])
         (auto simp: no_twins_simps)
  next
    case False
    then have "\<not> (?b < total_lines T0 - 1 \<and> same_masked STATUS_MASK (lines T0 ! ?b) (lines T0 ! (?b + 1)))"
      by (cases post) (auto simp: T0 same_masked_def finished_line_def nth_append)
    then have "T1 = T0" unfolding T1_def join_below_def by (rule if_not_P)
    with False tw T0 show ?thesis by (cases post) (auto simp: rs no_twins_simps)
  qed
  then obtain c post2 where T1: "lines T1 = pre @ c # post2" "finished_line c" "no_twins (c # post2)" by blast
  have tb: "take_block ?b T = (if ?b > 0 \<and> finished_line (lines T1 ! (?b - 1))
      then delete_domain_line ?b (upd_line (?b - 1) (\<lambda>r. r\<lparr>lsize := lsize r + lsize (lines T1 ! ?b)\<rparr>) T1) else T1)"
    by (simp add: take_block_def Let_def rs T1_def T0_def)
  also have "\<dots> = join_above delete_domain_line ?b STATUS_MASK T1"
    using T1(2) by (auto simp: join_above_def same_masked_def finished_line_def T1(1))
  also have "\<dots> = mark_whole delete_domain_line ?b (lsize r) FINISHED STATUS_MASK T"
    by (simp add: mark_whole_def T1_def T0_def)
  finally have whole: "take_block ?b T = mark_whole delete_domain_line ?b (lsize r) FINISHED STATUS_MASK T" .
  have "no_twins (lines (take_block ?b T))"
  proof (cases "\<exists>pre' p. pre = pre' @ [p] \<and> finished_line p")
    case True
    then obtain pre' p where pre: "pre = pre' @ [p]" "finished_line p" by blast
    then have "lines (take_block ?b T) = pre' @ p\<lparr>lsize := lsize p + lsize c\<rparr> # post2"
      unfolding tb by (simp add: T1(1) delete_domain_line_def row_simps)
    moreover have "no_twins (pre' @ [p])" using tw by (auto simp: rs pre no_twins_simps)
    ultimately show ?thesis using T1(2,3) pre(2) by (auto simp: no_twins_simps)
  next
    case False
    then have "\<not> (?b > 0 \<and> finished_line (lines T1 ! (?b - 1)))"
      by (cases pre rule: rev_cases) (auto simp: T1(1) nth_append)
    then have "lines (take_block ?b T) = pre @ c # post2" unfolding tb by (simp only: if_False T1(1))
    moreover have "no_twins pre" using tw by (auto simp: rs no_twins_simps)
    ultimately show ?thesis
      using T1(3) False by (cases pre rule: rev_cases) (auto simp: no_twins_simps)
  qed
  with domain_arrays.mark_whole_repaints [OF ok rs t refl, of FINISHED STATUS_MASK] show ?thesis
    by (simp add: whole)
qed

lemma repainted_step:
  "repainted msk st lo m a e rs rs1 \<Longrightarrow> repainted msk st m hi a e rs1 rs2 \<Longrightarrow> lo \<le> m \<Longrightarrow> m \<le> hi \<Longrightarrow>
   repainted msk st lo hi a e rs rs2"
  by (auto simp: repainted_def)

lemma masked_at_row:
  "tiles a rs e \<Longrightarrow> r \<in> set rs \<Longrightarrow> covers r x \<Longrightarrow> masked_at msk rs x = Some (lstatus r AND msk)"
  by (metis in_set_conv_decomp masked_at_def option.simps(9) status_at_mid)

lemma repainted_finished_row:
  assumes "tiles a rs e" "r \<in> set rs" "finished_line r" "lposition r \<le> lo" "hi \<le> lposition r + lsize r"
  shows "repainted STATUS_MASK FINISHED lo hi a e rs rs"
  using assms masked_at_row [OF assms(1,2), of _ STATUS_MASK]
  by (auto simp: repainted_def covers_def finished_line_def)

text \<open>After a step the next block starts where the chunk goes on, or is finished.\<close>

lemma starts_or_finished:
  assumes "tiles a rs e" "r \<in> set rs" "covers r x"
    and "masked_at STATUS_MASK rs (x - 1) = Some (FINISHED AND STATUS_MASK)"
  shows "lposition r = x \<or> finished_line r"
proof (rule disjCI)
  assume "\<not> finished_line r"
  with assms(4) masked_at_row [OF assms(1,2), of "x - 1" STATUS_MASK] have "\<not> covers r (x - 1)"
    by (auto simp: finished_line_def)
  with assms(3) show "lposition r = x" by (auto simp: covers_def)
qed

definition entry_ok :: "int \<Rightarrow> int \<Rightarrow> row list \<Rightarrow> bool" where
  "entry_ok pos sz rs \<longleftrightarrow> (\<forall>r \<in> set rs. covers r pos \<longrightarrow>
     lposition r = pos \<or> finished_line r \<or> pos + sz \<le> lposition r + lsize r)"

definition added :: "int \<Rightarrow> int \<Rightarrow> int \<Rightarrow> int \<Rightarrow> table \<Rightarrow> add_result \<Rightarrow> bool" where
  "added pos hi a e T res = (case res of
     Add_Error c T' \<Rightarrow> False
   | Add_Done T' \<Rightarrow> table_ok T' \<and> repainted STATUS_MASK FINISHED pos hi a e (lines T) (lines T')
   | Add_Fits b p z T' \<Rightarrow> table_ok T' \<and> pos \<le> p \<and> p + z = hi \<and> 0 < z \<and>
       repainted STATUS_MASK FINISHED pos p a e (lines T) (lines T') \<and>
       (\<exists>pre r post. lines T' = pre @ r # post \<and> b = length pre \<and> lposition r \<le> p \<and>
          hi \<le> lposition r + lsize r))"

lemma added_step:
  assumes "added m hi a e T1 res" "pos \<le> m" "m \<le> hi"
    and rep: "repainted STATUS_MASK FINISHED pos m a e (lines T) (lines T1)"
  shows "added pos hi a e T res"
proof (cases res)
  case (Add_Fits b p z T')
  with assms(1) have "m \<le> p" "repainted STATUS_MASK FINISHED m p a e (lines T1) (lines T')"
    by (simp_all add: added_def)
  from repainted_step [OF rep this(2) assms(2) this(1)] Add_Fits assms(1,2) show ?thesis
    by (simp add: added_def)
next
  case (Add_Done T')
  with assms(1) repainted_step [OF rep _ assms(2,3)] show ?thesis by (simp add: added_def)
next
  case Add_Error
  with assms(1) show ?thesis by (simp add: added_def)
qed

lemma entry_ok_step:
  assumes "repainted STATUS_MASK FINISHED pos m a e rs rs1" "pos < m"
  shows "entry_ok m z rs1"
  using assms starts_or_finished [of a rs1 e _ m]
  by (auto simp: entry_ok_def repainted_def)

lemma add_loop_added:
  "table_ok T \<Longrightarrow> tiles a (lines T) e \<Longrightarrow> no_twins (lines T) \<Longrightarrow> a \<le> pos \<Longrightarrow> 0 < sz \<Longrightarrow> pos + sz \<le> e \<Longrightarrow>
   entry_ok pos sz (lines T) \<Longrightarrow> added pos (pos + sz) a e T (add_loop pos sz c T)"
proof (induction pos sz c T rule: add_loop.induct)
  case (1 pos sz c T)
  note ok = "1.prems"(1) and t = "1.prems"(2) and tw = "1.prems"(3) and rng = "1.prems"(4-6)
  from rng have "pos < e" by simp
  then obtain pre r post where sp: "lines T = pre @ r # post"
      "find_domain_block pos T = int (length pre)" "covers r pos"
    using find_block_split [OF t rng(1)] by (metis domain_ops_eq(3))
  have r: "lines T ! length pre = r" and mem: "r \<in> set (lines T)" by (simp_all add: sp)
  have cov: "lposition r \<le> pos" "pos < lposition r + lsize r" using sp(3) by (simp_all add: covers_def)
  let ?E = "lposition r + lsize r"
  have eq: "add_loop pos sz c T =
      (if pos + sz \<le> ?E then (if finished_line r then Add_Done T else Add_Fits (length pre) pos sz T)
       else if pos = lposition r then add_loop (pos + lsize r) (sz - lsize r) True (take_block (length pre) T)
       else add_loop (pos + (?E - pos)) (sz - (?E - pos)) True (enter_block (length pre) pos T))"
    using cov by (subst add_loop.simps) (auto simp: Let_def sp(2) r)
  note IH = "1.IH" [OF refl refl refl, unfolded sp(2) nat_int r]
  consider (fits) "pos + sz \<le> ?E" | (start) "?E < pos + sz" "pos = lposition r"
    | (mid) "?E < pos + sz" "lposition r < pos" using cov by linarith
  then show ?case
  proof cases
    case fits
    show ?thesis
    proof (cases "finished_line r")
      case True
      with fits cov repainted_finished_row [OF t mem True cov(1) fits] ok show ?thesis
        by (simp add: eq added_def)
    next
      case False
      with fits cov ok rng(2) t show ?thesis by (auto simp: eq added_def repainted_def sp(1))
    qed
  next
    case start
    let ?T = "take_block (length pre) T"
    from take_block_repaints [OF ok sp(1) t tw] have
      tb: "table_ok ?T" "no_twins (lines ?T)" and rep: "repainted STATUS_MASK FINISHED pos ?E a e (lines T) (lines ?T)"
      by (simp_all add: start(2))
    from rep have t1: "tiles a (lines ?T) e" by (simp add: repainted_def)
    have "added (pos + lsize r) (pos + lsize r + (sz - lsize r)) a e ?T
        (add_loop (pos + lsize r) (sz - lsize r) True ?T)"
      by (rule IH(1)) (use start cov rng tb t1 entry_ok_step [OF rep] in auto)
    then have "added ?E (pos + sz) a e ?T (add_loop pos sz c T)"
      unfolding eq using start by simp
    from added_step [OF this _ _ rep] cov start(1) show ?thesis by simp
  next
    case mid
    then have fin: "finished_line r"
      using "1.prems"(7) mem sp(3) by (auto simp: entry_ok_def)
    have "\<not> (length pre < total_lines T - 1 \<and> finished_line (lines T ! (length pre + 1)))"
      using tw fin by (cases post) (auto simp: sp(1) no_twins_simps nth_append)
    then have T: "enter_block (length pre) pos T = T" unfolding enter_block_def by (rule if_not_P)
    have rep: "repainted STATUS_MASK FINISHED pos ?E a e (lines T) (lines T)"
      by (rule repainted_finished_row [OF t mem fin cov(1) order_refl])
    have "added (pos + (?E - pos)) (pos + (?E - pos) + (sz - (?E - pos))) a e T
        (add_loop (pos + (?E - pos)) (sz - (?E - pos)) True T)"
      by (rule IH(2) [OF _ _ _ _ refl, unfolded T]) (use mid cov rng ok t tw entry_ok_step [OF rep] in auto)
    then have "added ?E (pos + sz) a e T (add_loop pos sz c T)" unfolding eq using mid by (simp add: T algebra_simps)
    from added_step [OF this _ _ rep] cov mid(1) show ?thesis by simp
  qed
qed

text \<open>
  C33: adding a range to the domain refines the union of the range with the finished sectors of
  the domain.  The range must enter its first block at the start, or in a finished block, or lie
  within it; otherwise the domain may be any that tiles the drive without finished neighbours.
\<close>

theorem add_to_domain_refines:
  assumes "table_ok (domain_table s)" "tiles a (lines (domain_table s)) e"
    and "no_twins (lines (domain_table s))" "a \<le> pos" "0 < sz" "pos + sz \<le> e"
    and "entry_ok pos sz (lines (domain_table s))"
    and "add_to_domain upd_ret pos sz s = (ret, s')"
  shows "(ret = 0 \<or> ret = upd_ret) \<and> \<not> critical_process s' \<and> table_ok (domain_table s') \<and>
    tiles a (lines (domain_table s')) e \<and> log_table s' = log_table s \<and>
    (\<forall>x. masked_at STATUS_MASK (lines (domain_table s')) x =
      (if pos \<le> x \<and> x < pos + sz then Some (FINISHED AND STATUS_MASK)
       else masked_at STATUS_MASK (lines (domain_table s)) x))"
proof (cases "add_loop pos sz (critical_process s) (domain_table s)")
  case (Add_Error c T)
  with add_loop_added [OF assms(1-7), of "critical_process s"] show ?thesis by (simp add: added_def)
next
  case (Add_Done T)
  with add_loop_added [OF assms(1-7), of "critical_process s"] assms(8) show ?thesis
    by (auto simp: added_def add_to_domain_def repainted_def)
next
  case (Add_Fits b p z T)
  from add_loop_added [OF assms(1-7), of "critical_process s"] obtain pre r post where
    T: "table_ok T" "lines T = pre @ r # post" "b = length pre" "lposition r \<le> p"
      "p + z \<le> lposition r + lsize r" "pos \<le> p" "p + z = pos + sz" "0 < z"
    and rep: "repainted STATUS_MASK FINISHED pos p a e (lines (domain_table s)) (lines T)"
    unfolding added_def Add_Fits by auto
  from rep have t: "tiles a (lines T) e" by (simp add: repainted_def)
  let ?T = "mark_chunk insert_domain_line delete_domain_line b p z FINISHED STATUS_MASK T"
  note m = domain_arrays.mark_chunk_repaints [OF T(1,2) t T(3,8,4,5), of FINISHED STATUS_MASK]
  from m have "repainted STATUS_MASK FINISHED p (pos + sz) a e (lines T) (lines ?T)" by (simp add: T(7))
  with repainted_step [OF rep this] T have "repainted STATUS_MASK FINISHED pos (pos + sz) a e
      (lines (domain_table s)) (lines ?T)" by simp
  moreover have "ret = upd_ret \<and> s' = s\<lparr>domain_table := ?T, critical_process := False, domainfile_changed := True\<rparr>"
    using assms(8) by (simp add: add_to_domain_def mark_domain_chunk_def Add_Fits)
  ultimately show ?thesis using m by (simp add: repainted_def)
qed

definition demo_domain :: "row list" where
  "demo_domain = [mk_row 0 20 NONTRIED, mk_row 20 10 FINISHED, mk_row 30 70 NONTRIED]"

lemma add_to_domain_refines_witness:
  "masked_at STATUS_MASK (lines (domain_table (snd (add_to_domain 0 25 15 (demo_maps [] demo_domain))))) 35 = Some 0x7f"
proof -
  let ?s = "demo_maps [] demo_domain"
  have "table_ok (domain_table ?s)" "tiles 0 (lines (domain_table ?s)) 100"
    "no_twins (lines (domain_table ?s))" "entry_ok 25 15 (lines (domain_table ?s))"
    by (simp_all add: demo_domain_def demo_table_ok no_twins_def entry_ok_def covers_def finished_line_def
        status_consts)
  from add_to_domain_refines [OF this(1-3) _ _ _ this(4) prod.collapse [symmetric], of 0]
  show ?thesis by (simp add: status_consts)
qed

text \<open>
  A range that enters an unfinished block in the middle and leaves it: when the block behind
  is not finished, the part of the range inside the entered block is dropped (and only the rest
  is added).
\<close>

theorem add_to_domain_drops_part:
  assumes "table_ok (domain_table s)" "lines (domain_table s) = [r, q]" "tiles a [r, q] e"
    and "\<not> finished_line r" "\<not> finished_line q"
    and "lposition r < pos" "pos < lposition q" "lposition q < pos + sz" "pos + sz < e"
    and "add_to_domain upd_ret pos sz s = (ret, s')"
  shows "lines (domain_table s') = [r, mk_row (lposition q) (pos + sz - lposition q) FINISHED,
      mk_row (pos + sz) (e - (pos + sz)) (lstatus q)]"
proof -
  let ?T = "domain_table s"
  have q: "lposition q = lposition r + lsize r" "e = lposition q + lsize q" using assms(3) by auto
  have sp: "spaced a (lines ?T)" using tiles_spaced [OF assms(3)] by (simp add: assms(2))
  have f0: "find_domain_block pos ?T = 0"
    using find_block_hit [OF sp, of 0] assms(2,6,7) q by (simp add: domain_ops_eq covers_def)
  have f1: "find_domain_block (lposition q) ?T = 1"
    using find_block_hit [OF sp, of 1] assms(2,7,8,9) q by (simp add: domain_ops_eq covers_def)
  have "enter_block 0 pos ?T = ?T" using assms(2,5) by (simp add: enter_block_def)
  then have "add_loop pos sz c ?T = add_loop (lposition q) (sz - (lposition q - pos)) True ?T" for c
    using f0 assms(2,6-8) q by (subst add_loop.simps) (simp add: Let_def)
  also have "add_loop (lposition q) (sz - (lposition q - pos)) True ?T =
      Add_Fits 1 (lposition q) (sz - (lposition q - pos)) ?T"
    using f1 assms(2,5,7-9) q by (subst add_loop.simps) (simp add: Let_def)
  finally have loop: "add_loop pos sz c ?T = Add_Fits 1 (lposition q) (sz - (lposition q - pos)) ?T" for c .
  have ins: "lines (snd (insert_domain_line 2 p z st ?T)) = [r, q, mk_row p z st]" for p z st
    using insert_line_ok [OF assms(1), of 2 p z st] assms(2) by (simp add: domain_ops_eq insert_row_def)
  have "mark_chunk insert_domain_line delete_domain_line 1 (lposition q) (sz - (lposition q - pos)) FINISHED STATUS_MASK ?T =
      upd_line 1 (\<lambda>r. mk_row (lposition q) (sz - (lposition q - pos)) FINISHED)
        (snd (insert_domain_line 2 (pos + sz) (e - (pos + sz)) (lstatus q) ?T))"
    using assms(2,4,5,7-9) q
    by (simp add: mark_chunk_def mark_front_def finished_line_def numeral_2_eq_2 algebra_simps)
  with loop assms(10) show ?thesis
    by (auto simp: add_to_domain_def mark_domain_chunk_def ins upd_row_def algebra_simps)
qed

lemma add_to_domain_drops_part_witness:
  "masked_at STATUS_MASK (lines (domain_table (snd (add_to_domain 0 10 20
     (demo_maps [] [mk_row 0 20 NONTRIED, mk_row 20 80 NONTRIMMED]))))) 15 = Some 0"
proof -
  let ?s = "demo_maps [] [mk_row 0 20 NONTRIED, mk_row 20 80 NONTRIMMED]"
  have "table_ok (domain_table ?s)" "tiles 0 [mk_row 0 20 NONTRIED, mk_row 20 80 NONTRIMMED] 100"
    "\<not> finished_line (mk_row 0 20 NONTRIED)" "\<not> finished_line (mk_row 20 80 NONTRIMMED)"
    by (simp_all add: demo_table_ok finished_line_def status_consts)
  from add_to_domain_drops_part [of ?s, OF this(1) _ this(2-4), of 10 20 0 _ "snd (add_to_domain 0 10 20 ?s)"]
  have "lines (domain_table (snd (add_to_domain 0 10 20 ?s))) =
     [mk_row 0 20 NONTRIED, mk_row 20 10 FINISHED, mk_row 30 70 NONTRIMMED]"
    by (simp add: prod_eq_iff)
  then show ?thesis by (simp add: covers_def status_consts)
qed

end
