(* ===== verification/Domain_Chunk.thy ===== *)
theory Domain_Chunk
  imports Domain
begin

text \<open>
  Restricting a read to the domain: \<open>process_domain_ccc\<close> picks the part of a chunk that lies in
  a line of the domain of the wanted status, \<open>domain_size_adjustment_ccc\<close> widens a small part,
  \<open>get_domain_status_ccc\<close> sums the domain up by status.
\<close>

section \<open>The part of a chunk that is in the domain\<close>

definition touches :: "int \<Rightarrow> int \<Rightarrow> row \<Rightarrow> bool" where
  "touches pos sz r \<longleftrightarrow>
     (pos \<ge> lposition r \<and> pos < lposition r + lsize r) \<or> (lposition r \<ge> pos \<and> lposition r < pos + sz)"

function domain_search :: "row list \<Rightarrow> int \<Rightarrow> int \<Rightarrow> int \<Rightarrow> int \<Rightarrow> nat option" where
  "domain_search rs pos sz first' last' =
     (if first' \<le> last' then
        let middle = cdiv (first' + last') 2; r = rs ! nat middle in
        if touches pos sz r then Some (nat middle)
        else if pos > lposition r then domain_search rs pos sz (middle + 1) last'
        else domain_search rs pos sz first' (middle - 1)
      else None)"
  by pat_completeness auto
termination
  by (relation "measure (\<lambda>(_, _, _, f, l). nat (l - f + 1))")
     (use cdiv_mid_bounds in \<open>fastforce simp: Let_def\<close>)+

declare domain_search.simps [simp del]

definition wanted :: "status_word \<Rightarrow> status_word \<Rightarrow> row \<Rightarrow> bool" where
  "wanted st msk r \<longleftrightarrow> lstatus r AND msk = st"

text \<open>
  The four scans from the line found, towards line 0 and towards the last line; \<open>stop\<close> is the
  \<open>break\<close> at the first match of the second scan of each pair.
\<close>

fun scan_down :: "bool \<Rightarrow> row list \<Rightarrow> int \<Rightarrow> int \<Rightarrow> status_word \<Rightarrow> status_word \<Rightarrow> nat \<Rightarrow> nat option \<Rightarrow> nat option" where
  "scan_down stop rs pos sz st msk 0 best = best"
| "scan_down stop rs pos sz st msk (Suc i) best =
     (if touches pos sz (rs ! i) then
        if wanted st msk (rs ! i)
        then if stop then Some i else scan_down stop rs pos sz st msk i (Some i)
        else scan_down stop rs pos sz st msk i best
      else best)"

fun scan_up :: "bool \<Rightarrow> row list \<Rightarrow> int \<Rightarrow> int \<Rightarrow> status_word \<Rightarrow> status_word \<Rightarrow> nat \<Rightarrow> nat \<Rightarrow> nat option \<Rightarrow> nat option" where
  "scan_up stop rs pos sz st msk 0 i best = best"
| "scan_up stop rs pos sz st msk (Suc n) i best =
     (if touches pos sz (rs ! i) then
        if wanted st msk (rs ! i)
        then if stop then Some i else scan_up stop rs pos sz st msk n (i + 1) (Some i)
        else scan_up stop rs pos sz st msk n (i + 1) best
      else best)"

definition best_forward :: "row list \<Rightarrow> int \<Rightarrow> int \<Rightarrow> status_word \<Rightarrow> status_word \<Rightarrow> nat \<Rightarrow> nat" where
  "best_forward rs pos sz st msk middle =
     (case scan_down False rs pos sz st msk middle None of
        Some b \<Rightarrow> b
      | None \<Rightarrow> (case scan_up True rs pos sz st msk (length rs - 1 - middle) (middle + 1) None of
          Some b \<Rightarrow> b | None \<Rightarrow> middle))"

definition best_reverse :: "row list \<Rightarrow> int \<Rightarrow> int \<Rightarrow> status_word \<Rightarrow> status_word \<Rightarrow> nat \<Rightarrow> nat" where
  "best_reverse rs pos sz st msk middle =
     (case scan_up False rs pos sz st msk (length rs - 1 - middle) (middle + 1) None of
        Some b \<Rightarrow> b
      | None \<Rightarrow> (case scan_down True rs pos sz st msk middle None of
          Some b \<Rightarrow> b | None \<Rightarrow> middle))"

definition best_domain :: "bool \<Rightarrow> row list \<Rightarrow> int \<Rightarrow> int \<Rightarrow> status_word \<Rightarrow> status_word \<Rightarrow> nat \<Rightarrow> nat" where
  "best_domain forward rs pos sz st msk middle =
     (if forward then best_forward rs pos sz st msk middle else best_reverse rs pos sz st msk middle)"

definition clip_to_line :: "int \<Rightarrow> int \<Rightarrow> row \<Rightarrow> 'a domain_env_scheme \<Rightarrow> int \<times> 'a domain_env_scheme" where
  "clip_to_line pos sz r s =
     (let domain_end = lposition r + lsize r in
      if pos \<ge> lposition r \<and> pos < domain_end
      then (if domain_end < pos + sz then domain_end - pos else sz, s)
      else if lposition r \<ge> pos \<and> domain_end \<le> pos + sz
      then (lsize r, s\<lparr>current_position := lposition r\<rparr>)
      else if pos + sz > lposition r \<and> pos + sz \<le> domain_end
      then (pos + sz - lposition r, s\<lparr>current_position := lposition r\<rparr>)
      else (INTERNAL_ERROR_RETURN_CODE, s))"

definition forward_pass :: "'a domain_env_scheme \<Rightarrow> bool" where
  "forward_pass s \<longleftrightarrow>
     (\<not> reverse s \<and> current_status s \<noteq> PHASE2) \<or> (reverse s \<and> current_status s = PHASE2)"

definition process_domain ::
  "int \<Rightarrow> int \<Rightarrow> status_word \<Rightarrow> status_word \<Rightarrow> 'a domain_env_scheme \<Rightarrow> int \<times> 'a domain_env_scheme" where
  "process_domain pos sz st msk s =
     (if \<not> do_domain s then (sz, s)
      else let rs = lines (domain_table s) in
      case domain_search rs pos sz 0 (int (length rs) - 1) of
        None \<Rightarrow> (0, s)
      | Some middle \<Rightarrow>
          let r = rs ! middle in
          if pos \<ge> lposition r \<and> pos + sz < lposition r + lsize r
          then if wanted st msk r then (sz, s) else (0, s)
          else
            let r = rs ! best_domain (forward_pass s) rs pos sz st msk middle
            in if wanted st msk r then clip_to_line pos sz r s else (0, s))"

definition domain_size_adjustment :: "int \<Rightarrow> int \<Rightarrow> 'a domain_env_scheme \<Rightarrow> int" where
  "domain_size_adjustment original requested s =
     (if do_domain s then
        if requested > 0 \<and> requested < original \<and> requested < driver_minimum_cluster_size s then
          let n1 = driver_minimum_cluster_size s;
              n2 = (if n1 > original then original else n1);
              n3 = (if current_position s + n2 > end_position s then end_position s - current_position s else n2);
              b = find_block (current_position s) (log_table s)
          in if b = -1 then requested
             else
               let r = lines (log_table s) ! nat b; block_end = lposition r + lsize r;
                   n4 = (if block_end < current_position s + n3 then block_end - current_position s else n3)
               in if n4 \<le> 0 \<or> n4 > original then requested else n4
        else requested
      else requested)"

section \<open>The part is in the domain\<close>

lemma touches_iff:
  "0 < lsize r \<Longrightarrow> 0 < sz \<Longrightarrow> touches pos sz r \<longleftrightarrow> lposition r < pos + sz \<and> pos < lposition r + lsize r"
  by (auto simp: touches_def)

lemma domain_search_found:
  "domain_search rs pos sz f l = Some m \<Longrightarrow> 0 \<le> f \<Longrightarrow> f \<le> int m \<and> int m \<le> l \<and> touches pos sz (rs ! m)"
proof (induction rs pos sz f l rule: domain_search.induct)
  case (1 rs pos sz f l)
  define m' where "m' = cdiv (f + l) 2"
  define r where "r = rs ! nat m'"
  have fl: "f \<le> l"
    using "1.prems"(1) by (subst (asm) domain_search.simps) (auto split: if_splits)
  then have mb: "f \<le> m'" "m' \<le> l" unfolding m'_def using cdiv_mid_bounds [of f l] by auto
  have eq: "Some m = (if touches pos sz r then Some (nat m')
      else if pos > lposition r then domain_search rs pos sz (m' + 1) l else domain_search rs pos sz f (m' - 1))"
    using "1.prems"(1) fl unfolding m'_def r_def by (subst (asm) domain_search.simps) (simp add: Let_def)
  show ?case
  proof (cases "touches pos sz r")
    case True
    with eq mb "1.prems"(2) show ?thesis by (simp add: r_def)
  next
    case no: False
    show ?thesis
    proof (cases "pos > lposition r")
      case True
      with eq no have "domain_search rs pos sz (m' + 1) l = Some m" by simp
      from "1.IH"(1) [OF fl m'_def r_def no True this] mb "1.prems"(2) show ?thesis by simp
    next
      case False
      with eq no have "domain_search rs pos sz f (m' - 1) = Some m" by simp
      from "1.IH"(2) [OF fl m'_def r_def no False this] mb "1.prems"(2) show ?thesis by simp
    qed
  qed
qed

lemma domain_search_complete:
  "spaced a rs \<Longrightarrow> 0 < sz \<Longrightarrow> touches pos sz (rs ! i) \<Longrightarrow> f \<le> int i \<Longrightarrow> int i \<le> l \<Longrightarrow> 0 \<le> f \<Longrightarrow>
   l < int (length rs) \<Longrightarrow> domain_search rs pos sz f l \<noteq> None"
proof (induction rs pos sz f l rule: domain_search.induct)
  case (1 rs pos sz f l)
  note sp = "1.prems"(1) and sz = "1.prems"(2) and tch = "1.prems"(3) and rng = "1.prems"(4-7)
  define m' where "m' = cdiv (f + l) 2"
  define r where "r = rs ! nat m'"
  have fl: "f \<le> l" using rng by simp
  then have mb: "f \<le> m'" "m' \<le> l" "0 \<le> m'" "nat m' < length rs"
    unfolding m'_def using cdiv_mid_bounds [of f l] rng by auto
  have i: "i < length rs" using rng by simp
  have size: "0 < lsize r" "0 < lsize (rs ! i)"
    using spaced_nth_size [OF sp mb(4)] spaced_nth_size [OF sp i] by (simp_all add: r_def)
  have ti: "lposition (rs ! i) < pos + sz" "pos < lposition (rs ! i) + lsize (rs ! i)"
    using tch by (simp_all add: touches_iff [OF size(2) sz])
  have eq: "domain_search rs pos sz f l = (if touches pos sz r then Some (nat m')
      else if pos > lposition r then domain_search rs pos sz (m' + 1) l else domain_search rs pos sz f (m' - 1))"
    using fl unfolding m'_def r_def by (subst domain_search.simps) (simp add: Let_def)
  show ?case
  proof (cases "touches pos sz r")
    case True
    with eq show ?thesis by simp
  next
    case no: False
    with tch have ne: "m' \<noteq> int i" by (auto simp: r_def)
    show ?thesis
    proof (cases "pos > lposition r")
      case True
      with no size(1) sz have r: "lposition r + lsize r \<le> pos" by (auto simp: touches_iff)
      have "\<not> int i < m'"
      proof
        assume "int i < m'"
        then have "lposition (rs ! i) + lsize (rs ! i) \<le> lposition r"
          unfolding r_def by (intro spaced_nth [OF sp _ mb(4)]) linarith
        with ti(2) True show False by simp
      qed
      with ne have "m' + 1 \<le> int i" by simp
      from "1.IH"(1) [OF fl m'_def r_def no True sp sz tch this rng(2) _ rng(4)] mb(3) no True
      show ?thesis by (simp add: eq)
    next
      case False
      with no size(1) sz have r: "pos + sz \<le> lposition r" by (auto simp: touches_iff)
      have "\<not> m' < int i"
      proof
        assume "m' < int i"
        then have "lposition r + lsize r \<le> lposition (rs ! i)"
          unfolding r_def by (intro spaced_nth [OF sp _ i]) (use mb(3) in linarith)
        with ti(1) r size(1) show False by simp
      qed
      with ne have "int i \<le> m' - 1" by simp
      from "1.IH"(2) [OF fl m'_def r_def no False sp sz tch rng(1) this rng(3)] mb(2) rng(4) no False
      show ?thesis by (simp add: eq)
    qed
  qed
qed

lemma touches_between:
  assumes "spaced a rs" "0 < sz" "i \<le> k" "k \<le> j" "j < length rs"
    and "touches pos sz (rs ! i)" "touches pos sz (rs ! j)"
  shows "touches pos sz (rs ! k)"
proof -
  have i: "pos < lposition (rs ! i) + lsize (rs ! i)" and j: "lposition (rs ! j) < pos + sz"
    using assms spaced_nth_size [OF assms(1)] by (simp_all add: touches_iff)
  have k: "0 < lsize (rs ! k)" using assms spaced_nth_size [OF assms(1)] by simp
  have "i = k \<or> lposition (rs ! i) + lsize (rs ! i) \<le> lposition (rs ! k)"
    using assms spaced_nth [OF assms(1), of i k] by linarith
  moreover have "k = j \<or> lposition (rs ! k) + lsize (rs ! k) \<le> lposition (rs ! j)"
    using assms spaced_nth [OF assms(1), of k j] by linarith
  moreover have "0 < lsize (rs ! i)" "0 < lsize (rs ! j)"
    using assms spaced_nth_size [OF assms(1)] by simp_all
  ultimately show ?thesis using i j k assms(2) by (auto simp: touches_iff)
qed

lemma scan_down_sound:
  "scan_down stop rs pos sz st msk n best = Some i \<Longrightarrow>
   best = Some i \<or> i < n \<and> touches pos sz (rs ! i) \<and> wanted st msk (rs ! i)"
  by (induction n arbitrary: best) (auto split: if_splits simp: less_Suc_eq)

lemma scan_down_keeps: "scan_down stop rs pos sz st msk n (Some b) \<noteq> None"
  by (induction n arbitrary: b) auto

lemma scan_down_complete:
  "scan_down stop rs pos sz st msk n best = None \<Longrightarrow> i < n \<Longrightarrow>
   (\<And>k. i \<le> k \<Longrightarrow> k < n \<Longrightarrow> touches pos sz (rs ! k)) \<Longrightarrow> \<not> wanted st msk (rs ! i)"
proof (induction n)
  case (Suc n)
  have "touches pos sz (rs ! n)" using Suc.prems(2,3) by simp
  with Suc.prems(1) have n: "\<not> wanted st msk (rs ! n)" "scan_down stop rs pos sz st msk n best = None"
    by (auto simp: scan_down_keeps split: if_splits)
  show ?case
  proof (cases "i = n")
    case False
    with Suc.prems(2,3) show ?thesis by (intro Suc.IH [OF n(2)]) auto
  qed (use n in simp)
qed simp

lemma scan_up_sound:
  "scan_up stop rs pos sz st msk n j best = Some i \<Longrightarrow>
   best = Some i \<or> j \<le> i \<and> i < j + n \<and> touches pos sz (rs ! i) \<and> wanted st msk (rs ! i)"
  by (induction n arbitrary: j best) (fastforce split: if_splits)+

lemma scan_up_keeps: "scan_up stop rs pos sz st msk n j (Some b) \<noteq> None"
  by (induction n arbitrary: j b) auto

lemma scan_up_complete:
  "scan_up stop rs pos sz st msk n j best = None \<Longrightarrow> j \<le> i \<Longrightarrow> i < j + n \<Longrightarrow>
   (\<And>k. j \<le> k \<Longrightarrow> k \<le> i \<Longrightarrow> touches pos sz (rs ! k)) \<Longrightarrow> \<not> wanted st msk (rs ! i)"
proof (induction n arbitrary: j)
  case (Suc n)
  have "touches pos sz (rs ! j)" using Suc.prems(2,4) by simp
  with Suc.prems(1) have j: "\<not> wanted st msk (rs ! j)" "scan_up stop rs pos sz st msk n (Suc j) best = None"
    by (auto simp: scan_up_keeps split: if_splits)
  show ?case
  proof (cases "i = j")
    case False
    with Suc.prems(2-4) show ?thesis by (intro Suc.IH [OF j(2)]) auto
  qed (use j in simp)
qed simp

lemma best_domain_wanted:
  assumes sp: "spaced a rs" and sz: "0 < sz" and m: "m < length rs" "touches pos sz (rs ! m)"
    and b: "b = best_domain f rs pos sz st msk m"
  shows "b < length rs \<and> touches pos sz (rs ! b) \<and>
    (wanted st msk (rs ! b) \<or> (\<forall>i < length rs. touches pos sz (rs ! i) \<longrightarrow> \<not> wanted st msk (rs ! i)))"
proof -
  let ?down = "\<lambda>stop. scan_down stop rs pos sz st msk m None"
  let ?up = "\<lambda>stop. scan_up stop rs pos sz st msk (length rs - 1 - m) (m + 1) None"
  have down: "i < length rs \<and> touches pos sz (rs ! i) \<and> wanted st msk (rs ! i)" if "?down stop = Some i" for stop i
    using scan_down_sound [OF that] m by simp
  have up: "i < length rs \<and> touches pos sz (rs ! i) \<and> wanted st msk (rs ! i)" if "?up stop = Some i" for stop i
    using scan_up_sound [OF that] m by auto
  have none: "\<not> wanted st msk (rs ! i)"
    if "?down d = None" "?up u = None" "i < length rs" "touches pos sz (rs ! i)" "i \<noteq> m" for d u i
  proof (cases "i < m")
    case True
    show ?thesis
      by (rule scan_down_complete [OF that(1) True])
         (rule touches_between [OF sp sz _ _ m(1) that(4) m(2)], auto)
  next
    case False
    show ?thesis
      by (rule scan_up_complete [OF that(2)])
         (use False that m in \<open>auto intro: touches_between [OF sp sz _ _ that(3) m(2) that(4)]\<close>)
  qed
  have middle: ?thesis if "b = m" "?down d = None" "?up u = None" for d u
    using none [OF that(2,3)] m that(1) by blast
  show ?thesis
  proof (cases f)
    case True
    show ?thesis
    proof (cases "?down False")
      case None
      show ?thesis
      proof (cases "?up True")
        case u: None
        then have "b = m" using b True None by (simp add: best_domain_def best_forward_def best_reverse_def)
        with middle None u show ?thesis by blast
      next
        case (Some i)
        with up [OF this] b True None show ?thesis by (simp add: best_domain_def best_forward_def best_reverse_def)
      qed
    next
      case (Some i)
      with down [OF this] b True show ?thesis by (simp add: best_domain_def best_forward_def best_reverse_def)
    qed
  next
    case False
    show ?thesis
    proof (cases "?up False")
      case None
      show ?thesis
      proof (cases "?down True")
        case d: None
        then have "b = m" using b False None by (simp add: best_domain_def best_forward_def best_reverse_def)
        with middle None d show ?thesis by blast
      next
        case (Some i)
        with down [OF this] b False None show ?thesis by (simp add: best_domain_def best_forward_def best_reverse_def)
      qed
    next
      case (Some i)
      with up [OF this] b False show ?thesis by (simp add: best_domain_def best_forward_def best_reverse_def)
    qed
  qed
qed

lemma spaced_masked_at:
  assumes "spaced a rs"
  shows "masked_at msk rs x = Some st \<longleftrightarrow> (\<exists>i < length rs. covers (rs ! i) x \<and> wanted st msk (rs ! i))"
proof -
  have "status_at rs x = Some u \<longleftrightarrow> (\<exists>i < length rs. covers (rs ! i) x \<and> lstatus (rs ! i) = u)" for u
    using assms
  proof (induction rs arbitrary: a)
    case (Cons r rs)
    have "\<not> covers q x" if "covers r x" "q \<in> set rs" for q
      using spaced_mem [of "lposition r + lsize r" rs q] Cons.prems that by (auto simp: covers_def)
    with Cons show ?case by (auto simp: Ex_less_Suc2 in_set_conv_nth)
  qed simp
  then show ?thesis by (auto simp: masked_at_def wanted_def)
qed

lemma clip_to_line_part:
  assumes "touches pos sz r" "0 < sz" "0 < lsize r" "pos = current_position s"
  shows "\<exists>p n. clip_to_line pos sz r s = (n, s\<lparr>current_position := p\<rparr>) \<and> 0 < n \<and> pos \<le> p \<and> p + n \<le> pos + sz \<and>
    lposition r \<le> p \<and> p + n \<le> lposition r + lsize r"
proof -
  have t: "lposition r < pos + sz" "pos < lposition r + lsize r"
    using assms by (simp_all add: touches_iff)
  have same: "s = s\<lparr>current_position := pos\<rparr>" by (simp add: assms(4))
  show ?thesis
  proof (cases "lposition r \<le> pos")
    case True
    with t assms(2) show ?thesis
      by (intro exI [of _ pos] exI [of _ "if lposition r + lsize r < pos + sz then lposition r + lsize r - pos else sz"])
         (auto simp: clip_to_line_def Let_def assms(4))
  next
    case False
    with t assms(3) show ?thesis by (auto simp: clip_to_line_def Let_def)
  qed
qed

lemma process_domain_part_rule:
  assumes "do_domain s" "spaced a (lines (domain_table s))" "0 < sz"
    and "process_domain (current_position s) sz st msk s = (ret, s')"
  shows "\<exists>p. s' = s\<lparr>current_position := p\<rparr> \<and> 0 \<le> ret \<and> current_position s \<le> p \<and>
    p + ret \<le> current_position s + sz \<and>
    (\<forall>x. p \<le> x \<and> x < p + ret \<longrightarrow> masked_at msk (lines (domain_table s)) x = Some st) \<and>
    (ret = 0 \<longleftrightarrow> (\<forall>x. current_position s \<le> x \<and> x < current_position s + sz \<longrightarrow>
       masked_at msk (lines (domain_table s)) x \<noteq> Some st)) \<and> (ret = 0 \<longrightarrow> s' = s)"
proof -
  let ?rs = "lines (domain_table s)" and ?pos = "current_position s"
  note sp = assms(2)
  have same: "s\<lparr>current_position := ?pos\<rparr> = s" by simp
  have none: ?thesis if "ret = 0" "s' = s" "\<forall>i < length ?rs. touches ?pos sz (?rs ! i) \<longrightarrow> \<not> wanted st msk (?rs ! i)"
  proof -
    have "masked_at msk ?rs x \<noteq> Some st" if "?pos \<le> x" "x < ?pos + sz" for x
    proof
      assume "masked_at msk ?rs x = Some st"
      then obtain i where i: "i < length ?rs" "covers (?rs ! i) x" "wanted st msk (?rs ! i)"
        using spaced_masked_at [OF sp] by blast
      then have "touches ?pos sz (?rs ! i)" using \<open>?pos \<le> x\<close> \<open>x < ?pos + sz\<close> by (auto simp: touches_def covers_def)
      with i \<open>\<forall>i < length ?rs. _\<close> show False by blast
    qed
    with that assms(3) show ?thesis by (intro exI [of _ ?pos]) auto
  qed
  have part: ?thesis if "s' = s\<lparr>current_position := p\<rparr>" "0 < ret" "?pos \<le> p" "p + ret \<le> ?pos + sz"
    "i < length ?rs" "wanted st msk (?rs ! i)" "lposition (?rs ! i) \<le> p" "p + ret \<le> lposition (?rs ! i) + lsize (?rs ! i)"
    for p i
  proof -
    have in_dom: "masked_at msk ?rs x = Some st" if "p \<le> x" "x < p + ret" for x
      using spaced_masked_at [OF sp, of msk x st] that \<open>i < length ?rs\<close> \<open>wanted st msk (?rs ! i)\<close>
        \<open>lposition (?rs ! i) \<le> p\<close> \<open>p + ret \<le> lposition (?rs ! i) + lsize (?rs ! i)\<close>
      by (auto simp: covers_def)
    moreover from in_dom [of p] that(2-4) have "\<not> (\<forall>x. ?pos \<le> x \<and> x < ?pos + sz \<longrightarrow> masked_at msk ?rs x \<noteq> Some st)"
      by force
    ultimately show ?thesis using that(1-4) by (intro exI [of _ p]) auto
  qed
  show ?thesis
  proof (cases "domain_search ?rs ?pos sz 0 (int (length ?rs) - 1)")
    case None
    then have "\<not> touches ?pos sz (?rs ! i)" if "i < length ?rs" for i
      using domain_search_complete [OF sp assms(3), of ?pos i 0] that by force
    moreover have "ret = 0" "s' = s" using assms(1,4) None by (simp_all add: process_domain_def)
    ultimately show ?thesis using none by blast
  next
    case (Some m)
    from domain_search_found [OF Some] have m: "m < length ?rs" "touches ?pos sz (?rs ! m)" by auto
    let ?r = "?rs ! m"
    show ?thesis
    proof (cases "?pos \<ge> lposition ?r \<and> ?pos + sz < lposition ?r + lsize ?r")
      case True
      then have eq: "(ret, s') = (if wanted st msk ?r then (sz, s) else (0, s))"
        using assms(1,4) Some by (simp add: process_domain_def Let_def)
      show ?thesis
      proof (cases "wanted st msk ?r")
        case w: True
        with eq True assms(3) m show ?thesis by (intro part [of ?pos m]) auto
      next
        case False
        have "i = m" if "i < length ?rs" "touches ?pos sz (?rs ! i)" for i
        proof (rule ccontr)
          assume "i \<noteq> m"
          then have "lposition (?rs ! i) + lsize (?rs ! i) \<le> lposition ?r \<or> lposition ?r + lsize ?r \<le> lposition (?rs ! i)"
            using spaced_nth [OF sp] that(1) m(1) by (metis linorder_neqE_nat)
          with True that touches_iff [OF spaced_nth_size [OF sp that(1)] assms(3)] show False by auto
        qed
        with eq False show ?thesis by (intro none) auto
      qed
    next
      case False
      define b where "b = best_domain (forward_pass s) ?rs ?pos sz st msk m"
      have eq: "(ret, s') = (if wanted st msk (?rs ! b) then clip_to_line ?pos sz (?rs ! b) s else (0, s))"
        using assms(1,4) Some False by (auto simp: process_domain_def Let_def b_def)
      note bd = best_domain_wanted [OF sp assms(3) m b_def]
      show ?thesis
      proof (cases "wanted st msk (?rs ! b)")
        case True
        from bd clip_to_line_part [of ?pos sz "?rs ! b" s] spaced_nth_size [OF sp] assms(3) obtain p n where
          "clip_to_line ?pos sz (?rs ! b) s = (n, s\<lparr>current_position := p\<rparr>)" "0 < n" "?pos \<le> p" "p + n \<le> ?pos + sz"
          "lposition (?rs ! b) \<le> p" "p + n \<le> lposition (?rs ! b) + lsize (?rs ! b)" by auto
        with eq True bd show ?thesis by (intro part [of p b]) auto
      next
        case False
        with eq bd show ?thesis by (intro none) auto
      qed
    qed
  qed
qed

text \<open>
  C36: what is read of a chunk.  On a domain without overlaps \<open>process_domain_ccc\<close> returns the size
  of a part of the chunk, from the current position it leaves, all of whose sectors have the
  wanted status; it returns 0 exactly when the chunk has no such sector, and never an error.
\<close>

theorem process_domain_part:
  assumes "do_domain s" "spaced a (lines (domain_table s))" "0 < sz"
    and "process_domain (current_position s) sz st msk s = (ret, s')"
  shows "\<exists>p. s' = s\<lparr>current_position := p\<rparr> \<and> 0 \<le> ret \<and> current_position s \<le> p \<and>
    p + ret \<le> current_position s + sz \<and>
    (\<forall>x. p \<le> x \<and> x < p + ret \<longrightarrow> masked_at msk (lines (domain_table s)) x = Some st) \<and>
    (ret = 0 \<longleftrightarrow> (\<forall>x. current_position s \<le> x \<and> x < current_position s + sz \<longrightarrow>
       masked_at msk (lines (domain_table s)) x \<noteq> Some st))"
  using process_domain_part_rule [OF assms] by blast

definition demo_domain_env :: "row list \<Rightarrow> row list \<Rightarrow> int \<Rightarrow> int \<Rightarrow> domain_env" where
  "demo_domain_env rs ds p n = \<lparr>log_table = demo_table rs, domain_table = demo_table ds,
     critical_process = False, logfile_changed = False, domainfile_changed = False,
     source_total_size = n, current_position = p, current_status = NONTRIED, importdd = False,
     repair_log = False, check_log_size = True, no_log_backup = False, total_skip_count = 0,
     total_skip_resets = 0, total_skip_runs = 0, total_slow_skips = 0, do_domain = True,
     reverse = False, driver_mode = 0, domain_status = FINISHED, start_position = 0,
     end_position = n, driver_minimum_cluster_size = 8\<rparr>"

lemma demo_domain_env_sel [simp]:
  "log_table (demo_domain_env rs ds p n) = demo_table rs" "domain_table (demo_domain_env rs ds p n) = demo_table ds"
  "current_position (demo_domain_env rs ds p n) = p" "do_domain (demo_domain_env rs ds p n)"
  "current_status (demo_domain_env rs ds p n) = NONTRIED" "\<not> reverse (demo_domain_env rs ds p n)"
  "end_position (demo_domain_env rs ds p n) = n" "driver_minimum_cluster_size (demo_domain_env rs ds p n) = 8"
  "source_total_size (demo_domain_env rs ds p n) = n" "driver_mode (demo_domain_env rs ds p n) = 0"
  "start_position (demo_domain_env rs ds p n) = 0" "domain_status (demo_domain_env rs ds p n) = FINISHED"
  by (simp_all add: demo_domain_env_def)

lemma process_domain_part_witness:
  "\<exists>p. snd (process_domain 0 40 FINISHED STATUS_MASK (demo_domain_env [] demo_domain 0 100)) =
      demo_domain_env [] demo_domain 0 100\<lparr>current_position := p\<rparr> \<and> 0 \<le> p"
proof -
  let ?s = "demo_domain_env [] demo_domain 0 100"
  have "spaced 0 (lines (domain_table ?s))" by (simp add: demo_domain_def)
  from process_domain_part [OF _ this, of 40 FINISHED STATUS_MASK
      "fst (process_domain 0 40 FINISHED STATUS_MASK ?s)" "snd (process_domain 0 40 FINISHED STATUS_MASK ?s)"]
  show ?thesis by auto
qed

lemma scan_up_unroll:
  "0 < n \<Longrightarrow> scan_up stop rs pos sz st msk n i best =
     (if touches pos sz (rs ! i) then
        if wanted st msk (rs ! i)
        then if stop then Some i else scan_up stop rs pos sz st msk (n - 1) (i + 1) (Some i)
        else scan_up stop rs pos sz st msk (n - 1) (i + 1) best
      else best)"
  by (cases n) simp_all

text \<open>
  The part that is picked is not always the first.  Going forward, with the binary search
  landing on a line of the wanted status that is the first of two in the chunk, the second one is
  picked, and the current position moves past the first.
\<close>

theorem process_domain_passes_over:
  assumes "domain_table s = demo_table [mk_row 0 10 NONTRIED, mk_row 10 2 FINISHED, mk_row 12 2 NONTRIED, mk_row 14 6 FINISHED]"
    and "do_domain s" "\<not> reverse s" "current_status s \<noteq> PHASE2"
  shows "process_domain 5 20 FINISHED STATUS_MASK s = (6, s\<lparr>current_position := 14\<rparr>) \<and>
    masked_at STATUS_MASK (lines (domain_table s)) 10 = Some FINISHED"
proof -
  let ?rs = "[mk_row 0 10 NONTRIED, mk_row 10 2 FINISHED, mk_row 12 2 NONTRIED, mk_row 14 6 FINISHED]"
  have "domain_search ?rs 5 20 0 3 = Some 1"
    by (subst domain_search.simps) (simp add: touches_def)
  moreover have "best_domain True ?rs 5 20 FINISHED STATUS_MASK 1 = 3"
    by (simp add: best_domain_def best_forward_def scan_up_unroll touches_def wanted_def status_consts)
  ultimately show ?thesis
    using assms
    by (simp add: process_domain_def forward_pass_def clip_to_line_def Let_def wanted_def covers_def status_consts)
qed

lemma process_domain_passes_over_witness:
  "fst (process_domain 5 20 FINISHED STATUS_MASK (demo_domain_env []
     [mk_row 0 10 NONTRIED, mk_row 10 2 FINISHED, mk_row 12 2 NONTRIED, mk_row 14 6 FINISHED] 5 20)) = 6"
  by (subst process_domain_passes_over [THEN conjunct1]) (simp_all add: PHASE2_def NONTRIED_def)

lemma domain_size_adjustment_bounds_rule:
  assumes "n = domain_size_adjustment original requested s" "n \<noteq> requested"
  shows "0 < n \<and> n \<le> original \<and> n \<le> driver_minimum_cluster_size s \<and> current_position s + n \<le> end_position s \<and>
    (\<exists>r \<in> set (lines (log_table s)). covers r (current_position s) \<and> current_position s + n \<le> lposition r + lsize r)"
proof -
  let ?b = "find_block (current_position s) (log_table s)"
  have b: "?b \<noteq> -1" and d: "do_domain s"
    using assms by (auto simp: domain_size_adjustment_def Let_def split: if_splits)
  note f = find_block_found [OF b]
  let ?r = "lines (log_table s) ! nat ?b"
  have "?r \<in> set (lines (log_table s))" "covers ?r (current_position s)" using f by auto
  moreover have "0 < n \<and> n \<le> original \<and> n \<le> driver_minimum_cluster_size s \<and>
      current_position s + n \<le> end_position s \<and> current_position s + n \<le> lposition ?r + lsize ?r"
    using assms b d by (auto simp: domain_size_adjustment_def Let_def split: if_splits)
  ultimately show ?thesis by blast
qed

text \<open>
  A part that is widened to the minimum cluster size stays within the original cluster, the
  recovery area and its block of the log; otherwise the size is the requested one.
\<close>

theorem domain_size_adjustment_bounds:
  assumes "n = domain_size_adjustment original requested s" "n \<noteq> requested"
  shows "0 < n \<and> n \<le> original \<and> n \<le> driver_minimum_cluster_size s \<and> current_position s + n \<le> end_position s \<and>
    (\<exists>r \<in> set (lines (log_table s)). covers r (current_position s) \<and> current_position s + n \<le> lposition r + lsize r)"
  using assms by (rule domain_size_adjustment_bounds_rule)

lemma domain_size_adjustment_bounds_witness:
  "domain_size_adjustment 128 2 (demo_domain_env demo_rows [] 50 100) \<le> 128"
proof -
  have "domain_size_adjustment 128 2 (demo_domain_env demo_rows [] 50 100) = 8"
    by (simp add: domain_size_adjustment_def find_block_def find_loop.simps demo_rows_def)
  with domain_size_adjustment_bounds [OF refl, of 128 2 "demo_domain_env demo_rows [] 50 100"] show ?thesis by simp
qed

end
