(* ===== verification/Log_Status.thy ===== *)
theory Log_Status
  imports Domain_Chunk
begin

text \<open>
  The sums that the display, the phases and the end condition work from: number and size of
  the lines of each status in the recovery area (\<open>get_log_status_ccc\<close>), and the same for the
  domain (\<open>get_domain_status_ccc\<close>).  The counters \<open>nontried_count_ccc\<close>,
  \<open>nontried_size_ccc\<close> and so on are one function of the category each.
\<close>

section \<open>Counters\<close>

datatype category = Nontried | Nontrimmed | Nondivided | Nonscraped | Error | Finished | Other

record tally =
  count_of :: "category \<Rightarrow> int"
  size_of :: "category \<Rightarrow> int"
  total_size :: int
  bad_head_count :: int
  bad_head_size :: int

definition no_tally :: tally where
  "no_tally = \<lparr>count_of = (\<lambda>_. 0), size_of = (\<lambda>_. 0), total_size = 0, bad_head_count = 0, bad_head_size = 0\<rparr>"

definition classify :: "status_word \<Rightarrow> status_word \<Rightarrow> category" where
  "classify msk st =
     (if st AND msk = NONTRIED AND msk then Nontried
      else if st AND msk = NONTRIMMED AND msk then Nontrimmed
      else if st AND msk = NONDIVIDED AND msk then Nondivided
      else if st AND msk = NONSCRAPED AND msk then Nonscraped
      else if st AND msk = BAD AND msk then Error
      else if st AND msk = FINISHED AND msk then Finished
      else Other)"

definition add_to_tally :: "status_word \<Rightarrow> status_word \<Rightarrow> int \<Rightarrow> tally \<Rightarrow> tally" where
  "add_to_tally msk st n t =
     (let c = classify msk st;
          t1 = t\<lparr>count_of := (count_of t)(c := count_of t c + 1),
                 size_of := (size_of t)(c := size_of t c + n),
                 total_size := total_size t + n\<rparr>
      in if st AND BAD_HEAD_STATUS \<noteq> 0
         then t1\<lparr>bad_head_count := bad_head_count t1 + 1, bad_head_size := bad_head_size t1 + n\<rparr>
         else t1)"

section \<open>The log\<close>

text \<open>
  The \<open>while\<close> over the domain for one line of the log: the index \<open>n\<close> is kept from line to line.
\<close>

function domain_part :: "row list \<Rightarrow> status_word \<Rightarrow> int \<Rightarrow> int \<Rightarrow> nat \<Rightarrow> int \<Rightarrow> nat \<times> int" where
  "domain_part ds want position sz n new_size =
     (if n < length ds then
        let d = lposition (ds ! n); dsize = lsize (ds ! n) in
        if d \<ge> position + sz then (if n > 0 then n - 1 else n, new_size)
        else if lstatus (ds ! n) = want then
          if position \<ge> d \<and> position + sz \<le> d + dsize then (n, new_size + sz)
          else domain_part ds want position sz (n + 1)
            (if d \<ge> position \<and> d + dsize \<le> position + sz then new_size + dsize
             else if d \<le> position \<and> d + dsize > position \<and> d + dsize < position + sz
             then new_size + (d + dsize - position)
             else if d > position \<and> d < position + sz then new_size + (position + sz - d)
             else new_size)
        else domain_part ds want position sz (n + 1) new_size
      else (n, new_size))"
  by pat_completeness auto
termination
  by (relation "measure (\<lambda>(ds, _, _, _, n, _). length ds - n)") (auto simp: Let_def)

declare domain_part.simps [simp del]

fun log_status_loop :: "status_word \<Rightarrow> nat \<Rightarrow> nat \<Rightarrow> int \<Rightarrow> int \<Rightarrow> nat \<Rightarrow> nat \<Rightarrow> nat \<Rightarrow> tally \<Rightarrow> 'a domain_env_scheme \<Rightarrow> tally" where
  "log_status_loop msk start end' sadj eadj 0 i n t s = t"
| "log_status_loop msk start end' sadj eadj (Suc k) i n t s =
     (let r = lines (log_table s) ! i;
          adjust = (if i = start then sadj else if i = end' then eadj else 0);
          sz = lsize r - adjust;
          (n', sz') = (if do_domain s
            then domain_part (lines (domain_table s)) (domain_status s AND msk) (lposition r) sz n 0
            else (n, sz))
      in log_status_loop msk start end' sadj eadj k (i + 1) n' (add_to_tally msk (lstatus r) sz' t) s)"

definition area :: "'a domain_env_scheme \<Rightarrow> int \<times> int" where
  "area s = (if driver_mode s \<noteq> 0 then (0, source_total_size s) else (start_position s, end_position s))"

definition get_log_status :: "status_word \<Rightarrow> tally \<Rightarrow> 'a domain_env_scheme \<Rightarrow> tally" where
  "get_log_status msk t s =
     (let (startpos, endpos) = area s;
          start_line = find_block startpos (log_table s);
          end_line = find_block (endpos - 1) (log_table s)
      in if start_line < 0 then t
      else if end_line < 0 then t
      else
        let rs = lines (log_table s); a = nat start_line; b = nat end_line;
            sadj = startpos - lposition (rs ! a);
            eadj = (lposition (rs ! b) + lsize (rs ! b)) - endpos
        in log_status_loop msk a b sadj eadj (b + 1 - a) a 0 no_tally s)"

section \<open>The domain\<close>

fun domain_status_loop :: "status_word \<Rightarrow> int \<Rightarrow> int \<Rightarrow> row list \<Rightarrow> tally \<Rightarrow> tally" where
  "domain_status_loop msk startpos endpos [] t = t"
| "domain_status_loop msk startpos endpos (r # rs) t =
     domain_status_loop msk startpos endpos rs
       (if (lposition r \<ge> startpos \<and> lposition r \<le> endpos) \<or>
           (lposition r + lsize r \<le> endpos \<and> lposition r + lsize r \<ge> startpos)
        then
          let adjust = (if lposition r < startpos then startpos - lposition r
                else if lposition r + lsize r > endpos then (lposition r + lsize r) - endpos else 0);
              n = lsize r - adjust;
              n = (if n < 0 then 0 else n);
              c = classify msk (lstatus r)
          in t\<lparr>count_of := (count_of t)(c := count_of t c + 1), size_of := (size_of t)(c := size_of t c + n)\<rparr>
        else t)"

text \<open>The result with the new value of \<open>total_domain_size_ccc\<close>, which is kept for other values of \<open>domain_status_ccc\<close>.\<close>

definition get_domain_status :: "status_word \<Rightarrow> int \<Rightarrow> 'a domain_env_scheme \<Rightarrow> tally \<times> int" where
  "get_domain_status msk old_total s =
     (let (startpos, endpos) = area s;
          t = domain_status_loop msk startpos endpos (lines (domain_table s)) no_tally;
          d = domain_status s
      in (t, if d = FINISHED then size_of t Finished
             else if d = NONTRIED then size_of t Nontried
             else if d = NONTRIMMED then size_of t Nontrimmed
             else if d = NONDIVIDED then size_of t Nondivided
             else if d = NONSCRAPED then size_of t Nonscraped
             else if d = BAD then size_of t Error
             else old_total))"

section \<open>Counting sectors\<close>

text \<open>The specification: how many sectors of an area have a status of a kind.\<close>

definition sectors :: "(status_word \<Rightarrow> bool) \<Rightarrow> int \<Rightarrow> int \<Rightarrow> row list \<Rightarrow> int" where
  "sectors P lo hi rs = int (card {x \<in> {lo..<hi}. \<exists>st. status_at rs x = Some st \<and> P st})"

definition overlap :: "int \<Rightarrow> int \<Rightarrow> row \<Rightarrow> int" where
  "overlap lo hi r = max 0 (min hi (lposition r + lsize r) - max lo (lposition r))"

lemma sectors_Cons:
  assumes "spaced a (r # rs)"
  shows "sectors P lo hi (r # rs) = (if P (lstatus r) then overlap lo hi r else 0) + sectors P lo hi rs"
proof -
  let ?R = "{x \<in> {lo..<hi}. \<exists>st. status_at rs x = Some st \<and> P st}"
  let ?I = "{max lo (lposition r)..<min hi (lposition r + lsize r)}"
  have out: "status_at rs x = None" if "covers r x" for x
    using spaced_before [of "lposition r + lsize r" rs x] assms that by (simp add: covers_def)
  have fin: "finite ?R" by (rule finite_subset [of _ "{lo..<hi}"]) auto
  show ?thesis
  proof (cases "P (lstatus r)")
    case True
    then have "{x \<in> {lo..<hi}. \<exists>st. status_at (r # rs) x = Some st \<and> P st} = ?I \<union> ?R"
      by (auto simp: covers_def out)
    moreover have "?I \<inter> ?R = {}" using out by (fastforce simp: covers_def)
    moreover have "int (card ?I) = overlap lo hi r" by (auto simp: overlap_def max_def min_def)
    ultimately show ?thesis
      using True fin unfolding sectors_def by (simp only: card_Un_disjoint finite_atLeastLessThan_int) simp
  next
    case False
    then have "{x \<in> {lo..<hi}. \<exists>st. status_at (r # rs) x = Some st \<and> P st} = ?R"
      using out by auto
    with False show ?thesis by (simp add: sectors_def)
  qed
qed

lemma sectors_sum:
  "spaced a rs \<Longrightarrow> sectors P lo hi rs = (\<Sum>r\<leftarrow>rs. if P (lstatus r) then overlap lo hi r else 0)"
proof (induction rs arbitrary: a)
  case Nil
  then show ?case by (simp add: sectors_def)
next
  case (Cons r rs)
  then have "spaced (lposition r + lsize r) rs" by simp
  from Cons.IH [OF this] sectors_Cons [OF Cons.prems, of P lo hi] show ?case by simp
qed

lemma sectors_all:
  assumes "tiles a rs b" "a \<le> lo" "hi \<le> b" "lo \<le> hi"
  shows "sectors (\<lambda>_. True) lo hi rs = hi - lo"
proof -
  have "{x \<in> {lo..<hi}. \<exists>st. status_at rs x = Some st \<and> True} = {lo..<hi}"
    using status_at_inside [OF assms(1)] assms(2,3) by fastforce
  with assms(4) show ?thesis by (simp add: sectors_def)
qed

section \<open>The domain sums\<close>

lemma domain_status_loop_sizes:
  assumes "startpos \<le> endpos"
    and "\<forall>r \<in> set rs. 0 < lsize r \<and> \<not> (lposition r < startpos \<and> endpos < lposition r + lsize r)"
  shows "size_of (domain_status_loop msk startpos endpos rs t) c =
    size_of t c + (\<Sum>r\<leftarrow>rs. if classify msk (lstatus r) = c then overlap startpos endpos r else 0)"
  using assms by (induction rs arbitrary: t) (auto simp: Let_def overlap_def)

text \<open>
  The sums of the domain are the numbers of sectors of the recovery area with each status,
  for a domain without overlaps of which no line strictly contains the area.
\<close>

theorem get_domain_status_counts:
  assumes "area s = (lo, hi)" "lo \<le> hi" "spaced a (lines (domain_table s))"
    and "\<forall>r \<in> set (lines (domain_table s)). \<not> (lposition r < lo \<and> hi < lposition r + lsize r)"
  shows "size_of (fst (get_domain_status msk old s)) c =
    sectors (\<lambda>st. classify msk st = c) lo hi (lines (domain_table s))"
  using domain_status_loop_sizes [of lo hi "lines (domain_table s)"] assms spaced_mem [OF assms(3)]
  by (simp add: get_domain_status_def Let_def sectors_sum [OF assms(3)] no_tally_def)

lemma get_domain_status_counts_witness:
  "size_of (fst (get_domain_status FULL_MASK 0 (demo_domain_env [] demo_domain 0 100))) Finished =
   sectors (\<lambda>st. classify FULL_MASK st = Finished) 0 100 demo_domain"
  using get_domain_status_counts [of "demo_domain_env [] demo_domain 0 100" 0 100 0]
  by (simp add: area_def demo_domain_def)

text \<open>
  A domain line that reaches past both ends of the recovery area is not counted at all: with
  a domain that is one finished line the sum is 0, although the whole area is in the domain.
\<close>

theorem get_domain_status_misses_cover:
  assumes "area s = (lo, hi)" "lo < hi" "lines (domain_table s) = [r]"
    and "lposition r < lo" "hi < lposition r + lsize r"
  shows "size_of (fst (get_domain_status msk old s)) c = 0 \<and>
    sectors (\<lambda>st. classify msk st = classify msk (lstatus r)) lo hi (lines (domain_table s)) = hi - lo"
proof -
  have "spaced lo [r\<lparr>lposition := lo\<rparr>]" using assms by simp
  have "{x \<in> {lo..<hi}. \<exists>st. status_at [r] x = Some st \<and> classify msk st = classify msk (lstatus r)} = {lo..<hi}"
    using assms(4,5) by (auto simp: covers_def)
  then show ?thesis
    using assms by (simp add: get_domain_status_def Let_def no_tally_def sectors_def)
qed

lemma get_domain_status_misses_cover_witness:
  "size_of (fst (get_domain_status FULL_MASK 0
     (demo_domain_env [] [mk_row 0 100 FINISHED] 0 90\<lparr>start_position := 10\<rparr>))) Finished = 0"
  using get_domain_status_misses_cover [of "demo_domain_env [] [mk_row 0 100 FINISHED] 0 90\<lparr>start_position := 10\<rparr>" 10 90]
  by (simp add: area_def)

section \<open>The log sums\<close>

lemma log_status_loop_sizes:
  assumes "\<not> do_domain s"
  shows "size_of (log_status_loop msk start end' sadj eadj k i n t s) c = size_of t c +
      (\<Sum>j \<in> {i..<i + k}. if classify msk (lstatus (lines (log_table s) ! j)) = c
        then lsize (lines (log_table s) ! j) - (if j = start then sadj else if j = end' then eadj else 0) else 0) \<and>
    total_size (log_status_loop msk start end' sadj eadj k i n t s) = total_size t +
      (\<Sum>j \<in> {i..<i + k}. lsize (lines (log_table s) ! j) - (if j = start then sadj else if j = end' then eadj else 0))"
proof (induction k arbitrary: i n t)
  case (Suc k)
  have "{i..<i + Suc k} = insert i {Suc i..<Suc i + k}" by auto
  with Suc assms show ?case by (simp add: Let_def add_to_tally_def)
qed simp

lemma sectors_index_sum:
  assumes t: "tiles e0 rs e1" and a: "a < length rs" "covers (rs ! a) lo"
    and b: "b < length rs" "covers (rs ! b) (hi - 1)" and ab: "a < b"
  shows "sectors P lo hi rs = (\<Sum>j \<in> {a..<b + 1}. if P (lstatus (rs ! j))
    then lsize (rs ! j) - (if j = a then lo - lposition (rs ! a)
      else if j = b then lposition (rs ! b) + lsize (rs ! b) - hi else 0) else 0)"
proof -
  note sp = tiles_spaced [OF t]
  have ov: "overlap lo hi (rs ! j) = (if j < a \<or> b < j then 0 else lsize (rs ! j) -
      (if j = a then lo - lposition (rs ! a)
       else if j = b then lposition (rs ! b) + lsize (rs ! b) - hi else 0))" if "j < length rs" for j
  proof -
    have c: "lposition (rs ! a) \<le> lo" "lo < lposition (rs ! a) + lsize (rs ! a)"
      "lposition (rs ! b) < hi" "hi \<le> lposition (rs ! b) + lsize (rs ! b)"
      using a b by (auto simp: covers_def)
    have ab': "lposition (rs ! a) + lsize (rs ! a) \<le> lposition (rs ! b)" by (rule spaced_nth [OF sp ab b(1)])
    note order = spaced_nth [OF sp]
    note size = spaced_nth_size [OF sp that]
    consider "j < a" | "j = a" | "a < j" "j < b" | "j = b" | "b < j" by linarith
    then show ?thesis
    proof cases
      case 1
      with order [of j a] a c show ?thesis by (simp add: overlap_def)
    next
      case 2
      with c ab' ab show ?thesis by (simp add: overlap_def)
    next
      case 3
      with order [of a j] order [of j b] that b c size show ?thesis by (simp add: overlap_def)
    next
      case 4
      with c ab' ab show ?thesis by (simp add: overlap_def)
    next
      case 5
      with order [of b j] that c show ?thesis by (simp add: overlap_def)
    qed
  qed
  have "sectors P lo hi rs = (\<Sum>j \<in> {0..<length rs}. if P (lstatus (rs ! j)) then overlap lo hi (rs ! j) else 0)"
    by (simp add: sectors_sum [OF sp] sum_list_sum_nth)
  also have "\<dots> = (\<Sum>j \<in> {a..<b + 1}. if P (lstatus (rs ! j)) then overlap lo hi (rs ! j) else 0)"
    using b(1) ov by (intro sum.mono_neutral_right) auto
  also have "\<dots> = (\<Sum>j \<in> {a..<b + 1}. if P (lstatus (rs ! j))
    then lsize (rs ! j) - (if j = a then lo - lposition (rs ! a)
      else if j = b then lposition (rs ! b) + lsize (rs ! b) - hi else 0) else 0)"
    using ov b(1) by (intro sum.cong) auto
  finally show ?thesis .
qed

lemma get_log_status_split:
  assumes "tiles e0 (lines (log_table s)) e1" "area s = (lo, hi)" "e0 \<le> lo" "lo < hi" "hi \<le> e1"
  obtains a b where "a < total_lines (log_table s)" "covers (lines (log_table s) ! a) lo"
    "b < total_lines (log_table s)" "covers (lines (log_table s) ! b) (hi - 1)"
    "get_log_status msk t s = log_status_loop msk a b (lo - lposition (lines (log_table s) ! a))
       (lposition (lines (log_table s) ! b) + lsize (lines (log_table s) ! b) - hi) (b + 1 - a) a 0 no_tally s"
proof -
  let ?T = "log_table s"
  have "lo < e1" "e0 \<le> hi - 1" "hi - 1 < e1" using assms(3-5) by auto
  with find_block_none [OF assms(1)] assms(3) have "find_block lo ?T \<noteq> -1" "find_block (hi - 1) ?T \<noteq> -1" by auto
  note f = this [THEN find_block_found]
  show thesis
    by (rule that [of "nat (find_block lo ?T)" "nat (find_block (hi - 1) ?T)"])
       (use f assms(2) in \<open>auto simp: get_log_status_def Let_def\<close>)
qed

text \<open>
  the sums of the log are the numbers of sectors of the recovery area with each status, and
  the total is its size, for a log that tiles a range around the area, when no line holds
  the whole area and the domain is not used.
\<close>

theorem get_log_status_counts:
  assumes "tiles e0 (lines (log_table s)) e1" "area s = (lo, hi)" "e0 \<le> lo" "lo < hi" "hi \<le> e1"
    and "\<not> do_domain s" "\<forall>r \<in> set (lines (log_table s)). \<not> (covers r lo \<and> covers r (hi - 1))"
  shows "size_of (get_log_status msk t s) c =
      sectors (\<lambda>st. classify msk st = c) lo hi (lines (log_table s)) \<and>
    total_size (get_log_status msk t s) = hi - lo"
proof -
  let ?rs = "lines (log_table s)"
  obtain a b where ab: "a < length ?rs" "covers (?rs ! a) lo" "b < length ?rs" "covers (?rs ! b) (hi - 1)"
    and eq: "get_log_status msk t s = log_status_loop msk a b (lo - lposition (?rs ! a))
       (lposition (?rs ! b) + lsize (?rs ! b) - hi) (b + 1 - a) a 0 no_tally s"
    by (rule get_log_status_split [OF assms(1-5)])
  note sp = tiles_spaced [OF assms(1)]
  have "a \<noteq> b" using assms(7) ab nth_mem by metis
  moreover have "\<not> b < a"
    using spaced_nth [OF sp _ ab(1), of b] ab assms(4) by (auto simp: covers_def)
  ultimately have lt: "a < b" by simp
  then have k: "a + (b + 1 - a) = b + 1" by simp
  note sums = log_status_loop_sizes [OF assms(6)]
  show ?thesis
    using sectors_index_sum [OF assms(1) ab lt, of "\<lambda>st. classify msk st = c"]
      sectors_index_sum [OF assms(1) ab lt, of "\<lambda>_. True"] sectors_all [OF assms(1,3,5)] assms(4)
    unfolding eq sums [THEN conjunct1] sums [THEN conjunct2] k by (simp add: no_tally_def)
qed

lemma get_log_status_counts_witness:
  "total_size (get_log_status FULL_MASK no_tally (demo_domain_env demo_rows [] 0 100\<lparr>do_domain := False\<rparr>)) = 100"
  using get_log_status_counts [of 0 "demo_domain_env demo_rows [] 0 100\<lparr>do_domain := False\<rparr>" 100 0 100 FULL_MASK no_tally]
  by (simp add: area_def demo_rows_def covers_def)

text \<open>
  When one line holds the whole area, the part of the line behind the area is counted too:
  the adjustment for the end is the \<open>else\<close> of the one for the start.
\<close>

theorem get_log_status_one_line:
  assumes "tiles e0 (lines (log_table s)) e1" "area s = (lo, hi)" "lo < hi"
    and "\<not> do_domain s" "r \<in> set (lines (log_table s))" "covers r lo" "covers r (hi - 1)"
  shows "total_size (get_log_status msk t s) = lposition r + lsize r - lo"
proof -
  let ?rs = "lines (log_table s)"
  have rng: "e0 \<le> lo" "hi \<le> e1" using tiles_mem [OF assms(1,5)] assms(6,7) by (auto simp: covers_def)
  obtain a b where ab: "a < length ?rs" "covers (?rs ! a) lo" "b < length ?rs" "covers (?rs ! b) (hi - 1)"
    and eq: "get_log_status msk t s = log_status_loop msk a b (lo - lposition (?rs ! a))
       (lposition (?rs ! b) + lsize (?rs ! b) - hi) (b + 1 - a) a 0 no_tally s"
    by (rule get_log_status_split [OF assms(1,2) rng(1) assms(3) rng(2)])
  note sp = tiles_spaced [OF assms(1)]
  have r: "?rs ! a = r" "?rs ! b = r"
    using spaced_covers_unique [OF sp _ assms(5)] ab assms(6,7) nth_mem by blast+
  then have "a = b"
    using spaced_covers_index [OF sp ab(1,3)] ab assms(6) by simp
  then show ?thesis
    using r unfolding eq log_status_loop_sizes [OF assms(4), THEN conjunct2] by (simp add: no_tally_def)
qed

lemma get_log_status_one_line_witness:
  "total_size (get_log_status FULL_MASK no_tally
     (demo_domain_env demo_rows [] 0 60\<lparr>do_domain := False, start_position := 50\<rparr>)) = 50"
  using get_log_status_one_line [of 0 "demo_domain_env demo_rows [] 0 60\<lparr>do_domain := False, start_position := 50\<rparr>" 100 50 60 "mk_row 40 60 NONTRIED" FULL_MASK no_tally]
  by (simp add: area_def demo_rows_def covers_def)

end
