(* ===== verification/Skip.thy ===== *)
theory Skip
  imports Log_Status
begin

text \<open>
  Skipping: after a read error the clone engine jumps ahead by a growing distance
  (\<open>process_skip_ccc\<close>), resets the distance when reading works again
  (\<open>reset_skip_ccc\<close>), and marks a long run of skips as the work of a bad head
  (\<open>process_skip_run_ccc\<close>, \<open>process_bad_head_ccc\<close>).
\<close>

section \<open>State\<close>

definition FORWARD :: int where [status_consts]: "FORWARD = 0"
definition REVERSE :: int where [status_consts]: "REVERSE = 1"
definition SKIP_MULTI1 :: int where [status_consts]: "SKIP_MULTI1 = 750"
definition SKIP_MULTI2 :: int where [status_consts]: "SKIP_MULTI2 = 1250"
definition SKIP_RUN_COUNT :: int where [status_consts]: "SKIP_RUN_COUNT = 5"
definition SKIP_RUN_COUNT_FAST :: int where [status_consts]: "SKIP_RUN_COUNT_FAST = 3"

record skip_env = domain_env +
  direction :: int
  mark_bad_head :: bool
  skip_fast :: bool
  skipping :: bool
  skip_time_triggered :: bool
  skip_run_count :: int
  skip_run_limit :: int
  skip_run_start :: int
  skip_run_retard_count :: int
  skip_count :: int
  skip_size :: int
  min_skip_size :: int
  original_min_skip_size :: int
  max_skip_size :: int
  skip_multiplier :: int
  skip_mod :: int
  skip_history :: "int list"
  skip_position :: "int list"
  last_skip_position :: int
  last_skip_jump_position :: int
  last_skip_size :: int
  highest_skip :: int
  total_skip_size :: int
  last_total_skip_size :: int
  beyond :: "int \<Rightarrow> row"

section \<open>Marking the lines of a run\<close>

text \<open>
  \<open>beyond\<close> is what the arrays hold outside the lines of the log: the code reads one entry
  behind the last line, and index -1 when the position of the first skip is not found.
  What it would write there is not modelled.
\<close>

definition peek :: "'a skip_env_scheme \<Rightarrow> int \<Rightarrow> row" where
  "peek s i =
     (let rs = lines (log_table s) in if 0 \<le> i \<and> i < int (length rs) then rs ! nat i else beyond s i)"

definition mark_entry :: "int \<Rightarrow> row list \<Rightarrow> row list" where
  "mark_entry i rs =
     (if 0 \<le> i \<and> i < int (length rs)
      then upd_row (nat i) (\<lambda>r. r\<lparr>lstatus := lstatus r OR BAD_HEAD\<rparr>) rs else rs)"

text \<open>\<open>for (x = 0; x <= y; x++) lstatus[line + x * step] |= BAD_HEAD\<close>.\<close>

fun mark_heads :: "int \<Rightarrow> int \<Rightarrow> nat \<Rightarrow> row list \<Rightarrow> row list" where
  "mark_heads l step 0 rs = mark_entry l rs"
| "mark_heads l step (Suc y) rs = mark_entry (l + step * int (Suc y)) (mark_heads l step y rs)"

text \<open>The search for the first line of the run, at most \<open>k\<close> lines further on.\<close>

fun seek_run :: "(int \<Rightarrow> row) \<Rightarrow> status_word \<Rightarrow> nat \<Rightarrow> int \<Rightarrow> int" where
  "seek_run at dir 0 l = l"
| "seek_run at dir (Suc k) l =
     (if skip_direction (lstatus (at l)) \<noteq> dir then seek_run at dir k (l + 1) else l)"

text \<open>
  The walk along the run.  \<open>k\<close> is the number of entries left up to the end of the arrays
  (\<open>line + i > total_lines\<close>, or \<open>line - i < 0\<close>), \<open>at i\<close> the entry \<open>i\<close> steps from the first
  line.  The result is \<open>(n, last_i, previous_i)\<close>.
\<close>

fun walk_run :: "(nat \<Rightarrow> row) \<Rightarrow> (int \<Rightarrow> bool) \<Rightarrow> status_word \<Rightarrow> int \<Rightarrow>
    nat \<Rightarrow> nat \<Rightarrow> nat \<Rightarrow> nat \<Rightarrow> nat \<Rightarrow> nat \<Rightarrow> nat \<times> nat \<times> nat" where
  "walk_run at inside dir run_count 0 i n lst prev last_line = (n, lst, prev)"
| "walk_run at inside dir run_count (Suc k) i n lst prev last_line =
     (let i = i + 1; r = at i; num = skip_number (lstatus r) in
      if \<not> inside (lposition r) then (n, lst, prev)
      else if skip_direction (lstatus r) \<noteq> dir then
        (if int n > run_count then (n, lst, prev)
         else walk_run at inside dir run_count k i n lst prev last_line)
      else if num = n + 1 \<or> num = 0x3f then
        (if int (n + 1) > run_count then (n + 1, i, lst)
         else walk_run at inside dir run_count k i (n + 1) i lst i)
      else if num = n \<and> i = last_line + 1 then
        (if int n > run_count then (n, lst, prev)
         else walk_run at inside dir run_count k i n lst prev i)
      else (n, lst, prev))"

text \<open>
  The run of a reverse pass may start with several lines of number 0: the last of them.  The
  code has no bound here; the walk is followed up to the end of the allocated entries.
\<close>

fun last_of_zeros :: "(int \<Rightarrow> row) \<Rightarrow> nat \<Rightarrow> int \<Rightarrow> int" where
  "last_of_zeros at 0 l = l"
| "last_of_zeros at (Suc k) l =
     (let st = lstatus (at (l + 1))
      in if skip_direction st = REVERSE_SKIP \<and> skip_number st = 0 then last_of_zeros at k (l + 1) else l)"

definition forward_run_lines :: "'a skip_env_scheme \<Rightarrow> row list" where
  "forward_run_lines s =
     (let rs = lines (log_table s); at = peek s;
          l = seek_run at FORWARD_SKIP 2 (find_block (skip_position s ! 0) (log_table s)); st = lstatus (at l) in
      if skip_direction st = FORWARD_SKIP \<and> skip_number st = 0 then
        let (n, lst, prev) = walk_run (\<lambda>i. at (l + int i)) (\<lambda>p. p > start_position s \<and> p < end_position s)
              FORWARD_SKIP (skip_run_count s) (nat (int (length rs) - l)) 0 0 0 0 0
        in if int n + 1 \<ge> skip_run_limit s then mark_heads l 1 (if skip_fast s then lst else prev) rs else rs
      else rs)"

definition reverse_run_lines :: "'a skip_env_scheme \<Rightarrow> row list" where
  "reverse_run_lines s =
     (let rs = lines (log_table s); at = peek s;
          l = seek_run at REVERSE_SKIP 2 (find_block (skip_position s ! 0) (log_table s)); st = lstatus (at l) in
      if skip_direction st = REVERSE_SKIP \<and> skip_number st = 0 then
        let l = last_of_zeros at (nat (int (allocated (log_table s)) - l)) l;
            (n, lst, prev) = walk_run (\<lambda>i. at (l - int i)) (\<lambda>p. p \<ge> start_position s \<and> p < end_position s)
              REVERSE_SKIP (skip_run_count s) (nat l) 0 0 0 0 0
        in if int n + 1 \<ge> skip_run_limit s then mark_heads l (-1) (if skip_fast s then lst else prev) rs else rs
      else rs)"

definition skip_run_lines :: "'a skip_env_scheme \<Rightarrow> row list" where
  "skip_run_lines s = (if direction s = FORWARD then forward_run_lines s else reverse_run_lines s)"

definition process_skip_run :: "'a skip_env_scheme \<Rightarrow> 'a skip_env_scheme" where
  "process_skip_run s =
     (if mark_bad_head s then s\<lparr>log_table := (log_table s)\<lparr>lines := skip_run_lines s\<rparr>\<rparr> else s)"

section \<open>Resetting and growing the skip size\<close>

definition note_history :: "'a skip_env_scheme \<Rightarrow> 'a skip_env_scheme" where
  "note_history s =
     (let h = skip_history s in
      if skipping s
      then s\<lparr>skipping := False, skip_history := [last_skip_size s, h ! 0, h ! 1, h ! 2, h ! 3]\<rparr> else s)"

definition note_run :: "'a skip_env_scheme \<Rightarrow> 'a skip_env_scheme" where
  "note_run s =
     (if skip_run_count s \<ge> skip_run_limit s
      then process_skip_run (s\<lparr>last_total_skip_size :=
          (if direction s = FORWARD then last_skip_jump_position s - skip_run_start s
           else skip_run_start s - last_skip_jump_position s),
        total_skip_runs := total_skip_runs s + 1\<rparr>) else s)"

definition shrink_min :: "'a skip_env_scheme \<Rightarrow> 'a skip_env_scheme" where
  "shrink_min s =
     (let s = (if (skip_fast s \<and> skip_run_count s < 4 \<and> skip_run_count s > 2) \<or>
                  (\<not> skip_fast s \<and> skip_run_count s < 7 \<and> skip_run_count s > 4)
               then s\<lparr>min_skip_size := cdiv (min_skip_size s * 990) 1000\<rparr> else s)
      in if min_skip_size s < cdiv (original_min_skip_size s) 2
         then s\<lparr>min_skip_size := original_min_skip_size s\<rparr> else s)"

definition reset_skip :: "'a skip_env_scheme \<Rightarrow> 'a skip_env_scheme" where
  "reset_skip s =
     (let s = shrink_min (note_run (note_history
            (s\<lparr>skip_run_limit := (if skip_fast s then SKIP_RUN_COUNT_FAST else SKIP_RUN_COUNT)\<rparr>)));
          m = (if skip_fast s then SKIP_MULTI2 else SKIP_MULTI1)
      in s\<lparr>skip_size := min_skip_size s, last_skip_size := 0, skip_run_count := 0, total_skip_size := 0,
           skip_multiplier := m, skip_mod := m + 1000\<rparr>)"

text \<open>The counters of \<open>process_skip_ccc\<close>; the second component is \<open>skip_run_count_exceeded\<close>.\<close>

definition start_run :: "'a skip_env_scheme \<Rightarrow> 'a skip_env_scheme" where
  "start_run s =
     (if skip_run_count s = 0
      then s\<lparr>skip_run_start := (if direction s = FORWARD then current_position s - skip_size s
                               else current_position s + skip_size s)\<rparr> else s)"

definition bump_run :: "'a skip_env_scheme \<Rightarrow> 'a skip_env_scheme \<times> bool" where
  "bump_run s =
     (let s = s\<lparr>skip_run_count := skip_run_count s + 1\<rparr>
      in if skip_run_count s > 0x3f then (s\<lparr>skip_run_count := 0x3f\<rparr>, True) else (s, False))"

definition bump_totals :: "'a skip_env_scheme \<Rightarrow> 'a skip_env_scheme" where
  "bump_totals s =
     (let s = (if skip_time_triggered s then s\<lparr>total_slow_skips := total_slow_skips s + 1\<rparr> else s);
          s = s\<lparr>total_skip_count := total_skip_count s + 1, total_skip_size := total_skip_size s + skip_size s,
                skip_count := skip_count s + 1\<rparr>
      in if skip_count s > skip_run_retard_count s
         then s\<lparr>skip_count := 0, min_skip_size := max (cdiv (min_skip_size s * 950) 1000) (original_min_skip_size s)\<rparr>
         else s)"

definition count_skip :: "'a skip_env_scheme \<Rightarrow> 'a skip_env_scheme \<times> bool" where
  "count_skip s =
     (let (s, exceeded) = bump_run (start_run s);
          s = bump_totals s
      in (s\<lparr>last_skip_position := current_position s, last_skip_size := skip_size s,
            highest_skip := max (highest_skip s) (skip_size s), skipping := True\<rparr>, exceeded))"

text \<open>The new minimum and the new skip size: the two branches differ in their constants.\<close>

definition smoothed_skip :: "int \<Rightarrow> int \<Rightarrow> int \<Rightarrow> 'a skip_env_scheme \<Rightarrow> int" where
  "smoothed_skip long middle short s =
     (let h0 = skip_history s ! 0; h1 = skip_history s ! 1;
          n = (if cdiv (h0 + h1) 2 < skip_size s then cdiv (skip_size s + h0 + h1) 3 else skip_size s)
      in if skip_run_count s > long then cdiv (n * 1200) 1000
         else if skip_run_count s > middle then cdiv (n * 1100) 1000
         else if skip_run_count s < short then cdiv (n * 990) 1000
         else n)"

definition grow_skip :: "'a skip_env_scheme \<Rightarrow> 'a skip_env_scheme" where
  "grow_skip s =
     (let part = (if skip_fast s then cdiv (smoothed_skip 10 7 5 s) 5 else cdiv (smoothed_skip 12 9 8 s) 4);
          m = cdiv (skip_multiplier s * 1000) (if skip_fast s then 1925 else 1750)
      in s\<lparr>min_skip_size := (if min_skip_size s < part then part else min_skip_size s),
           skip_size := cdiv (skip_size s * skip_mod s) 1000 +
             (cdiv (skip_size s) 100 * cdiv (skip_run_count s) 4 + skip_run_count s),
           skip_multiplier := m, skip_mod := m + 1000\<rparr>)"

definition process_skip :: "'a skip_env_scheme \<Rightarrow> int \<times> 'a skip_env_scheme" where
  "process_skip s =
     (let (s, exceeded) = count_skip s;
          s = grow_skip s;
          too_big = (skip_size s \<ge> max_skip_size s);
          s = (if too_big then s\<lparr>skip_size := max_skip_size s\<rparr> else s);
          reset = (\<lambda>s. reset_skip (s\<lparr>min_skip_size := original_min_skip_size s,
                                    total_skip_resets := total_skip_resets s + 1\<rparr>))
      in if too_big \<and> exceeded \<and> max_skip_size s \<le> original_min_skip_size s * 16 then (0, reset s)
         else if exceeded then (-1, reset s)
         else (0, s))"

section \<open>Marking bad heads over the whole log\<close>

fun walk_bad :: "(nat \<Rightarrow> row) \<Rightarrow> (int \<Rightarrow> bool) \<Rightarrow> status_word \<Rightarrow> nat \<Rightarrow> nat \<Rightarrow> nat \<Rightarrow> nat \<Rightarrow> nat \<Rightarrow> nat \<times> nat" where
  "walk_bad at inside dir 0 i n lst prev = (n, prev)"
| "walk_bad at inside dir (Suc k) i n lst prev =
     (let i = i + 1; r = at i; num = skip_number (lstatus r) in
      if \<not> inside (lposition r) then (n, prev)
      else if skip_direction (lstatus r) \<noteq> dir then walk_bad at inside dir k i n lst prev
      else if num = n + 1 \<or> num = 0x3f then walk_bad at inside dir k i (n + 1) i lst
      else (n, prev))"

definition clear_bad_heads :: "row list \<Rightarrow> row list" where
  "clear_bad_heads rs =
     map (\<lambda>r. if lstatus r AND STATUS_MASK \<noteq> 0xff then r\<lparr>lstatus := lstatus r AND BAD_HEAD_MASK\<rparr> else r) rs"

text \<open>One line of the forward and of the backward sweep.\<close>

definition sweep_line :: "bool \<Rightarrow> int \<Rightarrow> 'a skip_env_scheme \<Rightarrow> 'a skip_env_scheme" where
  "sweep_line fwd l s =
     (let rs = lines (log_table s); dir = (if fwd then FORWARD_SKIP else REVERSE_SKIP); st = lstatus (peek s l) in
      if skip_direction st = dir \<and> skip_number st = 0 then
        let (n, prev) = (if fwd
              then walk_bad (\<lambda>i. peek s (l + int i)) (\<lambda>p. p > start_position s \<and> p < end_position s) dir
                     (nat (int (length rs) - l)) 0 0 0 0
              else walk_bad (\<lambda>i. peek s (l - int i)) (\<lambda>p. p \<ge> start_position s \<and> p < end_position s) dir
                     (nat l) 0 0 0 0)
        in if int n + 1 \<ge> skip_run_limit s
           then s\<lparr>log_table := (log_table s)\<lparr>lines := mark_heads l (if fwd then 1 else -1) prev rs\<rparr>\<rparr> else s
      else s)"

text \<open>The inner loop: \<open>k\<close> lines are left before the end of the arrays.\<close>

fun sweep_lines :: "bool \<Rightarrow> nat \<Rightarrow> int \<Rightarrow> 'a skip_env_scheme \<Rightarrow> int \<times> 'a skip_env_scheme" where
  "sweep_lines fwd 0 l s = (l, s)"
| "sweep_lines fwd (Suc k) l s =
     (if lposition (peek s l) \<ge> start_position s \<and> lposition (peek s l) < end_position s
      then sweep_lines fwd k (if fwd then l + 1 else l - 1) (sweep_line fwd l s)
      else (l, s))"

text \<open>
  The outer loop, with fuel: \<open>None\<close> is that it does not end within the fuel.  \<open>stop t\<close> is the
  value of \<open>stop_signal_ccc\<close> at the \<open>t\<close>-th check.
\<close>

fun sweep :: "(nat \<Rightarrow> bool) \<Rightarrow> bool \<Rightarrow> nat \<Rightarrow> nat \<Rightarrow> int \<Rightarrow> 'a skip_env_scheme \<Rightarrow> (int \<times> 'a skip_env_scheme) option" where
  "sweep stop fwd 0 t l s = None"
| "sweep stop fwd (Suc fuel) t l s =
     (if (if fwd then current_position s < end_position s else current_position s > start_position s) then
        if stop t then Some (STOP_SIGNAL_RETURN_CODE, s)
        else
          let n = int (total_lines (log_table s));
              (l, s) = sweep_lines fwd (if fwd then nat (n + 1 - l) else nat (l + 1)) l s
          in if fwd then
               if l + 1 < n then sweep stop fwd fuel (t + 1) l (s\<lparr>current_position := lposition (peek s (l + 1))\<rparr>)
               else Some (0, s)
             else
               if l - 1 > 0 then sweep stop fwd fuel (t + 1) l (s\<lparr>current_position := lposition (peek s (l - 1))\<rparr>)
               else Some (0, s)
      else Some (0, s))"

definition process_bad_head :: "(nat \<Rightarrow> bool) \<Rightarrow> nat \<Rightarrow> 'a skip_env_scheme \<Rightarrow> (int \<times> 'a skip_env_scheme) option" where
  "process_bad_head stop fuel s =
     (let s = s\<lparr>log_table := (log_table s)\<lparr>lines := clear_bad_heads (lines (log_table s))\<rparr>\<rparr> in
      if stop 0 then Some (STOP_SIGNAL_RETURN_CODE, s)
      else
        let s = s\<lparr>current_position := start_position s\<rparr> in
        case sweep stop True fuel 1 (find_block (current_position s) (log_table s)) s of
          None \<Rightarrow> None
        | Some (ret, s) \<Rightarrow>
            if ret \<noteq> 0 then Some (ret, s)
            else
              let s = s\<lparr>current_position := end_position s - 1\<rparr> in
              sweep stop False fuel (fuel + 1) (find_block (current_position s) (log_table s)) s)"

section \<open>Marking changes nothing but the bad-head bit\<close>

definition same_row :: "row \<Rightarrow> row \<Rightarrow> bool" where
  "same_row r r' \<longleftrightarrow> lposition r' = lposition r \<and> lsize r' = lsize r \<and>
     lstatus r' AND BAD_HEAD_MASK = lstatus r AND BAD_HEAD_MASK"

definition same_rows :: "row list \<Rightarrow> row list \<Rightarrow> bool" where
  "same_rows = list_all2 same_row"

lemma same_rows_refl [simp]: "same_rows rs rs"
  by (simp add: same_rows_def same_row_def list_all2_refl)

lemma same_rows_trans [trans]: "same_rows xs ys \<Longrightarrow> same_rows ys zs \<Longrightarrow> same_rows xs zs"
  unfolding same_rows_def by (erule (1) list_all2_trans [rotated]) (simp add: same_row_def)

lemma same_rows_length: "same_rows xs ys \<Longrightarrow> length ys = length xs"
  unfolding same_rows_def by (drule list_all2_lengthD) simp

lemma same_rows_nth: "same_rows xs ys \<Longrightarrow> i < length xs \<Longrightarrow> same_row (xs ! i) (ys ! i)"
  unfolding same_rows_def by (rule list_all2_nthD)

lemma same_rows_Cons [simp]: "same_rows (x # xs) (y # ys) \<longleftrightarrow> same_row x y \<and> same_rows xs ys"
  by (simp add: same_rows_def)

lemma same_rows_tiles: "same_rows rs rs' \<Longrightarrow> tiles a rs e \<Longrightarrow> tiles a rs' e"
  unfolding same_rows_def by (induction rs rs' arbitrary: a rule: list_all2_induct) (auto simp: same_row_def)

lemma same_rows_masked: "same_rows rs rs' \<Longrightarrow> masked_at BAD_HEAD_MASK rs' x = masked_at BAD_HEAD_MASK rs x"
  unfolding same_rows_def by (induction rs rs' rule: list_all2_induct) (auto simp: same_row_def covers_def)

lemma bad_head_bit: "(st OR BAD_HEAD) AND BAD_HEAD_MASK = st AND BAD_HEAD_MASK"
proof -
  have "(st OR BAD_HEAD) AND BAD_HEAD_MASK = (st AND BAD_HEAD_MASK) OR (BAD_HEAD AND BAD_HEAD_MASK)"
    by (rule bit.conj_disj_distrib2)
  also have "BAD_HEAD AND BAD_HEAD_MASK = 0" by (simp add: status_consts)
  finally show ?thesis by simp
qed

lemma same_rows_mark_entry: "same_rows rs (mark_entry i rs)"
  by (auto simp: same_rows_def mark_entry_def upd_row_def list_all2_conv_all_nth nth_list_update same_row_def bad_head_bit)

lemma same_rows_mark_heads: "same_rows rs (mark_heads l step y rs)"
  by (induction y) (auto intro: same_rows_mark_entry same_rows_trans)

lemma same_rows_clear: "same_rows rs (clear_bad_heads rs)"
  by (induction rs) (auto simp: clear_bad_heads_def same_row_def and.assoc)

lemma same_rows_skip_run: "same_rows (lines (log_table s)) (skip_run_lines s)"
  by (simp add: skip_run_lines_def forward_run_lines_def reverse_run_lines_def Let_def same_rows_mark_heads
      split: prod.split)

definition same_log :: "'a skip_env_scheme \<Rightarrow> 'a skip_env_scheme \<Rightarrow> bool" where
  "same_log s s' \<longleftrightarrow> same_rows (lines (log_table s)) (lines (log_table s')) \<and>
     (\<exists>rs p. s' = s\<lparr>log_table := (log_table s)\<lparr>lines := rs\<rparr>, current_position := p\<rparr>)"

lemma same_log_refl [simp]: "same_log s s"
  by (auto simp: same_log_def intro!: exI [of _ "lines (log_table s)"] exI [of _ "current_position s"])

lemma same_log_trans [trans]: "same_log s t \<Longrightarrow> same_log t u \<Longrightarrow> same_log s u"
  by (auto simp: same_log_def intro: same_rows_trans) blast

lemma same_log_lines: "same_rows (lines (log_table s)) rs \<Longrightarrow> same_log s (s\<lparr>log_table := (log_table s)\<lparr>lines := rs\<rparr>\<rparr>)"
  by (auto simp: same_log_def intro!: exI [of _ rs] exI [of _ "current_position s"])

lemma same_log_position: "same_log s (s\<lparr>current_position := p\<rparr>)"
  by (auto simp: same_log_def intro!: exI [of _ "lines (log_table s)"] exI [of _ p])

lemma same_log_sweep_line: "same_log s (sweep_line fwd l s)"
  by (auto simp: sweep_line_def Let_def split: prod.split intro!: same_log_lines same_rows_mark_heads)

lemma same_log_sweep_lines: "same_log s (snd (sweep_lines fwd k l s))"
proof (induction k arbitrary: l s)
  case (Suc k)
  show ?case
    using same_log_trans [OF same_log_sweep_line [of s fwd l]
      Suc.IH [of "sweep_line fwd l s" "if fwd then l + 1 else l - 1"]] by simp
qed simp

lemma same_log_sweep: "sweep stop fwd fuel t l s = Some (ret, s') \<Longrightarrow> same_log s s'"
proof (induction fuel arbitrary: t l s)
  case (Suc fuel)
  define k where "k = (if fwd then nat (int (total_lines (log_table s)) + 1 - l) else nat (l + 1))"
  obtain l' s1 where sl: "sweep_lines fwd k l s = (l', s1)" by fastforce
  then have s1: "same_log s s1" using same_log_sweep_lines [of s fwd k l] by simp
  have "s' = s \<or> s' = s1 \<or> (\<exists>t p. sweep stop fwd fuel t l' (s1\<lparr>current_position := p\<rparr>) = Some (ret, s'))"
    using Suc.prems sl unfolding k_def by (cases fwd) (auto simp: Let_def split: if_splits)
  then consider "s' = s" | "s' = s1" | t p where "sweep stop fwd fuel t l' (s1\<lparr>current_position := p\<rparr>) = Some (ret, s')"
    by blast
  then show ?case
  proof cases
    case 3
    from Suc.IH [OF 3] s1 same_log_position show ?thesis by (blast intro: same_log_trans)
  qed (use s1 in simp_all)
qed simp

lemma same_log_bad_head:
  assumes "process_bad_head stop fuel s = Some (ret, s')"
  shows "same_log s s'"
proof -
  define s1 where "s1 = s\<lparr>log_table := (log_table s)\<lparr>lines := clear_bad_heads (lines (log_table s))\<rparr>\<rparr>"
  have s1: "same_log s s1" unfolding s1_def by (intro same_log_lines same_rows_clear)
  show ?thesis
  proof (cases "stop 0")
    case True
    with assms s1 show ?thesis by (simp add: process_bad_head_def Let_def s1_def)
  next
    case False
    define s2 where "s2 = s1\<lparr>current_position := start_position s1\<rparr>"
    have s2: "same_log s s2" unfolding s2_def by (rule same_log_trans [OF s1 same_log_position])
    from assms False obtain r3 s3 where
      f: "sweep stop True fuel 1 (find_block (current_position s2) (log_table s2)) s2 = Some (r3, s3)"
      and rest: "(ret, s') = (r3, s3) \<or> (\<exists>l. sweep stop False fuel (fuel + 1) l (s3\<lparr>current_position := end_position s3 - 1\<rparr>) = Some (ret, s'))"
      unfolding process_bad_head_def Let_def s1_def [symmetric]
      by (auto simp: s2_def split: option.splits if_splits prod.splits)
    have s3: "same_log s s3" by (rule same_log_trans [OF s2 same_log_sweep [OF f]])
    from rest show ?thesis
    proof
      assume "\<exists>l. sweep stop False fuel (fuel + 1) l (s3\<lparr>current_position := end_position s3 - 1\<rparr>) = Some (ret, s')"
      then obtain l where "sweep stop False fuel (fuel + 1) l (s3\<lparr>current_position := end_position s3 - 1\<rparr>) = Some (ret, s')" ..
      from same_log_trans [OF same_log_trans [OF s3 same_log_position] same_log_sweep [OF this]] show ?thesis .
    qed (use s3 in simp)
  qed
qed

text \<open>
  marking bad heads over the whole log changes no line but in its bad-head bit: the log
  tiles the same range, and up to that bit every sector keeps its status.
\<close>

theorem process_bad_head_marks:
  assumes "process_bad_head stop fuel s = Some (ret, s')" "tiles a (lines (log_table s)) e"
  shows "tiles a (lines (log_table s')) e \<and>
    (\<forall>x. masked_at BAD_HEAD_MASK (lines (log_table s')) x = masked_at BAD_HEAD_MASK (lines (log_table s)) x) \<and>
    domain_table s' = domain_table s \<and> skip_size s' = skip_size s"
  using same_log_bad_head [OF assms(1)] same_rows_tiles [OF _ assms(2)] same_rows_masked
  by (auto simp: same_log_def)

section \<open>When the marking of the whole log ends\<close>

lemma peek_position [simp]: "peek (s\<lparr>current_position := p\<rparr>) i = peek s i"
  by (simp add: peek_def Let_def)

definition in_sweep :: "'a skip_env_scheme \<Rightarrow> int \<Rightarrow> bool" where
  "in_sweep s l \<longleftrightarrow> lposition (peek s l) \<ge> start_position s \<and> lposition (peek s l) < end_position s"

lemma same_log_sel:
  "same_log s s' \<Longrightarrow> start_position s' = start_position s \<and> end_position s' = end_position s \<and>
   total_lines (log_table s') = total_lines (log_table s)"
  by (auto simp: same_log_def dest: same_rows_length)

lemma same_log_peek:
  assumes "same_log s s'" "0 \<le> i" "i < int (total_lines (log_table s))"
  shows "lposition (peek s' i) = lposition (lines (log_table s) ! nat i)"
proof -
  have r: "same_rows (lines (log_table s)) (lines (log_table s'))" using assms(1) by (simp add: same_log_def)
  have "nat i < length (lines (log_table s))" using assms by simp
  from same_rows_nth [OF r this] same_rows_length [OF r] assms(2,3) show ?thesis
    by (simp add: peek_def same_row_def)
qed

lemma sweep_lines_fwd:
  "sweep_lines True k l s = (l', s') \<Longrightarrow> l \<le> l' \<and> (l' < l + int k \<longrightarrow> \<not> in_sweep s' l')"
proof (induction k arbitrary: l s)
  case (Suc k)
  show ?case
  proof (cases "in_sweep s l")
    case True
    then have "sweep_lines True k (l + 1) (sweep_line True l s) = (l', s')"
      using Suc.prems by (simp add: in_sweep_def)
    from Suc.IH [OF this] show ?thesis by simp
  next
    case False
    with Suc.prems show ?thesis by (auto simp: in_sweep_def)
  qed
qed simp

lemma sweep_lines_bwd:
  "sweep_lines False k l s = (l', s') \<Longrightarrow> l' \<le> l \<and> (l - int k < l' \<longrightarrow> \<not> in_sweep s' l')"
proof (induction k arbitrary: l s)
  case (Suc k)
  show ?case
  proof (cases "in_sweep s l")
    case True
    then have "sweep_lines False k (l - 1) (sweep_line False l s) = (l', s')"
      using Suc.prems by (simp add: in_sweep_def)
    from Suc.IH [OF this] show ?thesis by simp
  next
    case False
    with Suc.prems show ?thesis by (auto simp: in_sweep_def)
  qed
qed simp

text \<open>The line that holds the start begins before it, and the next one lies in the area.\<close>

definition start_inside :: "'a skip_env_scheme \<Rightarrow> bool" where
  "start_inside s \<longleftrightarrow> (let rs = lines (log_table s) in
     \<exists>i. i + 1 < length rs \<and> lposition (rs ! i) < start_position s \<and>
       start_position s < lposition (rs ! (i + 1)) \<and> lposition (rs ! (i + 1)) < end_position s)"

lemma sweep_stuck:
  assumes "\<not> in_sweep s l" "l + 1 < int (total_lines (log_table s))" "0 \<le> l"
    and "lposition (peek s (l + 1)) < end_position s" "current_position s < end_position s"
  shows "sweep (\<lambda>_. False) True fuel t l s = None"
  using assms
proof (induction fuel arbitrary: t s)
  case (Suc fuel)
  let ?s = "s\<lparr>current_position := lposition (peek s (l + 1))\<rparr>"
  define k where "k = nat (int (total_lines (log_table s)) - l)"
  have k: "nat (int (total_lines (log_table s)) + 1 - l) = Suc k"
    using Suc.prems(2) unfolding k_def by linarith
  have "sweep_lines True (Suc k) l s = (l, s)" using Suc.prems(1) by (auto simp: in_sweep_def)
  moreover have "peek ?s i = peek s i" for i by (simp add: peek_position)
  then have "sweep (\<lambda>_. False) True fuel (t + 1) l ?s = None"
    using Suc.prems by (intro Suc.IH) (simp_all add: in_sweep_def)
  ultimately show ?case using Suc.prems by (simp add: k)
qed simp

lemma spaced_position_mono:
  assumes "spaced a rs" "0 \<le> i" "i \<le> j" "j < int (length rs)"
  shows "lposition (rs ! nat i) \<le> lposition (rs ! nat j)"
proof (cases "i = j")
  case False
  with assms spaced_nth [OF assms(1), of "nat i" "nat j"] spaced_nth_size [OF assms(1), of "nat i"] show ?thesis
    by (simp add: nat_less_iff)
qed simp

lemma sweep_fwd_ends:
  assumes log: "same_log s0 s" and sp: "spaced a (lines (log_table s0))"
    and l: "0 \<le> l" "l < int (total_lines (log_table s0))"
    and start: "lposition (lines (log_table s0) ! nat l) = start_position s0 \<or>
      (l + 1 < int (total_lines (log_table s0)) \<longrightarrow> end_position s0 \<le> lposition (lines (log_table s0) ! nat (l + 1)))"
  shows "\<exists>r. sweep stop True 2 t l s = Some r"
proof -
  define P where "P i = lposition (lines (log_table s0) ! nat i)" for i
  let ?n = "int (total_lines (log_table s0))"
  note mono = spaced_position_mono [OF sp, folded P_def]
  obtain l' s1 where sl: "sweep_lines True (nat (?n + 1 - l)) l s = (l', s1)" by fastforce
  then have s1: "same_log s0 s1" using same_log_trans [OF log same_log_sweep_lines [of s True _ l]] by (metis snd_conv)
  from sweep_lines_fwd [OF sl] l have l': "l \<le> l'" and out: "l' < ?n \<Longrightarrow> \<not> in_sweep s1 l'" by auto
  have next': "end_position s0 \<le> lposition (peek s1 (l' + 1))" if n: "l' + 1 < ?n"
  proof -
    have "\<not> (start_position s0 \<le> P l' \<and> P l' < end_position s0)"
      using out same_log_peek [OF s1, of l'] same_log_sel [OF s1] l l' n by (simp add: in_sweep_def P_def)
    moreover have "P l \<le> P l'" "P l' \<le> P (l' + 1)" "P (l + 1) \<le> P (l' + 1)"
      using l l' n by (auto intro: mono)
    ultimately have "end_position s0 \<le> P (l' + 1)" using start l' n unfolding P_def [symmetric] by linarith
    then show ?thesis using same_log_peek [OF s1, of "l' + 1"] l l' n by (simp add: P_def)
  qed
  have n: "total_lines (log_table s) = total_lines (log_table s0)" "total_lines (log_table s1) = total_lines (log_table s0)"
    using same_log_sel [OF log] same_log_sel [OF s1] by simp_all
  have "end_position s1 = end_position s0" using same_log_sel [OF s1] by simp
  with next' show ?thesis by (auto simp: numeral_2_eq_2 n sl)
qed

lemma sweep_bwd_ends:
  assumes log: "same_log s0 s" and sp: "spaced a (lines (log_table s0))"
    and l: "0 \<le> l" "l < int (total_lines (log_table s0))"
    and last': "lposition (lines (log_table s0) ! nat l) < end_position s0"
  shows "\<exists>r. sweep stop False (Suc (Suc k)) t l s = Some r"
proof -
  define P where "P i = lposition (lines (log_table s0) ! nat i)" for i
  note mono = spaced_position_mono [OF sp, folded P_def]
  obtain l' s1 where sl: "sweep_lines False (nat (l + 1)) l s = (l', s1)" by fastforce
  then have s1: "same_log s0 s1" using same_log_trans [OF log same_log_sweep_lines [of s False _ l]] by (metis snd_conv)
  from sweep_lines_bwd [OF sl] l have l': "l' \<le> l" and out: "0 \<le> l' \<Longrightarrow> \<not> in_sweep s1 l'" by auto
  have prev: "lposition (peek s1 (l' - 1)) \<le> start_position s0" if n: "l' - 1 > 0"
  proof -
    have "\<not> (start_position s0 \<le> P l' \<and> P l' < end_position s0)"
      using out same_log_peek [OF s1, of l'] same_log_sel [OF s1] l l' n by (simp add: in_sweep_def P_def)
    moreover have "P l' \<le> P l" "P (l' - 1) \<le> P l'" using l l' n by (auto intro: mono)
    ultimately have "P (l' - 1) \<le> start_position s0" using last' unfolding P_def [symmetric] by linarith
    then show ?thesis using same_log_peek [OF s1, of "l' - 1"] l l' n by (simp add: P_def)
  qed
  have "start_position s1 = start_position s0" using same_log_sel [OF s1] by simp
  with prev show ?thesis by (auto simp: sl)
qed

lemma same_log_find:
  assumes "same_log s0 s" "tiles a (lines (log_table s0)) e" "a \<le> p" "p < e"
  shows "0 \<le> find_block p (log_table s) \<and> find_block p (log_table s) = find_block p (log_table s0) \<and>
    find_block p (log_table s0) < int (total_lines (log_table s0)) \<and>
    covers (lines (log_table s0) ! nat (find_block p (log_table s0))) p"
proof -
  let ?b = "find_block p (log_table s0)"
  have r: "same_rows (lines (log_table s0)) (lines (log_table s))" using assms(1) by (simp add: same_log_def)
  have "?b \<noteq> -1" using find_block_none [OF assms(2), of p] assms(3,4) by auto
  note f = find_block_found [OF this]
  have t: "tiles a (lines (log_table s)) e" by (rule same_rows_tiles [OF r assms(2)])
  have "covers (lines (log_table s) ! nat ?b) p"
    using same_rows_nth [OF r, of "nat ?b"] f by (simp add: same_row_def covers_def)
  then have "find_block p (log_table s) = int (nat ?b)"
    using f same_rows_length [OF r] by (intro find_block_hit [OF tiles_spaced [OF t]]) auto
  with f show ?thesis by auto
qed

text \<open>
  The marking of the whole log hangs exactly when the recovery area starts inside a line
  and the next line begins before its end: then no number of iterations of the outer loop
  ends it (unless the user stops it); otherwise two iterations of each sweep are enough.
\<close>

theorem process_bad_head_ends:
  assumes "tiles a (lines (log_table s)) e" "a \<le> start_position s" "start_position s < end_position s" "end_position s \<le> e"
  shows "(start_inside s \<longrightarrow> (\<forall>fuel. process_bad_head (\<lambda>_. False) fuel s = None)) \<and>
    (\<not> start_inside s \<longrightarrow> (\<exists>r. process_bad_head stop 2 s = Some r))"
proof -
  let ?rs = "lines (log_table s)" and ?lo = "start_position s" and ?hi = "end_position s"
  note sp = tiles_spaced [OF assms(1)]
  define s1 where "s1 = s\<lparr>log_table := (log_table s)\<lparr>lines := clear_bad_heads ?rs\<rparr>\<rparr>"
  define s2 where "s2 = s1\<lparr>current_position := start_position s1\<rparr>"
  have "same_log s s1" unfolding s1_def by (rule same_log_lines [OF same_rows_clear])
  from same_log_trans [OF this same_log_position] have s2: "same_log s s2" by (simp add: s2_def)
  define l where "l = find_block ?lo (log_table s)"
  have lo: "a \<le> ?lo" "?lo < e" using assms by auto
  note fl = same_log_find [OF s2 assms(1) lo, folded l_def]
  have l: "0 \<le> l" "l < int (total_lines (log_table s))" "lposition (?rs ! nat l) \<le> ?lo"
    "?lo < lposition (?rs ! nat l) + lsize (?rs ! nat l)"
    using fl by (auto simp: covers_def)
  have cur: "current_position s2 = ?lo" by (simp add: s2_def s1_def)
  have eq: "process_bad_head st fuel s = (if st 0 then Some (STOP_SIGNAL_RETURN_CODE, s1) else
      case sweep st True fuel 1 l s2 of None \<Rightarrow> None
      | Some (ret, s) \<Rightarrow> if ret \<noteq> 0 then Some (ret, s) else
          sweep st False fuel (fuel + 1) (find_block (end_position s - 1) (log_table s)) (s\<lparr>current_position := end_position s - 1\<rparr>))"
    for st fuel
    using fl unfolding process_bad_head_def Let_def s1_def [symmetric] s2_def [symmetric] cur
    by (simp split: option.split)
  show ?thesis
  proof (intro conjI impI allI)
    fix fuel
    assume "start_inside s"
    then obtain i where i: "i + 1 < length ?rs" "lposition (?rs ! i) < ?lo" "?lo < lposition (?rs ! (i + 1))"
      "lposition (?rs ! (i + 1)) < ?hi" by (auto simp: start_inside_def Let_def)
    have "nat l = i"
    proof (rule ccontr)
      assume "nat l \<noteq> i"
      then consider "nat l < i" | "i + 1 \<le> nat l" by linarith
      then show False
      proof cases
        case 1
        with spaced_nth [OF sp 1] i l show False by simp
      next
        case 2
        then have "lposition (?rs ! nat (int (i + 1))) \<le> lposition (?rs ! nat l)"
          using l by (intro spaced_position_mono [OF sp]) auto
        with i l show False by (simp only: nat_int)
      qed
    qed
    then have il: "l = int i" using l(1) by simp
    have p: "lposition (peek s2 l) = lposition (?rs ! i)" "lposition (peek s2 (l + 1)) = lposition (?rs ! (i + 1))"
      using same_log_peek [OF s2, of l] same_log_peek [OF s2, of "l + 1"] i il by (simp_all add: nat_add_distrib)
    have "sweep (\<lambda>_. False) True fuel 1 l s2 = None"
      by (rule sweep_stuck) (use i il p cur same_log_sel [OF s2] assms(3) in \<open>auto simp: in_sweep_def\<close>)
    then show "process_bad_head (\<lambda>_. False) fuel s = None" by (simp add: eq)
  next
    assume no: "\<not> start_inside s"
    have "lposition (?rs ! nat l) = ?lo \<or>
        (l + 1 < int (total_lines (log_table s)) \<longrightarrow> ?hi \<le> lposition (?rs ! nat (l + 1)))"
    proof (rule ccontr)
      assume "\<not> ?thesis"
      then have "\<not> ?hi \<le> lposition (?rs ! nat (l + 1))" "l + 1 < int (total_lines (log_table s))"
        "lposition (?rs ! nat l) \<noteq> ?lo" by auto
      moreover have "lposition (?rs ! nat l) + lsize (?rs ! nat l) \<le> lposition (?rs ! (nat l + 1))"
        using spaced_nth [OF sp, of "nat l" "nat l + 1"] calculation(2) l by simp
      moreover have "nat (l + 1) = nat l + 1" "nat l + 1 < total_lines (log_table s)"
        using l(1) calculation(2) by linarith+
      ultimately have "start_inside s"
        using l unfolding start_inside_def Let_def by (intro exI [of _ "nat l"]) auto
      with no show False ..
    qed
    from sweep_fwd_ends [OF s2 sp l(1,2) this] obtain r s3 where
      f: "sweep stop True 2 1 l s2 = Some (r, s3)" by fastforce
    have s3: "same_log s s3" by (rule same_log_trans [OF s2 same_log_sweep [OF f]])
    have hi: "a \<le> ?hi - 1" "?hi - 1 < e" using assms by auto
    note fh = same_log_find [OF s3 assms(1) hi]
    have "\<exists>r. sweep stop False (Suc (Suc 0)) 3 (find_block (?hi - 1) (log_table s)) (s3\<lparr>current_position := ?hi - 1\<rparr>) = Some r"
      by (rule sweep_bwd_ends [OF same_log_trans [OF s3 same_log_position] sp])
         (use fh in \<open>auto simp: covers_def\<close>)
    with f fh same_log_sel [OF s3] show "\<exists>r. process_bad_head stop 2 s = Some r"
      by (auto simp: eq numeral_2_eq_2 numeral_3_eq_3)
  qed
qed

section \<open>The size of a skip\<close>

text \<open>
  The invariant of the skip state: a count of at most 63, sizes between 0 and the maximum, and a
  growth factor of at least 1.
\<close>

definition skip_ok :: "'a skip_env_scheme \<Rightarrow> bool" where
  "skip_ok s \<longleftrightarrow> 0 \<le> skip_run_count s \<and> skip_run_count s \<le> 63 \<and>
     0 \<le> skip_multiplier s \<and> skip_mod s = skip_multiplier s + 1000 \<and>
     0 \<le> original_min_skip_size s \<and> original_min_skip_size s \<le> max_skip_size s \<and>
     0 \<le> min_skip_size s \<and> min_skip_size s \<le> max_skip_size s \<and>
     0 \<le> skip_size s \<and> skip_size s \<le> max_skip_size s \<and> 0 \<le> last_skip_size s \<and>
     length (skip_history s) = 5 \<and> (\<forall>h \<in> set (skip_history s). 0 \<le> h)"

lemma scale_le: "0 \<le> x \<Longrightarrow> 0 \<le> k \<Longrightarrow> k \<le> d \<Longrightarrow> 0 < d \<Longrightarrow> x * k div d \<le> (x :: int)"
  by (metis mult_left_mono nonzero_mult_div_cancel_right order_less_irrefl zdiv_mono1)

lemma scale_ge: "0 \<le> x \<Longrightarrow> 0 < d \<Longrightarrow> d \<le> k \<Longrightarrow> (x :: int) \<le> x * k div d"
  by (metis mult_left_mono nonzero_mult_div_cancel_right order_less_irrefl zdiv_mono1)

text \<open>\<open>kept s s'\<close>: only the skip state and bad-head bits of the log may differ.\<close>

definition kept :: "'a skip_env_scheme \<Rightarrow> 'a skip_env_scheme \<Rightarrow> bool" where
  "kept s s' \<longleftrightarrow> same_rows (lines (log_table s)) (lines (log_table s')) \<and>
     (\<exists>rs. log_table s' = (log_table s)\<lparr>lines := rs\<rparr>) \<and> domain_table s' = domain_table s \<and>
     current_position s' = current_position s \<and> start_position s' = start_position s \<and>
     end_position s' = end_position s \<and> max_skip_size s' = max_skip_size s \<and>
     skip_run_count s' = skip_run_count s"

lemma note_history_ok: "skip_ok s \<Longrightarrow> skip_ok (note_history s) \<and> kept s (note_history s)"
  by (auto simp: skip_ok_def note_history_def kept_def Let_def intro: exI [of _ "lines (log_table s)"])

lemma note_run_ok: "skip_ok s \<Longrightarrow> skip_ok (note_run s) \<and> kept s (note_run s)"
proof -
  assume "skip_ok s"
  moreover have "same_rows (lines (log_table s)) (skip_run_lines (s\<lparr>last_total_skip_size := x, total_skip_runs := y\<rparr>))" for x y
    using same_rows_skip_run [of "s\<lparr>last_total_skip_size := x, total_skip_runs := y\<rparr>"] by simp
  ultimately show ?thesis
    by (auto simp: skip_ok_def note_run_def process_skip_run_def kept_def intro: exI [of _ "lines (log_table s)"])
qed

lemma shrink_min_ok: "skip_ok s \<Longrightarrow> skip_ok (shrink_min s) \<and> kept s (shrink_min s)"
  using scale_le [of "min_skip_size s" 990 1000]
  by (auto simp: skip_ok_def shrink_min_def kept_def Let_def intro: exI [of _ "lines (log_table s)"])

lemma kept_trans: "kept s t \<Longrightarrow> kept t u \<Longrightarrow> kept s u"
  by (auto simp: kept_def intro: same_rows_trans)

lemma reset_skip_ok:
  assumes "skip_ok s"
  shows "skip_ok (reset_skip s) \<and> kept (s\<lparr>skip_run_count := 0\<rparr>) (reset_skip s) \<and>
    skip_size (reset_skip s) = min_skip_size (reset_skip s)"
proof -
  define s1 where "s1 = s\<lparr>skip_run_limit := (if skip_fast s then SKIP_RUN_COUNT_FAST else SKIP_RUN_COUNT)\<rparr>"
  have s1: "skip_ok s1" using assms by (simp add: s1_def skip_ok_def)
  note h = note_history_ok [OF s1]
  note r = note_run_ok [OF h [THEN conjunct1]]
  note m = shrink_min_ok [OF r [THEN conjunct1]]
  define t where "t = shrink_min (note_run (note_history s1))"
  have t: "skip_ok t" using m by (simp add: t_def)
  have "kept s1 t" unfolding t_def using h r m by (blast intro: kept_trans)
  then have k: "kept s t" by (simp add: kept_def s1_def)
  define f where "f = (if skip_fast t then SKIP_MULTI2 else SKIP_MULTI1)"
  have f: "0 \<le> f" by (simp add: f_def SKIP_MULTI1_def SKIP_MULTI2_def)
  have "reset_skip s = t\<lparr>skip_size := min_skip_size t, last_skip_size := 0, skip_run_count := 0,
      total_skip_size := 0, skip_multiplier := f, skip_mod := f + 1000\<rparr>"
    by (simp add: reset_skip_def Let_def f_def t_def s1_def)
  with t k f show ?thesis by (auto simp: skip_ok_def kept_def)
qed

text \<open>
  Resetting the skip keeps the invariant; the next run starts with no skips counted and the
  minimum skip size, and in the log only bad-head bits can have changed.
\<close>

theorem reset_skip_correct:
  assumes "skip_ok s"
  shows "skip_ok (reset_skip s) \<and> skip_run_count (reset_skip s) = 0 \<and>
    skip_size (reset_skip s) = min_skip_size (reset_skip s) \<and>
    current_position (reset_skip s) = current_position s \<and>
    (\<forall>x. masked_at BAD_HEAD_MASK (lines (log_table (reset_skip s))) x =
      masked_at BAD_HEAD_MASK (lines (log_table s)) x)"
  using reset_skip_ok [OF assms] by (auto simp: kept_def dest: same_rows_masked)

section \<open>Growing\<close>

text \<open>\<open>quiet s s'\<close>: as \<open>kept\<close>, with the log and the position as they were.\<close>

definition quiet :: "'a skip_env_scheme \<Rightarrow> 'a skip_env_scheme \<Rightarrow> bool" where
  "quiet s s' \<longleftrightarrow> log_table s' = log_table s \<and> domain_table s' = domain_table s \<and>
     current_position s' = current_position s \<and> start_position s' = start_position s \<and>
     end_position s' = end_position s \<and> max_skip_size s' = max_skip_size s \<and>
     original_min_skip_size s' = original_min_skip_size s"

lemma start_run_ok:
  "skip_ok s \<Longrightarrow> skip_ok (start_run s) \<and> quiet s (start_run s) \<and> skip_size (start_run s) = skip_size s \<and>
   skip_run_count (start_run s) = skip_run_count s"
  by (simp add: start_run_def skip_ok_def quiet_def)

lemma bump_totals_ok:
  assumes "skip_ok s"
  shows "skip_ok (bump_totals s) \<and> quiet s (bump_totals s) \<and> skip_size (bump_totals s) = skip_size s \<and>
    skip_run_count (bump_totals s) = skip_run_count s"
proof -
  have "0 \<le> min_skip_size s * 950 div 1000 \<and> min_skip_size s * 950 div 1000 \<le> min_skip_size s"
    using assms scale_le [of "min_skip_size s" 950 1000] by (simp add: skip_ok_def pos_imp_zdiv_nonneg_iff)
  with assms show ?thesis by (auto simp: bump_totals_def Let_def skip_ok_def quiet_def)
qed

lemma bump_run_ok:
  assumes "skip_ok s" "bump_run s = (s', ex)"
  shows "skip_ok s' \<and> (ex \<longleftrightarrow> skip_run_count s = 63) \<and> s' = s\<lparr>skip_run_count := min 63 (skip_run_count s + 1)\<rparr>"
  using assms by (auto simp: bump_run_def Let_def skip_ok_def min_def split: if_splits)

lemma count_skip_ok:
  assumes "skip_ok s" "count_skip s = (s', ex)"
  shows "skip_ok s' \<and> (ex \<longleftrightarrow> skip_run_count s = 63) \<and>
    skip_run_count s' = min 63 (skip_run_count s + 1) \<and> skip_size s' = skip_size s \<and> quiet s s'"
proof -
  obtain s1 where b: "bump_run (start_run s) = (s1, ex)"
    and s': "s' = (bump_totals s1)\<lparr>last_skip_position := current_position (bump_totals s1), last_skip_size := skip_size (bump_totals s1),
            highest_skip := max (highest_skip (bump_totals s1)) (skip_size (bump_totals s1)), skipping := True\<rparr>"
    using assms(2) by (auto simp: count_skip_def Let_def split: prod.splits)
  note r = start_run_ok [OF assms(1)]
  note b1 = bump_run_ok [OF r [THEN conjunct1] b]
  define s2 where "s2 = bump_totals s1"
  have t: "skip_ok s2" "quiet s1 s2" "skip_size s2 = skip_size s1" "skip_run_count s2 = skip_run_count s1"
    using bump_totals_ok [OF b1 [THEN conjunct1]] by (simp_all add: s2_def)
  have "skip_ok s'" using t(1) unfolding s' s2_def [symmetric] by (simp add: skip_ok_def)
  with r b1 t show ?thesis unfolding s' s2_def [symmetric] by (simp add: quiet_def)
qed

lemma smoothed_skip_bounds:
  assumes "skip_ok s"
  shows "0 \<le> smoothed_skip l m n s \<and> smoothed_skip l m n s \<le> skip_size s * 1200 div 1000"
proof -
  let ?h0 = "skip_history s ! 0" and ?h1 = "skip_history s ! 1"
  define k where "k = (if cdiv (?h0 + ?h1) 2 < skip_size s then cdiv (skip_size s + ?h0 + ?h1) 3 else skip_size s)"
  have h: "0 \<le> ?h0" "0 \<le> ?h1" "0 \<le> skip_size s" using assms nth_mem [of _ "skip_history s"] by (auto simp: skip_ok_def)
  then have k: "0 \<le> k" "k \<le> skip_size s" by (auto simp: k_def)
  have "smoothed_skip l m n s = (if skip_run_count s > l then cdiv (k * 1200) 1000
         else if skip_run_count s > m then cdiv (k * 1100) 1000
         else if skip_run_count s < n then cdiv (k * 990) 1000 else k)"
    by (simp add: smoothed_skip_def Let_def k_def)
  moreover have "k * c div 1000 \<le> skip_size s * 1200 div 1000" if "0 \<le> c" "c \<le> 1200" for c
    using k that by (intro zdiv_mono1 mult_mono) auto
  from this [of 1200] this [of 1100] this [of 990] this [of 1000] have
    "k * 1200 div 1000 \<le> skip_size s * 1200 div 1000" "k * 1100 div 1000 \<le> skip_size s * 1200 div 1000"
    "k * 990 div 1000 \<le> skip_size s * 1200 div 1000" "k \<le> skip_size s * 1200 div 1000" by simp_all
  ultimately show ?thesis using k(1) by (simp add: pos_imp_zdiv_nonneg_iff)
qed

lemma fifth_le: "0 \<le> (x :: int) \<Longrightarrow> x * 1200 div 1000 div 4 \<le> x \<and> x * 1200 div 1000 div 5 \<le> x"
  using scale_le [of x 1200 "1000 * 4"] scale_le [of x 1200 "1000 * 5"]
    zdiv_zmult2_eq [of 4 "x * 1200" 1000] zdiv_zmult2_eq [of 5 "x * 1200" 1000] by simp

lemma grow_skip_ok:
  assumes "skip_ok s"
  shows "skip_size s \<le> skip_size (grow_skip s) \<and> quiet s (grow_skip s) \<and>
    skip_ok ((grow_skip s)\<lparr>skip_size := skip_size s\<rparr>) \<and> skip_run_count (grow_skip s) = skip_run_count s"
proof -
  note s = assms [unfolded skip_ok_def]
  define part where "part = (if skip_fast s then cdiv (smoothed_skip 10 7 5 s) 5 else cdiv (smoothed_skip 12 9 8 s) 4)"
  have quarter: "skip_size s * 1200 div 1000 div 4 \<le> skip_size s" "skip_size s * 1200 div 1000 div 5 \<le> skip_size s"
    using s fifth_le [of "skip_size s"] by simp_all
  have part: "0 \<le> part \<and> part \<le> max_skip_size s"
    using smoothed_skip_bounds [OF assms, of 10 7 5] smoothed_skip_bounds [OF assms, of 12 9 8] quarter s
      zdiv_mono1 [of "smoothed_skip 10 7 5 s" "skip_size s * 1200 div 1000" 5]
      zdiv_mono1 [of "smoothed_skip 12 9 8 s" "skip_size s * 1200 div 1000" 4]
    by (auto simp: part_def pos_imp_zdiv_nonneg_iff)
  define m where "m = cdiv (skip_multiplier s * 1000) (if skip_fast s then 1925 else 1750)"
  have "0 \<le> m" using s by (simp add: m_def pos_imp_zdiv_nonneg_iff)
  moreover define z where "z = cdiv (skip_size s * skip_mod s) 1000 +
    (cdiv (skip_size s) 100 * cdiv (skip_run_count s) 4 + skip_run_count s)"
  have "skip_size s \<le> skip_size s * skip_mod s div 1000"
    using scale_ge [of "skip_size s" 1000 "skip_mod s"] s by simp
  moreover have "0 \<le> skip_size s div 100 * (skip_run_count s div 4) + skip_run_count s"
    using s by (simp add: pos_imp_zdiv_nonneg_iff)
  ultimately have "skip_size s \<le> z" using s by (simp add: z_def)
  moreover have "grow_skip s = s\<lparr>
      min_skip_size := (if min_skip_size s < part then part else min_skip_size s),
      skip_size := z, skip_multiplier := m, skip_mod := m + 1000\<rparr>"
    by (simp only: grow_skip_def Let_def part_def [symmetric] m_def [symmetric] z_def [symmetric])
  ultimately show ?thesis using s part \<open>0 \<le> m\<close> by (simp add: skip_ok_def quiet_def)
qed

lemma process_skip_correct_rule:
  assumes "skip_ok s" "process_skip s = (ret, s')"
  shows "skip_ok s' \<and> current_position s' = current_position s \<and>
    (skip_run_count s < 63 \<longrightarrow> ret = 0 \<and> skip_run_count s' = skip_run_count s + 1 \<and>
       skip_size s \<le> skip_size s' \<and> skip_size s' \<le> max_skip_size s \<and> log_table s' = log_table s) \<and>
    (skip_run_count s = 63 \<longrightarrow> skip_run_count s' = 0 \<and> skip_size s' = min_skip_size s' \<and>
       (ret = 0 \<or> ret = -1) \<and> (ret = 0 \<longrightarrow> max_skip_size s \<le> original_min_skip_size s * 16))"
proof -
  obtain s1 ex where c: "count_skip s = (s1, ex)" by fastforce
  note c1 = count_skip_ok [OF assms(1) c]
  define s2 where "s2 = grow_skip s1"
  note g = grow_skip_ok [OF c1 [THEN conjunct1], folded s2_def]
  define s3 where "s3 = (if skip_size s2 \<ge> max_skip_size s2 then s2\<lparr>skip_size := max_skip_size s2\<rparr> else s2)"
  have q: "quiet s s2" using c1 g by (simp add: quiet_def)
  have s3: "skip_ok s3" "skip_size s1 \<le> skip_size s3" "skip_size s3 \<le> max_skip_size s" "quiet s s3"
    "skip_run_count s3 = skip_run_count s1"
    using g q c1 by (auto simp: s3_def skip_ok_def quiet_def)
  define s4 where "s4 = s3\<lparr>min_skip_size := original_min_skip_size s3, total_skip_resets := total_skip_resets s3 + 1\<rparr>"
  have s4: "skip_ok s4" "quiet s s4" using s3(1,4) by (simp_all add: s4_def skip_ok_def quiet_def)
  note r = reset_skip_ok [OF s4(1)]
  have eq: "process_skip s = (if skip_size s2 \<ge> max_skip_size s2 \<and> ex \<and> max_skip_size s3 \<le> original_min_skip_size s3 * 16
      then (0, reset_skip s4) else if ex then (-1, reset_skip s4) else (0, s3))"
    unfolding process_skip_def Let_def c prod.case s2_def [symmetric] s3_def [symmetric] s4_def [symmetric] ..
  show ?thesis
  proof (cases "skip_run_count s = 63")
    case True
    then have "s' = reset_skip s4 \<and> (ret = 0 \<or> ret = -1) \<and> (ret = 0 \<longrightarrow> max_skip_size s3 \<le> original_min_skip_size s3 * 16)"
      using assms(2) c1 unfolding eq by (simp split: if_splits)
    with True r s4(2) s3(4) show ?thesis by (simp add: kept_def quiet_def)
  next
    case False
    then have "\<not> ex" using c1 by simp
    then have "ret = 0 \<and> s' = s3" using assms(2) unfolding eq by simp
    with False s3 c1 assms(1) show ?thesis by (simp add: quiet_def skip_ok_def min_def)
  qed
qed

text \<open>
  C37: one skip.  The invariant is kept and 0 is returned while fewer than 63 skips are counted: the
  count goes up by one and the size never shrinks nor passes the maximum.  At 63 the run is given up: the
  state is reset, and -1 is returned unless the maximum is at most 16 times the original minimum
  and has been reached.
\<close>

theorem process_skip_correct:
  assumes "skip_ok s" "process_skip s = (ret, s')"
  shows "skip_ok s' \<and> current_position s' = current_position s \<and>
    (skip_run_count s < 63 \<longrightarrow> ret = 0 \<and> skip_run_count s' = skip_run_count s + 1 \<and>
       skip_size s \<le> skip_size s' \<and> skip_size s' \<le> max_skip_size s \<and> log_table s' = log_table s) \<and>
    (skip_run_count s = 63 \<longrightarrow> skip_run_count s' = 0 \<and> skip_size s' = min_skip_size s' \<and>
       (ret = 0 \<or> ret = -1) \<and> (ret = 0 \<longrightarrow> max_skip_size s \<le> original_min_skip_size s * 16))"
  using assms by (rule process_skip_correct_rule)

section \<open>Examples\<close>

definition demo_skip_env :: "row list \<Rightarrow> int \<Rightarrow> skip_env" where
  "demo_skip_env rs n = domain_env.extend (demo_domain_env rs [] 0 n)
     (skip_env.fields FORWARD False False False False 0 5 0 31 0 4096 4096 4096 67108864 750 1750
       [0, 0, 0, 0, 0] (replicate 256 0) 0 0 0 0 0 0 (\<lambda>_. mk_row n 0 0))"

lemmas demo_skip_defs = demo_skip_env_def demo_domain_env_def domain_env.extend_def skip_env.fields_def

lemma demo_skip_sel [simp]:
  "log_table (demo_skip_env rs n) = demo_table rs" "start_position (demo_skip_env rs n) = 0"
  "end_position (demo_skip_env rs n) = n" "current_position (demo_skip_env rs n) = 0"
  by (simp_all add: demo_skip_defs)

lemma demo_skip_ok: "skip_ok (demo_skip_env rs n)"
  by (simp add: skip_ok_def demo_skip_defs)

lemma process_bad_head_marks_witness:
  "tiles 0 (lines (log_table (snd (the (process_bad_head (\<lambda>_. True) 0 (demo_skip_env demo_rows 100)))))) 100"
proof -
  have t: "tiles 0 (lines (log_table (demo_skip_env demo_rows 100))) 100" by (simp add: demo_rows_def)
  have "\<exists>r s'. process_bad_head (\<lambda>_. True) 0 (demo_skip_env demo_rows 100) = Some (r, s')"
    by (simp add: process_bad_head_def)
  then show ?thesis using process_bad_head_marks [OF _ t] by force
qed

lemma process_bad_head_ends_witness:
  "process_bad_head (\<lambda>_. False) 50 (demo_skip_env demo_rows 100\<lparr>start_position := 10\<rparr>) = None"
proof -
  let ?s = "demo_skip_env demo_rows 100\<lparr>start_position := 10\<rparr>"
  have "tiles 0 (lines (log_table ?s)) 100" "0 \<le> start_position ?s" "start_position ?s < end_position ?s"
    "end_position ?s \<le> 100" "start_inside ?s"
    by (simp_all add: demo_rows_def start_inside_def)
  with process_bad_head_ends [OF this(1-4)] show ?thesis by blast
qed

lemma reset_skip_correct_witness: "skip_run_count (reset_skip (demo_skip_env demo_rows 100\<lparr>skip_run_count := 9\<rparr>)) = 0"
proof -
  have "skip_ok (demo_skip_env demo_rows 100\<lparr>skip_run_count := 9\<rparr>)"
    using demo_skip_ok [of demo_rows 100] by (simp add: skip_ok_def)
  from reset_skip_correct [OF this] show ?thesis by blast
qed

lemma process_skip_correct_witness:
  "4096 \<le> skip_size (snd (process_skip (demo_skip_env demo_rows 100)))"
proof -
  have "skip_size (demo_skip_env demo_rows 100) = 4096" "skip_run_count (demo_skip_env demo_rows 100) = 0"
    by (simp_all add: demo_skip_defs)
  with process_skip_correct [OF demo_skip_ok prod.collapse [symmetric], of demo_rows 100] show ?thesis by simp
qed

end
