(* ===== verification/Device.thy ===== *)
theory Device
  imports Skip
begin

text \<open>
  The state of the copy engine beside the tables, and its surroundings: the source and the target
  device, the clock, the stop button, the log file and the command that is called on errors.
  What the surroundings answer is a parameter, the record \<open>hardware\<close>: each of its components is a
  function of the number of calls made so far (\<open>tick\<close>), so that it can answer differently every
  time.
\<close>

section \<open>Constants\<close>

definition RATE_SKIP_COUNT :: int where [status_consts]: "RATE_SKIP_COUNT = 2"
definition EXIT_ON_SLOW_COUNT :: int where [status_consts]: "EXIT_ON_SLOW_COUNT = 2"
definition DISPLAY_UPDATE_TIME :: int where [status_consts]: "DISPLAY_UPDATE_TIME = 1000"
definition LOG_UPDATE_TIME :: int where [status_consts]: "LOG_UPDATE_TIME = 30"
definition SCSI_WRITE_TIMEOUT :: int where [status_consts]: "SCSI_WRITE_TIMEOUT = 2000"
definition KERNEL_SECTOR_SIZE :: int where [status_consts]: "KERNEL_SECTOR_SIZE = 512"
definition DRIVER_TRANSFER_BUFFER_SIZE :: int where [status_consts]: "DRIVER_TRANSFER_BUFFER_SIZE = 4194304"
definition SKEY_MEDIUM_ERROR :: int where [status_consts]: "SKEY_MEDIUM_ERROR = 0x03"
definition SKEY_ABORTED_COMMAND :: int where [status_consts]: "SKEY_ABORTED_COMMAND = 0x0b"
definition ASC_UNRECOVERED_READ_ERROR :: int where [status_consts]: "ASC_UNRECOVERED_READ_ERROR = 0x1100"
definition ASC_MULTIPLE_READ_ERRORS :: int where [status_consts]: "ASC_MULTIPLE_READ_ERRORS = 0x1103"

section \<open>Bytes\<close>

type_synonym bytes = "8 word list"

text \<open>\<open>memcpy\<close> of \<open>xs\<close> to the start of a buffer that holds \<open>ys\<close>, without growing it.\<close>

definition overlay :: "bytes \<Rightarrow> bytes \<Rightarrow> bytes" where
  "overlay xs ys = take (length ys) xs @ drop (length xs) ys"

text \<open>The bytes \<open>xs\<close> stored at offset \<open>o\<close> of a file or of a memory area.\<close>

definition store_at :: "int \<Rightarrow> 'a list \<Rightarrow> (int \<Rightarrow> 'a) \<Rightarrow> int \<Rightarrow> 'a" where
  "store_at p xs f a = (if p \<le> a \<and> a < p + int (length xs) then xs ! nat (a - p) else f a)"

definition bytes_at :: "(int \<Rightarrow> 'a) \<Rightarrow> int \<Rightarrow> nat \<Rightarrow> 'a list" where
  "bytes_at f p n = map (\<lambda>i. f (p + int i)) [0..<n]"

fun le_value :: "bytes \<Rightarrow> int" where
  "le_value [] = 0"
| "le_value (b # bs) = uint b + 256 * le_value bs"

definition be_value :: "bytes \<Rightarrow> int" where
  "be_value bs = le_value (rev bs)"

section \<open>The surroundings\<close>

text \<open>The registers that a command to the source leaves behind.\<close>

record registers =
  r_valid :: bool
  r_error :: "8 word"
  r_status :: "8 word"
  r_key :: "8 word"
  r_asc :: "8 word"
  r_ascq :: "8 word"
  r_lba :: int
  r_host_status :: int
  r_residue :: int

record reply =
  reply_ret :: int
  reply_data :: bytes
  reply_regs :: registers

text \<open>The read commands: \<open>scsi_read_ccc\<close>, \<open>read_ata_pio_ccc\<close>, and \<open>read_ata_dma_ccc\<close> with the
  flag to wait for the DS bit and the RARC bit.\<close>

datatype read_command = ScsiRead | AtaPioRead | AtaDmaRead bool int

text \<open>The commands of \<open>check_device_ccc\<close>.\<close>

datatype check_command = Identify | UsbIdentify | SoftReset | Reopen | ReadCapacity16 | ReadCapacity10

text \<open>The steps of \<open>call_command_on_error_ccc\<close>.\<close>

datatype recovery_step = CallCommand | CycleRelay | Reconnect

text \<open>
  \<open>clock\<close> is the time in microseconds, its second argument the time slept before it is read.
  A write gives its result and the number of bytes from the start of the buffer that have reached
  the target.  \<open>ten_percent finished total\<close> is the test \<open>100.0f * finished / total >= 10.0f\<close> in
  single precision.
\<close>

record hardware =
  clock :: "nat \<Rightarrow> int \<Rightarrow> int"
  stop_asked :: "nat \<Rightarrow> bool"
  seek_source :: "nat \<Rightarrow> int \<Rightarrow> int"
  read_source :: "nat \<Rightarrow> int \<Rightarrow> int \<Rightarrow> int \<times> bytes"
  source_end :: "nat \<Rightarrow> int"
  read_command :: "nat \<Rightarrow> read_command \<Rightarrow> int \<Rightarrow> int \<Rightarrow> int \<Rightarrow> reply"
  check_command :: "nat \<Rightarrow> check_command \<Rightarrow> reply"
  reset_done :: "nat \<Rightarrow> bool"
  ncq_command :: "nat \<Rightarrow> reply"
  seek_target :: "nat \<Rightarrow> int \<Rightarrow> int"
  write_target :: "nat \<Rightarrow> int \<Rightarrow> bytes \<Rightarrow> int \<times> nat"
  write_command :: "nat \<Rightarrow> int \<Rightarrow> int \<Rightarrow> bytes \<Rightarrow> reply \<times> nat"
  write_log :: "nat \<Rightarrow> int"
  recovery_step :: "nat \<Rightarrow> recovery_step \<Rightarrow> int"
  ksector_start :: "nat \<Rightarrow> int"
  ten_percent :: "int \<Rightarrow> int \<Rightarrow> bool"

section \<open>The state of the engine\<close>

record ncq_log =
  ncq_key :: int
  ncq_asc :: int
  ncq_ascq :: int
  ncq_lba :: int
  ncq_final_lba :: int

record clone_env = skip_env +
  tick :: nat
  stop_signal :: bool
  sense :: sense_info
  ata_lba :: int
  io_host_status :: int
  usb_read_residue :: int
  ncq_data :: ncq_log
  buffer :: bytes
  dest :: "int \<Rightarrow> 8 word"
  transfer_buffer :: "int \<Rightarrow> 8 word"
  error_bitmap :: "int \<Rightarrow> 8 word"
  sector_size :: int
  output_sector_size_adjustment :: int
  input_offset :: int
  output_offset :: int
  cluster_size :: int
  block_size :: int
  block_offset :: int
  generic_mode :: bool
  scsi_passthrough :: bool
  usb_mode :: bool
  ata_passthrough :: bool
  pio_mode :: bool
  use_fpdma :: bool
  extended_support :: bool
  lba_supported :: bool
  drive_locked :: bool
  fill_mode :: bool
  skip_enabled :: bool
  rebuild_assist_enabled :: bool
  rebuild_assist :: bool
  enable_process_chunk :: bool
  enable_read_twice :: bool
  enable_scsi_write :: bool
  enable_retry_connecting :: bool
  do_call_command :: bool
  activate_primary_relay_on_error :: bool
  limit_recovery :: bool
  recovery_past_limit :: bool
  max_read_rate :: int
  last_read_start_time :: int
  last_read_size :: int
  skip_timeout :: int
  current_read_time :: int
  longest_read_time :: int
  reset_wait_time :: int
  soft_reset_time :: int
  rt_soft_reset_time :: int
  td_soft_reset_time :: int
  sc_soft_reset_time :: int
  log_tally :: tally
  last_display_update :: int
  last_finished_value :: int
  total_filled :: int
  last_filled_value :: int
  rate_skip :: int
  exit_on_slow :: int
  exit_slow_time :: int
  exit_on_slow_timer :: int
  rate_skip_count :: int
  exit_on_slow_count :: int
  last_log_write :: int
  rate_modifier :: int
  retried_lba_count :: int

definition ticked :: "'a clone_env_scheme \<Rightarrow> 'a clone_env_scheme" where
  "ticked s = s\<lparr>tick := tick s + 1\<rparr>"

text \<open>\<open>get_elapsed_usec_ccc\<close>, after a sleep of \<open>d\<close> microseconds.\<close>

definition get_elapsed_usec :: "hardware \<Rightarrow> int \<Rightarrow> 'a clone_env_scheme \<Rightarrow> int \<times> 'a clone_env_scheme" where
  "get_elapsed_usec hw d s = (clock hw (tick s) d, ticked s)"

text \<open>A look at \<open>stop_signal_ccc\<close>, which the user may have set since the last one.\<close>

definition poll_stop :: "hardware \<Rightarrow> 'a clone_env_scheme \<Rightarrow> 'a clone_env_scheme" where
  "poll_stop hw s = ticked (s\<lparr>stop_signal := stop_signal s \<or> stop_asked hw (tick s)\<rparr>)"

text \<open>The registers of a command are in the global variables when it returns.\<close>

definition load_registers :: "registers \<Rightarrow> 'a clone_env_scheme \<Rightarrow> 'a clone_env_scheme" where
  "load_registers r s =
     s\<lparr>sense := (sense s)\<lparr>ata_return_valid := r_valid r, ata_error := r_error r, ata_status := r_status r,
          sense_key := r_key r, asc := r_asc r, ascq := r_ascq r\<rparr>,
       ata_lba := r_lba r, io_host_status := r_host_status r, usb_read_residue := r_residue r\<rparr>"

section \<open>Alignment\<close>

definition block_align :: "int \<Rightarrow> int \<Rightarrow> 'a clone_env_scheme \<Rightarrow> int" where
  "block_align v off s = cdiv v (block_size s) * block_size s - off"

definition block_align_up :: "int \<Rightarrow> 'a clone_env_scheme \<Rightarrow> int" where
  "block_align_up v s =
     (if cmod v (block_size s) \<noteq> 0 then (cdiv v (block_size s) + 1) * block_size s
      else cdiv v (block_size s) * block_size s)"

definition get_asc_from_additional_sense :: "int \<Rightarrow> int" where
  "get_asc_from_additional_sense v = drop_bit 8 v AND 0xff"

definition get_ascq_from_additional_sense :: "int \<Rightarrow> int" where
  "get_ascq_from_additional_sense v = v AND 0xff"

section \<open>The driver's buffer\<close>

text \<open>
  In driver mode a chunk that lies in the window of the kernel driver is put into its transfer
  buffer: the data with a clear error bitmap (\<open>driver_give\<close>), or zeros with the error bit set
  (\<open>driver_fail\<close>, the block that follows every failed read in the source).
\<close>

definition driver_window :: "hardware \<Rightarrow> int \<Rightarrow> int \<Rightarrow> 'a clone_env_scheme \<Rightarrow> int \<times> int \<times> bool" where
  "driver_window hw pos n s =
     (let scale = cdiv (sector_size s) KERNEL_SECTOR_SIZE;
          koffset = pos * scale - ksector_start hw (tick s);
          ksize = n * scale
      in (koffset, ksize, koffset \<ge> 0 \<and> koffset + ksize \<le> DRIVER_TRANSFER_BUFFER_SIZE div KERNEL_SECTOR_SIZE))"

definition driver_give :: "hardware \<Rightarrow> int \<Rightarrow> int \<Rightarrow> 'a clone_env_scheme \<Rightarrow> 'a clone_env_scheme" where
  "driver_give hw pos n s =
     (if driver_mode s \<noteq> 0 then
        let (koffset, ksize, inside) = driver_window hw pos n s in
        if inside
        then ticked (s\<lparr>transfer_buffer := store_at (koffset * KERNEL_SECTOR_SIZE)
                         (take (nat (ksize * KERNEL_SECTOR_SIZE)) (buffer s)) (transfer_buffer s),
                       error_bitmap := store_at koffset (replicate (nat ksize) 0) (error_bitmap s)\<rparr>)
        else ticked s
      else s)"

definition driver_fail :: "hardware \<Rightarrow> int \<Rightarrow> int \<Rightarrow> 'a clone_env_scheme \<Rightarrow> 'a clone_env_scheme" where
  "driver_fail hw pos n s =
     (if driver_mode s \<noteq> 0 then
        let (koffset, ksize, inside) = driver_window hw pos n s in
        if inside
        then ticked (s\<lparr>transfer_buffer := store_at (koffset * KERNEL_SECTOR_SIZE)
                         (replicate (nat (ksize * KERNEL_SECTOR_SIZE)) 0) (transfer_buffer s),
                       error_bitmap := store_at koffset (replicate (nat ksize) 0x80) (error_bitmap s)\<rparr>)
        else ticked s
      else s)"

end
