(* ===== verification/Chunk_IO.thy ===== *)
theory Chunk_IO
  imports Device
begin

text \<open>
  Reading a chunk from the source (\<open>read_chunk_ccc\<close>), writing it to the target
  (\<open>write_chunk_ccc\<close>), the check that the source still answers (\<open>check_device_ccc\<close>) and the
  command called when it does not (\<open>call_command_on_error_ccc\<close>).  Messages are left out.
\<close>

section \<open>The status of the last command\<close>

definition additional_status :: "int \<Rightarrow> int \<Rightarrow> 'a clone_env_scheme \<Rightarrow> status_word" where
  "additional_status retstat skip_info s =
     set_additional_status
       ((sense s)\<lparr>passthrough := scsi_passthrough s \<or> ata_passthrough s \<or> usb_mode s\<rparr>) retstat skip_info"

definition timing_byte :: "'a clone_env_scheme \<Rightarrow> status_word" where
  "timing_byte s = get_timing_byte (word_of_int (current_read_time s))"

section \<open>Checking the source\<close>

definition run_check :: "hardware \<Rightarrow> check_command \<Rightarrow> 'a clone_env_scheme \<Rightarrow> reply \<times> 'a clone_env_scheme" where
  "run_check hw c s =
     (let r = check_command hw (tick s) c in (r, load_registers (reply_regs r) (ticked s)))"

text \<open>
  The size an ATA device reports, with one soft reset if it does not answer properly.  The data of
  both replies is what the identify buffer holds afterwards.
\<close>

definition byte_at :: "bytes \<Rightarrow> nat \<Rightarrow> 8 word" where
  "byte_at bs i = (if i < length bs then bs ! i else 0)"

definition ata_drive_size :: "hardware \<Rightarrow> 'a clone_env_scheme \<Rightarrow> (int + int) \<times> 'a clone_env_scheme" where
  "ata_drive_size hw s =
     (let t0 = tick s; (r, s) = run_check hw Identify s;
          (r, s) =
            (if (reply_ret r \<noteq> 0 \<or> ata_status (sense s) AND 1 \<noteq> 0) \<and> \<not> reset_done hw t0
             then run_check hw SoftReset s else (r, s));
          bs = reply_data r
      in if reply_ret r \<noteq> 0 then (Inl DEVICE_ERROR_RETURN_CODE, s)
         else if ata_status (sense s) AND 1 \<noteq> 0 then (Inl DEVICE_ERROR_RETURN_CODE, s)
         else if ata_passthrough s \<and> io_host_status s \<noteq> 0 then (Inl DEVICE_ERROR_RETURN_CODE, s)
         else (Inr (if byte_at bs 167 AND 4 \<noteq> 0 then signed_take_bit 63 (le_value (take 8 (drop 200 bs)))
                    else le_value (take 4 (drop 120 bs))), s))"

text \<open>The size a SCSI device reports: a first read of the capacity, with a reopening if it fails, then a second one.\<close>

definition scsi_drive_size :: "hardware \<Rightarrow> 'a clone_env_scheme \<Rightarrow> (int + int) \<times> 'a clone_env_scheme" where
  "scsi_drive_size hw s =
     (let c = (if extended_support s then ReadCapacity16 else ReadCapacity10);
          (r, s) = run_check hw c s;
          (ret, s) =
            (if reply_ret r \<noteq> 0 \<or> sense_key (sense s) > 1 \<or> io_host_status s \<noteq> 0
             then let (q, s) = run_check hw Reopen s in (reply_ret q, s) else (0, s))
      in if ret \<noteq> 0 then (Inl DEVICE_ERROR_RETURN_CODE, s)
         else
           let (r, s) = run_check hw c s in
           if reply_ret r \<noteq> 0 \<or> sense_key (sense s) > 1 then (Inl INPUT_DEVICE_ERROR_RETURN_CODE, s)
           else if io_host_status s \<noteq> 0 then (Inl INPUT_DEVICE_ERROR_RETURN_CODE, s)
           else let capacity = be_value (take (if extended_support s then 8 else 4) (reply_data r))
                in (Inr (if capacity = 0 then capacity else signed_take_bit 63 (capacity + 1)), s))"

definition drive_size :: "hardware \<Rightarrow> 'a clone_env_scheme \<Rightarrow> (int + int) \<times> 'a clone_env_scheme" where
  "drive_size hw s =
     (if ata_passthrough s \<or> direct_mode (sense s) then ata_drive_size hw s
      else if scsi_passthrough s \<or> usb_mode s then
        if ata_identify_success (sense s)
        then
          let (r, s) = run_check hw (if usb_mode s then UsbIdentify else Identify) s
          in if reply_ret r \<noteq> 0 then (Inl INPUT_DEVICE_ERROR_RETURN_CODE, s) else scsi_drive_size hw s
        else scsi_drive_size hw s
      else (Inr (cdiv (source_end hw (tick s)) (sector_size s)), ticked s))"

text \<open>
  The registers are saved first and written back only when everything is right, except the
  residue of a USB command, which is not saved.
\<close>

definition restore_registers :: "'a clone_env_scheme \<Rightarrow> 'a clone_env_scheme \<Rightarrow> 'a clone_env_scheme" where
  "restore_registers s0 s = s\<lparr>sense := sense s0, ata_lba := ata_lba s0, io_host_status := io_host_status s0\<rparr>"

definition check_device :: "hardware \<Rightarrow> 'a clone_env_scheme \<Rightarrow> int \<times> 'a clone_env_scheme" where
  "check_device hw s0 =
     (let (sz, s) = drive_size hw s0
      in case sz of
           Inl ret \<Rightarrow> (ret, s)
         | Inr n \<Rightarrow> if n \<noteq> source_total_size s then (DEVICE_ERROR_RETURN_CODE, s) else (0, restore_registers s0 s))"

section \<open>The command called on errors\<close>

definition run_step :: "hardware \<Rightarrow> recovery_step \<Rightarrow> 'a clone_env_scheme \<Rightarrow> int \<times> 'a clone_env_scheme" where
  "run_step hw c s = (recovery_step hw (tick s) c, ticked s)"

text \<open>What follows the command: reconnect, check, once more reconnect, check.  Releasing and
  reconnecting change no state of the engine.\<close>

definition check_again :: "hardware \<Rightarrow> bool \<Rightarrow> 'a clone_env_scheme \<Rightarrow> int \<times> 'a clone_env_scheme" where
  "check_again hw retry s =
     (let (ret, s) = run_step hw Reconnect s
      in if ret \<noteq> 0 then (-1, s)
         else
           let (ret, s) = check_device hw s;
               (ret, s) = (if ret \<noteq> 0 \<and> retry then run_step hw Reconnect s else (0, s))
           in if ret \<noteq> 0 then (-1, s)
              else let (ret, s) = check_device hw s in (if ret \<noteq> 0 then -1 else 0, s))"

definition call_command_on_error :: "hardware \<Rightarrow> 'a clone_env_scheme \<Rightarrow> int \<times> 'a clone_env_scheme" where
  "call_command_on_error hw s =
     (if do_call_command s then
        let (ret, s) = run_step hw CallCommand s in if ret \<noteq> 0 then (-1, s) else check_again hw True s
      else if activate_primary_relay_on_error s then
        let (ret, s) = run_step hw CycleRelay s
        in if ret \<noteq> 0 then (-1, s) else check_again hw (enable_retry_connecting s) s
      else (-1, s))"

section \<open>Reading\<close>

text \<open>A limit on the read rate: a pause of at most one second before the next read.\<close>

definition read_pause :: "int \<Rightarrow> 'a clone_env_scheme \<Rightarrow> int" where
  "read_pause now s =
     (let time_passed = now - last_read_start_time s;
          time_left = cdiv (last_read_size s * 1000000) (max_read_rate s) - time_passed
      in if time_left > 1000000 then 1000000 else time_left)"

definition throttle :: "hardware \<Rightarrow> int \<Rightarrow> 'a clone_env_scheme \<Rightarrow> 'a clone_env_scheme" where
  "throttle hw sz s =
     (if max_read_rate s > 0 then
        let (now, s) = get_elapsed_usec hw 0 s; pause = read_pause now s;
            (now, s) = get_elapsed_usec hw (if pause > 0 then pause else 0) s
        in s\<lparr>last_read_start_time := now, last_read_size := sz * sector_size s\<rparr>
      else s)"

definition run_read :: "hardware \<Rightarrow> read_command \<Rightarrow> int \<Rightarrow> int \<Rightarrow> 'a clone_env_scheme \<Rightarrow> int \<times> 'a clone_env_scheme" where
  "run_read hw c pos sz s =
     (let r = read_command hw (tick s) c (soft_reset_time s) pos sz
      in (reply_ret r, load_registers (reply_regs r) (ticked (s\<lparr>buffer := overlay (reply_data r) (buffer s)\<rparr>))))"

definition dma_read :: "'a clone_env_scheme \<Rightarrow> read_command" where
  "dma_read s =
     AtaDmaRead (use_fpdma s)
       (if use_fpdma s \<and> rebuild_assist_enabled s \<and> rebuild_assist s \<and> current_status s = REBUILDASSIST then 0 else 1)"

text \<open>Reading the file of the source: a short read is the error 1, a failed seek ends the read.\<close>

definition generic_read :: "hardware \<Rightarrow> int \<Rightarrow> int \<Rightarrow> 'a clone_env_scheme \<Rightarrow> (int + int) \<times> 'a clone_env_scheme" where
  "generic_read hw pos sz s =
     (let s = s\<lparr>sense := (sense s)\<lparr>sense_key := 0, asc := 0, ascq := 0, ata_error := 0, ata_status := 0,
                  ata_return_valid := False\<rparr>, ata_lba := 0\<rparr>;
          sk = seek_source hw (tick s) (pos * sector_size s); s = ticked s
      in if sk = -1 then (Inl INPUT_DEVICE_ERROR_RETURN_CODE, s)
         else
           let (n, bs) = read_source hw (tick s) (pos * sector_size s) (sz * sector_size s)
           in (Inr (if n \<noteq> sz * sector_size s then 1 else 0), ticked (s\<lparr>buffer := overlay bs (buffer s)\<rparr>)))"

definition first_read :: "hardware \<Rightarrow> int \<Rightarrow> int \<Rightarrow> 'a clone_env_scheme \<Rightarrow> (int + int) \<times> 'a clone_env_scheme" where
  "first_read hw pos sz s =
     (if generic_mode s then generic_read hw pos sz s
      else
        let c = (if scsi_passthrough s \<or> usb_mode s then ScsiRead else if pio_mode s then AtaPioRead else dma_read s);
            (ret, s) = run_read hw c pos sz s
        in (Inr ret, s))"

text \<open>After a timeout (0x30, 0x31) the chunk is read a second time, with another reset time.\<close>

definition second_read :: "hardware \<Rightarrow> int \<Rightarrow> int \<Rightarrow> int \<Rightarrow> 'a clone_env_scheme \<Rightarrow> int \<times> 'a clone_env_scheme" where
  "second_read hw pos sz ret s =
     (if enable_read_twice s \<and> (direct_mode (sense s) \<or> usb_mode s) \<and> (ret = 0x31 \<or> ret = 0x30)
      then
        let bak = soft_reset_time s;
            c = (if usb_mode s then ScsiRead else if pio_mode s then AtaPioRead else dma_read s);
            (ret, s) = run_read hw c pos sz (s\<lparr>soft_reset_time := rt_soft_reset_time s\<rparr>)
        in (ret, s\<lparr>soft_reset_time := bak\<rparr>)
      else (ret, s))"

definition note_read_time :: "hardware \<Rightarrow> int \<Rightarrow> 'a clone_env_scheme \<Rightarrow> 'a clone_env_scheme" where
  "note_read_time hw start_time s =
     (let (end_time, s) = get_elapsed_usec hw 0 s; elapsed = end_time - start_time
      in s\<lparr>current_read_time := elapsed, longest_read_time := max (longest_read_time s) elapsed,
           skip_time_triggered := skip_time_triggered s \<or> (skip_timeout s > 0 \<and> elapsed > skip_timeout s)\<rparr>)"

text \<open>The checks after the read: device fault, host error, and the limit of the free version.\<close>

definition fault_reported :: "'a clone_env_scheme \<Rightarrow> bool" where
  "fault_reported s =
     (if scsi_passthrough s \<or> usb_mode s \<or> (ata_passthrough s \<and> \<not> ata_return_valid (sense s))
      then sense_key (sense s) = 0x4 \<and> asc (sense s) = 0x44 \<and> ascq (sense s) = 0
      else \<not> generic_mode s \<and> ata_status (sense s) AND 1 \<noteq> 0 \<and> ata_error (sense s) AND 0x20 \<noteq> 0)"

definition read_verdict :: "hardware \<Rightarrow> int \<Rightarrow> 'a clone_env_scheme \<Rightarrow> int \<times> 'a clone_env_scheme" where
  "read_verdict hw ret s =
     (let host = io_host_status s;
          (fault, s) = (if fault_reported s then check_device hw s else (0, s))
      in if fault \<noteq> 0 then (DEVICE_FAULT_RETURN_CODE, s)
         else if (scsi_passthrough s \<or> ata_passthrough s) \<and> host \<noteq> 0 then
           let (bad, s) = check_device hw s
           in if bad \<noteq> 0 then (DEVICE_ERROR_RETURN_CODE - host, s) else (host, s)
         else if recovery_past_limit s then (GENERAL_ERROR_RETURN_CODE, s)
         else (ret, s))"

definition read_chunk :: "hardware \<Rightarrow> int \<Rightarrow> int \<Rightarrow> 'a clone_env_scheme \<Rightarrow> int \<times> 'a clone_env_scheme" where
  "read_chunk hw pos sz s =
     (let s = throttle hw sz s;
          s = s\<lparr>buffer := replicate (nat (sz * sector_size s)) 0, skip_time_triggered := False, usb_read_residue := 0\<rparr>;
          (start_time, s) = get_elapsed_usec hw 0 s;
          (res, s) = first_read hw pos sz s
      in case res of
           Inl ret \<Rightarrow> (ret, s)
         | Inr ret \<Rightarrow>
             let s = poll_stop hw s in
             if stop_signal s then (STOP_SIGNAL_RETURN_CODE, s)
             else
               let (ret, s) = second_read hw pos sz ret s
               in read_verdict hw ret (note_read_time hw start_time s))"

text \<open>The test that follows every read: no error in any of the registers.\<close>

definition read_good :: "int \<Rightarrow> 'a clone_env_scheme \<Rightarrow> bool" where
  "read_good retstat s \<longleftrightarrow>
     retstat = 0 \<and> ata_status (sense s) AND 1 = 0 \<and> sense_key (sense s) < 2 \<and> usb_read_residue s = 0"

section \<open>Writing\<close>

text \<open>
  With an output sector size of its own, every sector of the buffer is cut or filled with zeros
  to that size.
\<close>

definition resize_sectors :: "int \<Rightarrow> int \<Rightarrow> int \<Rightarrow> bytes \<Rightarrow> bytes" where
  "resize_sectors from to n buf =
     concat (map (\<lambda>i. overlay (take (nat (min from to)) (drop (nat from * i) buf)) (replicate (nat to) 0))
       [0..<nat n])"

definition write_position :: "int \<Rightarrow> 'a clone_env_scheme \<Rightarrow> int" where
  "write_position pos s =
     (if output_offset s > -1 then (output_offset s - input_offset s) + pos else pos)"

text \<open>The write itself: the bytes that reach the target are a front part of the buffer.\<close>

definition put_bytes :: "hardware \<Rightarrow> int \<Rightarrow> int \<Rightarrow> 'a clone_env_scheme \<Rightarrow> int \<times> 'a clone_env_scheme" where
  "put_bytes hw pos sz s =
     (if enable_scsi_write s then
        let (start_time, s) = get_elapsed_usec hw 0 s;
            out = take (nat (sz * sector_size s)) (buffer s);
            (r, landed) = write_command hw (tick s) pos sz out;
            s = load_registers (reply_regs r)
              (ticked (s\<lparr>dest := store_at (pos * sector_size s) (take landed out) (dest s)\<rparr>))
        in if reply_ret r \<noteq> 0 then (OUTPUT_DEVICE_ERROR_RETURN_CODE, s)
           else if sense_key (sense s) > 1 then (OUTPUT_DEVICE_ERROR_RETURN_CODE, s)
           else if io_host_status s \<noteq> 0 then (OUTPUT_DEVICE_ERROR_RETURN_CODE, s)
           else let (end_time, s) = get_elapsed_usec hw 0 s
                in if end_time - start_time > SCSI_WRITE_TIMEOUT * 1000 then (OUTPUT_DEVICE_ERROR_RETURN_CODE, s)
                   else (0, s)
      else
        let sk = seek_target hw (tick s) (pos * sector_size s); s = ticked s
        in if sk = -1 then (OUTPUT_DEVICE_ERROR_RETURN_CODE, s)
           else
             let out = take (nat (sz * sector_size s)) (buffer s);
                 (n, landed) = write_target hw (tick s) (pos * sector_size s) out;
                 s = ticked (s\<lparr>dest := store_at (pos * sector_size s) (take landed out) (dest s)\<rparr>)
             in if n = -1 then (OUTPUT_DEVICE_ERROR_RETURN_CODE, s)
                else if n \<noteq> sz * sector_size s then (OUTPUT_DEVICE_ERROR_RETURN_CODE, s)
                else (0, s))"

definition write_chunk :: "hardware \<Rightarrow> int \<Rightarrow> int \<Rightarrow> 'a clone_env_scheme \<Rightarrow> int \<times> 'a clone_env_scheme" where
  "write_chunk hw pos sz s0 =
     (let pos = write_position pos s0; adj = output_sector_size_adjustment s0 in
      if adj \<noteq> 0 \<and> sz * sector_size s0 \<noteq> int (length (buffer s0)) then (OUTPUT_DEVICE_ERROR_RETURN_CODE, s0)
      else
        let s = (if adj \<noteq> 0
                 then s0\<lparr>sector_size := sector_size s0 + adj,
                         buffer := resize_sectors (sector_size s0) (sector_size s0 + adj) sz (buffer s0)\<rparr>
                 else s0);
            (ret, s) = put_bytes hw pos sz s
        in if ret \<noteq> 0 then (ret, s)
           else (0, driver_give hw pos sz
                  (if adj \<noteq> 0 then s\<lparr>sector_size := sector_size s0, buffer := buffer s0\<rparr> else s)))"

end
