(* ===== verification/Chunk_Data.thy ===== *)
theory Chunk_Data
  imports Chunk_IO
begin

text \<open>
  What reading and writing a chunk do to the data: a good read fills the buffer with the bytes of
  the source, a successful write puts them into the right sectors of the target, and neither
  touches anything else.
\<close>

section \<open>What input and output leave alone\<close>

text \<open>Tables, positions, settings and skip state; the target is looked at separately.\<close>

definition frame :: "'a clone_env_scheme \<Rightarrow> _" where
  "frame s =
     ((log_table s, domain_table s, source_total_size s, current_position s, start_position s, end_position s,
       current_status s, do_domain s, domain_status s, driver_mode s, driver_minimum_cluster_size s, reverse s),
      (sector_size s, output_sector_size_adjustment s, input_offset s, output_offset s, block_size s,
       block_offset s, cluster_size s, skip_enabled s),
      (generic_mode s, scsi_passthrough s, ata_passthrough s, usb_mode s, pio_mode s, drive_locked s, clone_env.more s),
      (skip_run_count s, skip_multiplier s, skip_mod s, original_min_skip_size s, max_skip_size s,
       min_skip_size s, skip_size s, last_skip_size s, skip_history s, last_skip_position s, direction s))"

definition keeps :: "'a clone_env_scheme \<Rightarrow> 'a clone_env_scheme \<Rightarrow> bool" where
  "keeps s s' \<longleftrightarrow> frame s' = frame s \<and> dest s' = dest s"

lemma keeps_refl [simp]: "keeps s s"
  by (simp add: keeps_def)

lemma keeps_trans: "keeps s t \<Longrightarrow> keeps t u \<Longrightarrow> keeps s u"
  by (simp add: keeps_def)

lemma frame_step [simp]:
  "frame (ticked s) = frame s" "dest (ticked s) = dest s"
  "frame (load_registers r s) = frame s" "dest (load_registers r s) = dest s"
  "frame (poll_stop hw s) = frame s" "dest (poll_stop hw s) = dest s"
  by (simp_all add: frame_def ticked_def load_registers_def poll_stop_def)

lemma frame_upd [simp]:
  "frame (s\<lparr>buffer := b\<rparr>) = frame s" "frame (s\<lparr>dest := d\<rparr>) = frame s"
  "frame (s\<lparr>skip_time_triggered := t\<rparr>) = frame s" "frame (s\<lparr>usb_read_residue := r\<rparr>) = frame s"
  "frame (s\<lparr>sense := e\<rparr>) = frame s" "frame (s\<lparr>ata_lba := l\<rparr>) = frame s"
  "frame (s\<lparr>soft_reset_time := l\<rparr>) = frame s" "frame (s\<lparr>io_host_status := h\<rparr>) = frame s"
  "frame (s\<lparr>last_read_start_time := l\<rparr>) = frame s" "frame (s\<lparr>last_read_size := l\<rparr>) = frame s"
  "frame (s\<lparr>current_read_time := l\<rparr>) = frame s" "frame (s\<lparr>longest_read_time := l\<rparr>) = frame s"
  "frame (s\<lparr>transfer_buffer := tb\<rparr>) = frame s" "frame (s\<lparr>error_bitmap := eb\<rparr>) = frame s"
  "frame (s\<lparr>ncq_data := n\<rparr>) = frame s" "frame (s\<lparr>retried_lba_count := l\<rparr>) = frame s"
  "frame (s\<lparr>rate_modifier := l\<rparr>) = frame s"
  by (simp_all add: frame_def)

lemma keeps_driver [simp]: "keeps s (driver_give hw pos n s)" "keeps s (driver_fail hw pos n s)"
  by (simp_all add: keeps_def driver_give_def driver_fail_def Let_def split: prod.split)

lemma driver_give_buffer [simp]: "buffer (driver_give hw pos n s) = buffer s"
  by (simp add: driver_give_def ticked_def Let_def split: prod.split)

lemma keeps_run_check: "run_check hw c s = (r, s') \<Longrightarrow> keeps s s'"
  by (auto simp: run_check_def keeps_def Let_def)

lemma keeps_ata_size: "ata_drive_size hw s = (r, s') \<Longrightarrow> keeps s s'"
  by (auto simp: ata_drive_size_def Let_def split: prod.splits if_splits
      dest!: keeps_run_check intro: keeps_trans)

lemma keeps_scsi_size: "scsi_drive_size hw s = (r, s') \<Longrightarrow> keeps s s'"
  by (auto simp: scsi_drive_size_def Let_def split: prod.splits if_splits
      dest!: keeps_run_check intro: keeps_trans)

lemma keeps_drive_size: "drive_size hw s = (r, s') \<Longrightarrow> keeps s s'"
  by (auto simp: drive_size_def Let_def keeps_def [of s "ticked s"] split: prod.splits if_splits
      dest!: keeps_run_check keeps_scsi_size keeps_ata_size intro: keeps_trans)

lemma keeps_check_device: "check_device hw s = (r, s') \<Longrightarrow> keeps s s'"
  by (auto simp: check_device_def restore_registers_def Let_def keeps_def split: prod.splits sum.splits if_splits
      dest!: keeps_drive_size)

lemma keeps_run_step: "run_step hw c s = (r, s') \<Longrightarrow> keeps s s'"
  by (auto simp: run_step_def keeps_def)

lemma keeps_check_again: "check_again hw retry s = (r, s') \<Longrightarrow> keeps s s'"
  by (auto simp: check_again_def Let_def split: prod.splits if_splits
      dest!: keeps_run_step keeps_check_device intro: keeps_trans)

lemma keeps_call_command: "call_command_on_error hw s = (r, s') \<Longrightarrow> keeps s s'"
  by (auto simp: call_command_on_error_def Let_def split: prod.splits if_splits
      dest!: keeps_run_step keeps_check_again intro: keeps_trans)

lemma keeps_throttle: "keeps s (throttle hw sz s)"
  by (simp add: throttle_def get_elapsed_usec_def keeps_def Let_def)

lemma keeps_run_read: "run_read hw c pos sz s = (r, s') \<Longrightarrow> keeps s s'"
  by (auto simp: run_read_def keeps_def Let_def)

lemma keeps_first_read: "first_read hw pos sz s = (r, s') \<Longrightarrow> keeps s s'"
  by (auto simp: first_read_def generic_read_def keeps_def Let_def split: prod.splits if_splits
      dest!: keeps_run_read)

lemma keeps_second_read: "second_read hw pos sz ret s = (r, s') \<Longrightarrow> keeps s s'"
  by (auto simp: second_read_def keeps_def Let_def split: prod.splits if_splits dest!: keeps_run_read)

lemma keeps_note_read_time [simp]:
  "frame (note_read_time hw t s) = frame s" "dest (note_read_time hw t s) = dest s"
  by (simp_all add: note_read_time_def get_elapsed_usec_def Let_def)

lemma keeps_read_verdict: "read_verdict hw ret s = (r, s') \<Longrightarrow> keeps s s'"
  by (auto simp: read_verdict_def Let_def split: prod.splits if_splits
      dest!: keeps_check_device intro: keeps_trans)

text \<open>The stages of \<open>read_chunk\<close>, for the proofs about it.\<close>

lemma read_chunk_stages:
  assumes "read_chunk hw pos sz s = (ret, s')"
  obtains s1 t res s2 where "keeps s s1" "buffer s1 = replicate (nat (sz * sector_size s)) 0"
      "first_read hw pos sz s1 = (res, s2)"
      "(\<exists>r. res = Inl r \<and> ret = r \<and> s' = s2) \<or>
       (\<exists>r. res = Inr r \<and> stop_signal (poll_stop hw s2) \<and> ret = STOP_SIGNAL_RETURN_CODE \<and> s' = poll_stop hw s2) \<or>
       (\<exists>r r' s3. res = Inr r \<and> second_read hw pos sz r (poll_stop hw s2) = (r', s3) \<and>
         read_verdict hw r' (note_read_time hw t s3) = (ret, s'))"
proof -
  define s0 where "s0 = throttle hw sz s"
  define s1 where "s1 = ticked (s0\<lparr>buffer := replicate (nat (sz * sector_size s0)) 0, skip_time_triggered := False,
    usb_read_residue := 0\<rparr>)"
  have k0: "keeps s s0" by (simp add: s0_def keeps_throttle)
  have k: "keeps s s1" using k0 by (simp add: s1_def keeps_def)
  obtain res s2 where f: "first_read hw pos sz s1 = (res, s2)" by fastforce
  have "sector_size s0 = sector_size s" using k0 by (simp add: keeps_def frame_def)
  then have b: "buffer s1 = replicate (nat (sz * sector_size s)) 0" by (simp add: s1_def ticked_def)
  show thesis
    using assms that [OF k b f, of "clock hw (tick s0) 0"] f
    by (auto simp: read_chunk_def get_elapsed_usec_def Let_def s1_def s0_def split: sum.splits prod.splits if_splits)
qed

lemma read_chunk_keeps: "read_chunk hw pos sz s = (ret, s') \<Longrightarrow> keeps s s'"
  by (erule read_chunk_stages)
    (auto dest!: keeps_first_read keeps_second_read keeps_read_verdict simp: keeps_def)

section \<open>A good read\<close>

text \<open>
  \<open>honest_source\<close>: a source whose successful reads deliver the bytes of the disk.  A read of the
  file is successful when it is complete, a command when it reports no error; the host status is
  never negative.  \<open>one_mode\<close>: the generic mode excludes the passthrough modes.
\<close>

definition clean :: "registers \<Rightarrow> bool" where
  "clean r \<longleftrightarrow> r_status r AND 1 = 0 \<and> r_key r < 2 \<and> r_residue r = 0"

definition honest_source :: "hardware \<Rightarrow> (int \<Rightarrow> 8 word) \<Rightarrow> int \<Rightarrow> bool" where
  "honest_source hw disk ss \<longleftrightarrow>
     (\<forall>t p n. fst (read_source hw t p n) = n \<longrightarrow> snd (read_source hw t p n) = bytes_at disk p (nat n)) \<and>
     (\<forall>t c srt pos sz. let r = read_command hw t c srt pos sz in
        0 \<le> r_host_status (reply_regs r) \<and>
        (reply_ret r = 0 \<and> clean (reply_regs r) \<longrightarrow>
           reply_data r = bytes_at disk (pos * ss) (nat (sz * ss))))"

definition one_mode :: "'a clone_env_scheme \<Rightarrow> bool" where
  "one_mode s \<longleftrightarrow> (generic_mode s \<longrightarrow> \<not> scsi_passthrough s \<and> \<not> ata_passthrough s)"

lemma length_bytes_at [simp]: "length (bytes_at f p n) = n"
  by (simp add: bytes_at_def)

lemma nth_bytes_at [simp]: "i < n \<Longrightarrow> bytes_at f p n ! i = f (p + int i)"
  by (simp add: bytes_at_def)

lemma length_overlay [simp]: "length (overlay xs ys) = length ys"
  by (simp add: overlay_def)

lemma overlay_full: "length xs = length ys \<Longrightarrow> overlay xs ys = xs"
  by (simp add: overlay_def)

text \<open>\<open>loaded\<close>: if the registers show no error, the buffer holds the data.\<close>

definition loaded :: "bytes \<Rightarrow> int \<Rightarrow> 'a clone_env_scheme \<Rightarrow> bool" where
  "loaded bs ret s \<longleftrightarrow> length (buffer s) = length bs \<and> (read_good ret s \<longrightarrow> buffer s = bs) \<and>
     (generic_mode s \<or> 0 \<le> io_host_status s)"

lemma run_read_loaded:
  assumes "honest_source hw disk ss" "length (buffer s) = nat (sz * ss)" "run_read hw c pos sz s = (ret, s')"
  shows "loaded (bytes_at disk (pos * ss) (nat (sz * ss))) ret s'"
proof -
  define r where "r = read_command hw (tick s) c (soft_reset_time s) pos sz"
  have r: "0 \<le> r_host_status (reply_regs r)"
    "reply_ret r = 0 \<Longrightarrow> clean (reply_regs r) \<Longrightarrow> reply_data r = bytes_at disk (pos * ss) (nat (sz * ss))"
    using assms(1) unfolding honest_source_def r_def Let_def by blast+
  have "ret = reply_ret r" "s' = load_registers (reply_regs r) (ticked (s\<lparr>buffer := overlay (reply_data r) (buffer s)\<rparr>))"
    using assms(3) by (simp_all add: run_read_def r_def Let_def)
  with r assms(2) show ?thesis
    by (auto simp: loaded_def read_good_def clean_def load_registers_def ticked_def overlay_full)
qed

lemma first_read_loaded:
  assumes "honest_source hw disk ss" "buffer s = replicate (nat (sz * ss)) 0" "sector_size s = ss"
    and "first_read hw pos sz s = (Inr ret, s')"
  shows "loaded (bytes_at disk (pos * ss) (nat (sz * ss))) ret s'"
proof (cases "generic_mode s")
  case True
  have src: "overlay bs (replicate (nat n) 0) = bytes_at disk p (nat n)"
    if "read_source hw t p n = (n, bs)" for t p n bs
  proof -
    have "bs = bytes_at disk p (nat n)"
      using assms(1) that unfolding honest_source_def by (metis fst_conv snd_conv)
    then show ?thesis by (simp add: overlay_full)
  qed
  from True assms(2-4) show ?thesis
    by (auto simp: first_read_def generic_read_def ticked_def Let_def loaded_def read_good_def
        split: prod.splits if_splits dest: src)
next
  case False
  then obtain c where "run_read hw c pos sz s = (ret, s')"
    using assms(4) by (auto simp: first_read_def Let_def split: prod.splits if_splits)
  from run_read_loaded [OF assms(1) _ this] assms(2) show ?thesis by simp
qed

lemma loaded_step:
  "loaded bs ret (poll_stop hw s) = loaded bs ret s" "loaded bs ret (note_read_time hw t s) = loaded bs ret s"
  by (simp_all add: loaded_def read_good_def poll_stop_def ticked_def note_read_time_def get_elapsed_usec_def Let_def)

lemma second_read_loaded:
  assumes "honest_source hw disk ss" "loaded (bytes_at disk (pos * ss) (nat (sz * ss))) ret s"
    and "second_read hw pos sz ret s = (ret', s')"
  shows "loaded (bytes_at disk (pos * ss) (nat (sz * ss))) ret' s'"
proof -
  define again where "again \<longleftrightarrow> enable_read_twice s \<and> (direct_mode (sense s) \<or> usb_mode s) \<and> (ret = 0x31 \<or> ret = 0x30)"
  define c where "c = (if usb_mode s then ScsiRead else if pio_mode s then AtaPioRead else dma_read s)"
  obtain r t where rt: "run_read hw c pos sz (s\<lparr>soft_reset_time := rt_soft_reset_time s\<rparr>) = (r, t)" by fastforce
  have "length (buffer (s\<lparr>soft_reset_time := x\<rparr>)) = nat (sz * ss)" for x
    using assms(2) by (simp add: loaded_def)
  from run_read_loaded [OF assms(1) this rt]
  have "loaded (bytes_at disk (pos * ss) (nat (sz * ss))) r (t\<lparr>soft_reset_time := soft_reset_time s\<rparr>)"
    by (simp add: loaded_def read_good_def)
  moreover have "(ret', s') = (if again then (r, t\<lparr>soft_reset_time := soft_reset_time s\<rparr>) else (ret, s))"
    using assms(3) rt unfolding second_read_def again_def [symmetric] c_def [symmetric] by (auto simp: Let_def)
  ultimately show ?thesis using assms(2) by (cases again) simp_all
qed

lemma drive_size_error: "drive_size hw s = (Inl ret, s') \<Longrightarrow> ret \<noteq> 0"
  by (auto simp: drive_size_def ata_drive_size_def scsi_drive_size_def Let_def
      DEVICE_ERROR_RETURN_CODE_def INPUT_DEVICE_ERROR_RETURN_CODE_def split: prod.splits if_splits)

lemma check_device_buffer:
  assumes "check_device hw s = (ret, s')"
  shows "buffer s' = buffer s \<and>
    (ret = 0 \<longrightarrow> sense s' = sense s \<and> ata_lba s' = ata_lba s \<and> io_host_status s' = io_host_status s)"
proof -
  have run: "run_check hw c s = (r, s') \<Longrightarrow> buffer s' = buffer s" for c r and s s' :: "'a clone_env_scheme"
    by (auto simp: run_check_def load_registers_def ticked_def Let_def)
  have ata: "ata_drive_size hw s = (r, s') \<Longrightarrow> buffer s' = buffer s" for r and s s' :: "'a clone_env_scheme"
    by (auto simp: ata_drive_size_def Let_def split: prod.splits if_splits dest!: run)
  have scsi: "scsi_drive_size hw s = (r, s') \<Longrightarrow> buffer s' = buffer s" for r and s s' :: "'a clone_env_scheme"
    by (auto simp: scsi_drive_size_def Let_def split: prod.splits if_splits dest!: run)
  have "drive_size hw s = (r, s') \<Longrightarrow> buffer s' = buffer s" for r and s' :: "'a clone_env_scheme"
    by (auto simp: drive_size_def ticked_def split: prod.splits if_splits dest!: run scsi ata)
  with assms drive_size_error show ?thesis
    by (auto simp: check_device_def restore_registers_def DEVICE_ERROR_RETURN_CODE_def
        split: prod.splits sum.splits if_splits)
qed

lemma read_verdict_good:
  assumes "read_verdict hw ret s = (0, s')" "read_good 0 s'" "loaded bs ret s" "one_mode s"
  shows "buffer s' = bs"
proof -
  define f where "f = (if fault_reported s then check_device hw s else (0, s))"
  obtain fault s1 where f1: "f = (fault, s1)" by fastforce
  have s1: "fault = 0 \<Longrightarrow> sense s1 = sense s \<and> buffer s1 = buffer s"
    "fault = 0 \<Longrightarrow> \<not> fault_reported s \<Longrightarrow> s1 = s" "keeps s s1"
    using f1 check_device_buffer [of hw s fault s1] keeps_check_device [of hw s fault s1]
    by (auto simp: f_def split: if_splits)
  have verdict: "fault = 0" "\<not> ((scsi_passthrough s1 \<or> ata_passthrough s1) \<and> io_host_status s \<noteq> 0)"
    "ret = 0" "s' = s1"
    using assms(1,3,4) s1(3) unfolding read_verdict_def Let_def f_def [symmetric] f1 prod.case
    by (auto simp: DEVICE_FAULT_RETURN_CODE_def DEVICE_ERROR_RETURN_CODE_def GENERAL_ERROR_RETURN_CODE_def
        loaded_def one_mode_def keeps_def frame_def split: if_splits prod.splits)
  have "\<not> fault_reported s"
    using assms(2) s1(1) verdict by (auto simp: fault_reported_def read_good_def split: if_splits)
  with s1(2) verdict assms(2,3) show ?thesis by (auto simp: loaded_def read_good_def)
qed

lemma read_chunk_good_rule:
  assumes "honest_source hw disk (sector_size s)" "one_mode s"
    and "read_chunk hw pos sz s = (ret, s')" "read_good ret s'"
  shows "buffer s' = bytes_at disk (pos * sector_size s) (nat (sz * sector_size s)) \<and> keeps s s'"
proof -
  note k = read_chunk_keeps [OF assms(3)]
  let ?bs = "bytes_at disk (pos * sector_size s) (nat (sz * sector_size s))"
  have ret0: "ret = 0" using assms(4) by (simp add: read_good_def)
  from assms(3) obtain s1 t res s2 where s1: "keeps s s1" "buffer s1 = replicate (nat (sz * sector_size s)) 0"
    "first_read hw pos sz s1 = (res, s2)" and
    stages: "(\<exists>r. res = Inl r \<and> ret = r \<and> s' = s2) \<or>
       (\<exists>r. res = Inr r \<and> stop_signal (poll_stop hw s2) \<and> ret = STOP_SIGNAL_RETURN_CODE \<and> s' = poll_stop hw s2) \<or>
       (\<exists>r r' s3. res = Inr r \<and> second_read hw pos sz r (poll_stop hw s2) = (r', s3) \<and>
         read_verdict hw r' (note_read_time hw t s3) = (ret, s'))"
    by (rule read_chunk_stages) blast
  have "res \<noteq> Inl 0" using s1(3)
    by (auto simp: first_read_def generic_read_def Let_def INPUT_DEVICE_ERROR_RETURN_CODE_def
        split: prod.splits if_splits)
  with stages ret0 obtain r r' s3 where st: "res = Inr r" "second_read hw pos sz r (poll_stop hw s2) = (r', s3)"
    "read_verdict hw r' (note_read_time hw t s3) = (0, s')"
    by (auto simp: STOP_SIGNAL_RETURN_CODE_def)
  have ss: "sector_size s1 = sector_size s" using s1(1) by (simp add: keeps_def frame_def)
  have "loaded ?bs r (poll_stop hw s2)"
    using first_read_loaded [OF assms(1) s1(2) ss] s1(3) st(1) by (simp add: loaded_step)
  from second_read_loaded [OF assms(1) this st(2)] have l: "loaded ?bs r' (note_read_time hw t s3)"
    by (simp add: loaded_step)
  define s4 where "s4 = note_read_time hw t s3"
  have "keeps s s4"
    using s1(1) keeps_first_read [OF s1(3)] keeps_second_read [OF st(2)] by (simp add: s4_def keeps_def)
  then have "one_mode s4" using assms(2) by (simp add: one_mode_def keeps_def frame_def)
  with read_verdict_good [OF st(3) _ l] assms(4) ret0 k show ?thesis by (simp add: s4_def)
qed


section \<open>A write\<close>

text \<open>
  \<open>honest_target\<close>: when a write reports that all bytes were written, they have reached the target.
\<close>

definition honest_target :: "hardware \<Rightarrow> bool" where
  "honest_target hw \<longleftrightarrow>
     (\<forall>t p out. int (length out) \<le> fst (write_target hw t p out) \<longrightarrow> length out \<le> snd (write_target hw t p out)) \<and>
     (\<forall>t p n out. let (r, landed) = write_command hw t p n out in
        reply_ret r = 0 \<and> r_key (reply_regs r) \<le> 1 \<and> r_host_status (reply_regs r) = 0 \<longrightarrow> length out \<le> landed)"

definition output_size :: "'a clone_env_scheme \<Rightarrow> int" where
  "output_size s = sector_size s + output_sector_size_adjustment s"

text \<open>
  \<open>copied disk s x\<close>: the target holds, at the place of sector \<open>x\<close>, the bytes of the sector on the
  source, cut or filled with zeros to the size of a sector of the target.
\<close>

definition target_byte :: "(int \<Rightarrow> 8 word) \<Rightarrow> 'a clone_env_scheme \<Rightarrow> int \<Rightarrow> int \<Rightarrow> 8 word" where
  "target_byte disk s x j = (if j < sector_size s then disk (x * sector_size s + j) else 0)"

definition copied :: "(int \<Rightarrow> 8 word) \<Rightarrow> 'a clone_env_scheme \<Rightarrow> int \<Rightarrow> bool" where
  "copied disk s x \<longleftrightarrow> (\<forall>j. 0 \<le> j \<and> j < output_size s \<longrightarrow>
     dest s (write_position x s * output_size s + j) = target_byte disk s x j)"

lemma write_position_shift: "write_position x s = write_position p s + (x - p)"
  by (simp add: write_position_def)

lemma copied_frame: "frame s' = frame s \<Longrightarrow> dest s' = dest s \<Longrightarrow> copied disk s' x = copied disk s x"
  by (simp add: copied_def output_size_def target_byte_def write_position_def frame_def)

lemma length_resize [simp]: "length (resize_sectors a b n buf) = nat n * nat b"
  by (simp add: resize_sectors_def length_concat comp_def sum_list_triv)

lemma nth_concat_equal:
  assumes "\<And>k. k < n \<Longrightarrow> length (f k) = m" "i < m * n"
  shows "concat (map f [0..<n]) ! i = f (i div m) ! (i mod m)"
  using assms
proof (induction n)
  case (Suc n)
  have len: "length (concat (map f [0..<n])) = m * n"
    using Suc.prems(1) by (induction n) simp_all
  show ?case
  proof (cases "i < m * n")
    case True
    with Suc len show ?thesis by (simp add: nth_append)
  next
    case False
    then have "i div m = n" "i mod m = i - m * n"
      using Suc.prems(2) by (simp_all add: div_nat_eqI modulo_nat_def not_less mult.commute)
    with False len show ?thesis by (simp add: nth_append)
  qed
qed simp

lemma nth_overlay: "i < length ys \<Longrightarrow> overlay xs ys ! i = (if i < length xs then xs ! i else ys ! i)"
  by (simp add: overlay_def nth_append)

text \<open>The bytes that are written for a buffer that holds the data of the chunk.\<close>

lemma resized_target:
  assumes buf: "buffer s = bytes_at disk (pos * sector_size s) (nat (sz * sector_size s))"
    and pos: "0 < sector_size s" "0 < output_size s" "0 \<le> i" "i < sz * output_size s"
  shows "resize_sectors (sector_size s) (output_size s) sz (buffer s) ! nat i =
    target_byte disk s (pos + i div output_size s) (i mod output_size s)"
proof -
  let ?a = "sector_size s" and ?b = "output_size s"
  let ?k = "i div ?b" and ?j = "i mod ?b"
  have ij: "i = ?k * ?b + ?j" by simp
  have j: "0 \<le> ?j" "?j < ?b" and k0: "0 \<le> ?k" using pos by (simp_all add: pos_imp_zdiv_nonneg_iff)
  have "?k * ?b < sz * ?b" using ij j pos by linarith
  then have k: "0 \<le> ?k" "?k < sz" using k0 pos(2) by simp_all
  then have sz: "0 < sz" by simp
  have ni: "nat i div nat ?b = nat ?k" "nat i mod nat ?b = nat ?j"
    using pos by (simp_all add: nat_div_distrib nat_mod_distrib)
  have lt: "nat i < nat ?b * nat sz"
    using pos sz by (simp add: nat_mult_distrib [symmetric] mult.commute)
  define f where "f = (\<lambda>i. overlay (take (nat (min ?a ?b)) (drop (nat ?a * i) (buffer s))) (replicate (nat ?b) (0 :: 8 word)))"
  have "resize_sectors ?a ?b sz (buffer s) ! nat i = f (nat ?k) ! nat ?j"
    unfolding resize_sectors_def f_def [symmetric] ni [symmetric]
    by (rule nth_concat_equal [OF _ lt]) (simp add: f_def)
  also have "\<dots> = target_byte disk s (pos + ?k) ?j"
  proof -
    have len: "length (buffer s) = nat (sz * ?a)" by (simp add: buf)
    have "(?k + 1) * ?a \<le> sz * ?a" using k pos by (intro mult_right_mono) simp_all
    then have room: "?k * ?a + ?a \<le> sz * ?a" by (simp add: distrib_right)
    then have front: "length (take (nat (min ?a ?b)) (drop (nat ?a * nat ?k) (buffer s))) = nat (min ?a ?b)"
    proof -
      have "nat (?k * ?a + ?a) \<le> nat (sz * ?a)" using room by (rule nat_mono)
      then have "nat ?a * nat ?k + nat ?a \<le> nat (sz * ?a)"
        using k pos by (simp add: nat_add_distrib nat_mult_distrib mult.commute)
      moreover have "nat (min ?a ?b) \<le> nat ?a" by simp
      ultimately have "nat (min ?a ?b) \<le> nat (sz * ?a) - nat ?a * nat ?k" by linarith
      then show ?thesis unfolding length_take length_drop len by (rule min_absorb2)
    qed
    show ?thesis
    proof (cases "?j < ?a")
      case True
      then have "nat ?j < nat (min ?a ?b)" using j by simp
      moreover have "nat ?a * nat ?k + nat ?j < nat (sz * ?a)"
        using True j k pos room by (simp add: nat_mult_distrib [symmetric] nat_add_distrib [symmetric] mult.commute)
      moreover have "int (nat ?a * nat ?k + nat ?j) = ?k * ?a + ?j" using j k pos by (simp add: mult.commute)
      ultimately show ?thesis
        using True j front by (simp add: f_def nth_overlay buf target_byte_def) (simp add: algebra_simps)
    next
      case False
      then show ?thesis using j front by (simp add: f_def nth_overlay target_byte_def)
    qed
  qed
  finally show ?thesis .
qed

text \<open>Storing a front part of the right bytes.\<close>

lemma store_target:
  assumes right: "length out = nat (sz * output_size s)"
      "\<And>i. 0 \<le> i \<Longrightarrow> i < sz * output_size s \<Longrightarrow>
         out ! nat i = target_byte disk s (pos + i div output_size s) (i mod output_size s)"
    and "0 < output_size s"
    and d: "dest s' = store_at (write_position pos s * output_size s) (take n out) (dest s)" "frame s' = frame s"
  shows "copied disk s x \<Longrightarrow> copied disk s' x"
    and "length out \<le> n \<Longrightarrow> pos \<le> x \<Longrightarrow> x < pos + sz \<Longrightarrow> copied disk s' x"
    and "\<not> (pos \<le> x \<and> x < pos + sz) \<Longrightarrow> copied disk s' x = copied disk s x"
proof -
  let ?b = "output_size s"
  have stored: "dest s' (write_position x s * ?b + j) =
      (if 0 \<le> (x - pos) * ?b + j \<and> (x - pos) * ?b + j < int (length (take n out))
       then target_byte disk s x j else dest s (write_position x s * ?b + j))" if "0 \<le> j" "j < ?b" for j
  proof -
    have a: "write_position x s * ?b + j = write_position pos s * ?b + ((x - pos) * ?b + j)"
      unfolding write_position_shift [of x s pos] by (simp add: distrib_right)
    let ?i = "(x - pos) * ?b + j"
    have "?i div ?b = x - pos" "?i mod ?b = j" using that assms(3) by simp_all
    moreover have "?i < sz * ?b" if "0 \<le> ?i" "?i < int (length (take n out))"
      using that right(1) by (simp add: min_def split: if_splits)
    ultimately show ?thesis
      using right(2) [of ?i] unfolding store_at_def a d(1) by auto
  qed
  have frm: "output_size s' = ?b" "write_position x s' = write_position x s"
    "target_byte disk s' x = target_byte disk s x"
    using d(2) by (simp_all add: frame_def output_size_def write_position_def target_byte_def fun_eq_iff)
  show "copied disk s x \<Longrightarrow> copied disk s' x"
    unfolding copied_def frm by (metis stored)
  show "copied disk s' x" if "length out \<le> n" "pos \<le> x" "x < pos + sz"
  proof -
    have "0 \<le> (x - pos) * ?b + j \<and> (x - pos) * ?b + j < int (length (take n out))" if "0 \<le> j" "j < ?b" for j
    proof -
      have "(x - pos + 1) * ?b \<le> sz * ?b" using assms(3) \<open>x < pos + sz\<close> by (intro mult_right_mono) simp_all
      moreover have "0 \<le> (x - pos) * ?b" using assms(3) \<open>pos \<le> x\<close> by simp
      ultimately show ?thesis
        using that right(1) \<open>length out \<le> n\<close> by (simp add: distrib_right)
    qed
    then show ?thesis unfolding copied_def frm using stored by simp
  qed
  show "copied disk s' x = copied disk s x" if "\<not> (pos \<le> x \<and> x < pos + sz)"
  proof -
    have out_of: "\<not> (0 \<le> (x - pos) * ?b + j \<and> (x - pos) * ?b + j < int (length (take n out)))" if "0 \<le> j" "j < ?b" for j
    proof (cases "x < pos")
      case True
      then have "(x - pos) * ?b \<le> (-1) * ?b" using assms(3) by (intro mult_right_mono) simp_all
      with that show ?thesis by simp
    next
      case False
      then have "sz * ?b \<le> (x - pos) * ?b"
        using \<open>\<not> (pos \<le> x \<and> x < pos + sz)\<close> assms(3) by (intro mult_right_mono) simp_all
      moreover have "0 \<le> (x - pos) * ?b" using False assms(3) by simp
      ultimately have "int (length out) \<le> (x - pos) * ?b" using right(1) by simp
      moreover have "int (length (take n out)) \<le> int (length out)" by simp
      ultimately show ?thesis using that by linarith
    qed
    then have "dest s' (write_position x s * ?b + j) = dest s (write_position x s * ?b + j)" if "0 \<le> j" "j < ?b" for j
      by (subst stored [OF that]) (use out_of [OF that] in \<open>rule if_not_P\<close>)
    then show ?thesis unfolding copied_def frm by metis
  qed
qed

lemma put_bytes_stores:
  assumes "put_bytes hw pos sz s = (ret, s')"
  defines "out \<equiv> take (nat (sz * sector_size s)) (buffer s)"
  shows "\<exists>n. dest s' = store_at (pos * sector_size s) (take n out) (dest s) \<and> frame s' = frame s \<and>
    buffer s' = buffer s \<and> (honest_target hw \<and> ret = 0 \<longrightarrow> length out \<le> n)"
proof (cases "enable_scsi_write s")
  case True
  obtain r n where w: "write_command hw (Suc (tick s)) pos sz out = (r, n)" by fastforce
  have "honest_target hw \<Longrightarrow> reply_ret r = 0 \<Longrightarrow> r_key (reply_regs r) \<le> 1 \<Longrightarrow> r_host_status (reply_regs r) = 0 \<Longrightarrow>
      length out \<le> n"
    using w unfolding honest_target_def Let_def by (metis (mono_tags, lifting) case_prod_conv)
  with True w assms(1) show ?thesis
    by (intro exI [of _ n])
      (auto simp: put_bytes_def get_elapsed_usec_def ticked_def load_registers_def frame_def Let_def out_def
        OUTPUT_DEVICE_ERROR_RETURN_CODE_def not_less split: if_splits)
next
  case False
  obtain m n where w: "write_target hw (Suc (tick s)) (pos * sector_size s) out = (m, n)" by fastforce
  have h: "length out \<le> n" if "honest_target hw" "m = sz * sector_size s"
  proof -
    have "int (length out) \<le> m \<or> out = []" using that(2) by (auto simp: out_def)
    with that(1) w show ?thesis unfolding honest_target_def by (metis fst_conv snd_conv le0 list.size(3))
  qed
  show ?thesis
  proof (cases "seek_target hw (tick s) (pos * sector_size s) = -1")
    case True
    with False assms(1) show ?thesis
      by (intro exI [of _ 0])
        (auto simp: put_bytes_def ticked_def frame_def store_at_def fun_eq_iff OUTPUT_DEVICE_ERROR_RETURN_CODE_def)
  next
    case seek: False
    with False w h assms(1) show ?thesis
      by (intro exI [of _ n])
        (auto simp: put_bytes_def ticked_def frame_def Let_def out_def OUTPUT_DEVICE_ERROR_RETURN_CODE_def split: if_splits)
  qed
qed

text \<open>The state after a write, up to the sector size: a front part of the right bytes is stored.\<close>

lemma write_chunk_stores:
  assumes "buffer s = bytes_at disk (pos * sector_size s) (nat (sz * sector_size s))"
    and "0 < sector_size s" "0 < output_size s" "0 \<le> sz" "write_chunk hw pos sz s = (ret, s')"
  obtains out n where "length out = nat (sz * output_size s)"
    "\<forall>i. 0 \<le> i \<and> i < sz * output_size s \<longrightarrow>
       out ! nat i = target_byte disk s (pos + i div output_size s) (i mod output_size s)"
    "dest s' = store_at (write_position pos s * output_size s) (take n out) (dest s)"
    "frame (s'\<lparr>sector_size := sector_size s\<rparr>) = frame s" "honest_target hw \<and> ret = 0 \<longrightarrow> length out \<le> n"
    "sector_size s' = (if ret = 0 then sector_size s else output_size s)" "ret = 0 \<longrightarrow> buffer s' = buffer s"
proof -
  let ?adj = "output_sector_size_adjustment s"
  define s1 where "s1 = (if ?adj \<noteq> 0 then s\<lparr>sector_size := sector_size s + ?adj,
    buffer := resize_sectors (sector_size s) (sector_size s + ?adj) sz (buffer s)\<rparr> else s)"
  obtain r s2 where put: "put_bytes hw (write_position pos s) sz s1 = (r, s2)" by fastforce
  define out where "out = take (nat (sz * sector_size s1)) (buffer s1)"
  have len: "int (length (buffer s)) = sz * sector_size s" using assms(1,2,4) by simp
  have s1: "sector_size s1 = output_size s" "dest s1 = dest s" "frame (s1\<lparr>sector_size := sector_size s\<rparr>) = frame s"
    by (simp_all add: s1_def output_size_def frame_def)
  from put_bytes_stores [OF put] obtain n where n:
    "dest s2 = store_at (write_position pos s * output_size s) (take n out) (dest s)" "frame s2 = frame s1"
    "buffer s2 = buffer s1" "honest_target hw \<Longrightarrow> r = 0 \<Longrightarrow> length out \<le> n"
    unfolding out_def s1(1,2) by blast
  have out: "length out = nat (sz * output_size s) \<and> (\<forall>i. 0 \<le> i \<and> i < sz * output_size s \<longrightarrow>
      out ! nat i = target_byte disk s (pos + i div output_size s) (i mod output_size s))"
  proof (cases "?adj = 0")
    case True
    then have "out = bytes_at disk (pos * sector_size s) (nat (sz * sector_size s))" "output_size s = sector_size s"
      using assms(1) by (simp_all add: out_def s1_def output_size_def)
    moreover have "disk (pos * b + i) = disk ((pos + i div b) * b + i mod b)" for b i
      by (simp add: distrib_right) (simp add: add.commute)
    ultimately show ?thesis using assms(2) by (simp add: target_byte_def)
  next
    case False
    then have b: "buffer s1 = resize_sectors (sector_size s) (output_size s) sz (buffer s)"
      by (simp add: s1_def output_size_def)
    have l: "length (buffer s1) = nat (sz * output_size s)"
      unfolding b length_resize using assms(4) by (simp add: nat_mult_distrib)
    then have "out = buffer s1" by (simp add: out_def s1)
    with l resized_target [OF assms(1-3)] show ?thesis by (simp add: b)
  qed
  have w: "(ret, s') = (if r \<noteq> 0 then (r, s2) else (0, driver_give hw (write_position pos s) sz
        (if ?adj \<noteq> 0 then s2\<lparr>sector_size := sector_size s, buffer := buffer s\<rparr> else s2)))"
    using assms(5) put len unfolding write_chunk_def Let_def s1_def [symmetric] by simp
  define s3 where "s3 = (if ?adj \<noteq> 0 then s2\<lparr>sector_size := sector_size s, buffer := buffer s\<rparr> else s2)"
  have s2: "frame (s2\<lparr>sector_size := sector_size s\<rparr>) = frame s" "sector_size s2 = output_size s"
    using n(2) s1(1,3) by (simp_all add: frame_def)
  have s3: "frame s3 = frame s \<and> dest s3 = dest s2 \<and> sector_size s3 = sector_size s \<and> buffer s3 = buffer s"
  proof (cases "?adj = 0")
    case True
    then have "s1 = s" "s3 = s2" by (simp_all add: s1_def s3_def)
    with n(2,3) show ?thesis
      by (simp add: frame_def)
  next
    case False
    then have "s3 = s2\<lparr>sector_size := sector_size s, buffer := buffer s\<rparr>" by (simp add: s3_def)
    with s2(1) show ?thesis
      by simp
  qed
  define s4 where "s4 = driver_give hw (write_position pos s) sz s3"
  have s4: "frame s4 = frame s" "dest s4 = dest s2" "buffer s4 = buffer s"
    using keeps_driver(1) [of s3 hw "write_position pos s" sz] s3 driver_give_buffer
    by (simp_all add: keeps_def s4_def)
  then have "frame (s4\<lparr>sector_size := sector_size s\<rparr>) = frame s" "sector_size s4 = sector_size s"
    by (simp_all add: frame_def)
  with w s2 s4 n(1,4) show thesis
    unfolding s3_def [symmetric] s4_def [symmetric]
    by (intro that [of out n]) (use out in \<open>auto split: if_splits\<close>)
qed

lemma write_chunk_copies_rule:
  assumes "honest_target hw" "0 < sector_size s" "0 < output_size s" "0 \<le> sz"
    and "buffer s = bytes_at disk (pos * sector_size s) (nat (sz * sector_size s))"
    and "write_chunk hw pos sz s = (ret, s')"
  defines "t \<equiv> s'\<lparr>sector_size := sector_size s\<rparr>"
  shows "frame t = frame s \<and> (\<forall>x. copied disk s x \<longrightarrow> copied disk t x) \<and>
    (\<forall>x. \<not> (pos \<le> x \<and> x < pos + sz) \<longrightarrow> copied disk t x = copied disk s x) \<and>
    (ret = 0 \<longrightarrow> t = s' \<and> buffer s' = buffer s \<and> (\<forall>x. pos \<le> x \<and> x < pos + sz \<longrightarrow> copied disk s' x))"
proof -
  from assms(6) obtain out n where out: "length out = nat (sz * output_size s)"
    "\<forall>i. 0 \<le> i \<and> i < sz * output_size s \<longrightarrow>
       out ! nat i = target_byte disk s (pos + i div output_size s) (i mod output_size s)"
    "dest s' = store_at (write_position pos s * output_size s) (take n out) (dest s)"
    "frame (s'\<lparr>sector_size := sector_size s\<rparr>) = frame s" "honest_target hw \<and> ret = 0 \<longrightarrow> length out \<le> n"
    "sector_size s' = (if ret = 0 then sector_size s else output_size s)" "ret = 0 \<longrightarrow> buffer s' = buffer s"
    by (rule write_chunk_stores [OF assms(5,2,3,4)]) blast
  have d: "dest t = store_at (write_position pos s * output_size s) (take n out) (dest s)"
    using out(3) by (simp add: t_def)
  have f: "frame t = frame s" using out(4) by (simp add: t_def)
  note st = store_target [OF out(1) _ assms(3) d f, rule_format, OF out(2) [rule_format, OF conjI]]
  have "ret = 0 \<Longrightarrow> t = s'" using out(6) by (simp add: t_def)
  with st f out(5,7) assms(1) show ?thesis by metis
qed

text \<open>
  C35: a write.  If the buffer holds the data of the chunk, a write that succeeds leaves every sector
  of the chunk on the target as it is on the source (up to the output sector size) and every
  other sector as it was.  A write that fails, even half-way, spoils no sector copied before.
\<close>

theorem write_chunk_copies:
  assumes "honest_target hw" "0 < sector_size s" "0 < output_size s" "0 \<le> sz"
    and "buffer s = bytes_at disk (pos * sector_size s) (nat (sz * sector_size s))"
    and "write_chunk hw pos sz s = (ret, s')"
  defines "t \<equiv> s'\<lparr>sector_size := sector_size s\<rparr>"
  shows "frame t = frame s \<and> (\<forall>x. copied disk s x \<longrightarrow> copied disk t x) \<and>
    (\<forall>x. \<not> (pos \<le> x \<and> x < pos + sz) \<longrightarrow> copied disk t x = copied disk s x) \<and>
    (ret = 0 \<longrightarrow> t = s' \<and> buffer s' = buffer s \<and> (\<forall>x. pos \<le> x \<and> x < pos + sz \<longrightarrow> copied disk s' x))"
  unfolding t_def by (rule write_chunk_copies_rule [OF assms(1-6)])

text \<open>
  After a failed write the sector size is wrong.  With an output sector size of its own, a write
  that fails at the target returns without restoring the sector size and the buffer, so the
  engine goes on, when it is started again, with the sector size of the target.
\<close>

theorem failed_write_leaves_sector_size:
  assumes "output_sector_size_adjustment s \<noteq> 0" "sz * sector_size s = int (length (buffer s))"
    and "write_chunk hw pos sz s = (ret, s')" "ret \<noteq> 0"
  shows "sector_size s' = sector_size s + output_sector_size_adjustment s \<and> sector_size s' \<noteq> sector_size s \<and>
    length (buffer s') = nat sz * nat (sector_size s')"
proof -
  let ?n = "sector_size s + output_sector_size_adjustment s"
  define s1 where "s1 = s\<lparr>sector_size := ?n, buffer := resize_sectors (sector_size s) ?n sz (buffer s)\<rparr>"
  obtain r s2 where put: "put_bytes hw (write_position pos s) sz s1 = (r, s2)" by fastforce
  from put_bytes_stores [OF put] have "frame s2 = frame s1" "buffer s2 = buffer s1" by blast+
  moreover have "s' = s2"
    using assms put unfolding write_chunk_def Let_def s1_def [symmetric] by (simp add: s1_def split: if_splits)
  ultimately show ?thesis using assms(1) by (simp add: frame_def s1_def)
qed

section \<open>An example\<close>

text \<open>
  A disk of sectors of four bytes, read as a file.  The hardware answers every command at once and
  without errors.
\<close>

definition demo_disk :: "int \<Rightarrow> 8 word" where
  "demo_disk a = word_of_int a"

definition demo_regs :: registers where
  "demo_regs = \<lparr>r_valid = False, r_error = 0, r_status = 0, r_key = 0, r_asc = 0, r_ascq = 0, r_lba = 0,
     r_host_status = 0, r_residue = 0\<rparr>"

definition demo_hw :: hardware where
  "demo_hw = \<lparr>clock = (\<lambda>_ _. 0), stop_asked = (\<lambda>_. False), seek_source = (\<lambda>_ _. 0),
     read_source = (\<lambda>_ p n. (n, bytes_at demo_disk p (nat n))), source_end = (\<lambda>_. 400),
     read_command = (\<lambda>_ _ _ p n. \<lparr>reply_ret = 0, reply_data = bytes_at demo_disk (p * 4) (nat (n * 4)), reply_regs = demo_regs\<rparr>),
     check_command = (\<lambda>_ _. \<lparr>reply_ret = 1, reply_data = [], reply_regs = demo_regs\<rparr>),
     reset_done = (\<lambda>_. True),
     ncq_command = (\<lambda>_. \<lparr>reply_ret = 1, reply_data = [], reply_regs = demo_regs\<rparr>),
     seek_target = (\<lambda>_ _. 0), write_target = (\<lambda>_ _ out. (int (length out), length out)),
     write_command = (\<lambda>_ _ _ out. (\<lparr>reply_ret = 0, reply_data = [], reply_regs = demo_regs\<rparr>, length out)),
     write_log = (\<lambda>_. 0), recovery_step = (\<lambda>_ _. 0), ksector_start = (\<lambda>_. 0), ten_percent = (\<lambda>_ _. False)\<rparr>"

definition demo_clone_env :: "row list \<Rightarrow> int \<Rightarrow> clone_env" where
  "demo_clone_env rs n = skip_env.extend (demo_skip_env rs n)
     (clone_env.fields
      0 False
      \<lparr>direct_mode = False, passthrough = False, ata_return_valid = False, ata_identify_success = False, ata_error = 0, ata_status = 0, sense_key = 0, asc = 0, ascq = 0\<rparr>
      0 0 0 \<lparr>ncq_key = 0, ncq_asc = 0, ncq_ascq = 0, ncq_lba = 0, ncq_final_lba = 0\<rparr>
      [] (\<lambda>_. 0) (\<lambda>_. 0) (\<lambda>_. 0) 4 0 0 (-1) 64 8 0 True False False False
      False False False True False False False False False False False False False False False False
      False 0 0 0 0 0 0 0 0 0 0 0 no_tally 0 0 0 0 0 0 0 0 0 0 0 0 0)"

lemmas demo_clone_defs = demo_clone_env_def demo_skip_env_def demo_domain_env_def domain_env.extend_def
  skip_env.fields_def skip_env.extend_def clone_env.fields_def

lemma demo_honest: "honest_source demo_hw demo_disk 4" "honest_target demo_hw"
  by (simp_all add: honest_source_def honest_target_def demo_hw_def demo_regs_def Let_def)

lemma demo_read:
  "read_chunk demo_hw 3 2 (demo_clone_env rs 100) =
     (0, (demo_clone_env rs 100)\<lparr>buffer := bytes_at demo_disk 12 8, tick := 5\<rparr>)"
  by (simp add: read_chunk_def throttle_def get_elapsed_usec_def first_read_def generic_read_def demo_hw_def
      demo_clone_defs ticked_def Let_def poll_stop_def second_read_def note_read_time_def read_verdict_def
      fault_reported_def overlay_full)



definition demo_write_env :: clone_env where
  "demo_write_env = (demo_clone_env [] 100)\<lparr>buffer := bytes_at demo_disk 12 8\<rparr>"

lemma demo_write: "write_chunk demo_hw 3 2 demo_write_env =
    (0, demo_write_env\<lparr>dest := store_at 12 (bytes_at demo_disk 12 8) (dest demo_write_env), tick := 2\<rparr>)"
  by (simp add: write_chunk_def put_bytes_def write_position_def driver_give_def demo_hw_def demo_write_env_def
      demo_clone_defs ticked_def Let_def)

lemma write_chunk_copies_witness: "copied demo_disk (snd (write_chunk demo_hw 3 2 demo_write_env)) 4"
proof -
  let ?s = demo_write_env
  have "0 < sector_size ?s" "0 < output_size ?s" "(0 :: int) \<le> 2" "sector_size ?s = 4"
    "buffer ?s = bytes_at demo_disk (3 * sector_size ?s) (nat (2 * sector_size ?s))"
    by (simp_all add: demo_write_env_def demo_clone_defs output_size_def)
  from write_chunk_copies [OF demo_honest(2) this(1-3,5) demo_write] show ?thesis by (simp add: demo_write)
qed

lemma failed_write_leaves_sector_size_witness:
  "sector_size (snd (write_chunk (demo_hw\<lparr>seek_target := \<lambda>_ _. -1\<rparr>) 3 2
     (demo_write_env\<lparr>output_sector_size_adjustment := -2\<rparr>))) = 2"
proof -
  let ?s = "demo_write_env\<lparr>output_sector_size_adjustment := -2\<rparr>" and ?hw = "demo_hw\<lparr>seek_target := \<lambda>_ _. -1\<rparr>"
  have "output_sector_size_adjustment ?s \<noteq> 0" "2 * sector_size ?s = int (length (buffer ?s))" "sector_size ?s = 4"
    "fst (write_chunk ?hw 3 2 ?s) \<noteq> 0"
    by (simp_all add: demo_write_env_def demo_clone_defs write_chunk_def put_bytes_def Let_def
        OUTPUT_DEVICE_ERROR_RETURN_CODE_def)
  with failed_write_leaves_sector_size [OF this(1,2) prod.collapse [symmetric], of ?hw 3] show ?thesis by simp
qed

end
