(* ===== verification/Chunk_Process.thy ===== *)
theory Chunk_Process
  imports Chunk_Data
begin

text \<open>
  What becomes of a chunk that could not be read: the part before the sector reported as bad is
  read again or kept, the sector is marked bad, the rest gets the status of the next phase
  (\<open>process_chunk_ccc\<close>), or, with the NCQ error log of a drive in rebuild assist mode, the
  range that the drive predicts to fail is marked as a bad head
  (\<open>process_rebuild_assist_chunk_ccc\<close>).
\<close>

section \<open>Marking with early return\<close>

text \<open>\<open>ret = change_chunk_status_ccc(...); if (ret < 0) return ret;\<close> and then \<open>f\<close>.\<close>

definition mark_then ::
  "int \<Rightarrow> int \<Rightarrow> status_word \<Rightarrow> ('a maps_scheme \<Rightarrow> int \<times> 'a maps_scheme) \<Rightarrow> 'a maps_scheme \<Rightarrow> int \<times> 'a maps_scheme" where
  "mark_then pos sz st f s =
     (let (ret, s') = change_chunk_status pos sz st FULL_MASK s in if ret < 0 then (ret, s') else f s')"

text \<open>Assigning to an \<open>int\<close>.\<close>

definition to_int :: "int \<Rightarrow> int" where
  "to_int n = signed_take_bit 31 n"

definition dont_mark :: "'a clone_env_scheme \<Rightarrow> bool" where
  "dont_mark s \<longleftrightarrow> \<not> td_soft_reset_time s \<ge> sc_soft_reset_time s"

definition error_status :: "status_word \<Rightarrow> int \<Rightarrow> int \<Rightarrow> 'a clone_env_scheme \<Rightarrow> status_word" where
  "error_status new_status_type retstat rsize s =
     (if rsize > block_size s \<or> (retstat \<noteq> 0 \<and> dont_mark s) then new_status_type else BAD)"

section \<open>A reported bad sector\<close>

text \<open>The sectors behind the bad sector at \<open>pos\<close>, if any, get the status of the next phase.\<close>

definition mark_rest ::
  "hardware \<Rightarrow> status_word \<Rightarrow> int \<Rightarrow> int \<Rightarrow> 'a clone_env_scheme \<Rightarrow> int \<times> 'a clone_env_scheme" where
  "mark_rest hw st pos rsize3 s =
     (let bs = block_size s; done = (\<lambda>s. (0, driver_fail hw pos (rsize3 + bs) s))
      in if rsize3 > 0 then mark_then (pos + bs) rsize3 st done s else done s)"

text \<open>The part before the bad sector has been read and written: mark it, the bad sector and the rest.\<close>

definition mark_around ::
  "hardware \<Rightarrow> status_word \<Rightarrow> status_word \<Rightarrow> int \<Rightarrow> int \<Rightarrow> 'a clone_env_scheme \<Rightarrow> int \<times> 'a clone_env_scheme" where
  "mark_around hw new_status_type old rsize rsize2 s =
     (let pos = current_position s; bs = block_size s in
      mark_then pos rsize2 (FINISHED OR timing_byte s)
        (mark_then (pos + rsize2) bs (BAD OR old)
          (mark_rest hw (new_status_type OR old) (pos + rsize2) (rsize - rsize2 - bs))) s)"

definition process_chunk ::
  "hardware \<Rightarrow> status_word \<Rightarrow> int \<Rightarrow> int \<Rightarrow> int \<Rightarrow> 'a clone_env_scheme \<Rightarrow> int \<times> 'a clone_env_scheme" where
  "process_chunk hw new_status_type retstat rsize skip_info s =
     (let pos = current_position s; bs = block_size s;
          add = additional_status retstat skip_info s; tb = timing_byte s;
          failed = (\<lambda>s. mark_then pos rsize (error_status new_status_type retstat rsize s OR add OR tb)
                          (\<lambda>s. (0, driver_fail hw pos rsize s)) s)
      in if \<not> lba_supported s \<or> pio_mode s then failed s
      else if ata_lba s = pos then
        mark_then pos bs (BAD OR add OR tb)
          (mark_then (pos + bs) (rsize - bs) (new_status_type OR add OR tb)
            (\<lambda>s. (0, driver_fail hw pos rsize s))) s
      else
        let rsize2 = to_int (ata_lba s - pos);
            (retstat2, s) = read_chunk hw pos rsize2 s;
            s = poll_stop hw s
        in if stop_signal s then (STOP_SIGNAL_RETURN_CODE, s)
        else if read_good retstat2 s then
          let (ret, s) = write_chunk hw pos rsize2 s
          in if ret \<noteq> 0 then (ret, s) else mark_around hw new_status_type (add OR tb) rsize rsize2 s
        else failed s)"

section \<open>Rebuild assist\<close>

text \<open>
  Marking the predicted range as a bad head, line by line.  The loop ends because every line
  that is found reaches beyond the position.
\<close>

function mark_head_range :: "int \<Rightarrow> int \<Rightarrow> 'a maps_scheme \<Rightarrow> int \<times> 'a maps_scheme" where
  "mark_head_range position end_lba s =
     (let T = log_table s; block = find_block position T in
      if block = -1 then (0, s)
      else
        let r = lines T ! nat block; block_end = lposition r + lsize r - 1 in
        if lposition r > end_lba then (0, s)
        else if block_end \<ge> end_lba then
          mark_then position (end_lba + 1 - position) (lstatus r OR BAD_HEAD) (\<lambda>s. (0, s)) s
        else
          let (ret, s') = change_chunk_status position (block_end + 1 - position) (lstatus r OR BAD_HEAD) FULL_MASK s
          in if ret < 0 then (ret, s')
             else if block_end + 1 > end_lba then (0, s')
             else mark_head_range (block_end + 1) end_lba s')"
  by pat_completeness auto
termination
proof (relation "measure (\<lambda>(position, end_lba, _). nat (end_lba + 1 - position))", goal_cases)
  case 1
  show ?case by simp
next
  case (2 position end_lba s T block r block_end x ret s')
  have "covers r position"
    using find_block_found [of position T] 2(2,3) 2(4) by (simp add: 2(1))
  with 2(5,7,10) show ?case by (auto simp: covers_def)
qed

declare mark_head_range.simps [simp del]

text \<open>\<open>int trust_returned_data = 0\<close>: the data that came with the error is never used.\<close>

definition trust_returned_data :: bool where
  "trust_returned_data = False"

definition ncq_sense_is :: "int \<Rightarrow> int \<Rightarrow> 'a clone_env_scheme \<Rightarrow> bool" where
  "ncq_sense_is key code s \<longleftrightarrow>
     (let d = ncq_data s in
      ncq_key d = key \<and> ncq_asc d = get_asc_from_additional_sense code \<and>
      ncq_ascq d = get_ascq_from_additional_sense code \<and> ncq_final_lba d > current_position s)"

definition predicted_error :: "'a clone_env_scheme \<Rightarrow> bool" where
  "predicted_error s \<longleftrightarrow> ncq_sense_is SKEY_ABORTED_COMMAND ASC_MULTIPLE_READ_ERRORS s"

text \<open>The sectors before the reported one: written and finished if the data is trusted, else marked as before.\<close>

definition mark_before ::
  "hardware \<Rightarrow> status_word \<Rightarrow> int \<Rightarrow> ('a clone_env_scheme \<Rightarrow> int \<times> 'a clone_env_scheme) \<Rightarrow>
   'a clone_env_scheme \<Rightarrow> int \<times> 'a clone_env_scheme" where
  "mark_before hw status_type rsize2 f s =
     (if trust_returned_data then
        let (ret, s) = write_chunk hw (current_position s) rsize2 s
        in if ret \<noteq> 0 then (ret, s)
           else mark_then (current_position s) rsize2 (FINISHED OR timing_byte s) f s
      else mark_then (current_position s) rsize2 (status_type OR timing_byte s) f s)"

definition predicted_chunk ::
  "hardware \<Rightarrow> status_word \<Rightarrow> status_word \<Rightarrow> int \<Rightarrow> 'a clone_env_scheme \<Rightarrow> int \<times> 'a clone_env_scheme" where
  "predicted_chunk hw status_type old rsize s =
     (let pos = current_position s; lba = ncq_lba (ncq_data s); final = ncq_final_lba (ncq_data s);
          start = (if lba \<ge> pos + rsize \<and> lba < final then lba else pos + rsize);
          rest = mark_head_range start final
      in if lba = pos then
        mark_then pos rsize (status_type OR BAD_HEAD OR old) (\<lambda>s. rest (driver_fail hw pos rsize s)) s
      else
        let rsize2 = to_int (lba - pos); rsize2 = (if rsize2 > rsize then rsize else rsize2);
            rsize3 = rsize - rsize2; done = (\<lambda>s. rest (driver_fail hw (pos + rsize2) rsize3 s))
        in mark_before hw status_type rsize2
             (\<lambda>s. if rsize3 > 0 then mark_then (pos + rsize2) rsize3 (status_type OR BAD_HEAD OR old) done s
                  else done s) s)"

definition unpredicted_chunk ::
  "hardware \<Rightarrow> status_word \<Rightarrow> status_word \<Rightarrow> status_word \<Rightarrow> int \<Rightarrow> 'a clone_env_scheme \<Rightarrow> int \<times> 'a clone_env_scheme" where
  "unpredicted_chunk hw status_type new_status_type old rsize s =
     (let pos = current_position s; lba = ncq_lba (ncq_data s); bs = block_size s in
      if lba = pos then
        mark_then pos bs (BAD OR old)
          (mark_then (pos + bs) (rsize - bs) (new_status_type OR old) (\<lambda>s. (0, driver_fail hw pos rsize s))) s
      else
        let rsize2 = to_int (lba - pos); rsize2 = (if rsize2 > rsize then rsize else rsize2);
            leftover = mark_rest hw (new_status_type OR old) (pos + rsize2) (rsize - rsize2 - bs)
        in mark_before hw status_type rsize2
             (\<lambda>s. if rsize > rsize2 then mark_then (pos + rsize2) bs (BAD OR old) leftover s else leftover s) s)"

definition process_rebuild_assist_chunk ::
  "hardware \<Rightarrow> status_word \<Rightarrow> status_word \<Rightarrow> int \<Rightarrow> int \<Rightarrow> int \<Rightarrow> 'a clone_env_scheme \<Rightarrow> int \<times> 'a clone_env_scheme" where
  "process_rebuild_assist_chunk hw status_type new_status_type retstat rsize skip_info s =
     (let old = additional_status retstat skip_info s OR timing_byte s in
      if predicted_error s then predicted_chunk hw status_type old rsize s
      else unpredicted_chunk hw status_type new_status_type old rsize s)"

end
