(* ===== verification/Engine.thy ===== *)
theory Engine
  imports Chunk_Process
begin

text \<open>
  What the copy passes share: the display update with the rate counters, the log file update, the
  NCQ error log, and the stages of one turn of a pass: choosing the part of a chunk that is in
  the domain, writing a good read, and marking a failed one.  The source repeats these stages in
  \<open>copy_forward_ccc\<close>, \<open>copy_reverse_ccc\<close> and the trim passes.
\<close>

section \<open>Display and log file\<close>

text \<open>The rate since the last update, and the counters of slow reading that follow from it.\<close>

definition read_rate :: "int \<Rightarrow> 'a clone_env_scheme \<Rightarrow> int" where
  "read_rate difference s =
     (if difference > 0 then
        (if fill_mode s then cdiv ((total_filled s - last_filled_value s) * sector_size s * 1000) difference
         else cdiv ((size_of (log_tally s) Finished - last_finished_value s) * sector_size s * 1000) difference)
      else 0)"

definition note_rate :: "int \<Rightarrow> 'a clone_env_scheme \<Rightarrow> 'a clone_env_scheme" where
  "note_rate difference s =
     (let rate = read_rate difference s;
          s = (if rate_skip s > 0 \<and> rate < rate_skip s then s\<lparr>rate_skip_count := rate_skip_count s + 1\<rparr>
               else s\<lparr>rate_skip_count := 0\<rparr>);
          s = (if exit_on_slow s > 0 \<and> rate < exit_on_slow s then
                 (if exit_slow_time s < 0 then s\<lparr>exit_on_slow_count := exit_on_slow_count s + 1\<rparr>
                  else let timer = exit_on_slow_timer s + difference; s = s\<lparr>exit_on_slow_timer := timer\<rparr>
                       in if timer > exit_slow_time s then s\<lparr>exit_on_slow_count := EXIT_ON_SLOW_COUNT + 1\<rparr> else s)
               else s\<lparr>exit_on_slow_count := 0, exit_on_slow_timer := 0\<rparr>)
      in s\<lparr>last_finished_value := size_of (log_tally s) Finished, last_filled_value := total_filled s\<rparr>)"

definition update_display :: "hardware \<Rightarrow> int \<Rightarrow> 'a clone_env_scheme \<Rightarrow> 'a clone_env_scheme" where
  "update_display hw time_ms s =
     (let (now, s) = get_elapsed_usec hw 0 s; new_time = cdiv now 1000 in
      if new_time > last_display_update s + time_ms \<or> time_ms = 0 then
        let difference = new_time - last_display_update s;
            t = get_log_status (STATUS_MASK AND BAD_HEAD_MASK) (log_tally s) s;
            s = s\<lparr>last_display_update := new_time, log_tally := t\<rparr>;
            s = (if time_ms > 0 then note_rate difference s else s);
            s = (if limit_recovery s \<and> total_size t > 0 \<and> ten_percent hw (size_of t Finished) (total_size t)
                 then s\<lparr>recovery_past_limit := True\<rparr> else s)
        in s\<lparr>rate_modifier := 0, highest_skip := 0\<rparr>
      else s)"

definition update_logfile :: "hardware \<Rightarrow> int \<Rightarrow> 'a clone_env_scheme \<Rightarrow> int \<times> 'a clone_env_scheme" where
  "update_logfile hw time_sec s =
     (let (now, s) = get_elapsed_usec hw 0 s; new_time = cdiv now 1000000 in
      if new_time > last_log_write s + time_sec \<or> time_sec = 0
      then (if write_log hw (tick s) \<noteq> 0 then LOGFILE_ERROR_RETURN_CODE else 0,
            ticked (s\<lparr>last_log_write := new_time\<rparr>))
      else (0, s))"

section \<open>The frame of a pass\<close>

text \<open>What one turn of a pass leads to: another turn, the end of the loop, or a return from within.\<close>

datatype 's outcome = Next 's | Done 's | Stop int 's

text \<open>The start of a pass, after the position has been adjusted; clearing the rate history only
  concerns the display.\<close>

definition begin_pass :: "hardware \<Rightarrow> int \<Rightarrow> bool \<Rightarrow> 'a clone_env_scheme \<Rightarrow> int \<times> 'a clone_env_scheme" where
  "begin_pass hw log_time skips s =
     (let s = update_display hw (if driver_mode s \<noteq> 0 then DISPLAY_UPDATE_TIME else 0) s;
          s = poll_stop hw s
      in if stop_signal s then (STOP_SIGNAL_RETURN_CODE, s)
         else
           let (ret, s) = update_logfile hw log_time s
           in if ret \<noteq> 0 then (ret, s)
              else if skips then
                (0, reset_skip (s\<lparr>last_skip_position := current_position s, rate_skip_count := 0, exit_on_slow_count := 0\<rparr>))
              else (0, s))"

definition turn_head :: "hardware \<Rightarrow> 'a clone_env_scheme \<Rightarrow> int \<times> 'a clone_env_scheme" where
  "turn_head hw s =
     (let s = poll_stop hw (update_display hw DISPLAY_UPDATE_TIME s)
      in if stop_signal s then (STOP_SIGNAL_RETURN_CODE, s) else update_logfile hw LOG_UPDATE_TIME s)"

text \<open>Slow reading ends the pass in phases 1 and 2, unless the command called on errors helps.\<close>

definition slow_exit :: "hardware \<Rightarrow> 'a clone_env_scheme \<Rightarrow> int \<times> 'a clone_env_scheme" where
  "slow_exit hw s =
     (if exit_on_slow_count s \<ge> EXIT_ON_SLOW_COUNT \<and> (current_status s = PHASE1 \<or> current_status s = PHASE2) then
        let (ret, s) = call_command_on_error hw s
        in if ret \<noteq> 0 then (EXIT_ON_SLOW_RETURN_CODE, s) else (0, s\<lparr>exit_on_slow_count := 0\<rparr>)
      else (0, s))"

definition rate_skip_due :: "'a clone_env_scheme \<Rightarrow> bool" where
  "rate_skip_due s \<longleftrightarrow> rate_skip_count s \<ge> RATE_SKIP_COUNT \<and> current_status s AND 0xfe = PHASE3 AND 0xfe"

definition count_rate_skip :: "'a clone_env_scheme \<Rightarrow> 'a clone_env_scheme" where
  "count_rate_skip s =
     s\<lparr>rate_skip_count := 0, total_skip_count := total_skip_count s + 1, total_slow_skips := total_slow_skips s + 1,
       highest_skip := skip_size s\<rparr>"

text \<open>
  The loop of a pass, with a bound on the number of turns; \<open>fin\<close> is what the source does after
  the loop, \<open>None\<close> means that the bound is used up, here or in a loop within the turn.
\<close>

fun run_pass ::
  "('s \<Rightarrow> bool) \<Rightarrow> ('s \<Rightarrow> 's outcome option) \<Rightarrow> ('s \<Rightarrow> 's) \<Rightarrow> nat \<Rightarrow> 's \<Rightarrow> (int \<times> 's) option" where
  "run_pass going turn fin 0 s = None"
| "run_pass going turn fin (Suc n) s =
     (if going s then
        (case turn s of
           None \<Rightarrow> None
         | Some (Next s') \<Rightarrow> run_pass going turn fin n s'
         | Some (Done s') \<Rightarrow> Some (0, fin s')
         | Some (Stop ret s') \<Rightarrow> Some (ret, s'))
      else Some (0, fin s))"

section \<open>The part of the chunk in the domain\<close>

text \<open>
  \<open>outside\<close> is what is done with the position when no part of the chunk is in the domain.  The
  result is the size to read, or the internal error of the sanity check.
\<close>

definition domain_stage ::
  "('a clone_env_scheme \<Rightarrow> 'a clone_env_scheme) \<Rightarrow> int \<Rightarrow> 'a clone_env_scheme \<Rightarrow> (int + int) \<times> 'a clone_env_scheme" where
  "domain_stage outside rsize s =
     (if rsize > 0 then
        let start_pos = current_position s; end_pos = start_pos + rsize;
            (ret, s) = process_domain start_pos rsize (domain_status s) STATUS_MASK s
        in if ret \<le> 0 then (Inr 0, outside s)
           else if current_position s < start_pos \<or> current_position s + ret > end_pos \<or> ret > rsize
           then (Inl INTERNAL_ERROR_RETURN_CODE, s)
           else (Inr (domain_size_adjustment (cluster_size s) ret s), s)
      else (Inr rsize, s))"

section \<open>Skipping\<close>

definition skip_info_of :: "int \<Rightarrow> 'a clone_env_scheme \<Rightarrow> int" where
  "skip_info_of dir s = (if skip_enabled s then skip_run_count s OR dir else 0)"

definition note_skip_position :: "'a clone_env_scheme \<Rightarrow> 'a clone_env_scheme" where
  "note_skip_position s = s\<lparr>skip_position := (skip_position s)[nat (skip_run_count s) := current_position s]\<rparr>"

definition jump_forward :: "'a clone_env_scheme \<Rightarrow> 'a clone_env_scheme" where
  "jump_forward s =
     (let s = note_skip_position s; p = current_position s + skip_size s
      in s\<lparr>last_skip_jump_position := p, current_position := block_align p (block_offset s) s\<rparr>)"

definition jump_reverse :: "'a clone_env_scheme \<Rightarrow> 'a clone_env_scheme" where
  "jump_reverse s =
     (let s = note_skip_position s; p = current_position s - skip_size s
      in s\<lparr>last_skip_jump_position := p, current_position := block_align_up p s\<rparr>)"

section \<open>A good read\<close>

definition finish_chunk :: "hardware \<Rightarrow> int \<Rightarrow> 'a clone_env_scheme \<Rightarrow> int \<times> 'a clone_env_scheme" where
  "finish_chunk hw rsize s =
     (let pos = current_position s; (ret, s) = write_chunk hw pos rsize s
      in if ret \<noteq> 0 then (ret, s) else mark_then pos rsize (FINISHED OR timing_byte s) (\<lambda>s. (0, s)) s)"

text \<open>A read that took too long is followed by a skip.\<close>

definition slow_skip ::
  "int \<Rightarrow> ('a clone_env_scheme \<Rightarrow> 'a clone_env_scheme) \<Rightarrow> int \<Rightarrow> 'a clone_env_scheme \<Rightarrow> int \<times> 'a clone_env_scheme" where
  "slow_skip dir jump rsize s =
     (if skip_enabled s \<and> skip_time_triggered s then
        mark_then (current_position s) rsize
          (FINISHED OR additional_status 0 (skip_run_count s OR dir) s OR timing_byte s)
          (\<lambda>s. let (ret, s) = process_skip (jump s) in if ret \<noteq> 0 then (-1, s) else (0, s)) s
      else (0, s))"

definition good_read ::
  "hardware \<Rightarrow> int \<Rightarrow> ('a clone_env_scheme \<Rightarrow> 'a clone_env_scheme) \<Rightarrow> int \<Rightarrow> 'a clone_env_scheme \<Rightarrow> int \<times> 'a clone_env_scheme" where
  "good_read hw dir jump rsize s =
     (let (ret, s) = finish_chunk hw rsize s in if ret \<noteq> 0 then (ret, s) else slow_skip dir jump rsize s)"

section \<open>A failed read\<close>

definition ncq_of_bytes :: "bytes \<Rightarrow> ncq_log" where
  "ncq_of_bytes bs =
     (let b = (\<lambda>i. uint (byte_at bs i)) in
      \<lparr>ncq_key = b 14, ncq_asc = b 15, ncq_ascq = b 16,
       ncq_lba = b 4 + push_bit 8 (b 5) + push_bit 16 (b 6) + push_bit 24 (b 8) + push_bit 32 (b 9) + push_bit 40 (b 10),
       ncq_final_lba = b 17 + push_bit 8 (b 18) + push_bit 16 (b 19) + push_bit 24 (b 20) + push_bit 32 (b 21)
         + push_bit 40 (b 22)\<rparr>)"

definition read_ncq_error_log :: "hardware \<Rightarrow> 'a clone_env_scheme \<Rightarrow> int \<times> 'a clone_env_scheme" where
  "read_ncq_error_log hw s =
     (let r = ncq_command hw (tick s)
      in (reply_ret r, load_registers (reply_regs r) (ticked (s\<lparr>ncq_data := ncq_of_bytes (reply_data r)\<rparr>))))"

text \<open>
  After a failed queued read the log must be read; the registers of the read are put back, with
  the sector that the log reports as the failing one.  The first component tells whether the log
  could not be read.
\<close>

definition ncq_stage :: "hardware \<Rightarrow> bool \<Rightarrow> 'a clone_env_scheme \<Rightarrow> bool \<times> 'a clone_env_scheme" where
  "ncq_stage hw needed s0 =
     (if needed then
        let (ret, s) = read_ncq_error_log hw s0;
            s = s\<lparr>sense := (sense s)\<lparr>ata_return_valid := ata_return_valid (sense s0)\<rparr>, ata_lba := ata_lba s0\<rparr>;
            bad = (ret \<noteq> 0 \<or> ata_status (sense s) AND 1 \<noteq> 0);
            s = (if bad then s else s\<lparr>ata_lba := ncq_lba (ncq_data s)\<rparr>)
        in (bad, s\<lparr>sense := (sense s)\<lparr>ata_error := ata_error (sense s0), ata_status := ata_status (sense s0)\<rparr>\<rparr>)
      else (False, s0))"

text \<open>When the failing sector is known and can be treated on its own.\<close>

definition chunk_processable :: "int \<Rightarrow> int \<Rightarrow> bool \<Rightarrow> 'a clone_env_scheme \<Rightarrow> bool" where
  "chunk_processable retstat rsize aligned s \<longleftrightarrow>
     driver_mode s = 0 \<and> enable_process_chunk s \<and> aligned \<and> ata_return_valid (sense s) \<and> retstat = 0 \<and>
     (direct_mode (sense s) \<or> ata_identify_success (sense s)) \<and> rsize > block_size s \<and> ata_lba s > 0 \<and>
     ata_lba s \<ge> current_position s \<and> ata_lba s < current_position s + rsize"

definition ata_aligned :: "'a clone_env_scheme \<Rightarrow> bool" where
  "ata_aligned s \<longleftrightarrow> ata_lba s = block_align (ata_lba s) (block_offset s) s"

definition plain_failure :: "hardware \<Rightarrow> status_word \<Rightarrow> int \<Rightarrow> int \<Rightarrow> int \<Rightarrow> 'a clone_env_scheme \<Rightarrow> int \<times> 'a clone_env_scheme" where
  "plain_failure hw new_status_type retstat rsize skip_info s =
     mark_then (current_position s) rsize
       (error_status new_status_type retstat rsize s OR additional_status retstat skip_info s OR timing_byte s)
       (\<lambda>s. (0, driver_fail hw (current_position s) rsize s)) s"

text \<open>Skipping after a failed read.\<close>

definition error_skip :: "('a clone_env_scheme \<Rightarrow> 'a clone_env_scheme) \<Rightarrow> 'a clone_env_scheme \<Rightarrow> int \<times> 'a clone_env_scheme" where
  "error_skip jump s =
     (let (ret, s) = process_skip ((jump s)\<lparr>skip_time_triggered := False\<rparr>) in if ret \<noteq> 0 then (-1, s) else (0, s))"

text \<open>
  The end of a failed read: a return status out of range, or a device that does not answer,
  ends the pass unless the command called on errors helps.
\<close>

definition device_stage :: "hardware \<Rightarrow> int \<Rightarrow> 'a clone_env_scheme \<Rightarrow> int \<times> 'a clone_env_scheme" where
  "device_stage hw retstat s =
     (if retstat < 0 \<or> retstat > 0xff then
        let (ret, s) = call_command_on_error hw s in (if ret \<noteq> 0 then retstat else 0, s)
      else
        let (ret, s) = check_device hw s in
        if ret \<noteq> 0 then
          let (ret, s) = call_command_on_error hw s in (if ret \<noteq> 0 then DEVICE_ERROR_RETURN_CODE else 0, s)
        else (0, s))"

definition restore_ata :: "sense_info \<Rightarrow> 'a clone_env_scheme \<Rightarrow> 'a clone_env_scheme" where
  "restore_ata e s = s\<lparr>sense := (sense s)\<lparr>ata_error := ata_error e, ata_status := ata_status e\<rparr>\<rparr>"

end
