(* ===== verification/Copy_Passes.thy ===== *)
theory Copy_Passes
  imports Engine
begin

text \<open>
  The two copy passes: from the current position towards the end (\<open>copy_forward_ccc\<close>) and
  towards the start (\<open>copy_reverse_ccc\<close>) of the recovery area, reading the lines of one status.
\<close>

section \<open>Forward\<close>

definition rate_jump_forward :: "'a clone_env_scheme \<Rightarrow> 'a clone_env_scheme" where
  "rate_jump_forward s =
     (let s = count_rate_skip s
      in s\<lparr>current_position := block_align (current_position s + skip_size s) (block_offset s) s\<rparr>)"

text \<open>The line to read from: the one at the current position or the next one of the status.\<close>

definition locate_forward ::
  "status_word \<Rightarrow> status_word \<Rightarrow> 'a clone_env_scheme \<Rightarrow> 'a clone_env_scheme outcome + row \<times> 'a clone_env_scheme" where
  "locate_forward status_type status_mask s =
     (let T = log_table s; line = find_block (current_position s) T in
      if line = -1 then Inl (Stop INTERNAL_ERROR_RETURN_CODE s)
      else if lstatus (lines T ! nat line) AND status_mask \<noteq> status_type then
        let line = find_next_block line status_type status_mask T in
        if line = -1 then Inl (Done s)
        else
          let r = lines T ! nat line; s = s\<lparr>current_position := lposition r\<rparr>
          in if current_position s \<ge> end_position s then Inl (Done s) else Inr (r, s)
      else Inr (lines T ! nat line, s))"

definition fit_forward :: "row \<Rightarrow> 'a clone_env_scheme \<Rightarrow> int" where
  "fit_forward r s =
     (let pos = current_position s; n = cluster_size s; block_end = lposition r + lsize r;
          n = (if pos + n > block_end then block_end - pos else n);
          n = (if pos + n > end_position s then end_position s - pos else n);
          size_offset = pos - block_align pos (block_offset s) s
      in if size_offset \<noteq> block_size s \<and> size_offset > 0 \<and> size_offset < n then n - size_offset else n)"

definition advance :: "int \<Rightarrow> int \<Rightarrow> int \<Rightarrow> 'a clone_env_scheme \<Rightarrow> 'a clone_env_scheme" where
  "advance rsize skip_pos jump_pos s =
     (let p = current_position s + rsize
      in s\<lparr>current_position := (if skip_pos > p then skip_pos else if jump_pos > p then jump_pos else p)\<rparr>)"

text \<open>The treatment of the failed chunk, in the order of the source.\<close>

definition treat_failure ::
  "hardware \<Rightarrow> status_word \<Rightarrow> status_word \<Rightarrow> int \<Rightarrow> int \<Rightarrow> int \<Rightarrow> bool \<Rightarrow> bool \<Rightarrow> 'a clone_env_scheme \<Rightarrow> int \<times> 'a clone_env_scheme" where
  "treat_failure hw status_type new_status_type retstat rsize skip_info aligned ncq_error s =
     (if driver_mode s = 0 \<and> use_fpdma s \<and> rebuild_assist_enabled s \<and> \<not> ncq_error \<and> ata_return_valid (sense s) \<and>
         retstat = 0 \<and> ncq_lba (ncq_data s) \<ge> current_position s \<and> current_status s = REBUILDASSIST
      then process_rebuild_assist_chunk hw status_type new_status_type retstat rsize skip_info s
      else if chunk_processable retstat rsize aligned s
      then process_chunk hw new_status_type retstat rsize skip_info s
      else plain_failure hw new_status_type retstat rsize skip_info s)"

text \<open>A skip over the range that the drive predicts to fail is only counted here.\<close>

definition count_predicted_skip :: "'a clone_env_scheme \<Rightarrow> 'a clone_env_scheme" where
  "count_predicted_skip s =
     s\<lparr>total_skip_count := total_skip_count s + 1, total_skip_runs := total_skip_runs s + 1,
       last_total_skip_size := ncq_final_lba (ncq_data s) + 1 - ncq_lba (ncq_data s)\<rparr>"

definition forward_failure ::
  "hardware \<Rightarrow> status_word \<Rightarrow> status_word \<Rightarrow> int \<Rightarrow> int \<Rightarrow> 'a clone_env_scheme \<Rightarrow> 'a clone_env_scheme outcome" where
  "forward_failure hw status_type new_status_type retstat rsize s =
     (let e = sense s;
          s = s\<lparr>rate_modifier := rate_modifier s + cdiv (rsize * sector_size s) (cdiv (cluster_size s) 16 + 1)\<rparr>;
          info = skip_info_of (uint FORWARD_SKIP) s; aligned = ata_aligned s;
          queried = (retstat = 0 \<and> use_fpdma s \<and> rebuild_assist_enabled s);
          (ncq_error, s) = ncq_stage hw queried s;
          beyond_range = ncq_final_lba (ncq_data s) + 1;
          predicted = (queried \<and> \<not> ncq_error \<and> ncq_sense_is SKEY_ABORTED_COMMAND ASC_MULTIPLE_READ_ERRORS s);
          skip_pos = (if predicted then beyond_range else 0);
          jump_pos = (if queried \<and> \<not> ncq_error \<and> \<not> predicted \<and>
                         ncq_sense_is SKEY_MEDIUM_ERROR ASC_UNRECOVERED_READ_ERROR s then beyond_range else 0);
          (ret, s) = treat_failure hw status_type new_status_type retstat rsize info aligned ncq_error s
      in if ret \<noteq> 0 then Stop ret s
         else
           let (ret, s) = (if skip_enabled s \<and> skip_pos = 0 then error_skip jump_forward s
                           else (0, if skip_enabled s then count_predicted_skip s else s))
           in if ret \<noteq> 0 then Stop ret s
              else
                let (ret, s) = device_stage hw retstat s
                in if ret \<noteq> 0 then Stop ret s else Next (advance rsize skip_pos jump_pos (restore_ata e s)))"

definition note_retry :: "int \<Rightarrow> 'a clone_env_scheme \<Rightarrow> 'a clone_env_scheme" where
  "note_retry rsize s =
     (if current_status s = RETRYING then s\<lparr>retried_lba_count := retried_lba_count s + rsize\<rparr> else s)"

definition forward_read ::
  "hardware \<Rightarrow> status_word \<Rightarrow> status_word \<Rightarrow> int \<Rightarrow> 'a clone_env_scheme \<Rightarrow> 'a clone_env_scheme outcome" where
  "forward_read hw status_type new_status_type rsize s =
     (let s = note_retry rsize s;
          (retstat, s) = read_chunk hw (current_position s) rsize s;
          s = poll_stop hw s
      in if stop_signal s then Stop STOP_SIGNAL_RETURN_CODE s
         else if read_good retstat s then
           let (ret, s) = good_read hw (uint FORWARD_SKIP) jump_forward rsize s
           in if ret \<noteq> 0 then Stop ret s else Next (advance rsize 0 0 s)
         else forward_failure hw status_type new_status_type retstat rsize s)"

definition forward_chunk ::
  "hardware \<Rightarrow> status_word \<Rightarrow> status_word \<Rightarrow> int \<Rightarrow> 'a clone_env_scheme \<Rightarrow> 'a clone_env_scheme outcome" where
  "forward_chunk hw status_type new_status_type rsize s =
     (let outside = (\<lambda>s. s\<lparr>current_position := min (current_position s + rsize) (end_position s)\<rparr>);
          (res, s) = domain_stage outside rsize s
      in case res of
           Inl ret \<Rightarrow> Stop ret s
         | Inr n \<Rightarrow> if n > 0 then forward_read hw status_type new_status_type n s else Next (advance n 0 0 s))"

definition forward_turn ::
  "hardware \<Rightarrow> status_word \<Rightarrow> status_word \<Rightarrow> status_word \<Rightarrow> 'a clone_env_scheme \<Rightarrow> 'a clone_env_scheme outcome" where
  "forward_turn hw status_type status_mask new_status_type s =
     (let (ret, s) = turn_head hw s in
      if ret \<noteq> 0 then Stop ret s
      else
        let (ret, s) = slow_exit hw s in
        if ret \<noteq> 0 then Stop ret s
        else if rate_skip_due s then Next (rate_jump_forward s)
        else
          case locate_forward status_type status_mask s of
            Inl out \<Rightarrow> out
          | Inr (r, s) \<Rightarrow>
              forward_chunk hw status_type new_status_type (fit_forward r s)
                (if current_position s > last_skip_position s + min_skip_size s then reset_skip s else s))"

definition copy_forward ::
  "hardware \<Rightarrow> nat \<Rightarrow> status_word \<Rightarrow> status_word \<Rightarrow> status_word \<Rightarrow> 'a clone_env_scheme \<Rightarrow> (int \<times> 'a clone_env_scheme) option" where
  "copy_forward hw n status_type status_mask new_status_type s =
     (if drive_locked s then Some (INPUT_DEVICE_ERROR_RETURN_CODE, s)
      else
        let s = s\<lparr>direction := FORWARD, current_position := max (current_position s) (start_position s)\<rparr>;
            (ret, s) = begin_pass hw (if driver_mode s \<noteq> 0 then LOG_UPDATE_TIME else 0) True s
        in if ret \<noteq> 0 then Some (ret, s)
           else run_pass (\<lambda>s. current_position s < end_position s)
                  (\<lambda>s. Some (forward_turn hw status_type status_mask new_status_type s)) reset_skip n s)"

section \<open>Reverse\<close>

definition rate_jump_reverse :: "'a clone_env_scheme \<Rightarrow> 'a clone_env_scheme" where
  "rate_jump_reverse s =
     (let s = count_rate_skip s in s\<lparr>current_position := block_align_up (current_position s - skip_size s) s\<rparr>)"

text \<open>
  The line to read from and the start of the chunk in it: the chunk ends at the current position,
  or at the end of the previous line of the status.  \<open>adjust\<close> is \<open>last_sector_adjust\<close>.
\<close>

definition locate_reverse ::
  "bool \<Rightarrow> status_word \<Rightarrow> status_word \<Rightarrow> 'a clone_env_scheme \<Rightarrow> 'a clone_env_scheme outcome + row \<times> 'a clone_env_scheme" where
  "locate_reverse adjust status_type status_mask s =
     (let T = log_table s; line = find_block (current_position s) T in
      if line = -1 then Inl (Stop INTERNAL_ERROR_RETURN_CODE s)
      else if lstatus (lines T ! nat line) AND status_mask \<noteq> status_type then
        let line = find_previous_block line status_type status_mask T in
        if line = -1 then Inl (Done s)
        else
          let r = lines T ! nat line; block_end = lposition r + lsize r;
              p = block_end - cluster_size s; aligned = block_align_up p s;
              p = max (if aligned < block_end then aligned else p) (lposition r)
          in if p < start_position s then
               let s = s\<lparr>current_position := start_position s\<rparr> in
               if start_position s < lposition r \<or> start_position s > block_end then Inl (Done s) else Inr (r, s)
             else Inr (r, s\<lparr>current_position := p\<rparr>)
      else
        let r = lines T ! nat line; p = (if adjust then end_position s else current_position s) - cluster_size s
        in Inr (r, s\<lparr>current_position := max p (lposition r)\<rparr>))"

definition fit_reverse :: "row \<Rightarrow> 'a clone_env_scheme \<Rightarrow> int" where
  "fit_reverse r s =
     (let pos = current_position s; n = cluster_size s; block_end = lposition r + lsize r;
          n = (if pos + n > block_end then block_end - pos else n)
      in if pos + n > end_position s then end_position s - pos else n)"

definition reverse_failure ::
  "hardware \<Rightarrow> status_word \<Rightarrow> int \<Rightarrow> int \<Rightarrow> 'a clone_env_scheme \<Rightarrow> 'a clone_env_scheme outcome" where
  "reverse_failure hw new_status_type retstat rsize s =
     (let e = sense s;
          s = s\<lparr>rate_modifier := rate_modifier s + cdiv (rsize * sector_size s) (cluster_size s)\<rparr>;
          info = skip_info_of (uint REVERSE_SKIP) s; aligned = ata_aligned s;
          (ncq_error, s) = ncq_stage hw (retstat = 0 \<and> use_fpdma s) s;
          (ret, s) = (if chunk_processable retstat rsize aligned s
            then process_chunk hw new_status_type retstat rsize info s
            else plain_failure hw new_status_type retstat rsize info s)
      in if ret \<noteq> 0 then Stop ret s
         else
           let (ret, s) = (if skip_enabled s then error_skip jump_reverse s else (0, s))
           in if ret \<noteq> 0 then Stop ret s
              else let (ret, s) = device_stage hw retstat s in if ret \<noteq> 0 then Stop ret s else Next (restore_ata e s))"

definition reverse_read ::
  "hardware \<Rightarrow> status_word \<Rightarrow> int \<Rightarrow> 'a clone_env_scheme \<Rightarrow> 'a clone_env_scheme outcome" where
  "reverse_read hw new_status_type rsize s =
     (let s = note_retry rsize s;
          (retstat, s) = read_chunk hw (current_position s) rsize s;
          s = poll_stop hw s
      in if stop_signal s then Stop STOP_SIGNAL_RETURN_CODE s
         else if read_good retstat s then
           let (ret, s) = good_read hw (uint REVERSE_SKIP) jump_reverse rsize s
           in if ret \<noteq> 0 then Stop ret s else Next s
         else reverse_failure hw new_status_type retstat rsize s)"

definition reverse_chunk ::
  "hardware \<Rightarrow> status_word \<Rightarrow> int \<Rightarrow> 'a clone_env_scheme \<Rightarrow> 'a clone_env_scheme outcome" where
  "reverse_chunk hw new_status_type rsize s =
     (let outside = (\<lambda>s. s\<lparr>current_position := max (current_position s - rsize) (start_position s)\<rparr>);
          (res, s) = domain_stage outside rsize s
      in case res of
           Inl ret \<Rightarrow> Stop ret s
         | Inr n \<Rightarrow> if n > 0 then reverse_read hw new_status_type n s else Next s)"

definition reverse_turn ::
  "hardware \<Rightarrow> status_word \<Rightarrow> status_word \<Rightarrow> status_word \<Rightarrow> bool \<Rightarrow> 'a clone_env_scheme \<Rightarrow> 'a clone_env_scheme outcome" where
  "reverse_turn hw status_type status_mask new_status_type adjust s =
     (let (ret, s) = turn_head hw s in
      if ret \<noteq> 0 then Stop ret s
      else
        let (ret, s) = slow_exit hw s in
        if ret \<noteq> 0 then Stop ret s
        else if rate_skip_due s then Next (rate_jump_reverse s)
        else
          case locate_reverse adjust status_type status_mask s of
            Inl out \<Rightarrow> out
          | Inr (r, s) \<Rightarrow>
              reverse_chunk hw new_status_type (fit_reverse r s)
                (if current_position s < last_skip_position s - min_skip_size s then reset_skip s else s))"

definition more_reverse :: "'a clone_env_scheme \<Rightarrow> bool" where
  "more_reverse s \<longleftrightarrow> current_position s > start_position s"

text \<open>Only the first turn has \<open>last_sector_adjust\<close> set.\<close>

definition copy_reverse ::
  "hardware \<Rightarrow> nat \<Rightarrow> status_word \<Rightarrow> status_word \<Rightarrow> status_word \<Rightarrow> 'a clone_env_scheme \<Rightarrow> (int \<times> 'a clone_env_scheme) option" where
  "copy_reverse hw n status_type status_mask new_status_type s =
     (if drive_locked s then Some (INPUT_DEVICE_ERROR_RETURN_CODE, s)
      else
        let adjust = (current_position s \<ge> end_position s);
            s = s\<lparr>direction := REVERSE, current_position := (if adjust then end_position s - 1 else current_position s)\<rparr>;
            (ret, s) = begin_pass hw 0 True s;
            turn = (\<lambda>adj. reverse_turn hw status_type status_mask new_status_type adj)
        in if ret \<noteq> 0 then Some (ret, s)
           else if more_reverse s then
             (case turn adjust s of
                Next s' \<Rightarrow> run_pass more_reverse (\<lambda>s. Some (turn False s)) reset_skip n s'
              | Done s' \<Rightarrow> Some (0, reset_skip s')
              | Stop ret s' \<Rightarrow> Some (ret, s'))
           else Some (0, reset_skip s))"

end
