(* ===== verification/Trim_Passes.thy ===== *)
theory Trim_Passes
  imports Copy_Passes
begin

text \<open>
  The two trim passes: every block of one status is read block by block from one end until the
  first error (the leading loop), then from the other end back to that error (the following
  loop); what lies between the two errors gets the new status.  \<open>trim_forward_ccc\<close> and
  \<open>trim_reverse_ccc\<close> repeat the same code with the directions exchanged.
\<close>

definition ADD_STATUS_MASK :: status_word where [status_consts]: "ADD_STATUS_MASK = 0xffffffffffffff00"

section \<open>The block\<close>

text \<open>The local variables of a turn.\<close>

record trim_block =
  block_start :: int
  block_end :: int
  forward_error :: int
  reverse_error :: int
  forward_error_size :: int
  read_size :: int
  original_status :: status_word
  trim_success :: bool
  major_error :: int

definition new_block :: "row \<Rightarrow> 'a clone_env_scheme \<Rightarrow> trim_block" where
  "new_block r s =
     (let e = lposition r + lsize r in
      \<lparr>block_start = lposition r, block_end = e, forward_error = e, reverse_error = lposition r,
       forward_error_size = block_size s, read_size = block_size s,
       original_status = lstatus r AND ADD_STATUS_MASK, trim_success = True, major_error = 0\<rparr>)"

definition fit_block :: "trim_block \<Rightarrow> 'a clone_env_scheme \<Rightarrow> int" where
  "fit_block b s =
     (let pos = current_position s; n = read_size b;
          n = (if pos + n > block_end b then block_end b - pos else n)
      in if pos + n > end_position s then end_position s - pos else n)"

section \<open>One chunk\<close>

text \<open>A chunk is read and written, or missed with the code of a major error, or the pass stops.\<close>

datatype 's trial = Tried 's | Missed int 's | Broke int 's

text \<open>Only the leading loop tells the driver about a failure, and returns with the registers of the
  device check when there is a major error.\<close>

definition trim_failure ::
  "hardware \<Rightarrow> status_word \<Rightarrow> bool \<Rightarrow> int \<Rightarrow> int \<Rightarrow> 'a clone_env_scheme \<Rightarrow> 'a clone_env_scheme trial" where
  "trim_failure hw new_status_type leading retstat rsize s =
     (let e = sense s; pos = current_position s;
          s = s\<lparr>rate_modifier := rate_modifier s + cdiv (rsize * sector_size s) (cdiv (cluster_size s) 16 + 1)\<rparr>;
          (ncq_error, s) = ncq_stage hw (retstat = 0 \<and> use_fpdma s) s;
          (ret, s) = mark_then pos rsize
            (error_status new_status_type retstat rsize s OR additional_status retstat 0 s OR timing_byte s)
            (\<lambda>s. (0, if leading then driver_fail hw pos rsize s else s)) s
      in if ret \<noteq> 0 then Broke ret s
         else
           let (major, s) = device_stage hw retstat s
           in Missed major (if leading \<and> major \<noteq> 0 then s else restore_ata e s))"

definition trim_read ::
  "hardware \<Rightarrow> status_word \<Rightarrow> bool \<Rightarrow> int \<Rightarrow> 'a clone_env_scheme \<Rightarrow> 'a clone_env_scheme trial" where
  "trim_read hw new_status_type leading rsize s =
     (let (retstat, s) = read_chunk hw (current_position s) rsize s;
          s = poll_stop hw s
      in if stop_signal s then Broke STOP_SIGNAL_RETURN_CODE s
         else if read_good retstat s then
           let (ret, s) = finish_chunk hw rsize s in if ret \<noteq> 0 then Broke ret s else Tried s
         else trim_failure hw new_status_type leading retstat rsize s)"

definition trim_move :: "int \<Rightarrow> 'a clone_env_scheme \<Rightarrow> 'a clone_env_scheme" where
  "trim_move dir s = s\<lparr>current_position := current_position s + dir * cluster_size s\<rparr>"

section \<open>The leading loop\<close>

text \<open>\<open>dir\<close> is 1 in the forward and -1 in the reverse pass.\<close>

definition trim_rest :: "int \<Rightarrow> trim_block \<Rightarrow> int \<Rightarrow> int \<times> int" where
  "trim_rest dir b pos =
     (if dir > 0 then (pos + read_size b, block_end b - (pos + read_size b))
      else (block_start b, pos - block_start b))"

definition major_exit ::
  "int \<Rightarrow> status_word \<Rightarrow> int \<Rightarrow> trim_block \<Rightarrow> 'a clone_env_scheme \<Rightarrow> int \<times> 'a clone_env_scheme" where
  "major_exit dir new_status_type major b s =
     (let (pos, sz) = trim_rest dir b (current_position s) in
      if sz > 0 then mark_then pos sz (new_status_type OR original_status b) (\<lambda>s. (major, s)) s else (major, s))"

definition trim_lead ::
  "hardware \<Rightarrow> status_word \<Rightarrow> int \<Rightarrow> trim_block \<times> 'a clone_env_scheme \<Rightarrow> (trim_block \<times> 'a clone_env_scheme) outcome" where
  "trim_lead hw new_status_type dir = (\<lambda>(b, s).
     let (ret, s) = turn_head hw s in
     if ret \<noteq> 0 then Stop ret (b, s)
     else
       let (res, s) = domain_stage (\<lambda>s. s) (fit_block b s) s in
       case res of
         Inl ret \<Rightarrow> Stop ret (b, s)
       | Inr n \<Rightarrow>
           let b = b\<lparr>read_size := n\<rparr> in
           if n > 0 then
             (case trim_read hw new_status_type True n s of
                Broke ret s \<Rightarrow> Stop ret (b, s)
              | Tried s \<Rightarrow> Next (b, trim_move dir s)
              | Missed major s \<Rightarrow>
                  if major \<noteq> 0 then let (ret, s) = major_exit dir new_status_type major b s in Stop ret (b, s)
                  else Done (b\<lparr>trim_success := False, forward_error := current_position s,
                               reverse_error := current_position s, forward_error_size := n\<rparr>, s))
           else Next (b, trim_move dir s))"

section \<open>The following loop\<close>

text \<open>The end of the loop at the error of the leading one, and the part of the chunk up to it.\<close>

definition trim_meet :: "int \<Rightarrow> trim_block \<Rightarrow> 'a clone_env_scheme \<Rightarrow> (trim_block \<times> 'a clone_env_scheme) option" where
  "trim_meet dir b s =
     (if dir > 0 then
        if current_position s \<ge> reverse_error b then None
        else if current_position s + read_size b > reverse_error b
        then Some (b\<lparr>read_size := read_size b - ((current_position s + read_size b) - reverse_error b)\<rparr>, s)
        else Some (b, s)
      else
        let limit = forward_error b + forward_error_size b in
        if current_position s \<le> forward_error b then None
        else if current_position s < limit
        then Some (b\<lparr>read_size := read_size b - (limit - current_position s)\<rparr>, s\<lparr>current_position := limit\<rparr>)
        else Some (b, s))"

definition trim_follow ::
  "hardware \<Rightarrow> status_word \<Rightarrow> int \<Rightarrow> trim_block \<times> 'a clone_env_scheme \<Rightarrow> (trim_block \<times> 'a clone_env_scheme) outcome" where
  "trim_follow hw new_status_type dir = (\<lambda>(b, s).
     let (ret, s) = turn_head hw s in
     if ret \<noteq> 0 then Stop ret (b, s)
     else
       case trim_meet dir b s of
         None \<Rightarrow> Done (b, s)
       | Some (b, s) \<Rightarrow>
           (let (res, s) = domain_stage (\<lambda>s. s) (fit_block b s) s in
            case res of
             Inl ret \<Rightarrow> Stop ret (b, s)
           | Inr n \<Rightarrow>
               let b = b\<lparr>read_size := n\<rparr> in
               if n > 0 then
                 (case trim_read hw new_status_type False n s of
                    Broke ret s \<Rightarrow> Stop ret (b, s)
                  | Tried s \<Rightarrow> Next (b, trim_move dir s)
                  | Missed major s \<Rightarrow>
                      let b = b\<lparr>trim_success := False, major_error := major\<rparr>;
                          b = (if dir > 0 then b\<lparr>forward_error := current_position s\<rparr>
                               else b\<lparr>reverse_error := current_position s\<rparr>)
                      in Done (b, s))
               else Next (b, trim_move dir s)))"

section \<open>The block as a whole\<close>

text \<open>The end: the part between the two errors is marked, and the position leaves the block.\<close>

definition trim_close ::
  "int \<Rightarrow> status_word \<Rightarrow> trim_block \<Rightarrow> 'a clone_env_scheme \<Rightarrow> 'a clone_env_scheme outcome" where
  "trim_close dir new_status_type b s =
     (let pos = forward_error b + forward_error_size b; sz = reverse_error b - pos;
          (ret, s) = (if \<not> trim_success b \<and> reverse_error b > pos
                      then mark_then pos sz (new_status_type OR original_status b) (\<lambda>s. (0, s)) (s\<lparr>current_position := pos\<rparr>)
                      else (0, s))
      in if ret \<noteq> 0 then Stop ret s
         else
           let s = s\<lparr>current_position := (if dir > 0 then block_end b else block_start b)\<rparr>
           in if major_error b \<noteq> 0 then Stop (major_error b) s else Next s)"

definition trim_before :: "trim_block \<times> 'a clone_env_scheme \<Rightarrow> bool" where
  "trim_before = (\<lambda>(b, s). current_position s < block_end b)"

text \<open>The reverse pass starts with the condition \<open>\<ge>\<close>, the reverse part of the forward pass has \<open>>\<close>.\<close>

definition trim_behind :: "bool \<Rightarrow> trim_block \<times> 'a clone_env_scheme \<Rightarrow> bool" where
  "trim_behind leading = (\<lambda>(b, s).
     if leading then current_position s \<ge> block_start b else current_position s > block_start b)"

definition trim_forward_block ::
  "hardware \<Rightarrow> nat \<Rightarrow> status_word \<Rightarrow> row \<Rightarrow> 'a clone_env_scheme \<Rightarrow> 'a clone_env_scheme outcome option" where
  "trim_forward_block hw n new_status_type r s =
     (let b = new_block r s in
      case run_pass trim_before (\<lambda>x. Some (trim_lead hw new_status_type 1 x)) id n (b, s\<lparr>current_position := block_start b\<rparr>) of
        None \<Rightarrow> None
      | Some (ret, b, s) \<Rightarrow>
          if ret \<noteq> 0 then Some (Stop ret s)
          else if trim_success b then Some (trim_close 1 new_status_type b s)
          else
            (case run_pass (trim_behind False) (\<lambda>x. Some (trim_follow hw new_status_type (-1) x)) id n
                    (b\<lparr>trim_success := True, read_size := block_size s\<rparr>,
                     s\<lparr>current_position := block_end b - block_size s\<rparr>) of
               None \<Rightarrow> None
             | Some (ret, b, s) \<Rightarrow>
                 if ret \<noteq> 0 then Some (Stop ret s) else Some (trim_close 1 new_status_type b s)))"

definition trim_reverse_block ::
  "hardware \<Rightarrow> nat \<Rightarrow> status_word \<Rightarrow> row \<Rightarrow> 'a clone_env_scheme \<Rightarrow> 'a clone_env_scheme outcome option" where
  "trim_reverse_block hw n new_status_type r s =
     (let b = new_block r s in
      case run_pass (trim_behind True) (\<lambda>x. Some (trim_lead hw new_status_type (-1) x)) id n
             (b, s\<lparr>current_position := block_end b - block_size s\<rparr>) of
        None \<Rightarrow> None
      | Some (ret, b, s) \<Rightarrow>
          if ret \<noteq> 0 then Some (Stop ret s)
          else if trim_success b then Some (trim_close (-1) new_status_type b s)
          else
            (case run_pass trim_before (\<lambda>x. Some (trim_follow hw new_status_type 1 x)) id n
                    (b, s\<lparr>current_position := block_start b\<rparr>) of
               None \<Rightarrow> None
             | Some (ret, b, s) \<Rightarrow>
                 if ret \<noteq> 0 then Some (Stop ret s) else Some (trim_close (-1) new_status_type b s)))"

section \<open>The passes\<close>

text \<open>The position within the line only matters for the test against the start of the area: the
  leading loop sets it anew.\<close>

definition trim_locate_reverse ::
  "bool \<Rightarrow> status_word \<Rightarrow> status_word \<Rightarrow> 'a clone_env_scheme \<Rightarrow> 'a clone_env_scheme outcome + row \<times> 'a clone_env_scheme" where
  "trim_locate_reverse adjust status_type status_mask s =
     (let T = log_table s; line = find_block (current_position s) T in
      if line = -1 then Inl (Stop INTERNAL_ERROR_RETURN_CODE s)
      else if lstatus (lines T ! nat line) AND status_mask \<noteq> status_type then
        let line = find_previous_block line status_type status_mask T in
        if line = -1 then Inl (Done s)
        else
          let r = lines T ! nat line; p = max (lposition r + lsize r - block_size s) (lposition r)
          in if p < start_position s then
               let s = s\<lparr>current_position := start_position s\<rparr> in
               if start_position s < lposition r \<or> start_position s > lposition r + lsize r
               then Inl (Done s) else Inr (r, s)
             else Inr (r, s\<lparr>current_position := p\<rparr>)
      else
        let r = lines T ! nat line; p = (if adjust then end_position s else current_position s) - block_size s
        in Inr (r, s\<lparr>current_position := max p (lposition r)\<rparr>))"

definition trim_forward_turn ::
  "hardware \<Rightarrow> nat \<Rightarrow> status_word \<Rightarrow> status_word \<Rightarrow> status_word \<Rightarrow> 'a clone_env_scheme \<Rightarrow> 'a clone_env_scheme outcome option" where
  "trim_forward_turn hw n status_type status_mask new_status_type s =
     (let (ret, s) = turn_head hw s in
      if ret \<noteq> 0 then Some (Stop ret s)
      else
        case locate_forward status_type status_mask s of
          Inl out \<Rightarrow> Some out
        | Inr (r, s) \<Rightarrow> trim_forward_block hw n new_status_type r s)"

definition trim_reverse_turn ::
  "hardware \<Rightarrow> nat \<Rightarrow> status_word \<Rightarrow> status_word \<Rightarrow> status_word \<Rightarrow> bool \<Rightarrow> 'a clone_env_scheme \<Rightarrow>
   'a clone_env_scheme outcome option" where
  "trim_reverse_turn hw n status_type status_mask new_status_type adjust s =
     (let (ret, s) = turn_head hw s in
      if ret \<noteq> 0 then Some (Stop ret s)
      else
        case trim_locate_reverse adjust status_type status_mask s of
          Inl out \<Rightarrow> Some out
        | Inr (r, s) \<Rightarrow> trim_reverse_block hw n new_status_type r s)"

definition trim_forward ::
  "hardware \<Rightarrow> nat \<Rightarrow> status_word \<Rightarrow> status_word \<Rightarrow> status_word \<Rightarrow> 'a clone_env_scheme \<Rightarrow> (int \<times> 'a clone_env_scheme) option" where
  "trim_forward hw n status_type status_mask new_status_type s =
     (if drive_locked s then Some (INPUT_DEVICE_ERROR_RETURN_CODE, s)
      else
        let s = s\<lparr>direction := FORWARD, current_position := max (current_position s) (start_position s)\<rparr>;
            (ret, s) = begin_pass hw (if driver_mode s \<noteq> 0 then LOG_UPDATE_TIME else 0) False s
        in if ret \<noteq> 0 then Some (ret, s)
           else run_pass (\<lambda>s. current_position s < end_position s)
                  (trim_forward_turn hw n status_type status_mask new_status_type) id n s)"

definition trim_reverse ::
  "hardware \<Rightarrow> nat \<Rightarrow> status_word \<Rightarrow> status_word \<Rightarrow> status_word \<Rightarrow> 'a clone_env_scheme \<Rightarrow> (int \<times> 'a clone_env_scheme) option" where
  "trim_reverse hw n status_type status_mask new_status_type s =
     (if drive_locked s then Some (INPUT_DEVICE_ERROR_RETURN_CODE, s)
      else
        let adjust = (current_position s \<ge> end_position s);
            s = s\<lparr>direction := REVERSE, current_position := (if adjust then end_position s - 1 else current_position s)\<rparr>;
            (ret, s) = begin_pass hw 0 False s;
            going = (\<lambda>s. current_position s > start_position s);
            turn = (\<lambda>adj. trim_reverse_turn hw n status_type status_mask new_status_type adj)
        in if ret \<noteq> 0 then Some (ret, s)
           else if going s then
             (case turn adjust s of
                None \<Rightarrow> None
              | Some (Next s') \<Rightarrow> run_pass going (turn False) id n s'
              | Some (Done s') \<Rightarrow> Some (0, s')
              | Some (Stop ret s') \<Rightarrow> Some (ret, s'))
           else Some (0, s))"

end
