(* ===== verification/Clone_Phases.thy ===== *)
theory Clone_Phases
  imports Trim_Passes
begin

text \<open>
  The phases of a recovery: \<open>clone_forward_ccc\<close> and \<open>clone_reverse_ccc\<close> run the passes one after
  the other, each from where the log says the last run stopped or, after a finished pass, from
  the start (or the end) of the area.  The names of the phases on the display and the copies of
  the log file after each phase, whose result the source ignores, are left out.
\<close>

definition DIVIDE_VALUE :: int where "DIVIDE_VALUE = 8"
definition DIVIDE1_VALUE :: int where "DIVIDE1_VALUE = 4"
definition DIVIDE2_VALUE :: int where "DIVIDE2_VALUE = 16"

record phase_env = clone_env +
  original_cluster_size :: int
  no_phase1 :: bool
  no_phase2 :: bool
  no_phase3 :: bool
  no_phase4 :: bool
  no_trim :: bool
  no_divide1 :: bool
  do_divide2 :: bool
  no_scrape :: bool
  read_bad_head :: bool
  retries :: int
  phase_timers :: bool
  orig_soft_reset_time :: int
  p12_soft_reset_time :: int
  p3_soft_reset_time :: int
  p4_soft_reset_time :: int
  d2_soft_reset_time :: int

section \<open>The soft reset timer\<close>

text \<open>\<open>None\<close> stands for the argument -1.\<close>

definition set_soft_timer :: "status_word option \<Rightarrow> 'a phase_env_scheme \<Rightarrow> 'a phase_env_scheme" where
  "set_soft_timer status s =
     s\<lparr>soft_reset_time :=
        (if \<not> phase_timers s then orig_soft_reset_time s
         else if status = Some PHASE1 \<or> status = Some PHASE2 then p12_soft_reset_time s
         else if status = Some PHASE3 then p3_soft_reset_time s
         else if status = Some PHASE4 then p4_soft_reset_time s
         else if status = Some TRIMMING \<or> status = Some DIVIDING1 then td_soft_reset_time s
         else if status = Some DIVIDING2 then d2_soft_reset_time s
         else if status = Some SCRAPING then sc_soft_reset_time s
         else if status = Some RETRYING then rt_soft_reset_time s
         else orig_soft_reset_time s)\<rparr>"

section \<open>One phase\<close>

text \<open>
  The state of the sequence: the return code so far, \<open>rollover\<close>, and the environment.  A phase
  that is switched off only moves the status on.
\<close>

type_synonym 'a progress = "int \<times> bool \<times> 'a phase_env_scheme"

definition run_phase ::
  "status_word \<Rightarrow> status_word \<Rightarrow> bool \<Rightarrow> ('a phase_env_scheme \<Rightarrow> 'a phase_env_scheme) \<Rightarrow>
   ('a phase_env_scheme \<Rightarrow> 'a phase_env_scheme) \<Rightarrow> ('a phase_env_scheme \<Rightarrow> (int \<times> 'a phase_env_scheme) option) \<Rightarrow>
   'a progress \<Rightarrow> 'a progress option" where
  "run_phase status next_status enabled restart tune pass = (\<lambda>(ret, rollover, s).
     if current_status s = status \<and> ret = 0 then
       (case (if enabled then pass (tune (if rollover then restart s else s)) else Some (0, s)) of
          None \<Rightarrow> None
        | Some (ret, s) \<Rightarrow>
            if ret = 0 then Some (0, True, s\<lparr>current_status := next_status\<rparr>) else Some (ret, rollover, s))
     else Some (ret, rollover, s))"

definition to_start :: "'a phase_env_scheme \<Rightarrow> 'a phase_env_scheme" where
  "to_start s = s\<lparr>current_position := start_position s\<rparr>"

definition to_end :: "'a phase_env_scheme \<Rightarrow> 'a phase_env_scheme" where
  "to_end s = s\<lparr>current_position := end_position s\<rparr>"

definition to_last :: "'a phase_env_scheme \<Rightarrow> 'a phase_env_scheme" where
  "to_last s = s\<lparr>current_position := end_position s - 1\<rparr>"

text \<open>The settings of a phase: cluster size, skipping, timer.\<close>

definition tune :: "int \<Rightarrow> bool \<Rightarrow> status_word \<Rightarrow> 'a phase_env_scheme \<Rightarrow> 'a phase_env_scheme" where
  "tune csize skip status s =
     set_soft_timer (Some status) ((if skip then s\<lparr>skip_size := min_skip_size s\<rparr> else s)\<lparr>cluster_size := csize, skip_enabled := skip\<rparr>)"

definition divided_size :: "int \<Rightarrow> 'a phase_env_scheme \<Rightarrow> int" where
  "divided_size k s = max (cdiv (original_cluster_size s) k) (block_size s)"

definition plain_mask :: status_word where "plain_mask = STATUS_MASK AND BAD_HEAD_MASK"

section \<open>Retrying\<close>

text \<open>
  The loop over \<open>retries_ccc\<close>.  Both directions read with \<open>copy_forward_ccc\<close>; \<open>restart\<close> is where
  they start.
\<close>

fun retry_loop ::
  "hardware \<Rightarrow> nat \<Rightarrow> ('a phase_env_scheme \<Rightarrow> 'a phase_env_scheme) \<Rightarrow> nat \<Rightarrow> 'a progress \<Rightarrow> 'a progress option" where
  "retry_loop hw n restart 0 (ret, rollover, s) = Some (ret, rollover, s)"
| "retry_loop hw n restart (Suc k) (ret, rollover, s) =
     (let s = s\<lparr>current_status := RETRYING\<rparr>;
          s = (if rollover then (restart s)\<lparr>retried_lba_count := 0\<rparr> else s)
      in case copy_forward hw n BAD plain_mask BAD (tune (block_size s) False RETRYING s) of
           None \<Rightarrow> None
         | Some (ret, s) \<Rightarrow>
             if ret = 0
             then retry_loop hw n restart k (0, True, s\<lparr>current_status := FINISHED, retries := retries s - 1\<rparr>)
             else Some (ret, rollover, s))"

definition retry_phase ::
  "hardware \<Rightarrow> nat \<Rightarrow> ('a phase_env_scheme \<Rightarrow> 'a phase_env_scheme) \<Rightarrow> 'a progress \<Rightarrow> 'a progress option" where
  "retry_phase hw n restart = (\<lambda>(ret, rollover, s).
     let rollover = (rollover \<or> current_status s \<noteq> RETRYING);
         s = (if retries s > 0 \<and> ret = 0 then s\<lparr>current_status := RETRYING\<rparr> else s)
     in if current_status s = RETRYING \<and> ret = 0 then
          retry_loop hw n restart (nat (retries s))
            (ret, rollover, if retries s < 1 then s\<lparr>current_status := FINISHED\<rparr> else s)
        else Some (ret, rollover, s))"

section \<open>The sequence\<close>

fun run_phases :: "('a \<Rightarrow> 'a option) list \<Rightarrow> 'a \<Rightarrow> 'a option" where
  "run_phases [] x = Some x"
| "run_phases (f # fs) x = (case f x of None \<Rightarrow> None | Some y \<Rightarrow> run_phases fs y)"

text \<open>The start: the counters of the display, and the position brought into the area.\<close>

definition clone_begin :: "hardware \<Rightarrow> int \<Rightarrow> 'a phase_env_scheme \<Rightarrow> int \<times> 'a phase_env_scheme" where
  "clone_begin hw past s =
     (let (now, s) = get_elapsed_usec hw 0 s;
          t = get_log_status plain_mask (log_tally s) s;
          s = s\<lparr>log_tally := t, last_finished_value := size_of t Finished\<rparr>;
          s = poll_stop hw (update_display hw 0 s)
      in if stop_signal s then (STOP_SIGNAL_RETURN_CODE, s)
         else (0, s\<lparr>current_position := (if current_position s < start_position s then start_position s
                     else if current_position s \<ge> end_position s then past else current_position s)\<rparr>))"

definition pass_mask :: "'a phase_env_scheme \<Rightarrow> status_word" where
  "pass_mask s = (if \<not> read_bad_head s \<and> rebuild_assist_enabled s then STATUS_MASK else plain_mask)"

definition late_mask :: "'a phase_env_scheme \<Rightarrow> status_word" where
  "late_mask s = (if read_bad_head s then plain_mask else STATUS_MASK)"

text \<open>Between the first phases and the others the skip sizes start anew.\<close>

definition renew_skips :: "'a progress \<Rightarrow> 'a progress option" where
  "renew_skips = (\<lambda>(ret, rollover, s).
     let s = (if rollover then s\<lparr>min_skip_size := original_min_skip_size s\<rparr> else s);
         s = s\<lparr>skip_size := min_skip_size s\<rparr>
     in Some (ret, rollover, if current_status s = FINISHED then s\<lparr>current_status := PHASE3\<rparr> else s))"

definition clone_end :: "hardware \<Rightarrow> int \<times> bool \<times> 'a phase_env_scheme \<Rightarrow> int \<times> 'a phase_env_scheme" where
  "clone_end hw = (\<lambda>(ret, rollover, s).
     let s = set_soft_timer None (update_display hw 0 s)
     in if current_status s = FINISHED then (0, s) else (ret, update_display hw 0 s))"

text \<open>
  The later phases: \<open>copy\<close> and \<open>trim\<close> are the passes of the direction, \<open>restart\<close> is where they
  start.
\<close>

definition late_phases ::
  "(status_word \<Rightarrow> status_word \<Rightarrow> status_word \<Rightarrow> 'a phase_env_scheme \<Rightarrow> (int \<times> 'a phase_env_scheme) option) \<Rightarrow>
   (status_word \<Rightarrow> status_word \<Rightarrow> status_word \<Rightarrow> 'a phase_env_scheme \<Rightarrow> (int \<times> 'a phase_env_scheme) option) \<Rightarrow>
   ('a phase_env_scheme \<Rightarrow> 'a phase_env_scheme) \<Rightarrow> 'a phase_env_scheme \<Rightarrow> ('a progress \<Rightarrow> 'a progress option) list" where
  "late_phases copy trim restart s =
     (let mask = late_mask s; big = original_cluster_size s; small = block_size s in
      [run_phase PHASE3 PHASE4 (\<not> no_phase3 s) restart (tune big False PHASE3) (copy NONTRIED mask NONTRIMMED),
       run_phase PHASE4 TRIMMING (\<not> no_phase4 s) restart (tune big False PHASE4) (copy NONTRIED mask NONTRIMMED),
       run_phase TRIMMING DIVIDING1 (\<not> no_trim s) restart (tune small False TRIMMING) (trim NONTRIMMED mask NONSCRAPED),
       run_phase DIVIDING1 DIVIDING2 (\<not> no_divide1 s) restart
         (tune (divided_size (if do_divide2 s then DIVIDE1_VALUE else DIVIDE_VALUE) s) False DIVIDING1)
         (copy NONTRIMMED mask (if do_divide2 s then NONDIVIDED else NONSCRAPED)),
       run_phase DIVIDING2 SCRAPING (\<not> no_divide1 s \<and> do_divide2 s) restart
         (tune (divided_size DIVIDE2_VALUE s) False DIVIDING2) (copy NONDIVIDED mask NONSCRAPED),
       run_phase SCRAPING FINISHED (\<not> no_scrape s) restart (tune small False SCRAPING) (copy NONSCRAPED mask BAD)])"

text \<open>The rebuild assist phase does not go back to the start, and the second phase follows it.\<close>

definition rebuild_phase :: "hardware \<Rightarrow> nat \<Rightarrow> 'a progress \<Rightarrow> 'a progress option" where
  "rebuild_phase hw n = (\<lambda>(ret, rollover, s).
     if current_status s = REBUILDASSIST \<and> ret = 0 then
       (case (if rebuild_assist s
              then copy_forward hw n NONTRIED plain_mask NONTRIMMED
                     (set_soft_timer None (s\<lparr>cluster_size := original_cluster_size s, skip_enabled := True,
                                             skip_size := min_skip_size s\<rparr>))
              else Some (0, s)) of
          None \<Rightarrow> None
        | Some (ret, s) \<Rightarrow>
            if ret = 0 then Some (0, True, s\<lparr>current_status := PHASE2, rebuild_assist := False\<rparr>)
            else Some (ret, rollover, s))
     else Some (ret, rollover, s))"

definition forward_phases :: "hardware \<Rightarrow> nat \<Rightarrow> 'a phase_env_scheme \<Rightarrow> ('a progress \<Rightarrow> 'a progress option) list" where
  "forward_phases hw n s =
     (let big = original_cluster_size s in
      [rebuild_phase hw n,
       run_phase PHASE1 PHASE2 (\<not> no_phase1 s) to_start (tune big True PHASE1)
         (copy_forward hw n NONTRIED (pass_mask s) NONTRIMMED),
       run_phase PHASE2 PHASE3 (\<not> no_phase2 s) to_last (tune big True PHASE2)
         (copy_reverse hw n NONTRIED (pass_mask s) NONTRIMMED),
       renew_skips] @
      late_phases (copy_forward hw n) (trim_forward hw n) to_start s @ [retry_phase hw n to_start])"

definition clone_forward :: "hardware \<Rightarrow> nat \<Rightarrow> 'a phase_env_scheme \<Rightarrow> (int \<times> 'a phase_env_scheme) option" where
  "clone_forward hw n s =
     (let s = (if current_status s = PHASE1 \<and> rebuild_assist_enabled s \<and> rebuild_assist s
               then s\<lparr>current_status := REBUILDASSIST\<rparr>
               else if current_status s = FINISHED \<and> rebuild_assist_enabled s
               then s\<lparr>current_status := PHASE1, current_position := start_position s\<rparr>
               else if current_status s = FINISHED
               then s\<lparr>current_status := PHASE3, current_position := start_position s\<rparr> else s);
          (ret, s) = clone_begin hw (end_position s - 1) s
      in if ret \<noteq> 0 then Some (ret, s)
         else map_option (clone_end hw) (run_phases (forward_phases hw n s) (0, False, s)))"

text \<open>In the other direction the first phase goes back to the end when it would begin at the start.\<close>

definition first_reverse_phase :: "hardware \<Rightarrow> nat \<Rightarrow> 'a progress \<Rightarrow> 'a progress option" where
  "first_reverse_phase hw n = (\<lambda>(ret, rollover, s).
     run_phase PHASE1 PHASE2 (\<not> no_phase1 s) (\<lambda>s. s)
       (\<lambda>s. tune (original_cluster_size s) True PHASE1 (if current_position s = start_position s then to_end s else s))
       (copy_reverse hw n NONTRIED (pass_mask s) NONTRIMMED) (ret, rollover, s))"

definition reverse_phases :: "hardware \<Rightarrow> nat \<Rightarrow> 'a phase_env_scheme \<Rightarrow> ('a progress \<Rightarrow> 'a progress option) list" where
  "reverse_phases hw n s =
     [first_reverse_phase hw n,
      run_phase PHASE2 PHASE3 (\<not> no_phase2 s) to_start (tune (original_cluster_size s) True PHASE2)
        (copy_forward hw n NONTRIED (pass_mask s) NONTRIMMED),
      renew_skips] @
     late_phases (copy_reverse hw n) (trim_reverse hw n) to_end s @ [retry_phase hw n to_end]"

definition clone_reverse :: "hardware \<Rightarrow> nat \<Rightarrow> 'a phase_env_scheme \<Rightarrow> (int \<times> 'a phase_env_scheme) option" where
  "clone_reverse hw n s =
     (let s = (if current_status s = REBUILDASSIST then s\<lparr>current_status := PHASE1\<rparr>
               else if current_status s = FINISHED
               then s\<lparr>current_status := PHASE3, current_position := end_position s\<rparr> else s);
          (ret, s) = clone_begin hw (end_position s) s
      in if ret \<noteq> 0 then Some (ret, s)
         else map_option (clone_end hw) (run_phases (reverse_phases hw n s) (0, False, s)))"

end
