(* ===== verification/C_Text.thy ===== *)
theory C_Text
  imports Prelude "HOL-Library.Char_ord"
begin

text \<open>
  The text functions of the C library that the log files are read and written with: \<open>fgets\<close>, the
  words of \<open>sscanf\<close>'s \<open>%s\<close>, \<open>strtoull\<close> and \<open>strtoll\<close> with base 0, and the hexadecimal conversions
  of \<open>fprintf\<close>.  Texts have no NUL characters.
\<close>

abbreviation newline :: char where "newline \<equiv> CHR 0x0A"
abbreviation tab :: char where "tab \<equiv> CHR 0x09"

definition is_space :: "char \<Rightarrow> bool" where
  "is_space c \<longleftrightarrow> c = CHR '' '' \<or> c = tab \<or> c = newline \<or> c = CHR 0x0B \<or> c = CHR 0x0C \<or> c = CHR 0x0D"

section \<open>Lines\<close>

text \<open>One call of \<open>fgets\<close> with a buffer of \<open>n + 1\<close> characters: up to a newline, or \<open>n\<close> characters.\<close>

fun fgets :: "nat \<Rightarrow> string \<Rightarrow> string \<times> string" where
  "fgets 0 s = ([], s)"
| "fgets (Suc n) [] = ([], [])"
| "fgets (Suc n) (c # s) = (if c = newline then ([c], s) else let (l, rest) = fgets n s in (c # l, rest))"

lemma fgets_split: "fgets n s = (l, rest) \<Longrightarrow> s = l @ rest"
  by (induction n s arbitrary: l rest rule: fgets.induct) (auto split: if_splits prod.splits)

lemma fgets_shorter [termination_simp]: "fgets (Suc n) s = (l, rest) \<Longrightarrow> s \<noteq> [] \<Longrightarrow> length rest < length s"
  using fgets_split [of "Suc n" s l rest] by (cases s) (auto split: if_splits prod.splits)

text \<open>All calls until the end of the file.\<close>

function file_lines :: "nat \<Rightarrow> string \<Rightarrow> string list" where
  "file_lines n s = (if s = [] then [] else let (l, rest) = fgets (Suc n) s in l # file_lines n rest)"
  by pat_completeness auto
termination by (relation "measure (\<lambda>(n, s). length s)") (auto dest: fgets_shorter [OF sym])

declare file_lines.simps [simp del]

lemma file_lines_Nil [simp]: "file_lines n [] = []"
  by (simp add: file_lines.simps)

lemma fgets_line: "newline \<notin> set l \<Longrightarrow> length l < n \<Longrightarrow> fgets n (l @ newline # s) = (l @ [newline], s)"
proof (induction l arbitrary: n)
  case Nil
  then show ?case by (cases n) auto
next
  case (Cons c l)
  then show ?case by (cases n) auto
qed

lemma file_lines_line:
  "newline \<notin> set l \<Longrightarrow> length l \<le> n \<Longrightarrow> file_lines n (l @ newline # s) = (l @ [newline]) # file_lines n s"
  by (subst file_lines.simps) (simp add: fgets_line)

lemma fgets_part: "newline \<notin> set l \<Longrightarrow> length l = n \<Longrightarrow> fgets n (l @ s) = (l, s)"
  by (induction l arbitrary: n) auto

lemma file_lines_part:
  "newline \<notin> set l \<Longrightarrow> length l = Suc n \<Longrightarrow> file_lines n (l @ s) = l # file_lines n s"
  by (subst file_lines.simps) (use fgets_part [of l "Suc n" s] in auto)

lemma file_lines_texts:
  "\<forall>l\<in>set ls. newline \<notin> set l \<and> length l \<le> n \<Longrightarrow>
   file_lines n (concat (map (\<lambda>l. l @ [newline]) ls) @ s) = map (\<lambda>l. l @ [newline]) ls @ file_lines n s"
  by (induction ls) (auto simp: file_lines_line)

section \<open>Words\<close>

lemma scan_words_shorter:
  assumes "dropWhile is_space s = c # t"
  shows "length (dropWhile p t) < length s"
proof -
  have "length (dropWhile p t) \<le> length t" by (rule length_dropWhile_le)
  also have "length t < length (dropWhile is_space s)" using assms by simp
  also have "\<dots> \<le> length s" by (rule length_dropWhile_le)
  finally show ?thesis .
qed

text \<open>What the directives \<open>%s %s ...\<close> match, one after the other.\<close>

function scan_words :: "string \<Rightarrow> string list" where
  "scan_words s =
     (case dropWhile is_space s of
        [] \<Rightarrow> []
      | c # t \<Rightarrow> (c # takeWhile (\<lambda>c. \<not> is_space c) t) # scan_words (dropWhile (\<lambda>c. \<not> is_space c) t))"
  by pat_completeness auto

termination by (relation "measure length") (simp_all add: scan_words_shorter)

declare scan_words.simps [simp del]

lemma scan_words_Nil [simp]: "scan_words [] = []"
  by (simp add: scan_words.simps)

lemma scan_words_space [simp]: "is_space c \<Longrightarrow> scan_words (c # s) = scan_words s"
  by (simp add: scan_words.simps [of "c # s"] scan_words.simps [of s])

lemma scan_words_word:
  assumes "w \<noteq> []" "\<forall>c\<in>set w. \<not> is_space c" "is_space c"
  shows "scan_words (w @ c # s) = w # scan_words s"
proof -
  obtain d t where w: "w = d # t" using assms(1) by (cases w) auto
  have "takeWhile (\<lambda>c. \<not> is_space c) (t @ c # s) = t" "dropWhile (\<lambda>c. \<not> is_space c) (t @ c # s) = c # s"
    using assms(2,3) by (simp_all add: w takeWhile_tail dropWhile_append)
  then show ?thesis using assms(2,3) by (subst scan_words.simps) (simp add: w)
qed

section \<open>Numbers\<close>

definition digit_val :: "char \<Rightarrow> nat option" where
  "digit_val c =
     (let k = of_char c :: nat in
      if 48 \<le> k \<and> k \<le> 57 then Some (k - 48)
      else if 97 \<le> k \<and> k \<le> 122 then Some (k - 87)
      else if 65 \<le> k \<and> k \<le> 90 then Some (k - 55) else None)"

fun scan_digits :: "nat \<Rightarrow> nat \<Rightarrow> string \<Rightarrow> nat \<times> string" where
  "scan_digits b acc [] = (acc, [])"
| "scan_digits b acc (c # s) =
     (case digit_val c of
        None \<Rightarrow> (acc, c # s)
      | Some d \<Rightarrow> if d < b then scan_digits b (acc * b + d) s else (acc, c # s))"

definition begins_digit :: "nat \<Rightarrow> string \<Rightarrow> bool" where
  "begins_digit b s = (case s of [] \<Rightarrow> False | c # t \<Rightarrow> (case digit_val c of None \<Rightarrow> False | Some d \<Rightarrow> d < b))"

text \<open>The base 0 of \<open>strtoull\<close>: the prefix decides between 16, 8 and 10.\<close>

definition scan_magnitude :: "string \<Rightarrow> (nat \<times> string) option" where
  "scan_magnitude s =
     (if (take 2 s = ''0x'' \<or> take 2 s = ''0X'') \<and> begins_digit 16 (drop 2 s) then Some (scan_digits 16 0 (drop 2 s))
      else if take 1 s = ''0'' then Some (scan_digits 8 0 s)
      else if begins_digit 10 s then Some (scan_digits 10 0 s) else None)"

definition scan_number :: "string \<Rightarrow> (bool \<times> nat \<times> string) option" where
  "scan_number s =
     (let t = dropWhile is_space s; neg = (take 1 t = ''-'');
          t = (if neg \<or> take 1 t = ''+'' then drop 1 t else t)
      in map_option (Pair neg) (scan_magnitude t))"

text \<open>The value, and the text behind the number (\<open>endptr\<close>).\<close>

definition strtoull :: "string \<Rightarrow> 64 word \<times> string" where
  "strtoull s =
     (case scan_number s of
        None \<Rightarrow> (0, s)
      | Some (neg, n, rest) \<Rightarrow> ((if n \<ge> 2 ^ 64 then - 1 else if neg then - of_nat n else of_nat n), rest))"

definition strtoll :: "string \<Rightarrow> 64 word \<times> string" where
  "strtoll s =
     (case scan_number s of
        None \<Rightarrow> (0, s)
      | Some (neg, n, rest) \<Rightarrow>
          (let v = (if neg then - int n else int n)
           in (word_of_int (if v > 2 ^ 63 - 1 then 2 ^ 63 - 1 else if v < - (2 ^ 63) then - (2 ^ 63) else v), rest)))"

section \<open>Hexadecimal output\<close>

definition hex_digit :: "bool \<Rightarrow> nat \<Rightarrow> char" where
  "hex_digit upper d = char_of (if d < 10 then 48 + d else if upper then 55 + d else 87 + d)"

fun hex :: "bool \<Rightarrow> nat \<Rightarrow> string" where
  "hex upper n = (if n < 16 then [hex_digit upper n] else hex upper (n div 16) @ [hex_digit upper (n mod 16)])"

declare hex.simps [simp del]

text \<open>\<open>%0<w>llx\<close> and, with \<open>upper\<close>, \<open>%0<w>llX\<close>.\<close>

definition print_hex :: "bool \<Rightarrow> nat \<Rightarrow> 64 word \<Rightarrow> string" where
  "print_hex upper w x = (let t = hex upper (unat x) in replicate (w - length t) (CHR ''0'') @ t)"

lemma digit_val_hex [simp]: "d < 16 \<Longrightarrow> digit_val (hex_digit u d) = Some d"
  by (auto simp: digit_val_def hex_digit_def Let_def)

lemma space_low: "is_space c \<Longrightarrow> of_char c < (33 :: nat)"
  by (auto simp: is_space_def)

lemma hex_digit_not_space: "d < 16 \<Longrightarrow> \<not> is_space (hex_digit u d)"
  using space_low [of "hex_digit u d"] by (auto simp: hex_digit_def split: if_splits)

lemma hex_not_space: "c \<in> set (hex u n) \<Longrightarrow> \<not> is_space c"
proof (induction u n rule: hex.induct)
  case (1 u n)
  then show ?case by (subst (asm) (2) hex.simps) (auto simp: hex_digit_not_space split: if_splits)
qed

lemma hex_nonempty [simp]: "hex u n \<noteq> []"
  by (subst hex.simps) simp

lemma scan_digits_hex: "scan_digits 16 acc (hex u n @ s) = scan_digits 16 (acc * 16 ^ length (hex u n) + n) s"
proof (induction u n arbitrary: acc s rule: hex.induct)
  case (1 u n)
  show ?case
  proof (cases "n < 16")
    case True
    then show ?thesis by (simp add: hex.simps)
  next
    case False
    then have "hex u n = hex u (n div 16) @ [hex_digit u (n mod 16)]" by (subst hex.simps) simp
    moreover have "n div 16 * 16 + n mod 16 = n" by simp
    ultimately show ?thesis using 1 [OF False] by (simp add: algebra_simps)
  qed
qed

lemma scan_digits_zeros: "0 < b \<Longrightarrow> scan_digits b 0 (replicate k (CHR ''0'') @ s) = scan_digits b 0 s"
  by (induction k) (simp_all add: digit_val_def)

lemma length_hex: "n < 16 ^ k \<Longrightarrow> 0 < k \<Longrightarrow> length (hex u n) \<le> k"
proof (induction k arbitrary: n)
  case (Suc k)
  show ?case
  proof (cases "n < 16")
    case False
    then have "n div 16 < 16 ^ k" using Suc.prems(1) by (simp add: less_mult_imp_div_less mult.commute)
    moreover from this have "0 < k" using False by (cases k) auto
    ultimately show ?thesis using Suc.IH False by (subst hex.simps) simp
  qed (simp add: hex.simps)
qed simp

section \<open>Decimal output\<close>

fun dec :: "nat \<Rightarrow> string" where
  "dec n = (if n < 10 then [hex_digit False n] else dec (n div 10) @ [hex_digit False (n mod 10)])"

declare dec.simps [simp del]

text \<open>\<open>%lld\<close>, and \<open>%d\<close> for a value of 32 bits.\<close>

definition print_dec :: "int \<Rightarrow> string" where
  "print_dec v = (if v < 0 then CHR ''-'' # dec (nat (- v)) else dec (nat v))"

lemma dec_first: "\<exists>d t. d < 10 \<and> (n = 0 \<longrightarrow> t = []) \<and> (n \<noteq> 0 \<longrightarrow> d \<noteq> 0) \<and> dec n = hex_digit False d # t"
proof (induction n rule: dec.induct)
  case (1 n)
  show ?case
  proof (cases "n < 10")
    case True
    then show ?thesis by (subst dec.simps) auto
  next
    case False
    with 1 have "n div 10 \<noteq> 0" "\<exists>d t. d < 10 \<and> d \<noteq> 0 \<and> dec (n div 10) = hex_digit False d # t" by auto
    with False show ?thesis by (subst dec.simps) auto
  qed
qed

lemma dec_not_space: "c \<in> set (dec n) \<Longrightarrow> \<not> is_space c"
proof (induction n rule: dec.induct)
  case (1 n)
  then show ?case by (subst (asm) (2) dec.simps) (auto simp: hex_digit_not_space split: if_splits)
qed

lemma scan_digits_dec: "scan_digits 10 acc (dec n @ s) = scan_digits 10 (acc * 10 ^ length (dec n) + n) s"
proof (induction n arbitrary: acc s rule: dec.induct)
  case (1 n)
  show ?case
  proof (cases "n < 10")
    case True
    then show ?thesis by (simp add: dec.simps)
  next
    case False
    then have "dec n = dec (n div 10) @ [hex_digit False (n mod 10)]" by (subst dec.simps) simp
    moreover have "n div 10 * 10 + n mod 10 = n" by simp
    ultimately show ?thesis using 1 [OF False] by (simp add: algebra_simps)
  qed
qed

lemma length_dec: "n < 10 ^ k \<Longrightarrow> 0 < k \<Longrightarrow> length (dec n) \<le> k"
proof (induction k arbitrary: n)
  case (Suc k)
  show ?case
  proof (cases "n < 10")
    case False
    then have "n div 10 < 10 ^ k" using Suc.prems(1) by (simp add: less_mult_imp_div_less mult.commute)
    moreover from this have "0 < k" using False by (cases k) auto
    ultimately show ?thesis using Suc.IH False by (subst dec.simps) simp
  qed (simp add: dec.simps)
qed simp

lemma hex_digit_zero:
  assumes "d < 16"
  shows "hex_digit u d = CHR ''0'' \<longleftrightarrow> d = 0"
proof
  assume "hex_digit u d = CHR ''0''"
  then show "d = 0" using digit_val_hex [OF assms, of u] by (simp add: digit_val_def)
next
  assume "d = 0"
  then show "hex_digit u d = CHR ''0''" using char_of_char [of "CHR ''0''", where 'a = nat] by (simp add: hex_digit_def)
qed

lemma scan_magnitude_dec: "scan_magnitude (dec n) = Some (n, [])"
proof -
  obtain d t where d: "d < 10" "n = 0 \<longrightarrow> t = []" "n \<noteq> 0 \<longrightarrow> d \<noteq> 0" "dec n = hex_digit False d # t" using dec_first [of n] by blast
  have b: "begins_digit 10 (dec n)" using d by (simp add: begins_digit_def)
  have s: "scan_digits 10 0 (dec n) = (n, [])" using scan_digits_dec [of 0 n "[]"] by simp
  show ?thesis
  proof (cases "n = 0")
    case True
    then have "dec n = ''0''" using hex_digit_zero [of 0 False] by (simp add: dec.simps)
    then show ?thesis using True by (simp add: scan_magnitude_def digit_val_def)
  next
    case False
    then have "hex_digit False d \<noteq> CHR ''0''" using d hex_digit_zero [of d False] by simp
    then show ?thesis using b s d(4) by (simp add: scan_magnitude_def)
  qed
qed

lemma scan_number_dec: "scan_number (print_dec v) = Some (v < 0, nat \<bar>v\<bar>, [])"
proof -
  obtain d t where d: "d < 10" "dec (nat \<bar>v\<bar>) = hex_digit False d # t" using dec_first [of "nat \<bar>v\<bar>"] by blast
  have "\<not> is_space (hex_digit False d)" using d(1) by (simp add: hex_digit_not_space)
  moreover have "digit_val (hex_digit False d) \<noteq> digit_val (CHR ''-'')" "digit_val (hex_digit False d) \<noteq> digit_val (CHR ''+'')"
    using d(1) by (simp_all add: digit_val_def [of "CHR ''-''"] digit_val_def [of "CHR ''+''"])
  then have "hex_digit False d \<noteq> CHR ''-''" "hex_digit False d \<noteq> CHR ''+''" by metis+
  moreover have "\<not> is_space (CHR ''-'')" by (simp add: is_space_def)
  ultimately show ?thesis
    using d(2) scan_magnitude_dec [of "nat \<bar>v\<bar>"]
    by (cases "v < 0") (auto simp: scan_number_def print_dec_def Let_def)
qed

lemma strtoll_dec: "- (2 ^ 63) \<le> v \<Longrightarrow> v < 2 ^ 63 \<Longrightarrow> strtoll (print_dec v) = (word_of_int v, [])"
  by (auto simp: strtoll_def scan_number_dec Let_def)

lemma print_dec_not_space: "c \<in> set (print_dec v) \<Longrightarrow> \<not> is_space c"
  using dec_not_space by (auto simp: print_dec_def is_space_def split: if_splits)

lemma dec_nonempty [simp]: "dec n \<noteq> []"
  by (subst dec.simps) simp

lemma print_dec_nonempty [simp]: "print_dec v \<noteq> []"
  by (simp add: print_dec_def)

end
