(* ===== verification/Fill.thy ===== *)
theory Fill
  imports Clone_Phases C_Text
begin

text \<open>
  The fill mode (\<open>do_fill_ccc\<close>): after a recovery the sectors of the target that were not read are filled
  with zeros or with marks, or the whole target is erased.
\<close>

section \<open>State\<close>

record fill_env = phase_env +
  fill_mark :: bool
  fill_erase :: bool
  fill_size :: int
  read_size :: int

section \<open>The bytes\<close>

definition text_bytes :: "string \<Rightarrow> bytes" where
  "text_bytes t = map of_char t"

definition mark_status :: "status_word \<Rightarrow> status_word \<Rightarrow> string" where
  "mark_status msk st =
     (let st = st AND msk in
      if st = NONTRIED AND msk then ''NONTRIED''
      else if st = NONTRIMMED AND msk then ''NONTRIMMED''
      else if st = NONDIVIDED AND msk then ''NONDIVIDED''
      else if st = NONSCRAPED AND msk then ''NONSCRAPED''
      else if st = BAD AND msk then ''BAD'' else ''UNKNOWN'')"

text \<open>\<open>snprintf\<close> into 64 characters.\<close>

definition mark_message :: "string \<Rightarrow> int \<Rightarrow> bytes" where
  "mark_message status sector =
     text_bytes (take 63 (''HDDSUPERFILLMARK '' @ status @ '' 0x'' @ print_hex False 6 (word_of_int sector) @ ''    ''))"

definition quad_word :: bytes where
  "quad_word = [0xdd, 0xee, 0xaa, 0xdd, 0xbb, 0xee, 0xee, 0xff]"

text \<open>\<open>memcpy\<close> into the buffer at offset \<open>k\<close>.\<close>

definition copy_into :: "nat \<Rightarrow> bytes \<Rightarrow> bytes \<Rightarrow> bytes" where
  "copy_into k xs buf = take k buf @ overlay xs (drop k buf)"

definition fill_data :: "status_word \<Rightarrow> status_word \<Rightarrow> int \<Rightarrow> int \<Rightarrow> 'a fill_env_scheme \<Rightarrow> bytes" where
  "fill_data msk st pos sz s =
     (let n = nat (sz * sector_size s) in
      if fill_mark s then
        fold (\<lambda>k. copy_into (k * nat (sector_size s)) (mark_message (mark_status msk st) (pos + int k))) [0..<nat sz]
          (take n (concat (replicate n quad_word)))
      else replicate n 0)"

section \<open>Filling a line\<close>

text \<open>
  The loop within line \<open>i\<close>: \<open>pos\<close> and \<open>sz\<close> are \<open>fill_position\<close> and \<open>fill_size\<close>.  The fuel is used
  up only if the cluster size is not positive.  The result is what the function returns from within,
  or 0.
\<close>

fun fill_chunks :: "hardware \<Rightarrow> status_word \<Rightarrow> row \<Rightarrow> nat \<Rightarrow> int \<Rightarrow> int \<Rightarrow> 'a fill_env_scheme \<Rightarrow> (int \<times> 'a fill_env_scheme) option" where
  "fill_chunks hw msk r 0 pos sz s = None"
| "fill_chunks hw msk r (Suc n) pos sz s =
     (let s = poll_stop hw (update_display hw DISPLAY_UPDATE_TIME (s\<lparr>current_position := pos, current_status := FILLING\<rparr>)) in
      if stop_signal s then Some (STOP_SIGNAL_RETURN_CODE, s)
      else if pos > lposition r + lsize r \<or> pos > end_position s then Some (0, s)
      else
        let ends = sz \<le> cluster_size s; w = (if ends then sz else cluster_size s);
            (ret, s) = write_chunk hw pos w (s\<lparr>buffer := fill_data msk (lstatus r) pos w s\<rparr>)
        in if ret \<noteq> 0 then Some (ret, s)
           else
             let s = s\<lparr>total_filled := total_filled s + w, logfile_changed := True\<rparr>
             in if ends then Some (0, s) else fill_chunks hw msk r n (pos + cluster_size s) (sz - cluster_size s) s)"

section \<open>The lines\<close>

text \<open>
  The lines from \<open>a\<close> to \<open>b\<close>; the first begins late by \<open>da\<close> sectors, the last ends early by \<open>db\<close>, but
  not when they are the same line.
\<close>

fun fill_lines ::
  "hardware \<Rightarrow> nat \<Rightarrow> status_word \<Rightarrow> status_word \<Rightarrow> nat \<Rightarrow> int \<Rightarrow> nat \<Rightarrow> int \<Rightarrow> nat list \<Rightarrow> 'a fill_env_scheme \<Rightarrow>
    (int \<times> 'a fill_env_scheme) option" where
  "fill_lines hw n status msk a da b db [] s = Some (0, s)"
| "fill_lines hw n status msk a da b db (i # js) s =
     (let r = lines (log_table s) ! i;
          adj = (if i = a then da else if i = b then db else 0);
          pos = (if i = a then lposition r + adj else lposition r)
      in if lstatus r AND msk \<noteq> status AND msk
         then (case fill_chunks hw msk r n pos (lsize r - adj) s of
                 None \<Rightarrow> None
               | Some (ret, s) \<Rightarrow> if ret \<noteq> 0 then Some (ret, s) else fill_lines hw n status msk a da b db js s)
         else fill_lines hw n status msk a da b db js s)"

section \<open>Erasing the target\<close>

text \<open>\<open>total\<close>: the sectors of the target.\<close>

fun erase_loop :: "hardware \<Rightarrow> int \<Rightarrow> nat \<Rightarrow> 'a fill_env_scheme \<Rightarrow> (int \<times> 'a fill_env_scheme) option" where
  "erase_loop hw total_sectors 0 s = None"
| "erase_loop hw total_sectors (Suc n) s =
     (if current_position s < total_sectors then
        let w = (if original_cluster_size s + current_position s > total_sectors then total_sectors - current_position s
                 else original_cluster_size s);
            (ret, s) = write_chunk hw (current_position s) w s
        in if ret \<noteq> 0 then Some (ret, s)
           else
             let s = poll_stop hw (update_display hw DISPLAY_UPDATE_TIME (s\<lparr>total_filled := total_filled s + w\<rparr>))
             in if stop_signal s then Some (STOP_SIGNAL_RETURN_CODE, s)
                else erase_loop hw total_sectors n (s\<lparr>current_position := current_position s + original_cluster_size s\<rparr>)
      else Some (0, update_display hw 0 s))"

text \<open>\<open>confirmed\<close>: the answer to the dialog; \<open>target_bytes\<close>: the end of the target, \<open>-1\<close> for an error.\<close>

definition erase_target :: "hardware \<Rightarrow> nat \<Rightarrow> bool \<Rightarrow> int \<Rightarrow> 'a fill_env_scheme \<Rightarrow> (int \<times> 'a fill_env_scheme) option" where
  "erase_target hw n confirmed target_bytes s =
     (if \<not> confirmed then Some (0, s)
      else if target_bytes = -1 then Some (OUTPUT_DEVICE_ERROR_RETURN_CODE, s)
      else
        let (now, s) = get_elapsed_usec hw 0 s;
            size = (if target_bytes = 0 then 0xffffffffffff else target_bytes);
            sectors = cdiv size (sector_size s)
        in erase_loop hw sectors n
             (s\<lparr>total_filled := current_position s, buffer := replicate (nat (original_cluster_size s * sector_size s)) 0,
               fill_size := sectors, start_position := 0, end_position := sectors, source_total_size := sectors\<rparr>))"

section \<open>The function\<close>

text \<open>Where the filling begins and ends: a run that was stopped goes on at its position.\<close>

definition fill_range :: "'a fill_env_scheme \<Rightarrow> 'a fill_env_scheme" where
  "fill_range s =
     (let s = (if current_status s = FILLING then s\<lparr>start_position := max (current_position s) (input_offset s)\<rparr>
               else s\<lparr>start_position := input_offset s, total_filled := 0\<rparr>);
          rs = lines (log_table s); r = rs ! (length rs - 1)
      in if read_size s < 0 then s\<lparr>end_position := lposition r + lsize r\<rparr>
         else s\<lparr>end_position := input_offset s + read_size s\<rparr>)"

definition do_fill ::
  "hardware \<Rightarrow> nat \<Rightarrow> bool \<Rightarrow> int \<Rightarrow> status_word \<Rightarrow> status_word \<Rightarrow> 'a fill_env_scheme \<Rightarrow> (int \<times> 'a fill_env_scheme) option" where
  "do_fill hw n confirmed target_bytes status msk s =
     (let (now, s) = get_elapsed_usec hw 0 s in
      if fill_erase s then erase_target hw n confirmed target_bytes s
      else
        let s = fill_range s; rs = lines (log_table s);
            a = nat (find_block (start_position s) (log_table s)); da = start_position s - lposition (rs ! a);
            b = nat (find_block (end_position s - 1) (log_table s)); db = (lposition (rs ! b) + lsize (rs ! b)) - end_position s;
            s = poll_stop hw (update_display hw 0
                  (s\<lparr>current_position := start_position s, start_position := input_offset s, current_status := FILLING\<rparr>))
        in if stop_signal s then Some (STOP_SIGNAL_RETURN_CODE, s)
           else
             (case fill_lines hw n status msk a da b db [a..<b + 1] s of
                None \<Rightarrow> None
              | Some (ret, s) \<Rightarrow>
                  if ret \<noteq> 0 then Some (ret, s)
                  else Some (0, update_display hw 0 (s\<lparr>current_status := FINISHED, logfile_changed := True\<rparr>))))"

end
