(* ===== verification/Pass_Invariant.thy ===== *)
theory Pass_Invariant
  imports Copy_Passes
begin

text \<open>
  The invariant of the copy passes: the log tiles the source, the skip state is in order, and
  every sector whose status is finished has been copied to the target.
\<close>

section \<open>Finished sectors are copied\<close>

definition finished :: "status_word \<Rightarrow> bool" where
  "finished st \<longleftrightarrow> st AND 0x7f = 0x7f"

definition intact :: "(int \<Rightarrow> 8 word) \<Rightarrow> 'a clone_env_scheme \<Rightarrow> bool" where
  "intact disk s \<longleftrightarrow>
     (\<forall>x st. status_at (lines (log_table s)) x = Some st \<and> finished st \<longrightarrow> copied disk s x)"

definition safe :: "(int \<Rightarrow> 8 word) \<Rightarrow> int \<Rightarrow> int \<Rightarrow> 'a clone_env_scheme \<Rightarrow> bool" where
  "safe disk a e s \<longleftrightarrow> tiles a (lines (log_table s)) e \<and> table_ok (log_table s) \<and> intact disk s"

text \<open>What no stage of a pass changes.\<close>

definition settings :: "'a clone_env_scheme \<Rightarrow> _" where
  "settings s =
     (domain_table s, start_position s, end_position s, current_status s,
      (sector_size s, output_sector_size_adjustment s, input_offset s, output_offset s),
      (block_size s, block_offset s, cluster_size s), (generic_mode s, scsi_passthrough s, ata_passthrough s),
      (max_skip_size s, original_min_skip_size s), clone_env.more s)"

text \<open>The skip size never falls below half of the original minimum.\<close>

definition skip_floor :: "'a skip_env_scheme \<Rightarrow> bool" where
  "skip_floor s \<longleftrightarrow> original_min_skip_size s div 2 \<le> min_skip_size s \<and> original_min_skip_size s div 2 \<le> skip_size s"

definition ready :: "(int \<Rightarrow> 8 word) \<Rightarrow> int \<Rightarrow> int \<Rightarrow> 'a clone_env_scheme \<Rightarrow> bool" where
  "ready disk a e s \<longleftrightarrow> safe disk a e s \<and> skip_ok s \<and> skip_floor s"

text \<open>What still holds when a pass stops: a failed write may have left the sector size changed.\<close>

definition stopped :: "(int \<Rightarrow> 8 word) \<Rightarrow> int \<Rightarrow> int \<Rightarrow> 'a clone_env_scheme \<Rightarrow> 'a clone_env_scheme \<Rightarrow> bool" where
  "stopped disk a e s0 s \<longleftrightarrow>
     tiles a (lines (log_table s)) e \<and> intact disk (s\<lparr>sector_size := sector_size s0\<rparr>)"

lemma ready_stopped: "ready disk a e s \<Longrightarrow> settings s = settings s0 \<Longrightarrow> stopped disk a e s0 s"
proof -
  assume s: "ready disk a e s" "settings s = settings s0"
  then have "s\<lparr>sector_size := sector_size s0\<rparr> = s" by (simp add: settings_def)
  with s(1) show ?thesis by (simp add: ready_def safe_def stopped_def)
qed

lemma ready_keeps:
  assumes "ready disk a e s" "keeps s s'"
  shows "ready disk a e s' \<and> settings s' = settings s \<and> current_position s' = current_position s"
proof -
  have "copied disk s' x = copied disk s x" for x
    using assms(2) by (intro copied_frame) (simp_all add: keeps_def)
  with assms show ?thesis
    by (simp add: ready_def safe_def intact_def settings_def skip_ok_def skip_floor_def keeps_def frame_def)
qed

lemma finished_or:
  "finished (a OR b) \<longleftrightarrow> finished a" if "b AND 0x7f = 0"
  using that by (simp add: finished_def bit.conj_disj_distrib2)

lemma low_bits_mask: "b AND STATUS_MASK = 0 \<Longrightarrow> b AND 0x7f = 0"
proof -
  assume "b AND STATUS_MASK = 0"
  moreover have "(0x7f :: status_word) = STATUS_MASK AND 0x7f" by (simp add: STATUS_MASK_def)
  ultimately show ?thesis by (metis and.assoc bit.conj_zero_left)
qed

lemma finished_additional [simp]:
  "finished (st OR additional_status r k s) = finished st" "finished (st OR timing_byte s) = finished st"
  "finished (st OR BAD_HEAD) = finished st"
  by (simp_all add: finished_or low_bits_mask additional_status_def additional_status_low timing_byte_def
      timing_byte_low BAD_HEAD_def)

lemma finished_two [simp]:
  "finished (st OR (additional_status r k s OR timing_byte t)) = finished st"
  "finished (st OR (BAD_HEAD OR (additional_status r k s OR timing_byte t))) = finished st"
  by (simp_all flip: or.assoc)

lemma finished_consts [simp]: "finished FINISHED" "\<not> finished BAD"
  by (simp_all add: finished_def status_consts)

lemma finished_kept [simp]: "finished (kept_status old st) = finished st"
proof -
  have "old AND SKIP_INFO_MASK AND 0x7f = 0" for old :: status_word
    by (simp add: and.assoc SKIP_INFO_MASK_def)
  then show ?thesis
    by (simp add: kept_status_def Let_def finished_or and.assoc BAD_HEAD_STATUS_def)
qed

section \<open>Marking\<close>

text \<open>
  \<open>marked\<close>: the chunk has the status \<open>st\<close> where it had \<open>old\<close>, with what is kept of the old
  status, or it had the status already; nothing else has changed.
\<close>

definition marked :: "int \<Rightarrow> int \<Rightarrow> status_word \<Rightarrow> row list \<Rightarrow> row list \<Rightarrow> bool" where
  "marked pos sz st rs rs' \<longleftrightarrow>
     (\<forall>x. status_at rs' x = (if pos \<le> x \<and> x < pos + sz
        then (if status_at rs x = Some st then Some st else map_option (\<lambda>old. kept_status old st) (status_at rs x))
        else status_at rs x))"

lemma change_status_marks:
  assumes "table_ok (log_table s)" "tiles a (lines (log_table s)) e" "0 < sz"
    and "change_chunk_status pos sz st FULL_MASK s = (ret, s')"
  shows "tiles a (lines (log_table s')) e \<and> table_ok (log_table s') \<and>
    (\<exists>T c l. s' = s\<lparr>log_table := T, critical_process := c, logfile_changed := l\<rparr>) \<and>
    (if 0 \<le> ret then marked pos sz st (lines (log_table s)) (lines (log_table s')) else s' = s)"
proof -
  let ?rs = "lines (log_table s)"
  note o = change_chunk_status_outcomes_rule [OF assms(2,4)]
  have form: "\<exists>T c l. s' = s\<lparr>log_table := T, critical_process := c, logfile_changed := l\<rparr>"
  proof -
    have "\<exists>T c l. s = s\<lparr>log_table := T, critical_process := c, logfile_changed := l\<rparr>"
      by (intro exI [of _ "log_table s"] exI [of _ "critical_process s"] exI [of _ "logfile_changed s"]) simp
    moreover have "s' = s \<or> (\<exists>T c l. s' = s\<lparr>log_table := T, critical_process := c, logfile_changed := l\<rparr>)"
      using assms(4) by (auto simp: change_chunk_status_def Let_def split: if_splits)
    ultimately show ?thesis by blast
  qed
  have rets: "ret = 0 \<or> ret = 1 \<or> ret = INTERNAL_ERROR_RETURN_CODE"
    using assms(4) by (auto simp: change_chunk_status_def Let_def split: if_splits)
  have neg: "\<not> 0 \<le> INTERNAL_ERROR_RETURN_CODE" by (simp add: INTERNAL_ERROR_RETURN_CODE_def)
  consider (bad) "ret = INTERNAL_ERROR_RETURN_CODE" | (same) "ret = 1" | (new) "ret = 0" using rets by blast
  then show ?thesis
  proof cases
    case bad
    then have "s' = s" using o neg by auto
    with bad neg form assms(1,2) show ?thesis by simp
  next
    case same
    then have s': "s' = s" using o by simp
    obtain r where r: "r \<in> set ?rs" "covers r pos" "pos + sz \<le> lposition r + lsize r" "lstatus r = st"
      using o same by auto
    then obtain pre post where "?rs = pre @ r # post" by (metis split_list)
    then have "status_at ?rs x = Some st" if "pos \<le> x" "x < pos + sz" for x
      using status_at_mid [of a pre r post e x] assms(2) r that by (auto simp: covers_def)
    with same s' form assms(1,2) show ?thesis by (simp add: marked_def)
  next
    case new
    obtain r where r: "r \<in> set ?rs" "covers r pos" "pos + sz \<le> lposition r + lsize r"
      using o new neg by auto
    then obtain pre post where "?rs = pre @ r # post" by (metis split_list)
    then have old: "status_at ?rs x = Some (lstatus r)" if "pos \<le> x" "x < pos + sz" for x
      using status_at_mid [of a pre r post e x] assms(2) r that by (auto simp: covers_def)
    moreover have "lstatus r \<noteq> st" using o new r by auto
    ultimately show ?thesis
      using change_chunk_status_refines_rule [OF assms(1-3), of pos st FULL_MASK s' "lstatus r"] assms(3,4) new form
      by (simp add: marked_def)
  qed
qed

text \<open>Marking a chunk as not finished, or a chunk that is copied, keeps a pass ready.\<close>

lemma ready_mark:
  assumes "ready disk a e s" "0 < sz" "change_chunk_status pos sz st FULL_MASK s = (ret, s')"
    and "finished st \<Longrightarrow> (\<forall>x. pos \<le> x \<and> x < pos + sz \<longrightarrow> copied disk s x)"
  shows "ready disk a e s' \<and> settings s' = settings s \<and> current_position s' = current_position s \<and>
    (\<forall>x. copied disk s' x = copied disk s x) \<and> (0 \<le> ret \<longrightarrow> marked pos sz st (lines (log_table s)) (lines (log_table s')))"
proof -
  have t: "table_ok (log_table s)" "tiles a (lines (log_table s)) e" using assms(1) by (simp_all add: ready_def safe_def)
  note m = change_status_marks [OF t assms(2,3)]
  then obtain T c l where s': "s' = s\<lparr>log_table := T, critical_process := c, logfile_changed := l\<rparr>" by blast
  have cp: "copied disk s' x = copied disk s x" for x
    by (simp add: s' copied_def output_size_def target_byte_def write_position_def)
  have "intact disk s'"
    unfolding intact_def cp
  proof (intro allI impI)
    fix x st' assume x: "status_at (lines (log_table s')) x = Some st' \<and> finished st'"
    have old: "status_at (lines (log_table s)) x = Some st'' \<Longrightarrow> finished st'' \<Longrightarrow> copied disk s x" for st''
      using assms(1) by (auto simp: ready_def safe_def intact_def)
    show "copied disk s x"
    proof (cases "0 \<le> ret \<and> pos \<le> x \<and> x < pos + sz")
      case True
      with m x have "finished st" by (auto simp: marked_def split: if_splits)
      with assms(4) True show ?thesis by blast
    next
      case False
      with m x have "status_at (lines (log_table s)) x = Some st'" by (auto simp: marked_def split: if_splits)
      with old x show ?thesis by blast
    qed
  qed
  moreover have "tiles a (lines (log_table s')) e \<and> table_ok (log_table s')" using m by simp
  moreover have "0 \<le> ret \<longrightarrow> marked pos sz st (lines (log_table s)) (lines (log_table s'))" using m by simp
  moreover have "skip_ok s' = skip_ok s" "skip_floor s' = skip_floor s" "settings s' = settings s"
    "current_position s' = current_position s"
    by (simp_all add: s' settings_def skip_ok_def skip_floor_def)
  ultimately show ?thesis using assms(1) cp by (simp add: ready_def safe_def)
qed

section \<open>Skipping\<close>

text \<open>The fields that skipping leaves alone, as one value.\<close>

definition pass_frame :: "'a clone_env_scheme \<Rightarrow> _" where
  "pass_frame s = (settings s, dest s, skip_enabled s)"

lemma pass_frame_upd [simp]:
  "pass_frame (s\<lparr>skipping := x0\<rparr>) = pass_frame s"
  "pass_frame (s\<lparr>skip_history := x1\<rparr>) = pass_frame s"
  "pass_frame (s\<lparr>last_total_skip_size := x2\<rparr>) = pass_frame s"
  "pass_frame (s\<lparr>total_skip_runs := x3\<rparr>) = pass_frame s"
  "pass_frame (s\<lparr>log_table := x4\<rparr>) = pass_frame s"
  "pass_frame (s\<lparr>min_skip_size := x5\<rparr>) = pass_frame s"
  "pass_frame (s\<lparr>skip_size := x6\<rparr>) = pass_frame s"
  "pass_frame (s\<lparr>last_skip_size := x7\<rparr>) = pass_frame s"
  "pass_frame (s\<lparr>skip_run_limit := x8\<rparr>) = pass_frame s"
  "pass_frame (s\<lparr>skip_run_count := x9\<rparr>) = pass_frame s"
  "pass_frame (s\<lparr>total_skip_size := x10\<rparr>) = pass_frame s"
  "pass_frame (s\<lparr>skip_multiplier := x11\<rparr>) = pass_frame s"
  "pass_frame (s\<lparr>skip_mod := x12\<rparr>) = pass_frame s"
  "pass_frame (s\<lparr>skip_run_start := x13\<rparr>) = pass_frame s"
  "pass_frame (s\<lparr>total_slow_skips := x14\<rparr>) = pass_frame s"
  "pass_frame (s\<lparr>total_skip_count := x15\<rparr>) = pass_frame s"
  "pass_frame (s\<lparr>skip_count := x16\<rparr>) = pass_frame s"
  "pass_frame (s\<lparr>last_skip_position := x17\<rparr>) = pass_frame s"
  "pass_frame (s\<lparr>highest_skip := x18\<rparr>) = pass_frame s"
  "pass_frame (s\<lparr>total_skip_resets := x19\<rparr>) = pass_frame s"
  "pass_frame (s\<lparr>skip_position := x20\<rparr>) = pass_frame s"
  "pass_frame (s\<lparr>last_skip_jump_position := x21\<rparr>) = pass_frame s"
  "pass_frame (s\<lparr>current_position := x22\<rparr>) = pass_frame s"
  "pass_frame (s\<lparr>skip_time_triggered := x23\<rparr>) = pass_frame s"
  "pass_frame (s\<lparr>rate_skip_count := x24\<rparr>) = pass_frame s"
  "pass_frame (s\<lparr>exit_on_slow_count := x25\<rparr>) = pass_frame s"
  "pass_frame (s\<lparr>direction := x26\<rparr>) = pass_frame s"
  "pass_frame (s\<lparr>retried_lba_count := x27\<rparr>) = pass_frame s"
  "pass_frame (s\<lparr>rate_modifier := x28\<rparr>) = pass_frame s"
  by (simp_all add: pass_frame_def settings_def)

lemma pass_frame_skip [simp]:
  "pass_frame (note_history s) = pass_frame s" "pass_frame (note_run s) = pass_frame s"
  "pass_frame (shrink_min s) = pass_frame s" "pass_frame (start_run s) = pass_frame s"
  "pass_frame (fst (bump_run s)) = pass_frame s" "pass_frame (bump_totals s) = pass_frame s"
  "pass_frame (grow_skip s) = pass_frame s"
  by (simp_all add: note_history_def note_run_def process_skip_run_def shrink_min_def start_run_def bump_run_def
      bump_totals_def grow_skip_def Let_def)

lemma pass_frame_reset [simp]: "pass_frame (reset_skip s) = pass_frame s"
  by (simp add: reset_skip_def Let_def)

lemma pass_frame_count:
  assumes "count_skip s = (s', ex)"
  shows "pass_frame s' = pass_frame s"
proof -
  obtain s1 where b: "bump_run (start_run s) = (s1, ex)" using assms
    by (auto simp: count_skip_def Let_def split: prod.splits)
  have "pass_frame s1 = pass_frame s" using pass_frame_skip(5) [of "start_run s"] b by simp
  moreover have "pass_frame s' = pass_frame (bump_totals s1)"
    using assms b by (auto simp: count_skip_def Let_def)
  ultimately show ?thesis by simp
qed

lemma process_skip_frame:
  assumes "process_skip s = (ret, s')"
  shows "pass_frame s' = pass_frame s"
proof -
  obtain s1 ex where c: "count_skip s = (s1, ex)" by fastforce
  note f = pass_frame_count [OF c]
  define s2 where "s2 = grow_skip s1"
  have "pass_frame s2 = pass_frame s" using f by (simp add: s2_def)
  with assms show ?thesis
    unfolding process_skip_def Let_def c prod.case s2_def [symmetric] by (auto split: if_splits)
qed

lemma reset_skip_floor:
  assumes "skip_ok s"
  shows "skip_floor (reset_skip s)"
proof -
  define t where "t = note_run (note_history (s\<lparr>skip_run_limit := (if skip_fast s then SKIP_RUN_COUNT_FAST else SKIP_RUN_COUNT)\<rparr>))"
  have o: "original_min_skip_size t = original_min_skip_size s"
    by (simp add: t_def note_run_def process_skip_run_def note_history_def Let_def)
  have m: "original_min_skip_size s div 2 \<le> min_skip_size (shrink_min t)"
  proof -
    have "0 \<le> original_min_skip_size s" using assms by (simp add: skip_ok_def)
    then have "original_min_skip_size s div 2 \<le> original_min_skip_size s" by linarith
    then show ?thesis using assms o by (simp add: shrink_min_def Let_def skip_ok_def)
  qed
  have "original_min_skip_size (shrink_min t) = original_min_skip_size s"
    using o by (simp add: shrink_min_def Let_def)
  with m show ?thesis
    unfolding skip_floor_def reset_skip_def Let_def t_def [symmetric] by simp
qed

lemma process_skip_keeps:
  assumes "skip_ok s" "skip_floor s" "process_skip s = (ret, s')"
  shows "skip_ok s' \<and> skip_floor s' \<and> current_position s' = current_position s \<and>
    same_rows (lines (log_table s)) (lines (log_table s')) \<and> (\<exists>rs. log_table s' = (log_table s)\<lparr>lines := rs\<rparr>)"
proof -
  obtain s1 ex where c: "count_skip s = (s1, ex)" by fastforce
  note c1 = count_skip_ok [OF assms(1) c]
  have pos: "0 \<le> original_min_skip_size s" "original_min_skip_size s \<le> max_skip_size s"
    using assms(1) by (simp_all add: skip_ok_def)
  have half: "original_min_skip_size s div 2 \<le> original_min_skip_size s" using pos(1) by linarith
  have floor1: "skip_floor s1"
  proof -
    obtain t where b: "bump_run (start_run s) = (t, ex)"
      and s1: "min_skip_size s1 = min_skip_size (bump_totals t)"
      using c by (auto simp: count_skip_def Let_def split: prod.splits)
    have "min_skip_size t = min_skip_size s" "original_min_skip_size t = original_min_skip_size s"
      using b by (auto simp: bump_run_def start_run_def Let_def split: if_splits)
    then have "min_skip_size (bump_totals t) = min_skip_size s \<or> original_min_skip_size s \<le> min_skip_size (bump_totals t)"
      by (simp add: bump_totals_def Let_def)
    with s1 assms(2) half c1 show ?thesis by (auto simp: skip_floor_def quiet_def)
  qed
  define s2 where "s2 = grow_skip s1"
  note g' = grow_skip_ok [OF c1 [THEN conjunct1], folded s2_def]
  then have g: "skip_ok (s2\<lparr>skip_size := skip_size s1\<rparr>)" "skip_size s1 \<le> skip_size s2" "quiet s1 s2" by blast+
  then have "quiet s s2" using c1 by (simp add: quiet_def)
  note g = g(1,2) this
  have "min_skip_size s1 \<le> min_skip_size s2" by (simp add: s2_def grow_skip_def Let_def)
  with floor1 g c1 have floor2: "skip_floor s2" by (simp add: skip_floor_def quiet_def)
  define s3 where "s3 = (if skip_size s2 \<ge> max_skip_size s2 then s2\<lparr>skip_size := max_skip_size s2\<rparr> else s2)"
  have ok3: "skip_ok s3" "skip_floor s3"
    using g floor2 half pos c1 [THEN conjunct1] by (auto simp: s3_def skip_ok_def skip_floor_def quiet_def)
  define s4 where "s4 = s3\<lparr>min_skip_size := original_min_skip_size s3, total_skip_resets := total_skip_resets s3 + 1\<rparr>"
  have s4: "skip_ok s4" "log_table s4 = log_table s3" "current_position s4 = current_position s3"
    using ok3(1) by (simp_all add: s4_def skip_ok_def)
  have r: "skip_ok (reset_skip s4) \<and> skip_floor (reset_skip s4) \<and> current_position (reset_skip s4) = current_position s3 \<and>
    same_rows (lines (log_table s3)) (lines (log_table (reset_skip s4))) \<and>
    (\<exists>rs. log_table (reset_skip s4) = (log_table s3)\<lparr>lines := rs\<rparr>)"
    using reset_skip_floor [OF s4(1)] reset_skip_ok [OF s4(1)] s4(2,3) by (simp add: kept_def)
  have s3: "log_table s3 = log_table s" "current_position s3 = current_position s"
    using g(3) by (simp_all add: s3_def quiet_def)
  have "log_table s = (log_table s)\<lparr>lines := lines (log_table s)\<rparr>" by simp
  then have same: "\<exists>rs. log_table s = (log_table s)\<lparr>lines := rs\<rparr>" ..
  have "s' = s3 \<or> s' = reset_skip s4"
    using assms(3) unfolding process_skip_def Let_def c prod.case s2_def [symmetric] s3_def [symmetric] s4_def [symmetric]
    by (auto split: if_splits)
  then show ?thesis using ok3 r s3 same by auto
qed

text \<open>A change of the skip state, with or without bad-head marks, keeps a pass ready.\<close>

lemma bad_head_finished: "st AND BAD_HEAD_MASK = st' AND BAD_HEAD_MASK \<Longrightarrow> finished st = finished st'"
proof -
  assume "st AND BAD_HEAD_MASK = st' AND BAD_HEAD_MASK"
  moreover have "(0x7f :: status_word) = BAD_HEAD_MASK AND 0x7f" by (simp add: BAD_HEAD_MASK_def)
  ultimately have "st AND 0x7f = st' AND 0x7f" by (metis and.assoc)
  then show ?thesis by (simp add: finished_def)
qed

lemma copied_pass_frame: "pass_frame s' = pass_frame s \<Longrightarrow> copied disk s' x = copied disk s x"
  by (simp add: pass_frame_def settings_def copied_def output_size_def target_byte_def write_position_def)

lemma safe_same_rows:
  assumes "safe disk a e s" "same_rows (lines (log_table s)) (lines (log_table s'))"
    "\<exists>rs. log_table s' = (log_table s)\<lparr>lines := rs\<rparr>" "pass_frame s' = pass_frame s"
  shows "safe disk a e s'"
proof -
  have "total_lines (log_table s') = total_lines (log_table s)" using same_rows_length [OF assms(2)] .
  then have "table_ok (log_table s')" using assms(1,3) by (auto simp: safe_def table_ok_def)
  moreover have "copied disk s' x" if st: "status_at (lines (log_table s')) x = Some st" "finished st" for x st
  proof -
    have "map_option (\<lambda>s. s AND BAD_HEAD_MASK) (status_at (lines (log_table s)) x) = Some (st AND BAD_HEAD_MASK)"
      using same_rows_masked [OF assms(2), of x] st(1) by (simp add: masked_at_def)
    then obtain st' where st': "status_at (lines (log_table s)) x = Some st'"
      "st' AND BAD_HEAD_MASK = st AND BAD_HEAD_MASK"
      by auto
    have "finished st'" using st(2) bad_head_finished [OF st'(2)] by simp
    with assms(1) st'(1) have "copied disk s x" unfolding safe_def intact_def by blast
    then show ?thesis using copied_pass_frame [OF assms(4)] by simp
  qed
  ultimately show ?thesis using assms(1) same_rows_tiles [OF assms(2)] by (auto simp: safe_def intact_def)
qed

section \<open>Stages\<close>

text \<open>\<open>holds\<close>: the pass is as ready as before, at the same position, and nothing copied is lost.\<close>

definition holds :: "(int \<Rightarrow> 8 word) \<Rightarrow> int \<Rightarrow> int \<Rightarrow> 'a clone_env_scheme \<Rightarrow> 'a clone_env_scheme \<Rightarrow> bool" where
  "holds disk a e s s' \<longleftrightarrow> ready disk a e s' \<and> settings s' = settings s \<and>
     current_position s' = current_position s \<and> (\<forall>x. copied disk s x \<longrightarrow> copied disk s' x)"

lemma holds_trans: "holds disk a e s t \<Longrightarrow> holds disk a e t u \<Longrightarrow> holds disk a e s u"
  by (simp add: holds_def)

lemma holds_refl: "ready disk a e s \<Longrightarrow> holds disk a e s s"
  by (simp add: holds_def)

lemma holds_stopped: "holds disk a e s s' \<Longrightarrow> stopped disk a e s s'"
  using ready_stopped by (auto simp: holds_def)

lemma holds_keeps:
  assumes "ready disk a e s" "keeps s s'"
  shows "holds disk a e s s'"
  using ready_keeps [OF assms] assms(2) copied_frame [of s' s disk] by (simp add: holds_def keeps_def)

lemma holds_mark:
  assumes "ready disk a e s" "0 < sz" "change_chunk_status pos sz st FULL_MASK s = (ret, s')"
    and "finished st \<Longrightarrow> (\<forall>x. pos \<le> x \<and> x < pos + sz \<longrightarrow> copied disk s x)"
  shows "holds disk a e s s'"
  using ready_mark [OF assms] by (simp add: holds_def)

text \<open>\<open>served\<close>: a stage with return code 0 keeps the pass ready, one with another code leaves it stopped.\<close>

definition served :: "(int \<Rightarrow> 8 word) \<Rightarrow> int \<Rightarrow> int \<Rightarrow> 'a clone_env_scheme \<Rightarrow> int \<times> 'a clone_env_scheme \<Rightarrow> bool" where
  "served disk a e s res \<longleftrightarrow>
     (if fst res = 0 then holds disk a e s (snd res) else stopped disk a e s (snd res))"

lemma served_stopped: "served disk a e s (ret, s') \<Longrightarrow> stopped disk a e s s'"
  by (auto simp: served_def holds_stopped split: if_splits)

lemma holds_served: "holds disk a e s s' \<Longrightarrow> served disk a e s (ret, s')"
  by (simp add: served_def holds_stopped)

lemma stopped_holds: "holds disk a e s t \<Longrightarrow> stopped disk a e t u \<Longrightarrow> stopped disk a e s u"
  by (simp add: holds_def stopped_def settings_def)

lemma served_holds: "holds disk a e s t \<Longrightarrow> served disk a e t res \<Longrightarrow> served disk a e s res"
  using holds_trans stopped_holds by (metis served_def)

lemma served_mark_then:
  assumes "ready disk a e s" "0 < sz"
    and "finished st \<Longrightarrow> (\<forall>x. pos \<le> x \<and> x < pos + sz \<longrightarrow> copied disk s x)"
    and "\<And>t. holds disk a e s t \<Longrightarrow> served disk a e t (f t)"
  shows "served disk a e s (mark_then pos sz st f s)"
proof -
  obtain ret t where c: "change_chunk_status pos sz st FULL_MASK s = (ret, t)" by fastforce
  have h: "holds disk a e s t" by (rule holds_mark [OF assms(1,2) c]) (rule assms(3))
  show ?thesis
    using c holds_served [OF h] served_holds [OF h assms(4) [OF h]] by (simp add: mark_then_def)
qed

text \<open>Two marks in a row, and a mark that ends a stage.\<close>

lemma served_fail: "ready disk a e s \<Longrightarrow> served disk a e s (0, driver_fail hw pos n s)"
  using holds_keeps [OF _ keeps_driver(2)] by (rule holds_served)

lemma holds_ready: "holds disk a e s t \<Longrightarrow> ready disk a e t"
  by (simp add: holds_def)

end
