(* ===== verification/Pass_Stages.thy ===== *)
theory Pass_Stages
  imports Pass_Invariant
begin

text \<open>
  The stages of a copy pass one by one: each keeps the pass ready or stops it without harm.
\<close>

section \<open>Settings that make sense\<close>

definition sane :: "'a clone_env_scheme \<Rightarrow> bool" where
  "sane s \<longleftrightarrow> 0 < sector_size s \<and> 0 < output_size s \<and> 0 < block_size s \<and> 0 \<le> block_offset s \<and>
     0 < cluster_size s \<and> cluster_size s < 2 ^ 31 \<and> one_mode s \<and> current_status s \<noteq> REBUILDASSIST \<and>
     block_size s + block_offset s \<le> original_min_skip_size s div 2"

lemma sane_settings: "settings s' = settings s \<Longrightarrow> sane s' = sane s"
  by (simp add: sane_def settings_def output_size_def one_mode_def)

lemma sane_holds: "holds disk a e s t \<Longrightarrow> sane t = sane s"
  by (rule sane_settings) (simp add: holds_def)

section \<open>Writing\<close>

definition chunk_copied :: "(int \<Rightarrow> 8 word) \<Rightarrow> int \<Rightarrow> int \<Rightarrow> 'a clone_env_scheme \<Rightarrow> bool" where
  "chunk_copied disk pos sz s \<longleftrightarrow> (\<forall>x. pos \<le> x \<and> x < pos + sz \<longrightarrow> copied disk s x)"

lemma chunk_copied_holds: "holds disk a e s t \<Longrightarrow> chunk_copied disk pos sz s \<Longrightarrow> chunk_copied disk pos sz t"
  by (simp add: holds_def chunk_copied_def)

definition has_chunk :: "(int \<Rightarrow> 8 word) \<Rightarrow> int \<Rightarrow> int \<Rightarrow> 'a clone_env_scheme \<Rightarrow> bool" where
  "has_chunk disk pos sz s \<longleftrightarrow> buffer s = bytes_at disk (pos * sector_size s) (nat (sz * sector_size s))"

lemma write_served:
  assumes "ready disk a e s" "sane s" "honest_target hw" "0 < sz" "has_chunk disk pos sz s"
    and "write_chunk hw pos sz s = (ret, t)"
  shows "if ret = 0 then holds disk a e s t \<and> chunk_copied disk pos sz t else stopped disk a e s t"
proof -
  let ?t = "t\<lparr>sector_size := sector_size s\<rparr>"
  have pos: "0 < sector_size s" "0 < output_size s" "0 \<le> sz" using assms(2,4) by (simp_all add: sane_def)
  note w = write_chunk_copies_rule [OF assms(3) pos assms(5) [unfolded has_chunk_def] assms(6)]
  then have f: "frame ?t = frame s" and c: "\<And>x. copied disk s x \<Longrightarrow> copied disk ?t x" by simp_all
  have log: "log_table t = log_table s" using f by (simp add: frame_def)
  have i: "intact disk ?t"
    using assms(1) c log by (simp add: ready_def safe_def intact_def)
  have tl: "tiles a (lines (log_table t)) e" using assms(1) log by (simp add: ready_def safe_def)
  show ?thesis
  proof (cases "ret = 0")
    case True
    with w have t: "?t = t" "chunk_copied disk pos sz t" unfolding chunk_copied_def by blast+
    have "holds disk a e s t"
      using assms(1) f c i unfolding t(1)
      by (simp add: holds_def ready_def safe_def settings_def skip_ok_def skip_floor_def frame_def)
    with True t(2) show ?thesis by simp
  next
    case False
    with i tl show ?thesis by (simp add: stopped_def)
  qed
qed

lemma finish_served:
  assumes "ready disk a e s" "sane s" "honest_target hw" "0 < sz" "has_chunk disk (current_position s) sz s"
    and "finish_chunk hw sz s = (ret, t)"
  shows "served disk a e s (ret, t) \<and> (ret = 0 \<longrightarrow> chunk_copied disk (current_position s) sz t)"
proof -
  obtain r u where w: "write_chunk hw (current_position s) sz s = (r, u)" by fastforce
  note ws = write_served [OF assms(1-5) w]
  have eq: "(ret, t) = (if r \<noteq> 0 then (r, u) else mark_then (current_position s) sz (FINISHED OR timing_byte u) (\<lambda>s. (0, s)) u)"
    using assms(6) w by (simp add: finish_chunk_def)
  show ?thesis
  proof (cases "r = 0")
    case True
    with ws have h: "holds disk a e s u" and c: "chunk_copied disk (current_position s) sz u" by simp_all
    have "served disk a e u (mark_then (current_position s) sz (FINISHED OR timing_byte u) (\<lambda>s. (0, s)) u)"
      by (rule served_mark_then) (use h c assms(4) in \<open>auto simp: holds_ready chunk_copied_def holds_refl holds_served\<close>)
    then have "served disk a e u (ret, t)" using eq True by simp
    from served_holds [OF h this] have sv: "served disk a e s (ret, t)" .
    have "chunk_copied disk (current_position s) sz t" if "ret = 0"
      using \<open>served disk a e u (ret, t)\<close> that c by (simp add: served_def chunk_copied_holds)
    with sv show ?thesis by blast
  next
    case False
    with ws eq show ?thesis by (simp add: served_def)
  qed
qed

section \<open>Skipping\<close>

text \<open>\<open>moved\<close>: as \<open>holds\<close>, but the position may have changed.\<close>

definition moved :: "(int \<Rightarrow> 8 word) \<Rightarrow> int \<Rightarrow> int \<Rightarrow> 'a clone_env_scheme \<Rightarrow> 'a clone_env_scheme \<Rightarrow> bool" where
  "moved disk a e s s' \<longleftrightarrow> ready disk a e s' \<and> settings s' = settings s \<and> (\<forall>x. copied disk s x \<longrightarrow> copied disk s' x)"

lemma holds_moved: "holds disk a e s t \<Longrightarrow> moved disk a e s t"
  by (simp add: holds_def moved_def)

lemma moved_trans: "moved disk a e s t \<Longrightarrow> moved disk a e t u \<Longrightarrow> moved disk a e s u"
  by (simp add: moved_def)

lemma moved_stopped: "moved disk a e s t \<Longrightarrow> stopped disk a e t u \<Longrightarrow> stopped disk a e s u"
  by (simp add: moved_def stopped_def settings_def)

lemma moved_ready: "moved disk a e s t \<Longrightarrow> ready disk a e t"
  by (simp add: moved_def)

lemma moved_position: "ready disk a e s \<Longrightarrow> moved disk a e s (s\<lparr>current_position := p\<rparr>)"
  using copied_pass_frame [of "s\<lparr>current_position := p\<rparr>" s disk]
  by (simp add: moved_def ready_def safe_def intact_def settings_def skip_ok_def skip_floor_def)

lemma moved_same:
  assumes "ready disk a e s" "log_table t = log_table s" "pass_frame t = pass_frame s" "skip_ok t = skip_ok s"
    "skip_floor t = skip_floor s"
  shows "moved disk a e s t"
  using assms copied_pass_frame [OF assms(3), of disk]
  by (simp add: moved_def ready_def safe_def intact_def pass_frame_def)

lemma jump_moved:
  assumes "ready disk a e s"
  shows "moved disk a e s (jump_forward s)" "moved disk a e s (jump_reverse s)"
    "moved disk a e s ((jump_forward s)\<lparr>skip_time_triggered := False\<rparr>)"
    "moved disk a e s ((jump_reverse s)\<lparr>skip_time_triggered := False\<rparr>)"
  by (rule moved_same [OF assms];
    simp add: jump_forward_def jump_reverse_def note_skip_position_def Let_def skip_ok_def skip_floor_def)+

lemma jump_forward_position:
  assumes "ready disk a e s" "sane s" "0 \<le> current_position s"
  shows "current_position s \<le> current_position (jump_forward s)"
proof -
  let ?b = "block_size s" and ?v = "current_position s + skip_size s"
  have b: "0 < ?b" "0 \<le> ?v" "?b + block_offset s \<le> skip_size s"
    using assms by (auto simp: sane_def ready_def skip_floor_def skip_ok_def)
  have "?v = ?v div ?b * ?b + ?v mod ?b" "?v mod ?b < ?b" using b(1) by simp_all
  then have "current_position s \<le> ?v div ?b * ?b - block_offset s" using b(3) by linarith
  then show ?thesis
    using b by (simp add: jump_forward_def note_skip_position_def block_align_def Let_def)
qed

lemma process_skip_holds:
  assumes "ready disk a e s" "process_skip s = (ret, t)"
  shows "holds disk a e s t"
proof -
  have "skip_ok s" "skip_floor s" "safe disk a e s" using assms(1) by (simp_all add: ready_def)
  note k = process_skip_keeps [OF this(1,2) assms(2)] and f = process_skip_frame [OF assms(2)]
  have "safe disk a e t" using safe_same_rows [OF \<open>safe disk a e s\<close>] k f by blast
  with k f show ?thesis
    using copied_pass_frame [OF f] by (simp add: holds_def ready_def pass_frame_def)
qed

lemma reset_skip_holds:
  assumes "ready disk a e s"
  shows "holds disk a e s (reset_skip s)"
proof -
  have s: "skip_ok s" "safe disk a e s" using assms by (simp_all add: ready_def)
  note k = reset_skip_ok [OF s(1)] and f = pass_frame_reset [of s]
  have "safe disk a e (reset_skip s)"
    by (rule safe_same_rows [OF s(2) _ _ f]) (use k in \<open>simp_all add: kept_def\<close>)
  with k f reset_skip_floor [OF s(1)] show ?thesis
    using copied_pass_frame [OF f] by (simp add: holds_def ready_def pass_frame_def kept_def)
qed

section \<open>Reading\<close>

text \<open>\<open>calm\<close>: the hardware is honest and the settings make sense.\<close>

definition calm :: "hardware \<Rightarrow> (int \<Rightarrow> 8 word) \<Rightarrow> 'a clone_env_scheme \<Rightarrow> bool" where
  "calm hw disk s \<longleftrightarrow> sane s \<and> honest_source hw disk (sector_size s) \<and> honest_target hw"

lemma calm_settings: "settings s' = settings s \<Longrightarrow> calm hw disk s' = calm hw disk s"
  using sane_settings [of s' s] by (simp add: calm_def settings_def)

lemma calm_holds: "holds disk a e s t \<Longrightarrow> calm hw disk t = calm hw disk s"
  by (rule calm_settings) (simp add: holds_def)

lemma calm_moved: "moved disk a e s t \<Longrightarrow> calm hw disk t = calm hw disk s"
  by (rule calm_settings) (simp add: moved_def)

lemma read_holds:
  assumes "ready disk a e s" "calm hw disk s" "read_chunk hw pos sz s = (ret, t)"
  shows "holds disk a e s (poll_stop hw t)"
    and "read_good ret (poll_stop hw t) \<Longrightarrow> has_chunk disk pos sz (poll_stop hw t)"
proof -
  have k: "keeps s t" by (rule read_chunk_keeps [OF assms(3)])
  then have "keeps s (poll_stop hw t)" by (simp add: keeps_def)
  then show "holds disk a e s (poll_stop hw t)" by (rule holds_keeps [OF assms(1)])
  assume "read_good ret (poll_stop hw t)"
  then have "read_good ret t" by (simp add: read_good_def poll_stop_def ticked_def)
  moreover have "honest_source hw disk (sector_size s)" "one_mode s" using assms(2) by (simp_all add: calm_def sane_def)
  ultimately have "buffer t = bytes_at disk (pos * sector_size s) (nat (sz * sector_size s))"
    using read_chunk_good_rule [OF _ _ assms(3)] by blast
  moreover have "sector_size t = sector_size s" using k by (simp add: keeps_def frame_def)
  ultimately show "has_chunk disk pos sz (poll_stop hw t)"
    by (simp add: has_chunk_def poll_stop_def ticked_def)
qed

section \<open>Failures\<close>

lemma error_status_finished: "\<not> finished new \<Longrightarrow> \<not> finished (error_status new retstat sz s)"
  by (simp add: error_status_def)

lemma plain_failure_served:
  assumes "ready disk a e s" "0 < sz" "\<not> finished new"
  shows "served disk a e s (plain_failure hw new retstat sz info s)"
  unfolding plain_failure_def
  by (rule served_mark_then [OF assms(1,2)])
    (use error_status_finished [OF assms(3)] in \<open>auto intro: served_fail holds_ready\<close>)

lemma mark_rest_served:
  assumes "ready disk a e s" "\<not> finished st"
  shows "served disk a e s (mark_rest hw st pos n s)"
  using assms
  by (auto simp: mark_rest_def Let_def intro!: served_mark_then served_fail dest: holds_ready)

lemma mark_around_served:
  assumes "ready disk a e s" "0 < n" "0 < block_size s" "\<not> finished (new OR old)" "\<not> finished (BAD OR old)"
    and "chunk_copied disk (current_position s) n s"
  shows "served disk a e s (mark_around hw new old sz n s)"
  unfolding mark_around_def Let_def
proof (rule served_mark_then [OF assms(1,2)])
  show "\<forall>x. current_position s \<le> x \<and> x < current_position s + n \<longrightarrow> copied disk s x"
    using assms(6) by (simp add: chunk_copied_def)
  fix t assume "holds disk a e s t"
  then have t: "ready disk a e t" by (rule holds_ready)
  show "served disk a e t (mark_then (current_position s + n) (block_size s) (BAD OR old)
      (mark_rest hw (new OR old) (current_position s + n) (sz - n - block_size s)) t)"
    by (rule served_mark_then [OF t assms(3)])
      (use assms(4,5) in \<open>auto intro: mark_rest_served dest: holds_ready\<close>)
qed

lemma to_int_id: "0 \<le> n \<Longrightarrow> n < 2 ^ 31 \<Longrightarrow> to_int n = n"
  unfolding to_int_def by (rule signed_take_bit_int_eq_self) simp_all

text \<open>The treatment of a chunk with a reported bad sector.\<close>

lemma process_chunk_served:
  assumes "ready disk a e s" "calm hw disk s" "\<not> finished new"
    and "block_size s < sz" "sz \<le> cluster_size s" "current_position s \<le> ata_lba s" "ata_lba s < current_position s + sz"
  shows "served disk a e s (process_chunk hw new retstat sz info s)"
proof -
  let ?p = "current_position s" and ?b = "block_size s"
  define old where "old = additional_status retstat info s OR timing_byte s"
  define failed where "failed = (\<lambda>s :: 'a clone_env_scheme. mark_then ?p sz (error_status new retstat sz s OR old)
    (\<lambda>s. (0, driver_fail hw ?p sz s)) s)"
  have b: "0 < ?b" and sz: "0 < sz" "sz < 2 ^ 31" using assms(2,4,5) by (auto simp: calm_def sane_def)
  have fin: "\<not> finished (new OR old)" "\<not> finished (BAD OR old)" "\<And>st. finished (st OR old) = finished st"
    using assms(3) by (simp_all add: old_def)
  have failed: "served disk a e t (failed t)" if "ready disk a e t" for t
    unfolding failed_def
    by (rule served_mark_then [OF that sz(1)])
      (use error_status_finished [OF assms(3)] fin(3) in \<open>auto intro: served_fail holds_ready\<close>)
  show ?thesis
  proof (cases "\<not> lba_supported s \<or> pio_mode s")
    case True
    then have "process_chunk hw new retstat sz info s = failed s"
      by (simp add: process_chunk_def Let_def failed_def old_def)
    with failed [OF assms(1)] show ?thesis by simp
  next
    case lba: False
    show ?thesis
    proof (cases "ata_lba s = ?p")
      case True
      with lba have "process_chunk hw new retstat sz info s = mark_then ?p ?b (BAD OR old)
          (mark_then (?p + ?b) (sz - ?b) (new OR old) (\<lambda>s. (0, driver_fail hw ?p sz s))) s"
        by (simp add: process_chunk_def Let_def old_def)
      moreover have "served disk a e s (mark_then ?p ?b (BAD OR old)
          (mark_then (?p + ?b) (sz - ?b) (new OR old) (\<lambda>s. (0, driver_fail hw ?p sz s))) s)"
      proof (rule served_mark_then [OF assms(1) b])
        fix t assume "holds disk a e s t"
        then have t: "ready disk a e t" by (rule holds_ready)
        show "served disk a e t (mark_then (?p + ?b) (sz - ?b) (new OR old) (\<lambda>s. (0, driver_fail hw ?p sz s)) t)"
          by (rule served_mark_then [OF t]) (use assms(4) fin(1) in \<open>auto intro: served_fail dest: holds_ready\<close>)
      qed (use fin(2) in simp)
      ultimately show ?thesis by simp
    next
      case inner: False
      define n where "n = ata_lba s - ?p"
      have n: "0 < n" "to_int (ata_lba s - ?p) = n"
        using inner assms(6,7) sz(2) to_int_id [of n] by (auto simp: n_def)
      obtain r t where rd: "read_chunk hw ?p n s = (r, t)" by fastforce
      define u where "u = poll_stop hw t"
      have h: "holds disk a e s u" and good: "read_good r u \<Longrightarrow> has_chunk disk ?p n u"
        using read_holds [OF assms(1,2) rd] by (simp_all add: u_def)
      have ru: "ready disk a e u" and pu: "current_position u = ?p" using h by (simp_all add: holds_def)
      obtain w v where wr: "write_chunk hw ?p n u = (w, v)" by fastforce
      have eq: "process_chunk hw new retstat sz info s =
          (if stop_signal u then (STOP_SIGNAL_RETURN_CODE, u)
           else if read_good r u then if w \<noteq> 0 then (w, v) else mark_around hw new old sz n v
           else failed u)"
        using lba inner n(2) rd wr
        by (simp add: process_chunk_def Let_def u_def old_def failed_def)
      have "served disk a e u (if w \<noteq> 0 then (w, v) else mark_around hw new old sz n v)" if "read_good r u"
      proof -
        have cu: "sane u" "honest_target hw" using assms(2) calm_holds [OF h] by (auto simp: calm_def)
        note ws = write_served [OF ru cu n(1) good [OF that] wr]
        show ?thesis
        proof (cases "w = 0")
          case True
          with ws have hv: "holds disk a e u v" and cv: "chunk_copied disk ?p n v" by simp_all
          have "0 < block_size v" using sane_holds [OF hv] cu by (simp add: sane_def)
          moreover have "current_position v = ?p" using hv pu by (simp add: holds_def)
          ultimately have "served disk a e v (mark_around hw new old sz n v)"
            using mark_around_served [OF holds_ready [OF hv] n(1) _ fin(1,2)] cv by simp
          with True served_holds [OF hv] show ?thesis by simp
        next
          case False
          with ws show ?thesis by (simp add: served_def)
        qed
      qed
      moreover have "served disk a e u (STOP_SIGNAL_RETURN_CODE, u)" using holds_served [OF holds_refl [OF ru]] .
      ultimately have "served disk a e u (process_chunk hw new retstat sz info s)"
        unfolding eq using failed [OF ru] by simp
      then show ?thesis by (rule served_holds [OF h])
    qed
  qed
qed

section \<open>Bookkeeping\<close>

text \<open>What only touches counters, registers and the clock.\<close>

lemma frame_counters [simp]:
  "frame (s\<lparr>rate_skip_count := i1\<rparr>) = frame s" "frame (s\<lparr>exit_on_slow_count := i2\<rparr>) = frame s"
  "frame (s\<lparr>exit_on_slow_timer := i3\<rparr>) = frame s" "frame (s\<lparr>last_finished_value := i4\<rparr>) = frame s"
  "frame (s\<lparr>last_filled_value := i5\<rparr>) = frame s" "frame (s\<lparr>last_display_update := i6\<rparr>) = frame s"
  "frame (s\<lparr>log_tally := t1\<rparr>) = frame s" "frame (s\<lparr>recovery_past_limit := b1\<rparr>) = frame s"
  "frame (s\<lparr>highest_skip := i7\<rparr>) = frame s" "frame (s\<lparr>last_log_write := i8\<rparr>) = frame s"
  "frame (s\<lparr>total_skip_count := i9\<rparr>) = frame s" "frame (s\<lparr>total_slow_skips := i10\<rparr>) = frame s"
  "frame (s\<lparr>total_skip_runs := i11\<rparr>) = frame s" "frame (s\<lparr>last_total_skip_size := i12\<rparr>) = frame s"
  by (simp_all add: frame_def)

lemma keeps_note_rate: "frame (note_rate d s) = frame s" "dest (note_rate d s) = dest s"
  by (simp_all add: note_rate_def Let_def)

lemma keeps_update_display: "keeps s (update_display hw ms s)"
  by (simp add: update_display_def get_elapsed_usec_def keeps_def keeps_note_rate Let_def)

lemma keeps_update_logfile: "update_logfile hw n s = (ret, t) \<Longrightarrow> keeps s t"
  by (auto simp: update_logfile_def get_elapsed_usec_def keeps_def Let_def split: if_splits)

lemma keeps_poll: "keeps s t \<Longrightarrow> keeps s (poll_stop hw t)"
  by (simp add: keeps_def)

lemma keeps_turn_head: "turn_head hw s = (ret, t) \<Longrightarrow> keeps s t"
  using keeps_poll [OF keeps_update_display [of s hw DISPLAY_UPDATE_TIME], of hw]
  by (auto simp: turn_head_def Let_def split: if_splits dest!: keeps_update_logfile intro: keeps_trans)

lemma keeps_slow_exit: "slow_exit hw s = (ret, t) \<Longrightarrow> keeps s t"
  by (auto simp: slow_exit_def keeps_def split: if_splits prod.splits dest!: keeps_call_command)

lemma keeps_ncq_stage: "ncq_stage hw needed s = (bad, t) \<Longrightarrow> keeps s t"
  by (auto simp: ncq_stage_def read_ncq_error_log_def keeps_def Let_def split: if_splits)

lemma keeps_device_stage: "device_stage hw retstat s = (ret, t) \<Longrightarrow> keeps s t"
  by (auto simp: device_stage_def split: if_splits prod.splits dest!: keeps_call_command keeps_check_device
      intro: keeps_trans)

lemma keeps_small [simp]:
  "keeps s (restore_ata r s)" "keeps s (count_predicted_skip s)" "keeps s (note_retry n s)"
  "keeps s (s\<lparr>rate_modifier := m\<rparr>)"
  by (simp_all add: keeps_def restore_ata_def count_predicted_skip_def note_retry_def)

lemma begin_pass_holds:
  assumes "ready disk a e s" "begin_pass hw n skips s = (ret, t)"
  shows "holds disk a e s t"
proof -
  define u where "u = poll_stop hw (update_display hw (if driver_mode s \<noteq> 0 then DISPLAY_UPDATE_TIME else 0) s)"
  obtain r v where l: "update_logfile hw n u = (r, v)" by fastforce
  have u: "keeps s u" unfolding u_def by (rule keeps_poll [OF keeps_update_display])
  then have v: "keeps s v" using keeps_update_logfile [OF l] by (rule keeps_trans)
  define w where "w = v\<lparr>last_skip_position := current_position v, rate_skip_count := 0, exit_on_slow_count := 0\<rparr>"
  note hv = holds_keeps [OF assms(1) v]
  have "ready disk a e w" "holds disk a e v w"
  proof -
    have w: "log_table w = log_table v" "pass_frame w = pass_frame v" "current_position w = current_position v"
      "skip_ok w = skip_ok v" "skip_floor w = skip_floor v"
      by (simp_all add: w_def skip_ok_def skip_floor_def)
    then show "ready disk a e w"
      using holds_ready [OF hv] copied_pass_frame [OF w(2), of disk] by (simp add: ready_def safe_def intact_def)
    then show "holds disk a e v w"
      using w copied_pass_frame [OF w(2), of disk] by (simp add: holds_def pass_frame_def)
  qed
  then have "holds disk a e s (reset_skip w)" using reset_skip_holds holds_trans hv by blast
  moreover have "t = u \<or> t = v \<or> t = reset_skip w"
    using assms(2) l unfolding begin_pass_def Let_def u_def [symmetric] by (auto simp: w_def split: if_splits)
  ultimately show ?thesis using holds_keeps [OF assms(1) u] hv by blast
qed

section \<open>Skips\<close>

definition skipper :: "(int \<Rightarrow> 8 word) \<Rightarrow> int \<Rightarrow> int \<Rightarrow> ('a clone_env_scheme \<Rightarrow> 'a clone_env_scheme) \<Rightarrow> bool" where
  "skipper disk a e jump \<longleftrightarrow> (\<forall>t. ready disk a e t \<longrightarrow> moved disk a e t (jump t) \<and>
     moved disk a e t ((jump t)\<lparr>skip_time_triggered := False\<rparr>))"

lemma skipper_jumps: "skipper disk a e jump_forward" "skipper disk a e jump_reverse"
  using jump_moved by (auto simp: skipper_def)

text \<open>\<open>went\<close>: with return code 0 the pass is ready, and at the old position or where a jump leads.\<close>

definition went ::
  "(int \<Rightarrow> 8 word) \<Rightarrow> int \<Rightarrow> int \<Rightarrow> ('a clone_env_scheme \<Rightarrow> 'a clone_env_scheme) \<Rightarrow> 'a clone_env_scheme \<Rightarrow>
   int \<times> 'a clone_env_scheme \<Rightarrow> bool" where
  "went disk a e jump s res \<longleftrightarrow>
     (if fst res = 0
      then moved disk a e s (snd res) \<and> (current_position (snd res) = current_position s \<or>
        (\<exists>u. holds disk a e s u \<and> current_position (snd res) = current_position (jump u)))
      else stopped disk a e s (snd res))"

lemma holds_went: "holds disk a e s t \<Longrightarrow> went disk a e jump s (0, t)"
  by (simp add: went_def holds_moved) (simp add: holds_def)

lemma went_holds: "holds disk a e s t \<Longrightarrow> went disk a e jump t res \<Longrightarrow> went disk a e jump s res"
  unfolding went_def using holds_trans holds_moved moved_trans stopped_holds
  by (metis holds_def)

lemma skip_went:
  assumes "ready disk a e s" "moved disk a e s v" "current_position v = current_position (jump s)"
  shows "went disk a e jump s (let (ret, t) = process_skip v in if ret \<noteq> 0 then (-1, t) else (0, t))"
proof -
  obtain r t where p: "process_skip v = (r, t)" by fastforce
  have h: "holds disk a e v t" by (rule process_skip_holds [OF moved_ready [OF assms(2)] p])
  then have "moved disk a e s t" "current_position t = current_position (jump s)"
    using assms(2,3) h moved_trans [OF assms(2) holds_moved [OF h]] by (simp_all add: holds_def)
  moreover have "stopped disk a e s t" using moved_stopped [OF assms(2) holds_stopped [OF h]] .
  moreover have "holds disk a e s s" by (rule holds_refl [OF assms(1)])
  ultimately show ?thesis using p by (auto simp: went_def)
qed

lemma slow_skip_went:
  assumes "ready disk a e s" "0 < n" "chunk_copied disk (current_position s) n s" "skipper disk a e jump"
  shows "went disk a e jump s (slow_skip dir jump n s)"
proof (cases "skip_enabled s \<and> skip_time_triggered s")
  case True
  obtain r u where c: "change_chunk_status (current_position s) n
      (FINISHED OR additional_status 0 (skip_run_count s OR dir) s OR timing_byte s) FULL_MASK s = (r, u)" by fastforce
  have h: "holds disk a e s u"
    by (rule holds_mark [OF assms(1,2) c]) (use assms(3) in \<open>simp add: chunk_copied_def\<close>)
  then have ru: "ready disk a e u" by (rule holds_ready)
  have "went disk a e jump u (let (ret, t) = process_skip (jump u) in if ret \<noteq> 0 then (-1, t) else (0, t))"
    by (rule skip_went [OF ru]) (use assms(4) ru in \<open>auto simp: skipper_def\<close>)
  from went_holds [OF h this] show ?thesis
    using True c holds_stopped [OF h] by (auto simp: slow_skip_def mark_then_def went_def)
next
  case False
  then have "slow_skip dir jump n s = (0, s)" by (auto simp: slow_skip_def)
  with holds_went [OF holds_refl [OF assms(1)]] show ?thesis by simp
qed

lemma error_skip_went:
  assumes "ready disk a e s" "skipper disk a e jump"
  shows "went disk a e jump s (error_skip jump s)"
  unfolding error_skip_def by (rule skip_went [OF assms(1)]) (use assms in \<open>auto simp: skipper_def\<close>)

lemma good_read_went:
  assumes "ready disk a e s" "calm hw disk s" "0 < n" "has_chunk disk (current_position s) n s" "skipper disk a e jump"
  shows "went disk a e jump s (good_read hw dir jump n s)"
proof -
  obtain r t where f: "finish_chunk hw n s = (r, t)" by fastforce
  have c: "sane s" "honest_target hw" using assms(2) by (simp_all add: calm_def)
  note fs = finish_served [OF assms(1) c assms(3,4) f]
  show ?thesis
  proof (cases "r = 0")
    case True
    with fs have h: "holds disk a e s t" and cc: "chunk_copied disk (current_position s) n t"
      by (simp_all add: served_def)
    have "chunk_copied disk (current_position t) n t" using cc h by (simp add: holds_def)
    from went_holds [OF h slow_skip_went [OF holds_ready [OF h] assms(3) this assms(5)]] True f
    show ?thesis by (simp add: good_read_def)
  next
    case False
    with fs f show ?thesis by (simp add: good_read_def went_def served_def)
  qed
qed

section \<open>A turn of the forward pass\<close>

lemma domain_stage_cases:
  assumes "domain_stage outside n s = (res, t)" "0 < n"
    and "\<not> do_domain s \<or> spaced d (lines (domain_table s))"
  obtains (out) p where "res = Inr 0" "t = outside (s\<lparr>current_position := p\<rparr>)" "current_position s \<le> p"
  | (part) k p where "res = Inr k" "t = s\<lparr>current_position := p\<rparr>" "0 < k" "current_position s \<le> p"
      "k \<le> n \<or> k \<le> cluster_size s"
proof -
  obtain r u where pd: "process_domain (current_position s) n (domain_status s) STATUS_MASK s = (r, u)" by fastforce
  obtain p where u: "u = s\<lparr>current_position := p\<rparr>" "current_position s \<le> p" "0 \<le> r" "p + r \<le> current_position s + n"
  proof (cases "do_domain s")
    case True
    then show thesis using process_domain_part_rule [OF True _ assms(2) pd] assms(3) that by blast
  next
    case False
    then have "r = n" "u = s" using pd by (simp_all add: process_domain_def)
    with assms(2) show thesis by (intro that [of "current_position s"]) simp_all
  qed
  show thesis
  proof (cases "r = 0")
    case True
    with u assms(1,2) pd show thesis by (intro out) (auto simp: domain_stage_def Let_def)
  next
    case False
    define k where "k = domain_size_adjustment (cluster_size u) r u"
    have "res = Inr k" "t = u"
      using assms(1,2) pd u False by (auto simp: domain_stage_def Let_def k_def split: if_splits)
    moreover have "0 < k \<and> (k \<le> n \<or> k \<le> cluster_size s)"
      using domain_size_adjustment_bounds_rule [OF k_def] u False by (cases "k = r") auto
    ultimately show thesis using part [of k p] u by blast
  qed
qed

text \<open>
  What a turn of the forward pass leads to: when the pass goes on it is ready and its position
  has grown, when it stops nothing finished is lost.
\<close>

definition turn_fine ::
  "(int \<Rightarrow> 8 word) \<Rightarrow> int \<Rightarrow> int \<Rightarrow> bool \<Rightarrow> 'a clone_env_scheme \<Rightarrow> 'a clone_env_scheme outcome \<Rightarrow> bool" where
  "turn_fine disk a e grows s out \<longleftrightarrow>
     (case out of
        Next t \<Rightarrow> moved disk a e s t \<and> (grows \<longrightarrow> current_position s < current_position t)
      | Done t \<Rightarrow> moved disk a e s t
      | Stop ret t \<Rightarrow> ret \<noteq> 0 \<and> stopped disk a e s t)"

lemma turn_fine_simps [simp]:
  "turn_fine disk a e g s (Next t) \<longleftrightarrow> moved disk a e s t \<and> (g \<longrightarrow> current_position s < current_position t)"
  "turn_fine disk a e g s (Done t) \<longleftrightarrow> moved disk a e s t"
  "turn_fine disk a e g s (Stop ret t) \<longleftrightarrow> ret \<noteq> 0 \<and> stopped disk a e s t"
  by (simp_all add: turn_fine_def)

lemma return_codes [simp]:
  "STOP_SIGNAL_RETURN_CODE \<noteq> 0" "INTERNAL_ERROR_RETURN_CODE \<noteq> 0" "INPUT_DEVICE_ERROR_RETURN_CODE \<noteq> 0"
  "EXIT_ON_SLOW_RETURN_CODE \<noteq> 0"
  by (simp_all add: STOP_SIGNAL_RETURN_CODE_def INTERNAL_ERROR_RETURN_CODE_def INPUT_DEVICE_ERROR_RETURN_CODE_def
      EXIT_ON_SLOW_RETURN_CODE_def)

lemma turn_fine_moved:
  "moved disk a e s t \<Longrightarrow> current_position s \<le> current_position t \<Longrightarrow> turn_fine disk a e g t out \<Longrightarrow>
   turn_fine disk a e g s out"
  using moved_trans moved_stopped by (cases out) fastforce+

lemma turn_fine_holds:
  assumes "holds disk a e s t" "turn_fine disk a e g t out"
  shows "turn_fine disk a e g s out"
  using turn_fine_moved [OF holds_moved [OF assms(1)] _ assms(2)] assms(1) by (simp add: holds_def)

lemma advance_moved:
  assumes "ready disk a e s"
  shows "moved disk a e s (advance n sp jp s)" "current_position s + n \<le> current_position (advance n sp jp s)"
  using moved_position [OF assms] by (auto simp: advance_def Let_def)

lemma went_forward:
  assumes "went disk a e jump_forward s (r, t)" "r = 0" "calm hw disk s" "0 \<le> current_position s"
  shows "moved disk a e s t \<and> current_position s \<le> current_position t"
proof -
  have "current_position s \<le> current_position (jump_forward u)" if "holds disk a e s u" for u
    using jump_forward_position [of disk a e u] that sane_holds [OF that] assms(3,4)
    by (simp add: holds_def calm_def)
  with assms(1,2) show ?thesis by (auto simp: went_def)
qed

lemma forward_failure_fine:
  assumes "ready disk a e s" "calm hw disk s" "\<not> finished new" "0 < n" "n \<le> cluster_size s" "0 \<le> current_position s"
  shows "turn_fine disk a e True s (forward_failure hw st new retstat n s)"
proof -
  define s1 where "s1 = s\<lparr>rate_modifier := rate_modifier s + cdiv (n * sector_size s) (cdiv (cluster_size s) 16 + 1)\<rparr>"
  define info where "info = skip_info_of (uint FORWARD_SKIP) s1"
  define queried where "queried \<longleftrightarrow> retstat = 0 \<and> use_fpdma s1 \<and> rebuild_assist_enabled s1"
  obtain bad s2 where q: "ncq_stage hw queried s1 = (bad, s2)" by fastforce
  have h2: "holds disk a e s s2"
    using holds_keeps [OF assms(1)] keeps_trans [OF _ keeps_ncq_stage [OF q], of s] by (simp add: s1_def)
  define sp where "sp = (if queried \<and> \<not> bad \<and> ncq_sense_is SKEY_ABORTED_COMMAND ASC_MULTIPLE_READ_ERRORS s2
    then ncq_final_lba (ncq_data s2) + 1 else 0)"
  define jp where "jp = (if queried \<and> \<not> bad \<and> \<not> (queried \<and> \<not> bad \<and> ncq_sense_is SKEY_ABORTED_COMMAND ASC_MULTIPLE_READ_ERRORS s2) \<and>
    ncq_sense_is SKEY_MEDIUM_ERROR ASC_UNRECOVERED_READ_ERROR s2 then ncq_final_lba (ncq_data s2) + 1 else 0)"
  obtain r3 s3 where t: "treat_failure hw st new retstat n info (ata_aligned s1) bad s2 = (r3, s3)" by fastforce
  have c2: "calm hw disk s2" and p2: "current_position s2 = current_position s"
    using calm_holds [OF h2] assms(2) h2 by (simp_all add: holds_def)
  have "current_status s2 \<noteq> REBUILDASSIST" using c2 by (simp add: calm_def sane_def)
  moreover have "n \<le> cluster_size s2" using h2 assms(5) by (simp add: holds_def settings_def)
  ultimately have "served disk a e s2 (r3, s3)"
    using process_chunk_served [OF holds_ready [OF h2] c2 assms(3), of n]
      plain_failure_served [OF holds_ready [OF h2] assms(4,3)]
    unfolding t [symmetric] treat_failure_def by (auto simp: chunk_processable_def)
  then have sv: "served disk a e s (r3, s3)" by (rule served_holds [OF h2])
  define skip where "skip = (if skip_enabled s3 \<and> sp = 0 then error_skip jump_forward s3
    else (0, if skip_enabled s3 then count_predicted_skip s3 else s3))"
  obtain r4 s4 where k: "skip = (r4, s4)" by fastforce
  obtain r5 s5 where d: "device_stage hw retstat s4 = (r5, s5)" by fastforce
  have eq: "forward_failure hw st new retstat n s =
      (if r3 \<noteq> 0 then Stop r3 s3 else if r4 \<noteq> 0 then Stop r4 s4 else if r5 \<noteq> 0 then Stop r5 s5
       else Next (advance n sp jp (restore_ata (sense s) s5)))"
    unfolding forward_failure_def Let_def s1_def [symmetric] info_def [symmetric] queried_def [symmetric] q prod.case
      sp_def [symmetric] jp_def [symmetric] t skip_def [symmetric] k d ..
  show ?thesis
  proof (cases "r3 = 0")
    case False
    with sv eq show ?thesis by (simp add: served_def)
  next
    case r3: True
    with sv have h3: "holds disk a e s s3" by (simp add: served_def)
    have "went disk a e jump_forward s3 (r4, s4)"
      using error_skip_went [OF holds_ready [OF h3] skipper_jumps(1)] holds_went [OF holds_keeps [OF holds_ready [OF h3]]]
      unfolding k [symmetric] skip_def by simp
    then have w: "went disk a e jump_forward s (r4, s4)" by (rule went_holds [OF h3])
    show ?thesis
    proof (cases "r4 = 0")
      case False
      with w r3 eq show ?thesis by (simp add: went_def)
    next
      case r4: True
      note m4 = went_forward [OF w r4 assms(2,6)]
      have h5: "holds disk a e s4 s5" using holds_keeps [OF moved_ready keeps_device_stage [OF d]] m4 by blast
      define s6 where "s6 = restore_ata (sense s) s5"
      have h6: "holds disk a e s4 s6"
        using holds_trans [OF h5 holds_keeps [OF holds_ready [OF h5]]] by (simp add: s6_def)
      note ad = advance_moved [OF holds_ready [OF h6], of n sp jp]
      have "moved disk a e s s6" using m4 moved_trans holds_moved [OF h6] by blast
      moreover have "current_position s6 = current_position s4" using h6 by (simp add: holds_def)
      moreover have "stopped disk a e s s5" using moved_stopped m4 holds_stopped [OF h5] by blast
      ultimately show ?thesis
        using ad assms(4) m4 r3 r4 eq moved_trans [of disk a e s s6] by (auto simp: s6_def [symmetric])
    qed
  qed
qed

end
