(* ===== verification/Fill_Safety.thy ===== *)
theory Fill_Safety
  imports Fill Pass_Stages
begin

text \<open>What a fill does to the target: nothing to the sectors that are finished, zeros to the others.\<close>

section \<open>Data\<close>

lemma length_copy_into [simp]: "length (copy_into k xs buf) = length buf"
  by (simp add: copy_into_def overlay_def)

lemma length_fold_copy [simp]: "length (fold (\<lambda>k. copy_into (f k) (g k)) ks buf) = length buf"
  by (induction ks arbitrary: buf) simp_all

lemma length_quad: "n \<le> length (concat (replicate n quad_word))"
  by (induction n) (simp_all add: quad_word_def)

lemma length_fill_data [simp]: "length (fill_data msk st pos sz s) = nat (sz * sector_size s)"
  using length_quad [of "nat (sz * sector_size s)"] by (simp add: fill_data_def Let_def min_absorb2)

lemma bytes_at_self: "length buf = n \<Longrightarrow> bytes_at (\<lambda>a. buf ! nat (a - p)) p n = buf"
  by (auto simp: bytes_at_def intro: nth_equalityI)

lemma bytes_at_zero: "bytes_at (\<lambda>_. 0) p n = replicate n (0 :: 8 word)"
  by (simp add: bytes_at_def map_replicate_const)

section \<open>Sectors of the target\<close>

definition sector_same :: "'a clone_env_scheme \<Rightarrow> 'a clone_env_scheme \<Rightarrow> int \<Rightarrow> bool" where
  "sector_same s s' x \<longleftrightarrow> (\<forall>j. 0 \<le> j \<and> j < output_size s \<longrightarrow>
     dest s' (write_position x s * output_size s + j) = dest s (write_position x s * output_size s + j))"

definition sector_zero :: "'a clone_env_scheme \<Rightarrow> 'a clone_env_scheme \<Rightarrow> int \<Rightarrow> bool" where
  "sector_zero s s' x \<longleftrightarrow> (\<forall>j. 0 \<le> j \<and> j < output_size s \<longrightarrow> dest s' (write_position x s * output_size s + j) = 0)"

text \<open>The settings that a fill depends on.\<close>

definition fill_settings :: "'a clone_env_scheme \<Rightarrow> _" where
  "fill_settings s = (log_table s, sector_size s, output_sector_size_adjustment s, input_offset s, output_offset s,
     cluster_size s, end_position s, clone_env.more s)"

lemma fill_settings_frame: "frame t = frame s \<Longrightarrow> fill_settings t = fill_settings s"
  by (simp add: fill_settings_def frame_def)

lemma fill_settings_updates [simp]:
  "fill_settings (s\<lparr>current_position := p\<rparr>) = fill_settings s" "fill_settings (s\<lparr>current_status := st\<rparr>) = fill_settings s"
  "fill_settings (s\<lparr>buffer := b\<rparr>) = fill_settings s" "fill_settings (s\<lparr>total_filled := n\<rparr>) = fill_settings s"
  "fill_settings (s\<lparr>logfile_changed := c\<rparr>) = fill_settings s" "fill_settings (s\<lparr>start_position := p\<rparr>) = fill_settings s"
  by (simp_all add: fill_settings_def)

lemma fill_settings_places:
  assumes "fill_settings t = fill_settings s"
  shows "output_size t = output_size s" "write_position x t = write_position x s" "sector_size t = sector_size s"
    "cluster_size t = cluster_size s" "end_position t = end_position s" "log_table t = log_table s"
    "clone_env.more t = clone_env.more s"
  using assms by (simp_all add: fill_settings_def output_size_def write_position_def)

lemma fill_mark_more: "clone_env.more t = clone_env.more s \<Longrightarrow> fill_mark t = fill_mark (s :: 'a fill_env_scheme)"
  by (cases t rule: fill_env.cases_scheme; cases s rule: fill_env.cases_scheme) simp

lemma sector_same_trans:
  assumes "sector_same s t x" "sector_same t u x" "output_size t = output_size s" "write_position x t = write_position x s"
  shows "sector_same s u x"
  using assms by (simp add: sector_same_def)

section \<open>Writing a chunk\<close>

lemma store_outside:
  assumes "length out = nat (sz * output_size s)" "0 < output_size s" "\<not> (pos \<le> x \<and> x < pos + sz)"
    and "dest s' = store_at (write_position pos s * output_size s) (take n out) (dest s)"
  shows "sector_same s s' x"
proof -
  let ?b = "output_size s"
  have "dest s' (write_position x s * ?b + j) = dest s (write_position x s * ?b + j)" if j: "0 \<le> j" "j < ?b" for j
  proof -
    have a: "write_position x s * ?b + j = write_position pos s * ?b + ((x - pos) * ?b + j)"
      unfolding write_position_shift [of x s pos] by (simp add: distrib_right)
    have "\<not> (0 \<le> (x - pos) * ?b + j \<and> (x - pos) * ?b + j < int (length (take n out)))"
    proof (cases "x < pos")
      case True
      then have "(x - pos) * ?b \<le> (-1) * ?b" using assms(2) by (intro mult_right_mono) simp_all
      with j show ?thesis by simp
    next
      case False
      then have "sz * ?b \<le> (x - pos) * ?b" using assms(2,3) by (intro mult_right_mono) simp_all
      moreover have "0 \<le> (x - pos) * ?b" using False assms(2) by simp
      ultimately have "int (length out) \<le> (x - pos) * ?b" using assms(1) by simp
      moreover have "int (length (take n out)) \<le> int (length out)" by simp
      ultimately show ?thesis using j by linarith
    qed
    then show ?thesis unfolding assms(4) a store_at_def by auto
  qed
  then show ?thesis by (simp add: sector_same_def)
qed

lemma write_chunk_effect:
  assumes "length (buffer s) = nat (sz * sector_size s)" "0 < sector_size s" "0 < output_size s" "0 \<le> sz"
    and "write_chunk hw pos sz s = (ret, s')"
  shows "\<forall>x. \<not> (pos \<le> x \<and> x < pos + sz) \<longrightarrow> sector_same s s' x"
    and "fill_settings (s'\<lparr>sector_size := sector_size s\<rparr>) = fill_settings s" and "ret = 0 \<Longrightarrow> fill_settings s' = fill_settings s"
    and "buffer s = replicate (nat (sz * sector_size s)) 0 \<Longrightarrow> (\<forall>x. sector_zero s s x \<longrightarrow> sector_zero s s' x) \<and>
      (honest_target hw \<and> ret = 0 \<longrightarrow> (\<forall>x. pos \<le> x \<and> x < pos + sz \<longrightarrow> sector_zero s s' x))"
proof -
  have b: "buffer s = bytes_at (\<lambda>a. buffer s ! nat (a - pos * sector_size s)) (pos * sector_size s) (nat (sz * sector_size s))"
    using bytes_at_self [OF assms(1)] by simp
  from write_chunk_stores [OF b assms(2-5)] obtain out n where w: "length out = nat (sz * output_size s)"
    "dest s' = store_at (write_position pos s * output_size s) (take n out) (dest s)"
    "frame (s'\<lparr>sector_size := sector_size s\<rparr>) = frame s" "sector_size s' = (if ret = 0 then sector_size s else output_size s)"
    by blast
  show "\<forall>x. \<not> (pos \<le> x \<and> x < pos + sz) \<longrightarrow> sector_same s s' x"
    using store_outside [OF w(1) assms(3) _ w(2)] by blast
  show r: "fill_settings (s'\<lparr>sector_size := sector_size s\<rparr>) = fill_settings s" by (rule fill_settings_frame) (rule w(3))
  show "fill_settings s' = fill_settings s" if "ret = 0" using r w(4) that by (simp add: fill_settings_def)
  assume z: "buffer s = replicate (nat (sz * sector_size s)) 0"
  then have "buffer s = bytes_at (\<lambda>_. 0) (pos * sector_size s) (nat (sz * sector_size s))" by (simp add: bytes_at_zero)
  from write_chunk_stores [OF this assms(2-5)] obtain out n where w: "length out = nat (sz * output_size s)"
    "\<forall>i. 0 \<le> i \<and> i < sz * output_size s \<longrightarrow>
       out ! nat i = target_byte (\<lambda>_. 0) s (pos + i div output_size s) (i mod output_size s)"
    "dest s' = store_at (write_position pos s * output_size s) (take n out) (dest s)"
    "frame (s'\<lparr>sector_size := sector_size s\<rparr>) = frame s" "honest_target hw \<and> ret = 0 \<longrightarrow> length out \<le> n"
    by metis
  let ?t = "s'\<lparr>sector_size := sector_size s\<rparr>"
  have d: "dest ?t = store_at (write_position pos s * output_size s) (take n out) (dest s)" using w(3) by simp
  have zero: "copied (\<lambda>_. 0) s x = sector_zero s s x" "copied (\<lambda>_. 0) ?t x = sector_zero s s' x" for x
    using fill_settings_places [OF r] by (auto simp: copied_def sector_zero_def target_byte_def)
  note st = store_target [OF w(1) w(2) [rule_format] assms(3) d w(4)]
  show "(\<forall>x. sector_zero s s x \<longrightarrow> sector_zero s s' x) \<and>
      (honest_target hw \<and> ret = 0 \<longrightarrow> (\<forall>x. pos \<le> x \<and> x < pos + sz \<longrightarrow> sector_zero s s' x))"
    using st(1,2) w(5) unfolding zero [symmetric] by blast
qed

section \<open>Filling a line\<close>

text \<open>What a part of a fill has done: \<open>Z\<close> are the sectors that it may write.\<close>

definition filled :: "hardware \<Rightarrow> (int \<Rightarrow> bool) \<Rightarrow> 'a fill_env_scheme \<Rightarrow> int \<Rightarrow> 'a fill_env_scheme \<Rightarrow> bool" where
  "filled hw Z s ret t \<longleftrightarrow> (\<forall>x. \<not> Z x \<longrightarrow> sector_same s t x) \<and> fill_settings (t\<lparr>sector_size := sector_size s\<rparr>) = fill_settings s \<and>
     (ret = 0 \<longrightarrow> fill_settings t = fill_settings s) \<and> (\<not> fill_mark s \<longrightarrow> (\<forall>x. sector_zero s s x \<longrightarrow> sector_zero s t x))"

lemma filled_keeps:
  assumes "dest t = dest s" "fill_settings t = fill_settings s"
  shows "filled hw Z s ret t"
  using assms by (simp add: filled_def sector_same_def sector_zero_def fill_settings_def)

lemma sector_settings:
  assumes "fill_settings t = fill_settings s"
  shows "sector_same t u x = sector_same t u x" "sector_zero t u x = sector_zero s u x"
  using fill_settings_places [OF assms] by (simp_all add: sector_zero_def)

lemma filled_trans:
  assumes "filled hw Z s 0 t" "filled hw Z t ret u"
  shows "filled hw Z s ret u"
proof -
  have e: "fill_settings t = fill_settings s" using assms(1) by (simp add: filled_def)
  note p = fill_settings_places [OF e]
  have m: "fill_mark t = fill_mark s" by (rule fill_mark_more) (rule p(7))
  have "sector_same s u x" if "\<not> Z x" for x
    using assms that sector_same_trans [OF _ _ p(1,2)] by (simp add: filled_def)
  moreover have "sector_zero s u x" if "\<not> fill_mark s" "sector_zero s s x" for x
  proof -
    have "sector_zero s t x" using assms(1) that by (simp add: filled_def)
    then have "sector_zero t t x" using sector_settings(2) [OF e] by simp
    then have "sector_zero t u x" using assms(2) that(1) m by (simp add: filled_def)
    then show ?thesis using sector_settings(2) [OF e] by simp
  qed
  ultimately show ?thesis using assms(2) e p(3) by (simp add: filled_def)
qed

lemma filled_mono: "filled hw Z s ret t \<Longrightarrow> (\<And>x. Z x \<Longrightarrow> Y x) \<Longrightarrow> filled hw Y s ret t"
  by (auto simp: filled_def)

text \<open>One chunk.\<close>

definition fill_look :: "hardware \<Rightarrow> int \<Rightarrow> 'a fill_env_scheme \<Rightarrow> 'a fill_env_scheme" where
  "fill_look hw pos s = poll_stop hw (update_display hw DISPLAY_UPDATE_TIME (s\<lparr>current_position := pos, current_status := FILLING\<rparr>))"

lemma fill_look_keeps: "dest (fill_look hw pos s) = dest s" "fill_settings (fill_look hw pos s) = fill_settings s"
proof -
  let ?s = "s\<lparr>current_position := pos, current_status := FILLING\<rparr>"
  have "keeps ?s (fill_look hw pos s)" unfolding fill_look_def by (rule keeps_poll [OF keeps_update_display])
  then have "dest (fill_look hw pos s) = dest ?s" "frame (fill_look hw pos s) = frame ?s" by (simp_all add: keeps_def)
  then show "dest (fill_look hw pos s) = dest s" "fill_settings (fill_look hw pos s) = fill_settings s"
    using fill_settings_frame [of "fill_look hw pos s" ?s] by simp_all
qed

definition fill_write :: "hardware \<Rightarrow> status_word \<Rightarrow> status_word \<Rightarrow> int \<Rightarrow> int \<Rightarrow> 'a fill_env_scheme \<Rightarrow> int \<times> 'a fill_env_scheme" where
  "fill_write hw msk st pos w s = write_chunk hw pos w (s\<lparr>buffer := fill_data msk st pos w s\<rparr>)"

lemma fill_write_filled:
  assumes "fill_write hw msk st pos w s = (ret, t)" "0 \<le> w" "0 < sector_size s" "0 < output_size s"
  shows "filled hw (\<lambda>x. pos \<le> x \<and> x < pos + w) s ret t"
    and "honest_target hw \<Longrightarrow> ret = 0 \<Longrightarrow> \<not> fill_mark s \<Longrightarrow> \<forall>x. pos \<le> x \<and> x < pos + w \<longrightarrow> sector_zero s t x"
proof -
  let ?s = "s\<lparr>buffer := fill_data msk st pos w s\<rparr>"
  have o: "output_size ?s = output_size s" "write_position x ?s = write_position x s" for x
    by (simp_all add: output_size_def write_position_def)
  have l: "length (buffer ?s) = nat (w * sector_size ?s)" "0 < sector_size ?s" "0 < output_size ?s" using assms o by simp_all
  note e = write_chunk_effect [OF l assms(2) assms(1) [unfolded fill_write_def]]
  have eq: "sector_same ?s t x = sector_same s t x" "sector_zero ?s u x = sector_zero s u x" "sector_zero u ?s x = sector_zero u s x" for x u
    by (simp_all add: sector_same_def sector_zero_def o)
  have z: "buffer ?s = replicate (nat (w * sector_size ?s)) 0" if "\<not> fill_mark s"
    using that by (simp add: fill_data_def Let_def)
  have z1: "\<forall>x. sector_zero s s x \<longrightarrow> sector_zero s t x" if "\<not> fill_mark s"
    using e(4) [OF z [OF that]] unfolding eq by blast
  show "filled hw (\<lambda>x. pos \<le> x \<and> x < pos + w) s ret t"
    using e(1,2,3) z1 unfolding filled_def eq by simp
  show "\<forall>x. pos \<le> x \<and> x < pos + w \<longrightarrow> sector_zero s t x" if "honest_target hw" "ret = 0" "\<not> fill_mark s"
    using e(4) [OF z [OF that(3)]] that unfolding eq by blast
qed

lemma fill_chunks_Suc:
  "fill_chunks hw msk r (Suc n) pos sz s =
     (let s = fill_look hw pos s in
      if stop_signal s then Some (STOP_SIGNAL_RETURN_CODE, s)
      else if pos > lposition r + lsize r \<or> pos > end_position s then Some (0, s)
      else
        let ends = sz \<le> cluster_size s; w = (if ends then sz else cluster_size s); (ret, s) = fill_write hw msk (lstatus r) pos w s
        in if ret \<noteq> 0 then Some (ret, s)
           else
             let s = s\<lparr>total_filled := total_filled s + w, logfile_changed := True\<rparr>
             in if ends then Some (0, s) else fill_chunks hw msk r n (pos + cluster_size s) (sz - cluster_size s) s)"
  unfolding fill_look_def fill_write_def by (rule fill_chunks.simps)

declare fill_chunks.simps(2) [simp del]

lemma fill_chunks_filled:
  assumes "fill_chunks hw msk r n pos sz s = Some (ret, t)" "0 < sz" "0 < cluster_size s" "0 < sector_size s" "0 < output_size s"
  shows "filled hw (\<lambda>x. pos \<le> x \<and> x < pos + sz) s ret t \<and>
    (honest_target hw \<and> ret = 0 \<and> \<not> fill_mark s \<and> pos + sz \<le> end_position s \<and> pos + sz \<le> lposition r + lsize r \<longrightarrow>
      (\<forall>x. pos \<le> x \<and> x < pos + sz \<longrightarrow> sector_zero s t x))"
  using assms
proof (induction n arbitrary: pos sz s)
  case (Suc n)
  define s1 where "s1 = fill_look hw pos s"
  have k: "dest s1 = dest s" "fill_settings s1 = fill_settings s" unfolding s1_def by (rule fill_look_keeps)+
  note p = fill_settings_places [OF k(2)]
  have m: "fill_mark s1 = fill_mark s" by (rule fill_mark_more) (rule p(7))
  have f1: "filled hw Z s 0 s1" for Z using k by (rule filled_keeps)
  define w where "w = (if sz \<le> cluster_size s1 then sz else cluster_size s1)"
  have w: "0 < w" "w \<le> sz" using Suc.prems(2,3) p by (auto simp: w_def)
  obtain r2 s2 where s2: "fill_write hw msk (lstatus r) pos w s1 = (r2, s2)" by fastforce
  have pos: "0 < sector_size s1" "0 < output_size s1" using Suc.prems p by simp_all
  note f2 = fill_write_filled [OF s2 less_imp_le [OF w(1)] pos]
  have f2': "filled hw (\<lambda>x. pos \<le> x \<and> x < pos + sz) s r2 s2"
    by (rule filled_trans [OF f1]) (use f2(1) w(2) in \<open>auto intro: filled_mono\<close>)
  define s3 where "s3 = s2\<lparr>total_filled := total_filled s2 + w, logfile_changed := True\<rparr>"
  have s3: "dest s3 = dest s2" "fill_settings s3 = fill_settings s2" by (simp_all add: s3_def)
  consider (stop) "stop_signal s1" "ret = STOP_SIGNAL_RETURN_CODE" "t = s1"
    | (beyond) "pos > lposition r + lsize r \<or> pos > end_position s1" "ret = 0" "t = s1"
    | (bad) "r2 \<noteq> 0" "ret = r2" "t = s2"
    | (ends) "r2 = 0" "sz \<le> cluster_size s1" "ret = 0" "t = s3"
    | (more) "r2 = 0" "\<not> sz \<le> cluster_size s1" "fill_chunks hw msk r n (pos + cluster_size s3) (sz - cluster_size s3) s3 = Some (ret, t)"
  proof -
    let ?beyond = "pos > lposition r + lsize r \<or> pos > end_position s1"
    have "(if stop_signal s1 then Some (STOP_SIGNAL_RETURN_CODE, s1) else if ?beyond then Some (0, s1)
        else if r2 \<noteq> 0 then Some (r2, s2) else if sz \<le> cluster_size s1 then Some (0, s3)
        else fill_chunks hw msk r n (pos + cluster_size s3) (sz - cluster_size s3) s3) = Some (ret, t)"
      using Suc.prems(1) unfolding fill_chunks_Suc Let_def s1_def [symmetric] w_def [symmetric] s2 prod.case s3_def [symmetric] .
    then show thesis
      by (cases "stop_signal s1"; cases ?beyond; cases "r2 = 0"; cases "sz \<le> cluster_size s1")
        (simp_all only: if_True if_False option.inject prod.inject simp_thms, (metis stop beyond bad ends more)+)
  qed
  then show ?case
  proof cases
    case stop
    then show ?thesis using filled_keeps [OF k] by (simp add: STOP_SIGNAL_RETURN_CODE_def)
  next
    case beyond
    then show ?thesis using filled_keeps [OF k] p Suc.prems(2) by auto
  next
    case bad
    then show ?thesis using f2' by simp
  next
    case ends
    have "filled hw (\<lambda>x. pos \<le> x \<and> x < pos + sz) s 0 s3"
      using f2' ends(1) s3 by (auto intro: filled_trans filled_keeps)
    moreover have "sector_zero s s3 x" if "honest_target hw" "\<not> fill_mark s" "pos \<le> x" "x < pos + sz" for x
      using f2(2) [OF that(1) ends(1)] that ends(2) m s3(1) unfolding sector_settings(2) [OF k(2)]
      by (simp add: w_def sector_zero_def)
    ultimately show ?thesis using ends by simp
  next
    case more
    have f3: "filled hw (\<lambda>x. pos \<le> x \<and> x < pos + sz) s 0 s3"
      using f2' more(1) s3 by (auto intro: filled_trans filled_keeps)
    then have k3: "fill_settings s3 = fill_settings s" by (simp add: filled_def)
    note p3 = fill_settings_places [OF k3]
    have m3: "fill_mark s3 = fill_mark s" by (rule fill_mark_more) (rule p3(7))
    have c: "cluster_size s3 = w" "w = cluster_size s" using more(2) p p3 by (simp_all add: w_def)
    have "0 < sz - w" using more(2) c p by simp
    from Suc.IH [OF more(3)] this Suc.prems(3-5) p3 c have ih:
      "filled hw (\<lambda>x. pos + w \<le> x \<and> x < pos + sz) s3 ret t"
      "honest_target hw \<and> ret = 0 \<and> \<not> fill_mark s3 \<and> pos + sz \<le> end_position s3 \<and> pos + sz \<le> lposition r + lsize r \<longrightarrow>
        (\<forall>x. pos + w \<le> x \<and> x < pos + sz \<longrightarrow> sector_zero s3 t x)"
      by simp_all
    have "filled hw (\<lambda>x. pos \<le> x \<and> x < pos + sz) s3 ret t"
      by (rule filled_mono [OF ih(1)]) (use w(1) in simp)
    with f3 have "filled hw (\<lambda>x. pos \<le> x \<and> x < pos + sz) s ret t" by (rule filled_trans)
    moreover have "sector_zero s t x" if h: "honest_target hw" "ret = 0" "\<not> fill_mark s" "pos + sz \<le> end_position s"
      "pos + sz \<le> lposition r + lsize r" "pos \<le> x" "x < pos + sz" for x
    proof (cases "x < pos + w")
      case True
      have "sector_zero s s2 x"
        using f2(2) [OF h(1) more(1)] h True m unfolding sector_settings(2) [OF k(2)] by simp
      then have "sector_zero s3 s3 x" unfolding sector_settings(2) [OF k3] by (simp add: sector_zero_def s3(1))
      then have "sector_zero s3 t x" using ih(1) h(3) m3 by (simp add: filled_def)
      then show ?thesis unfolding sector_settings(2) [OF k3] .
    next
      case False
      then show ?thesis using ih(2) h m3 p3 unfolding sector_settings(2) [OF k3] by simp
    qed
    ultimately show ?thesis by blast
  qed
qed simp

lemma fill_chunks_returns:
  assumes "sz \<le> int n" "0 < sz" "0 < cluster_size s" "0 < sector_size s" "0 < output_size s"
  shows "fill_chunks hw msk r n pos sz s \<noteq> None"
  using assms
proof (induction n arbitrary: pos sz s)
  case (Suc n)
  define s1 where "s1 = fill_look hw pos s"
  have k: "fill_settings s1 = fill_settings s" unfolding s1_def by (rule fill_look_keeps)
  note p = fill_settings_places [OF k]
  define w where "w = (if sz \<le> cluster_size s1 then sz else cluster_size s1)"
  have w: "0 < w" using Suc.prems p by (auto simp: w_def)
  obtain r2 s2 where s2: "fill_write hw msk (lstatus r) pos w s1 = (r2, s2)" by fastforce
  define s3 where "s3 = s2\<lparr>total_filled := total_filled s2 + w, logfile_changed := True\<rparr>"
  have "fill_chunks hw msk r n (pos + cluster_size s3) (sz - cluster_size s3) s3 \<noteq> None" if "r2 = 0" "\<not> sz \<le> cluster_size s1"
  proof -
    have "filled hw (\<lambda>x. pos \<le> x \<and> x < pos + w) s1 r2 s2"
      by (rule fill_write_filled [OF s2]) (use w Suc.prems p in simp_all)
    then have "fill_settings s3 = fill_settings s" using that(1) k by (simp add: filled_def s3_def)
    note p3 = fill_settings_places [OF this]
    show ?thesis by (rule Suc.IH) (use Suc.prems that(2) p p3 in simp_all)
  qed
  then show ?case
    unfolding fill_chunks_Suc Let_def s1_def [symmetric] w_def [symmetric] s2 prod.case s3_def [symmetric] by auto
qed simp

text \<open>The first chunk is written even if it leaves the range.\<close>

lemma fill_chunks_first:
  assumes "fill_chunks hw msk r n pos sz s = Some (0, t)" "0 < sz" "0 < cluster_size s" "0 < sector_size s" "0 < output_size s"
    and "pos \<le> lposition r + lsize r" "pos \<le> end_position s" "honest_target hw" "\<not> fill_mark s"
    and "pos \<le> x" "x < pos + min sz (cluster_size s)"
  shows "sector_zero s t x"
proof (cases n)
  case (Suc m)
  define s1 where "s1 = fill_look hw pos s"
  have k: "dest s1 = dest s" "fill_settings s1 = fill_settings s" unfolding s1_def by (rule fill_look_keeps)+
  note p = fill_settings_places [OF k(2)]
  have m: "fill_mark s1 = fill_mark s" by (rule fill_mark_more) (rule p(7))
  define w where "w = (if sz \<le> cluster_size s1 then sz else cluster_size s1)"
  have w: "w = min sz (cluster_size s)" "0 < w" using assms(2,3) p(4) by (simp_all add: w_def min_def)
  obtain r2 s2 where s2: "fill_write hw msk (lstatus r) pos w s1 = (r2, s2)" by fastforce
  define s3 where "s3 = s2\<lparr>total_filled := total_filled s2 + w, logfile_changed := True\<rparr>"
  have b: "\<not> (pos > lposition r + lsize r \<or> pos > end_position s1)" using assms(6,7) p(5) by simp
  have "(if stop_signal s1 then Some (STOP_SIGNAL_RETURN_CODE, s1)
      else if r2 \<noteq> 0 then Some (r2, s2) else if sz \<le> cluster_size s1 then Some (0, s3)
      else fill_chunks hw msk r m (pos + cluster_size s3) (sz - cluster_size s3) s3) = Some (0, t)"
    using assms(1) unfolding Suc fill_chunks_Suc Let_def s1_def [symmetric] w_def [symmetric] s2 prod.case s3_def [symmetric]
    unfolding if_not_P [OF b] .
  then have c: "r2 = 0" "if sz \<le> cluster_size s1 then t = s3
      else fill_chunks hw msk r m (pos + cluster_size s3) (sz - cluster_size s3) s3 = Some (0, t)"
    by (auto simp: STOP_SIGNAL_RETURN_CODE_def split: if_splits)
  have pos: "0 < sector_size s1" "0 < output_size s1" using assms(4,5) p by simp_all
  note f = fill_write_filled [OF s2 less_imp_le [OF w(2)] pos]
  have k3: "fill_settings s3 = fill_settings s" using f(1) c(1) k(2) by (simp add: filled_def s3_def)
  note p3 = fill_settings_places [OF k3]
  have z: "sector_zero s3 s3 x"
    using f(2) [OF assms(8) c(1)] m assms(9-11) w(1) p p3 by (simp add: sector_zero_def s3_def)
  have "sector_zero s3 t x"
  proof (cases "sz \<le> cluster_size s1")
    case True
    then show ?thesis using c(2) z by simp
  next
    case False
    then have "0 < sz - cluster_size s3" using p p3 by simp
    moreover have "fill_mark s3 = fill_mark s" by (rule fill_mark_more) (rule p3(7))
    ultimately show ?thesis
      using fill_chunks_filled [of hw msk r m "pos + cluster_size s3" "sz - cluster_size s3" s3 0 t] False c(2) z assms(3-5,9) p3
      by (simp add: filled_def)
  qed
  then show ?thesis using sector_settings(2) [OF k3] by simp
qed (use assms(1) in simp)

end
