(* ===== verification/Fill_Theorems.thy ===== *)
theory Fill_Theorems
  imports Fill_Safety
begin

text \<open>The fill as a whole: which lines it takes, and what the target holds when it returns.\<close>

section \<open>The parts of the lines\<close>

definition part_cut :: "nat \<Rightarrow> int \<Rightarrow> nat \<Rightarrow> int \<Rightarrow> nat \<Rightarrow> int" where
  "part_cut a da b db i = (if i = a then da else if i = b then db else 0)"

definition part_start :: "row list \<Rightarrow> nat \<Rightarrow> int \<Rightarrow> nat \<Rightarrow> int" where
  "part_start rs a da i = (if i = a then lposition (rs ! i) + da else lposition (rs ! i))"

definition in_part :: "row list \<Rightarrow> nat \<Rightarrow> int \<Rightarrow> nat \<Rightarrow> int \<Rightarrow> nat \<Rightarrow> int \<Rightarrow> bool" where
  "in_part rs a da b db i x \<longleftrightarrow>
     part_start rs a da i \<le> x \<and> x < part_start rs a da i + (lsize (rs ! i) - part_cut a da b db i)"

definition to_fill :: "status_word \<Rightarrow> status_word \<Rightarrow> row \<Rightarrow> bool" where
  "to_fill status msk r \<longleftrightarrow> lstatus r AND msk \<noteq> status AND msk"

lemma fill_lines_Cons:
  "fill_lines hw n status msk a da b db (i # js) s =
     (let r = lines (log_table s) ! i in
      if to_fill status msk r
      then (case fill_chunks hw msk r n (part_start (lines (log_table s)) a da i) (lsize r - part_cut a da b db i) s of
              None \<Rightarrow> None
            | Some (ret, s) \<Rightarrow> if ret \<noteq> 0 then Some (ret, s) else fill_lines hw n status msk a da b db js s)
      else fill_lines hw n status msk a da b db js s)"
  by (simp add: to_fill_def part_start_def part_cut_def Let_def)

declare fill_lines.simps(2) [simp del]

lemma fill_lines_filled:
  fixes s :: "'a fill_env_scheme"
  assumes "fill_lines hw n status msk a da b db js s = Some (ret, t)" "lines (log_table s) = rs"
    and "\<forall>i\<in>set js. 0 < lsize (rs ! i) - part_cut a da b db i"
    and "0 < cluster_size s" "0 < sector_size s" "0 < output_size s"
  shows "filled hw (\<lambda>x. \<exists>i\<in>set js. to_fill status msk (rs ! i) \<and> in_part rs a da b db i x) s ret t \<and>
    (honest_target hw \<and> ret = 0 \<and> \<not> fill_mark s \<and>
      (\<forall>i\<in>set js. part_start rs a da i + (lsize (rs ! i) - part_cut a da b db i) \<le> min (end_position s) (lposition (rs ! i) + lsize (rs ! i))) \<longrightarrow>
      (\<forall>x. (\<exists>i\<in>set js. to_fill status msk (rs ! i) \<and> in_part rs a da b db i x) \<longrightarrow> sector_zero s t x))"
  using assms
proof (induction js arbitrary: s)
  case (Cons i js)
  let ?p = "part_start rs a da i" and ?z = "lsize (rs ! i) - part_cut a da b db i"
  let ?Z = "\<lambda>js x. \<exists>i\<in>set js. to_fill status msk (rs ! i) \<and> in_part rs a da b db i x"
  show ?case
  proof (cases "to_fill status msk (rs ! i)")
    case False
    then have "fill_lines hw n status msk a da b db js s = Some (ret, t)"
      using Cons.prems(1,2) by (simp add: fill_lines_Cons Let_def)
    from Cons.IH [OF this Cons.prems(2) _ Cons.prems(4-6)] Cons.prems(3) False show ?thesis by simp
  next
    case True
    obtain r1 s1 where c: "fill_chunks hw msk (rs ! i) n ?p ?z s = Some (r1, s1)"
      and rest: "if r1 \<noteq> 0 then Some (r1, s1) = Some (ret, t) else fill_lines hw n status msk a da b db js s1 = Some (ret, t)"
      using Cons.prems(1,2) True by (auto simp: fill_lines_Cons Let_def split: option.splits if_splits)
    have "0 < ?z" using Cons.prems(3) by simp
    note f = fill_chunks_filled [OF c this Cons.prems(4-6)]
    have f1: "filled hw (?Z (i # js)) s r1 s1"
      by (rule filled_mono [OF conjunct1 [OF f]]) (use True in \<open>simp add: in_part_def\<close>)
    show ?thesis
    proof (cases "r1 = 0")
      case False
      with f1 rest show ?thesis by simp
    next
      case r0: True
      then have e: "fill_settings s1 = fill_settings s" using f1 by (simp add: filled_def)
      note p = fill_settings_places [OF e]
      have m: "fill_mark s1 = fill_mark s" by (rule fill_mark_more) (rule p(7))
      have "fill_lines hw n status msk a da b db js s1 = Some (ret, t)" using rest r0 by simp
      from Cons.IH [OF this] Cons.prems(2-6) p have ih:
        "filled hw (?Z js) s1 ret t"
        "honest_target hw \<and> ret = 0 \<and> \<not> fill_mark s1 \<and>
          (\<forall>i\<in>set js. part_start rs a da i + (lsize (rs ! i) - part_cut a da b db i) \<le> min (end_position s1) (lposition (rs ! i) + lsize (rs ! i))) \<longrightarrow>
          (\<forall>x. ?Z js x \<longrightarrow> sector_zero s1 t x)"
        by simp_all
      have "filled hw (?Z (i # js)) s1 ret t" by (rule filled_mono [OF ih(1)]) auto
      with f1 r0 have "filled hw (?Z (i # js)) s ret t" by (auto intro: filled_trans)
      moreover have "sector_zero s t x" if h: "honest_target hw" "ret = 0" "\<not> fill_mark s"
        "\<forall>i\<in>set (i # js). part_start rs a da i + (lsize (rs ! i) - part_cut a da b db i) \<le> min (end_position s) (lposition (rs ! i) + lsize (rs ! i))"
        "?Z (i # js) x" for x
      proof (cases "?Z js x")
        case True
        then show ?thesis using ih(2) h m p sector_settings(2) [OF e] by simp
      next
        case False
        then have "in_part rs a da b db i x" using h(5) by auto
        then have "sector_zero s s1 x" using f h r0 by (simp add: in_part_def)
        then have "sector_zero s1 s1 x" using sector_settings(2) [OF e] by simp
        then have "sector_zero s1 t x" using ih(1) h(3) m by (simp add: filled_def)
        then show ?thesis using sector_settings(2) [OF e] by simp
      qed
      ultimately show ?thesis by blast
    qed
  qed
next
  case Nil
  then have "ret = 0" "t = s" by simp_all
  then show ?case by (simp add: filled_keeps)
qed

lemma fill_lines_returns:
  fixes s :: "'a fill_env_scheme"
  assumes "lines (log_table s) = rs"
    and "\<forall>i\<in>set js. 0 < lsize (rs ! i) - part_cut a da b db i \<and> lsize (rs ! i) - part_cut a da b db i \<le> int n"
    and "0 < cluster_size s" "0 < sector_size s" "0 < output_size s"
  shows "fill_lines hw n status msk a da b db js s \<noteq> None"
  using assms
proof (induction js arbitrary: s)
  case (Cons i js)
  let ?p = "part_start rs a da i" and ?z = "lsize (rs ! i) - part_cut a da b db i"
  have z: "?z \<le> int n" "0 < ?z" using Cons.prems(2) by simp_all
  have "fill_chunks hw msk (rs ! i) n ?p ?z s \<noteq> None" by (rule fill_chunks_returns [OF z Cons.prems(3-5)])
  then obtain r1 s1 where c: "fill_chunks hw msk (rs ! i) n ?p ?z s = Some (r1, s1)" by fastforce
  have "fill_lines hw n status msk a da b db js s1 \<noteq> None" if "r1 = 0"
  proof -
    have "fill_settings s1 = fill_settings s" using fill_chunks_filled [OF c z(2) Cons.prems(3-5)] that by (simp add: filled_def)
    note p = fill_settings_places [OF this]
    show ?thesis by (rule Cons.IH) (use Cons.prems p in simp_all)
  qed
  moreover have "fill_lines hw n status msk a da b db js s \<noteq> None" by (rule Cons.IH) (use Cons.prems in simp_all)
  ultimately show ?case using Cons.prems(1) c by (simp add: fill_lines_Cons Let_def)
qed simp

section \<open>The range\<close>

definition fill_begin :: "'a fill_env_scheme \<Rightarrow> int" where "fill_begin s = start_position (fill_range s)"

definition fill_end :: "'a fill_env_scheme \<Rightarrow> int" where "fill_end s = end_position (fill_range s)"

definition first_line :: "'a fill_env_scheme \<Rightarrow> nat" where "first_line s = nat (find_block (fill_begin s) (log_table s))"

definition last_line :: "'a fill_env_scheme \<Rightarrow> nat" where "last_line s = nat (find_block (fill_end s - 1) (log_table s))"

text \<open>A log that tiles the drive up to sector \<open>e\<close> and a range within it.\<close>

definition can_fill :: "int \<Rightarrow> 'a fill_env_scheme \<Rightarrow> bool" where
  "can_fill e s \<longleftrightarrow> \<not> fill_erase s \<and> tiles 0 (lines (log_table s)) e \<and> 0 \<le> fill_begin s \<and> fill_begin s < fill_end s \<and>
     fill_end s \<le> e \<and> 0 < cluster_size s \<and> 0 < sector_size s \<and> 0 < output_size s"

definition fills :: "status_word \<Rightarrow> status_word \<Rightarrow> 'a fill_env_scheme \<Rightarrow> int \<Rightarrow> bool" where
  "fills status msk s x \<longleftrightarrow> (let rs = lines (log_table s); a = first_line s; b = last_line s in
     \<exists>i\<in>set [a..<b + 1]. to_fill status msk (rs ! i) \<and>
       in_part rs a (fill_begin s - lposition (rs ! a)) b ((lposition (rs ! b) + lsize (rs ! b)) - fill_end s) i x)"

lemma status_at_nth:
  assumes "tiles a rs e" "i < length rs" "covers (rs ! i) x"
  shows "status_at rs x = Some (lstatus (rs ! i))"
  using status_at_mid [of a "take i rs" "rs ! i" "drop (Suc i) rs" e x] id_take_nth_drop [OF assms(2)] assms(1,3) by simp

lemma find_block_line:
  assumes "tiles 0 (lines T) e" "0 \<le> x" "x < e"
  shows "nat (find_block x T) < total_lines T" "covers (lines T ! nat (find_block x T)) x"
proof -
  have "find_block x T \<noteq> -1" using find_block_none [OF assms(1)] assms by auto
  from find_block_found [OF this] show "nat (find_block x T) < total_lines T" "covers (lines T ! nat (find_block x T)) x" by simp_all
qed

lemma covers_le:
  assumes "tiles 0 rs e" "i < length rs" "j < length rs" "covers (rs ! i) x" "covers (rs ! j) y" "x \<le> y"
  shows "i \<le> j"
proof (rule ccontr)
  assume "\<not> i \<le> j"
  then have "lposition (rs ! j) + lsize (rs ! j) \<le> lposition (rs ! i)"
    using spaced_nth [OF tiles_spaced [OF assms(1)], of j i] assms(2) by simp
  with assms(4-6) show False by (simp add: covers_def)
qed

lemma fill_plan:
  assumes "can_fill e s"
  defines "rs \<equiv> lines (log_table s)" and "a \<equiv> first_line s" and "b \<equiv> last_line s"
  shows "a \<le> b" "b < length rs" "covers (rs ! a) (fill_begin s)" "covers (rs ! b) (fill_end s - 1)"
    and "i < length rs \<Longrightarrow> 0 < lsize (rs ! i) \<and> lsize (rs ! i) \<le> e"
proof -
  have t: "tiles 0 rs e" "0 \<le> fill_begin s" "fill_begin s < fill_end s" "fill_end s \<le> e" using assms(1) by (simp_all add: can_fill_def rs_def)
  have "0 \<le> fill_end s - 1" "fill_end s - 1 < e" "fill_begin s < e" using t by simp_all
  note f = find_block_line [OF t(1) [unfolded rs_def] t(2) this(3)] find_block_line [OF t(1) [unfolded rs_def] this(1,2)]
  show "b < length rs" "covers (rs ! a) (fill_begin s)" "covers (rs ! b) (fill_end s - 1)"
    using f by (simp_all add: a_def b_def rs_def first_line_def last_line_def)
  then show "a \<le> b" using covers_le [OF t(1)] f t(3) by (simp add: a_def first_line_def rs_def)
  assume "i < length rs"
  then have "rs ! i \<in> set rs" by simp
  with tiles_mem [OF t(1) this] show "0 < lsize (rs ! i) \<and> lsize (rs ! i) \<le> e" by simp
qed

lemma fill_part_bounds:
  assumes "can_fill e s"
  defines "rs \<equiv> lines (log_table s)" and "a \<equiv> first_line s" and "b \<equiv> last_line s"
  defines "da \<equiv> fill_begin s - lposition (rs ! a)" and "db \<equiv> (lposition (rs ! b) + lsize (rs ! b)) - fill_end s"
  assumes "i \<in> set [a..<b + 1]"
  shows "0 < lsize (rs ! i) - part_cut a da b db i" "lsize (rs ! i) - part_cut a da b db i \<le> e"
    "in_part rs a da b db i x \<Longrightarrow> covers (rs ! i) x"
    "part_start rs a da i + (lsize (rs ! i) - part_cut a da b db i) \<le> lposition (rs ! i) + lsize (rs ! i)"
    "in_part rs a da b db i x \<Longrightarrow> fill_begin s \<le> x"
    "a \<noteq> b \<or> lposition (rs ! b) + lsize (rs ! b) = fill_end s \<Longrightarrow>
      part_start rs a da i + (lsize (rs ! i) - part_cut a da b db i) \<le> fill_end s"
proof -
  note p = fill_plan [OF assms(1), folded rs_def a_def b_def]
  have i: "a \<le> i" "i \<le> b" "i < length rs" using assms(7) p(1,2) by auto
  note c = p(3,4) [unfolded covers_def] p(5) [OF i(3)]
  have t: "spaced 0 rs" by (rule tiles_spaced [of 0 rs e]) (use assms(1) in \<open>simp add: can_fill_def rs_def\<close>)
  have lo: "i = a \<or> lposition (rs ! a) + lsize (rs ! a) \<le> lposition (rs ! i)" using spaced_nth [OF t, of a i] i by fastforce
  have hi: "i = b \<or> lposition (rs ! i) + lsize (rs ! i) \<le> lposition (rs ! b)" using spaced_nth [OF t, of i b] i p(2) by fastforce
  show "0 < lsize (rs ! i) - part_cut a da b db i" "lsize (rs ! i) - part_cut a da b db i \<le> e"
    "part_start rs a da i + (lsize (rs ! i) - part_cut a da b db i) \<le> lposition (rs ! i) + lsize (rs ! i)"
    using c by (auto simp: part_cut_def part_start_def da_def db_def)
  show "in_part rs a da b db i x \<Longrightarrow> covers (rs ! i) x"
    using c by (auto simp: in_part_def covers_def part_cut_def part_start_def da_def db_def split: if_splits)
  show "in_part rs a da b db i x \<Longrightarrow> fill_begin s \<le> x"
    using c lo by (auto simp: in_part_def covers_def part_cut_def part_start_def da_def db_def split: if_splits)
  show "part_start rs a da i + (lsize (rs ! i) - part_cut a da b db i) \<le> fill_end s"
    if "a \<noteq> b \<or> lposition (rs ! b) + lsize (rs ! b) = fill_end s"
    using c hi that by (auto simp: part_cut_def part_start_def da_def db_def)
qed

section \<open>The whole function\<close>

lemma do_fill_runs:
  assumes "do_fill hw n confirmed target_bytes status msk s = Some (ret, t)" "\<not> fill_erase s"
  defines "rs \<equiv> lines (log_table s)" and "a \<equiv> first_line s" and "b \<equiv> last_line s"
  shows "\<exists>s3 r u. dest s3 = dest s \<and> fill_settings s3 = fill_settings (s\<lparr>end_position := fill_end s\<rparr>) \<and>
    (ret = STOP_SIGNAL_RETURN_CODE \<and> t = s3 \<or>
     fill_lines hw n status msk a (fill_begin s - lposition (rs ! a)) b ((lposition (rs ! b) + lsize (rs ! b)) - fill_end s)
       [a..<b + 1] s3 = Some (r, u) \<and> ret = r \<and> (if r \<noteq> 0 then t = u else dest t = dest u \<and> fill_settings t = fill_settings u))"
proof -
  define s1 where "s1 = ticked s"
  define s2 where "s2 = fill_range s1"
  define s2' where "s2' = s2\<lparr>current_position := start_position s2, start_position := input_offset s2, current_status := FILLING\<rparr>"
  define s3 where "s3 = poll_stop hw (update_display hw 0 s2')"
  have e: "start_position s2 = fill_begin s" "end_position s2 = fill_end s" "log_table s2 = log_table s"
    by (simp_all add: s2_def s1_def fill_begin_def fill_end_def fill_range_def ticked_def Let_def)
  have er: "\<not> fill_erase s1" using assms(2) by (simp add: s1_def ticked_def)
  have k: "keeps s2' s3" unfolding s3_def by (rule keeps_poll [OF keeps_update_display])
  have d2: "dest s2 = dest s" "fill_settings s2 = fill_settings (s\<lparr>end_position := fill_end s\<rparr>)"
    by (simp_all add: s2_def s1_def fill_end_def fill_range_def ticked_def fill_settings_def Let_def)
  have d: "dest s3 = dest s" "fill_settings s3 = fill_settings (s\<lparr>end_position := fill_end s\<rparr>)"
    using k fill_settings_frame [of s3 s2'] d2 by (simp_all add: keeps_def s2'_def)
  let ?run = "fill_lines hw n status msk a (fill_begin s - lposition (rs ! a)) b ((lposition (rs ! b) + lsize (rs ! b)) - fill_end s) [a..<b + 1] s3"
  have f: "(if stop_signal s3 then Some (STOP_SIGNAL_RETURN_CODE, s3)
      else case ?run of None \<Rightarrow> None
        | Some (r, u) \<Rightarrow> if r \<noteq> 0 then Some (r, u)
            else Some (0, update_display hw 0 (u\<lparr>current_status := FINISHED, logfile_changed := True\<rparr>))) = Some (ret, t)"
    using assms(1) unfolding do_fill_def get_elapsed_usec_def Let_def prod.case s1_def [symmetric] if_not_P [OF er] s2_def [symmetric]
      s2'_def [symmetric] s3_def [symmetric]
    unfolding e rs_def a_def b_def first_line_def last_line_def .
  show ?thesis
  proof (cases "stop_signal s3")
    case True
    with f d show ?thesis by (intro exI [of _ s3]) simp
  next
    case False
    then obtain r u where ru: "?run = Some (r, u)" "ret = r"
      "t = (if r \<noteq> 0 then u else update_display hw 0 (u\<lparr>current_status := FINISHED, logfile_changed := True\<rparr>))"
      using f by (auto split: option.splits if_splits)
    let ?u = "u\<lparr>current_status := FINISHED, logfile_changed := True\<rparr>"
    have "dest (update_display hw 0 ?u) = dest u" "fill_settings (update_display hw 0 ?u) = fill_settings u"
      using keeps_update_display [of ?u hw 0] fill_settings_frame [of "update_display hw 0 ?u" ?u] by (simp_all add: keeps_def)
    with ru d show ?thesis by (intro exI [of _ s3] exI [of _ r] exI [of _ u]) auto
  qed
qed

lemma fill_settings_end:
  assumes "fill_settings t = fill_settings (s\<lparr>end_position := p\<rparr>)"
  shows "output_size t = output_size s" "write_position x t = write_position x s" "sector_size t = sector_size s"
    "cluster_size t = cluster_size s" "end_position t = p" "log_table t = log_table s" "clone_env.more t = clone_env.more s"
  using fill_settings_places [OF assms] by (simp_all add: output_size_def write_position_def)

lemma do_fill_effect:
  assumes "can_fill e s" "do_fill hw n confirmed target_bytes status msk s = Some (ret, t)"
  shows "(\<forall>x. \<not> fills status msk s x \<longrightarrow> sector_same s t x) \<and>
    (honest_target hw \<and> ret = 0 \<and> \<not> fill_mark s \<and>
      (first_line s \<noteq> last_line s \<or>
       lposition (lines (log_table s) ! last_line s) + lsize (lines (log_table s) ! last_line s) = fill_end s) \<longrightarrow>
      (\<forall>x. fills status msk s x \<longrightarrow> sector_zero s t x))"
proof -
  define rs where "rs = lines (log_table s)"
  define a where "a = first_line s"
  define b where "b = last_line s"
  define da where "da = fill_begin s - lposition (rs ! a)"
  define db where "db = (lposition (rs ! b) + lsize (rs ! b)) - fill_end s"
  have er: "\<not> fill_erase s" using assms(1) by (simp add: can_fill_def)
  from do_fill_runs [OF assms(2) er] obtain s3 r u where
    s3: "dest s3 = dest s" "fill_settings s3 = fill_settings (s\<lparr>end_position := fill_end s\<rparr>)" and
    run: "ret = STOP_SIGNAL_RETURN_CODE \<and> t = s3 \<or>
      fill_lines hw n status msk a da b db [a..<b + 1] s3 = Some (r, u) \<and> ret = r \<and>
        (if r \<noteq> 0 then t = u else dest t = dest u \<and> fill_settings t = fill_settings u)"
    unfolding rs_def a_def b_def da_def db_def by blast
  note p3 = fill_settings_end [OF s3(2)]
  have m3: "fill_mark s3 = fill_mark s" by (rule fill_mark_more) (rule p3(7))
  have eq: "sector_same s3 v x = sector_same s v x" "sector_zero s3 v x = sector_zero s v x" for v x
    using p3 s3(1) by (simp_all add: sector_same_def sector_zero_def)
  note bounds = fill_part_bounds [OF assms(1), folded rs_def a_def b_def, folded da_def db_def]
  have Z: "(\<exists>i\<in>set [a..<b + 1]. to_fill status msk (rs ! i) \<and> in_part rs a da b db i x) = fills status msk s x" for x
    by (simp only: fills_def Let_def rs_def a_def b_def da_def db_def)
  from run show ?thesis
  proof
    assume "ret = STOP_SIGNAL_RETURN_CODE \<and> t = s3"
    then show ?thesis using s3(1) by (simp add: sector_same_def STOP_SIGNAL_RETURN_CODE_def)
  next
    assume f: "fill_lines hw n status msk a da b db [a..<b + 1] s3 = Some (r, u) \<and> ret = r \<and>
        (if r \<noteq> 0 then t = u else dest t = dest u \<and> fill_settings t = fill_settings u)"
    then have du: "dest t = dest u" by (auto split: if_splits)
    have "lines (log_table s3) = rs" "\<forall>i\<in>set [a..<b + 1]. 0 < lsize (rs ! i) - part_cut a da b db i"
      using p3(6) bounds(1) by (auto simp: rs_def)
    moreover have "0 < cluster_size s3" "0 < sector_size s3" "0 < output_size s3" using assms(1) p3 by (simp_all add: can_fill_def)
    ultimately have l: "filled hw (\<lambda>x. fills status msk s x) s3 r u"
      "honest_target hw \<and> r = 0 \<and> \<not> fill_mark s3 \<and>
        (\<forall>i\<in>set [a..<b + 1]. part_start rs a da i + (lsize (rs ! i) - part_cut a da b db i)
          \<le> min (end_position s3) (lposition (rs ! i) + lsize (rs ! i))) \<longrightarrow>
        (\<forall>x. fills status msk s x \<longrightarrow> sector_zero s3 u x)"
      using fill_lines_filled [of hw n status msk a da b db "[a..<b + 1]" s3 r u rs] f unfolding Z by blast+
    have "sector_same s t x" if "\<not> fills status msk s x" for x
      using l(1) that du unfolding filled_def eq by (simp add: sector_same_def)
    moreover have "sector_zero s t x" if h: "honest_target hw" "ret = 0" "\<not> fill_mark s"
      "a \<noteq> b \<or> lposition (rs ! b) + lsize (rs ! b) = fill_end s" "fills status msk s x" for x
    proof -
      have "\<forall>i\<in>set [a..<b + 1]. part_start rs a da i + (lsize (rs ! i) - part_cut a da b db i)
          \<le> min (end_position s3) (lposition (rs ! i) + lsize (rs ! i))"
        using bounds(4,6) h(4) p3(5) by simp
      then have "sector_zero s u x" using l(2) h f m3 unfolding eq by simp
      then show ?thesis using du by (simp add: sector_zero_def)
    qed
    ultimately show ?thesis unfolding a_def b_def rs_def by blast
  qed
qed

text \<open>Nothing but the end of the range is set; a failed write may leave the sector size changed.\<close>

lemma do_fill_places:
  assumes "can_fill e s" "do_fill hw n confirmed target_bytes status msk s = Some (ret, t)"
  shows "fill_settings (t\<lparr>sector_size := sector_size s\<rparr>) = fill_settings (s\<lparr>end_position := fill_end s\<rparr>)"
proof -
  let ?rs = "lines (log_table s)" and ?a = "first_line s" and ?b = "last_line s"
  let ?da = "fill_begin s - lposition (?rs ! ?a)" and ?db = "(lposition (?rs ! ?b) + lsize (?rs ! ?b)) - fill_end s"
  have er: "\<not> fill_erase s" using assms(1) by (simp add: can_fill_def)
  from do_fill_runs [OF assms(2) er] obtain s3 r u where
    s3: "fill_settings s3 = fill_settings (s\<lparr>end_position := fill_end s\<rparr>)" and
    run: "t = s3 \<or> fill_lines hw n status msk ?a ?da ?b ?db [?a..<?b + 1] s3 = Some (r, u) \<and>
      (if r \<noteq> 0 then t = u else dest t = dest u \<and> fill_settings t = fill_settings u)"
    by blast
  note p3 = fill_settings_end [OF s3]
  show ?thesis
  proof (cases "t = s3")
    case True
    then show ?thesis using s3 p3(3) by (simp add: fill_settings_def)
  next
    case False
    then have f: "fill_lines hw n status msk ?a ?da ?b ?db [?a..<?b + 1] s3 = Some (r, u)"
      "if r \<noteq> 0 then t = u else dest t = dest u \<and> fill_settings t = fill_settings u" using run by simp_all
    have "fill_settings (u\<lparr>sector_size := sector_size s3\<rparr>) = fill_settings s3"
      using fill_lines_filled [OF f(1) refl] fill_part_bounds(1) [OF assms(1)] assms(1) p3 by (simp add: filled_def can_fill_def)
    moreover have "fill_settings (t\<lparr>sector_size := sector_size s3\<rparr>) = fill_settings (u\<lparr>sector_size := sector_size s3\<rparr>)"
      using f(2) by (auto simp: fill_settings_def split: if_splits)
    ultimately show ?thesis using s3 p3(3) by simp
  qed
qed

lemma fill_spares_rule:
  assumes "can_fill e s" "do_fill hw n confirmed target_bytes status msk s = Some (ret, t)"
    and "status_at (lines (log_table s)) x = Some st \<and> st AND msk = status AND msk \<or> x < fill_begin s"
  shows "sector_same s t x"
proof -
  have "\<not> fills status msk s x"
  proof
    assume "fills status msk s x"
    then obtain i where i: "i \<in> set [first_line s..<last_line s + 1]" "to_fill status msk (lines (log_table s) ! i)"
      "in_part (lines (log_table s)) (first_line s) (fill_begin s - lposition (lines (log_table s) ! first_line s)) (last_line s)
        ((lposition (lines (log_table s) ! last_line s) + lsize (lines (log_table s) ! last_line s)) - fill_end s) i x"
      unfolding fills_def Let_def by blast
    have c: "covers (lines (log_table s) ! i) x" "fill_begin s \<le> x" using fill_part_bounds(3,5) [OF assms(1) i(1)] i(3) by simp_all
    have "i < total_lines (log_table s)" using i(1) fill_plan(1,2) [OF assms(1)] by auto
    moreover have "tiles 0 (lines (log_table s)) e" using assms(1) by (simp add: can_fill_def)
    ultimately have "status_at (lines (log_table s)) x = Some (lstatus (lines (log_table s) ! i))"
      using status_at_nth c(1) by blast
    then show False using assms(3) c(2) i(2) by (simp add: to_fill_def)
  qed
  then show ?thesis using do_fill_effect [OF assms(1,2)] by simp
qed

text \<open>
  C14: a fill never touches recovered data: whatever the devices answer and wherever it is stopped, every
  byte of the target in a sector whose line has the status to be spared, or that lies before the range, stays as it is.
\<close>

theorem fill_spares_finished:
  assumes "can_fill e s" "do_fill hw n confirmed target_bytes status msk s = Some (ret, t)"
    and "status_at (lines (log_table s)) x = Some st \<and> st AND msk = status AND msk \<or> x < fill_begin s"
  shows "sector_same s t x"
  using assms by (rule fill_spares_rule)

lemma fills_range:
  assumes "can_fill e s" "status_at (lines (log_table s)) x = Some st" "st AND msk \<noteq> status AND msk" "fill_begin s \<le> x" "x < fill_end s"
  shows "fills status msk s x"
proof -
  define rs where "rs = lines (log_table s)"
  note p = fill_plan [OF assms(1), folded rs_def]
  have t: "tiles 0 rs e" "0 \<le> fill_begin s" "fill_end s \<le> e" using assms(1) by (simp_all add: can_fill_def rs_def)
  define i where "i = nat (find_block x (log_table s))"
  have i: "i < length rs" "covers (rs ! i) x"
    using find_block_line [OF t(1) [unfolded rs_def], of x] t assms(4,5) by (simp_all add: i_def rs_def)
  have "first_line s \<le> i" by (rule covers_le [OF t(1) _ i(1) p(3) i(2) assms(4)]) (use p(1,2) in simp)
  moreover have "i \<le> last_line s" by (rule covers_le [OF t(1) i(1) p(2) i(2) p(4)]) (use assms(5) in simp)
  moreover have "to_fill status msk (rs ! i)" using status_at_nth [OF t(1) i] assms(2,3) by (simp add: to_fill_def rs_def)
  moreover have "in_part rs (first_line s) (fill_begin s - lposition (rs ! first_line s)) (last_line s)
      ((lposition (rs ! last_line s) + lsize (rs ! last_line s)) - fill_end s) i x"
    using i(2) assms(4,5) by (auto simp: in_part_def part_start_def part_cut_def covers_def)
  ultimately show ?thesis unfolding fills_def Let_def rs_def [symmetric] by (intro bexI [of _ i]) auto
qed

text \<open>
  C15: a fill with zeros that returns 0 on a target that does what it reports has filled every sector of
  its range whose line has another status, and no other sector, when the range does not lie within one line or ends
  with that line.
\<close>

theorem fill_zeroes_rest:
  assumes "can_fill e s" "do_fill hw n confirmed target_bytes status msk s = Some (0, t)"
    and "honest_target hw" "\<not> fill_mark s"
    and "first_line s \<noteq> last_line s \<or>
      lposition (lines (log_table s) ! last_line s) + lsize (lines (log_table s) ! last_line s) = fill_end s"
    and "status_at (lines (log_table s)) x = Some st"
  shows "if fill_begin s \<le> x \<and> x < fill_end s \<and> st AND msk \<noteq> status AND msk then sector_zero s t x else sector_same s t x"
proof (cases "fill_begin s \<le> x \<and> x < fill_end s \<and> st AND msk \<noteq> status AND msk")
  case True
  then have "fills status msk s x" using fills_range [OF assms(1,6)] by simp
  then show ?thesis using True do_fill_effect [OF assms(1,2)] assms(3-5) by simp
next
  case False
  have "\<not> fills status msk s x"
  proof
    assume "fills status msk s x"
    then obtain i where i: "i \<in> set [first_line s..<last_line s + 1]" "to_fill status msk (lines (log_table s) ! i)"
      "in_part (lines (log_table s)) (first_line s) (fill_begin s - lposition (lines (log_table s) ! first_line s)) (last_line s)
        ((lposition (lines (log_table s) ! last_line s) + lsize (lines (log_table s) ! last_line s)) - fill_end s) i x"
      unfolding fills_def Let_def by blast
    note b = fill_part_bounds [OF assms(1) i(1)]
    have c: "covers (lines (log_table s) ! i) x" "fill_begin s \<le> x" using b(3,5) i(3) by simp_all
    have "x < fill_end s" using b(6) [OF assms(5)] i(3) unfolding in_part_def by linarith
    moreover have "i < total_lines (log_table s)" using i(1) fill_plan(1,2) [OF assms(1)] by auto
    moreover have "tiles 0 (lines (log_table s)) e" using assms(1) by (simp add: can_fill_def)
    ultimately show False using False status_at_nth c assms(6) i(2) by (simp add: to_fill_def)
  qed
  then have "sector_same s t x" using do_fill_effect [OF assms(1,2)] by blast
  then show ?thesis unfolding if_not_P [OF False] .
qed

text \<open>A fill returns: with fuel for the sectors of the drive both loops end.\<close>

lemma fill_returns:
  assumes "can_fill e s" "e \<le> int n"
  shows "do_fill hw n confirmed target_bytes status msk s \<noteq> None"
proof -
  define s1 where "s1 = ticked s"
  define s2 where "s2 = fill_range s1"
  define s2' where "s2' = s2\<lparr>current_position := start_position s2, start_position := input_offset s2, current_status := FILLING\<rparr>"
  define s3 where "s3 = poll_stop hw (update_display hw 0 s2')"
  have e: "start_position s2 = fill_begin s" "end_position s2 = fill_end s" "log_table s2 = log_table s"
    by (simp_all add: s2_def s1_def fill_begin_def fill_end_def fill_range_def ticked_def Let_def)
  have er: "\<not> fill_erase s1" using assms(1) by (simp add: s1_def ticked_def can_fill_def)
  have "keeps s2' s3" unfolding s3_def by (rule keeps_poll [OF keeps_update_display])
  then have "fill_settings s3 = fill_settings s2'" by (intro fill_settings_frame) (simp add: keeps_def)
  also have "fill_settings s2' = fill_settings (s\<lparr>end_position := fill_end s\<rparr>)"
    by (simp add: s2'_def) (simp add: s2_def s1_def fill_end_def fill_range_def ticked_def fill_settings_def Let_def)
  finally have k: "fill_settings s3 = fill_settings (s\<lparr>end_position := fill_end s\<rparr>)" .
  note p3 = fill_settings_end [OF k]
  note b = fill_part_bounds(1,2) [OF assms(1)]
  let ?rs = "lines (log_table s)" and ?a = "first_line s" and ?b = "last_line s"
  have "fill_lines hw n status msk ?a (fill_begin s - lposition (?rs ! ?a)) ?b ((lposition (?rs ! ?b) + lsize (?rs ! ?b)) - fill_end s)
      [?a..<?b + 1] s3 \<noteq> None"
  proof (rule fill_lines_returns)
    show "lines (log_table s3) = ?rs" using p3(6) by simp
    show "\<forall>i\<in>set [?a..<?b + 1]. 0 < lsize (?rs ! i) - part_cut ?a (fill_begin s - lposition (?rs ! ?a)) ?b
        ((lposition (?rs ! ?b) + lsize (?rs ! ?b)) - fill_end s) i \<and>
      lsize (?rs ! i) - part_cut ?a (fill_begin s - lposition (?rs ! ?a)) ?b
        ((lposition (?rs ! ?b) + lsize (?rs ! ?b)) - fill_end s) i \<le> int n"
      using b assms(2) by (meson order_trans)
  qed (use assms(1) p3 in \<open>simp_all add: can_fill_def\<close>)
  then show ?thesis
    unfolding do_fill_def get_elapsed_usec_def Let_def prod.case s1_def [symmetric] if_not_P [OF er] s2_def [symmetric]
      s2'_def [symmetric] s3_def [symmetric]
    unfolding e first_line_def last_line_def by (auto split: option.split)
qed

text \<open>
  C30: a range that lies within one line is not kept: the end of the range is not looked at when the line in which
  it begins is the one in which it ends, so the fill goes on behind it, at least to the end of the first cluster.
\<close>

theorem fill_passes_end:
  assumes "can_fill e s" "do_fill hw n confirmed target_bytes status msk s = Some (0, t)"
    and "honest_target hw" "\<not> fill_mark s" "first_line s = last_line s"
    and "to_fill status msk (lines (log_table s) ! first_line s)"
    and "fill_end s < lposition (lines (log_table s) ! first_line s) + lsize (lines (log_table s) ! first_line s)"
    and "fill_end s < fill_begin s + cluster_size s"
  shows "sector_zero s t (fill_end s)"
proof -
  define r where "r = lines (log_table s) ! first_line s"
  let ?da = "fill_begin s - lposition r" and ?db = "(lposition r + lsize r) - fill_end s"
  have er: "\<not> fill_erase s" using assms(1) by (simp add: can_fill_def)
  from do_fill_runs [OF assms(2) er] obtain s3 u where
    s3: "dest s3 = dest s" "fill_settings s3 = fill_settings (s\<lparr>end_position := fill_end s\<rparr>)" and
    run: "fill_lines hw n status msk (first_line s) ?da (first_line s) ?db [first_line s..<first_line s + 1] s3 = Some (0, u)" "dest t = dest u"
    unfolding assms(5) [symmetric] r_def [symmetric] by (auto simp: STOP_SIGNAL_RETURN_CODE_def)
  note p3 = fill_settings_end [OF s3(2)]
  have m3: "fill_mark s3 = fill_mark s" by (rule fill_mark_more) (rule p3(7))
  have r3: "lines (log_table s3) ! first_line s = r" using p3(6) by (simp add: r_def)
  have c: "covers r (fill_begin s)" using fill_plan(3) [OF assms(1)] by (simp add: r_def)
  have "fill_lines hw n status msk (first_line s) ?da (first_line s) ?db [first_line s] s3 =
      (case fill_chunks hw msk r n (fill_begin s) (lsize r - ?da) s3 of None \<Rightarrow> None
        | Some (ret, s) \<Rightarrow> if ret \<noteq> 0 then Some (ret, s) else Some (0, s))"
    using assms(6) by (simp add: fill_lines_Cons r3 Let_def part_start_def part_cut_def) (simp add: r_def split: option.split)
  then have ch: "fill_chunks hw msk r n (fill_begin s) (lsize r - ?da) s3 = Some (0, u)"
    using run(1) by (auto split: option.splits if_splits)
  have "sector_zero s3 u (fill_end s)"
    by (rule fill_chunks_first [OF ch])
      (use assms(1,3,4,7,8) c p3 m3 in \<open>simp_all add: can_fill_def covers_def r_def\<close>)
  then show ?thesis using run(2) p3(1,2) by (simp add: sector_zero_def)
qed

section \<open>Examples\<close>

definition demo_fill_env :: "int \<Rightarrow> fill_env" where
  "demo_fill_env n = phase_env.extend
     (clone_env.extend (demo_clone_env demo_rows 100)
       (phase_env.fields 64 True True True True True True False True False 0 False 0 0 0 0 0))
     (fill_env.fields False False 0 n)"

lemmas demo_fill_defs = demo_fill_env_def phase_env.extend_def clone_env.extend_def phase_env.fields_def fill_env.fields_def demo_clone_defs

lemma demo_fill_sel:
  "log_table (demo_fill_env n) = demo_table demo_rows" "cluster_size (demo_fill_env n) = 64" "sector_size (demo_fill_env n) = 4"
  "output_size (demo_fill_env n) = 4" "\<not> fill_erase (demo_fill_env n)" "\<not> fill_mark (demo_fill_env n)"
  "fill_begin (demo_fill_env n) = 0" "fill_end (demo_fill_env n) = (if n < 0 then 100 else n)"
  by (simp_all add: demo_fill_defs output_size_def fill_begin_def fill_end_def fill_range_def FILLING_def NONTRIED_def demo_rows_def Let_def)

lemma demo_can_fill: "n \<le> 100 \<Longrightarrow> n \<noteq> 0 \<Longrightarrow> can_fill 100 (demo_fill_env n)"
  by (simp add: can_fill_def demo_fill_sel) (simp add: demo_rows_def)

text \<open>Devices that do what they are asked, and a user that does not stop the program.\<close>

definition willing :: "hardware \<Rightarrow> 'a fill_env_scheme \<Rightarrow> bool" where
  "willing hw s \<longleftrightarrow> (\<forall>n. \<not> stop_asked hw n) \<and> (\<forall>t p out. write_target hw t p out = (int (length out), length out)) \<and>
     (\<forall>t p. seek_target hw t p \<noteq> -1) \<and> \<not> stop_signal s \<and> \<not> enable_scsi_write s \<and> output_sector_size_adjustment s = 0 \<and>
     0 < sector_size s \<and> 0 < cluster_size s"

definition open_fields :: "'a clone_env_scheme \<Rightarrow> _" where
  "open_fields s = (stop_signal s, enable_scsi_write s, output_sector_size_adjustment s, sector_size s, cluster_size s)"

lemma willing_fields: "open_fields t = open_fields s \<Longrightarrow> willing hw t = willing hw s"
  by (simp add: willing_def open_fields_def)

lemma display_open: "open_fields (update_display hw ms s) = open_fields s"
  by (simp add: open_fields_def update_display_def get_elapsed_usec_def ticked_def note_rate_def Let_def)

lemma poll_open: "(\<forall>n. \<not> stop_asked hw n) \<Longrightarrow> open_fields (poll_stop hw s) = open_fields s"
  by (simp add: open_fields_def poll_stop_def ticked_def)

lemma driver_open: "open_fields (driver_give hw pos sz s) = open_fields s"
  by (simp add: open_fields_def driver_give_def ticked_def Let_def split: prod.split)

lemma willing_write:
  assumes "willing hw s" "length (buffer s) = nat (sz * sector_size s)" "0 \<le> sz" "write_chunk hw pos sz s = (ret, t)"
  shows "ret = 0 \<and> open_fields t = open_fields s"
proof -
  define s1 where "s1 = ticked (ticked s\<lparr>dest := store_at (write_position pos s * sector_size s) (buffer s) (dest s)\<rparr>)"
  have l: "int (length (buffer s)) = sz * sector_size s" using assms(1-3) by (simp add: willing_def)
  have "put_bytes hw (write_position pos s) sz s = (0, s1)"
    using assms(1) l by (simp add: put_bytes_def willing_def ticked_def Let_def s1_def)
  then have "ret = 0" "t = driver_give hw (write_position pos s) sz s1"
    using assms(1,4) by (simp_all add: write_chunk_def willing_def Let_def)
  moreover have "open_fields s1 = open_fields s" by (simp add: s1_def open_fields_def ticked_def)
  ultimately show ?thesis by (simp add: driver_open)
qed

lemma willing_chunks:
  assumes "willing hw s" "fill_chunks hw msk r n pos sz s = Some (ret, t)" "0 < sz"
  shows "ret = 0 \<and> willing hw t"
  using assms
proof (induction n arbitrary: pos sz s)
  case (Suc n)
  define s1 where "s1 = fill_look hw pos s"
  have "open_fields (s\<lparr>current_position := pos, current_status := FILLING\<rparr>) = open_fields s" by (simp add: open_fields_def)
  then have "open_fields s1 = open_fields s"
    using Suc.prems(1) by (simp add: s1_def fill_look_def poll_open display_open willing_def)
  with Suc.prems(1) have w1: "willing hw s1" using willing_fields by blast
  then have st: "\<not> stop_signal s1" by (simp add: willing_def)
  define w where "w = (if sz \<le> cluster_size s1 then sz else cluster_size s1)"
  have w: "0 \<le> w" using Suc.prems(3) w1 by (simp add: w_def willing_def)
  obtain r2 s2 where s2: "fill_write hw msk (lstatus r) pos w s1 = (r2, s2)" by fastforce
  let ?s1 = "s1\<lparr>buffer := fill_data msk (lstatus r) pos w s1\<rparr>"
  have o: "open_fields ?s1 = open_fields s1" by (simp add: open_fields_def)
  with w1 have "willing hw ?s1" using willing_fields by blast
  from willing_write [OF this _ w s2 [unfolded fill_write_def]] have r2: "r2 = 0" "open_fields s2 = open_fields s1"
    using o by simp_all
  define s3 where "s3 = s2\<lparr>total_filled := total_filled s2 + w, logfile_changed := True\<rparr>"
  have o3: "open_fields s3 = open_fields s1" using r2(2) by (simp add: s3_def open_fields_def)
  with w1 have w3: "willing hw s3" using willing_fields by blast
  have c: "cluster_size s3 = cluster_size s1" using o3 by (simp add: open_fields_def)
  have nr: "\<not> r2 \<noteq> 0" using r2(1) by simp
  have "(if pos > lposition r + lsize r \<or> pos > end_position s1 then Some (0, s1)
      else if sz \<le> cluster_size s1 then Some (0, s3)
      else fill_chunks hw msk r n (pos + cluster_size s3) (sz - cluster_size s3) s3) = Some (ret, t)"
    using Suc.prems(2) unfolding fill_chunks_Suc Let_def s1_def [symmetric] if_not_P [OF st] w_def [symmetric] s2 prod.case
      s3_def [symmetric] if_not_P [OF nr] .
  then have "ret = 0 \<and> t = s1 \<or> ret = 0 \<and> t = s3 \<or>
      fill_chunks hw msk r n (pos + cluster_size s3) (sz - cluster_size s3) s3 = Some (ret, t) \<and> \<not> sz \<le> cluster_size s1"
    by (cases "pos > lposition r + lsize r \<or> pos > end_position s1"; cases "sz \<le> cluster_size s1"; simp)
  then show ?case
  proof (elim disjE)
    assume f: "fill_chunks hw msk r n (pos + cluster_size s3) (sz - cluster_size s3) s3 = Some (ret, t) \<and> \<not> sz \<le> cluster_size s1"
    show ?thesis by (rule Suc.IH [OF w3 conjunct1 [OF f]]) (use f c in simp)
  qed (use w1 w3 in simp_all)
qed simp

lemma willing_lines:
  assumes "willing hw s" "fill_lines hw n status msk a da b db js s = Some (ret, t)" "lines (log_table s) = rs"
    and "\<forall>i\<in>set js. 0 < lsize (rs ! i) - part_cut a da b db i" "0 < output_size s"
  shows "ret = 0"
  using assms
proof (induction js arbitrary: s)
  case (Cons i js)
  let ?p = "part_start rs a da i" and ?z = "lsize (rs ! i) - part_cut a da b db i"
  show ?case
  proof (cases "to_fill status msk (rs ! i)")
    case False
    with Cons show ?thesis by (simp add: fill_lines_Cons Let_def)
  next
    case True
    obtain r1 s1 where c: "fill_chunks hw msk (rs ! i) n ?p ?z s = Some (r1, s1)"
      using Cons.prems(2,3) True by (auto simp: fill_lines_Cons Let_def split: option.splits)
    have z: "0 < ?z" using Cons.prems(4) by simp
    note w = willing_chunks [OF Cons.prems(1) c z]
    have "fill_settings s1 = fill_settings s"
      using fill_chunks_filled [OF c z] Cons.prems(1,5) w by (simp add: filled_def willing_def)
    note p = fill_settings_places [OF this]
    have "fill_lines hw n status msk a da b db js s1 = Some (ret, t)"
      using Cons.prems(2,3) True c w by (simp add: fill_lines_Cons Let_def)
    from Cons.IH [OF conjunct2 [OF w] this] show ?thesis using Cons.prems(3-5) p by simp
  qed
qed simp

lemma willing_fill:
  assumes "willing hw s" "can_fill e s" "e \<le> int n"
  shows "\<exists>t. do_fill hw n confirmed target_bytes status msk s = Some (0, t)"
proof -
  obtain ret t where d: "do_fill hw n confirmed target_bytes status msk s = Some (ret, t)"
    using fill_returns [OF assms(2,3), of hw confirmed target_bytes status msk] by fastforce
  let ?rs = "lines (log_table s)" and ?a = "first_line s" and ?b = "last_line s"
  let ?da = "fill_begin s - lposition (?rs ! ?a)" and ?db = "(lposition (?rs ! ?b) + lsize (?rs ! ?b)) - fill_end s"
  define s2 where "s2 = fill_range (ticked s)"
  define s2' where "s2' = s2\<lparr>current_position := start_position s2, start_position := input_offset s2, current_status := FILLING\<rparr>"
  define s3 where "s3 = poll_stop hw (update_display hw 0 s2')"
  have e: "start_position s2 = fill_begin s" "end_position s2 = fill_end s" "log_table s2 = log_table s"
    by (simp_all add: s2_def fill_begin_def fill_end_def fill_range_def ticked_def Let_def)
  have er: "\<not> fill_erase (ticked s)" using assms(2) by (simp add: ticked_def can_fill_def)
  have "open_fields s2' = open_fields s" by (simp add: s2'_def open_fields_def) (simp add: s2_def fill_range_def ticked_def Let_def)
  then have "open_fields s3 = open_fields s" using assms(1) by (simp add: s3_def poll_open display_open willing_def)
  with assms(1) have w3: "willing hw s3" using willing_fields by blast
  then have st: "\<not> stop_signal s3" by (simp add: willing_def)
  have "keeps s2' s3" unfolding s3_def by (rule keeps_poll [OF keeps_update_display])
  then have "fill_settings s3 = fill_settings s2'" by (intro fill_settings_frame) (simp add: keeps_def)
  also have "fill_settings s2' = fill_settings (s\<lparr>end_position := fill_end s\<rparr>)"
    by (simp add: s2'_def) (simp add: s2_def fill_end_def fill_range_def ticked_def fill_settings_def Let_def)
  finally have k: "fill_settings s3 = fill_settings (s\<lparr>end_position := fill_end s\<rparr>)" .
  note p3 = fill_settings_end [OF k]
  have "(case fill_lines hw n status msk ?a ?da ?b ?db [?a..<?b + 1] s3 of None \<Rightarrow> None
        | Some (r, u) \<Rightarrow> if r \<noteq> 0 then Some (r, u)
            else Some (0, update_display hw 0 (u\<lparr>current_status := FINISHED, logfile_changed := True\<rparr>))) = Some (ret, t)"
    using d unfolding do_fill_def get_elapsed_usec_def Let_def prod.case if_not_P [OF er] s2_def [symmetric]
      s2'_def [symmetric] s3_def [symmetric] if_not_P [OF st]
    unfolding e first_line_def last_line_def .
  then obtain r u where ru: "fill_lines hw n status msk ?a ?da ?b ?db [?a..<?b + 1] s3 = Some (r, u)" "r \<noteq> 0 \<longrightarrow> ret = r" "r = 0 \<longrightarrow> ret = 0"
    by (auto split: option.splits if_splits)
  have "r = 0"
    by (rule willing_lines [OF w3 ru(1)])
      (use p3 fill_part_bounds(1) [OF assms(2)] assms(2) in \<open>auto simp: can_fill_def simp del: upt_Suc\<close>)
  with ru d show ?thesis by auto
qed

lemma demo_willing: "willing demo_hw (demo_fill_env n)"
  by (simp add: willing_def demo_fill_sel) (simp add: demo_fill_defs demo_hw_def)

lemma demo_fill_runs: "n \<le> 100 \<Longrightarrow> n \<noteq> 0 \<Longrightarrow> \<exists>t. do_fill demo_hw 100 False 0 FINISHED STATUS_MASK (demo_fill_env n) = Some (0, t)"
  by (rule willing_fill [OF demo_willing demo_can_fill]) simp_all

lemma demo_fill_status:
  "status_at (lines (log_table (demo_fill_env n))) 5 = Some FINISHED" "status_at (lines (log_table (demo_fill_env n))) 70 = Some NONTRIED"
  by (simp_all add: demo_fill_sel) (simp_all add: demo_rows_def covers_def)

lemma fill_spares_finished_witness:
  "\<exists>t. do_fill demo_hw 100 False 0 FINISHED STATUS_MASK (demo_fill_env (-1)) = Some (0, t) \<and> sector_same (demo_fill_env (-1)) t 5"
proof -
  obtain t where t: "do_fill demo_hw 100 False 0 FINISHED STATUS_MASK (demo_fill_env (-1)) = Some (0, t)" using demo_fill_runs [of "-1"] by auto
  have "can_fill 100 (demo_fill_env (-1))" by (rule demo_can_fill) simp_all
  from fill_spares_finished [OF this t, of 5 FINISHED] t show ?thesis using demo_fill_status(1) by auto
qed

lemma demo_lines: "last_line (demo_fill_env (-1)) = 1" "first_line (demo_fill_env (-1)) = 0"
proof -
  have s: "spaced 0 (lines (demo_table demo_rows))" "total_lines (demo_table demo_rows) = 2" by (simp_all add: demo_rows_def)
  have "covers (lines (demo_table demo_rows) ! 1) 99" "covers (lines (demo_table demo_rows) ! 0) 0"
    by (simp_all add: demo_rows_def covers_def)
  moreover have "demo_rows \<noteq> []" by (simp add: demo_rows_def)
  ultimately have "find_block 99 (demo_table demo_rows) = 1" "find_block 0 (demo_table demo_rows) = 0"
    using find_block_hit [OF s(1), of 1 99] find_block_hit [OF s(1), of 0 0] s(2) by simp_all
  then show "last_line (demo_fill_env (-1)) = 1" "first_line (demo_fill_env (-1)) = 0"
    by (simp_all add: last_line_def first_line_def demo_fill_sel)
qed

lemma fill_zeroes_rest_witness:
  "\<exists>t. do_fill demo_hw 100 False 0 FINISHED STATUS_MASK (demo_fill_env (-1)) = Some (0, t) \<and> sector_zero (demo_fill_env (-1)) t 70"
proof -
  obtain t where t: "do_fill demo_hw 100 False 0 FINISHED STATUS_MASK (demo_fill_env (-1)) = Some (0, t)" using demo_fill_runs [of "-1"] by auto
  have c: "can_fill 100 (demo_fill_env (-1))" by (rule demo_can_fill) simp_all
  have "first_line (demo_fill_env (-1)) \<noteq> last_line (demo_fill_env (-1))" by (simp add: demo_lines)
  from fill_zeroes_rest [OF c t demo_honest(2) demo_fill_sel(6) disjI1 [OF this] demo_fill_status(2)] t show ?thesis
    by (auto simp: demo_fill_sel status_consts split: if_splits)
qed

lemma fill_passes_end_witness:
  "let s = (demo_fill_env 10)\<lparr>input_offset := 50\<rparr> in fill_end s = 60 \<and>
    (\<exists>t. do_fill demo_hw 100 False 0 FINISHED STATUS_MASK s = Some (0, t) \<and> sector_zero s t 60)"
proof -
  define s where "s = (demo_fill_env 10)\<lparr>input_offset := 50\<rparr>"
  have sel: "log_table s = demo_table demo_rows" "cluster_size s = 64" "sector_size s = 4" "output_size s = 4" "\<not> fill_erase s"
    "\<not> fill_mark s" "fill_begin s = 50" "fill_end s = 60"
    by (simp_all add: s_def demo_fill_defs output_size_def fill_begin_def fill_end_def fill_range_def FILLING_def NONTRIED_def Let_def)
  have sp: "spaced 0 (lines (demo_table demo_rows))" "total_lines (demo_table demo_rows) = 2" by (simp_all add: demo_rows_def)
  have "covers (lines (demo_table demo_rows) ! 1) 50" "covers (lines (demo_table demo_rows) ! 1) 59"
    by (simp_all add: demo_rows_def covers_def)
  then have ln: "first_line s = 1" "last_line s = 1"
    using find_block_hit [OF sp(1), of 1 50] find_block_hit [OF sp(1), of 1 59] sp(2) by (simp_all add: first_line_def last_line_def sel)
  have c: "can_fill 100 s" by (simp add: can_fill_def sel) (simp add: demo_rows_def)
  have "open_fields s = open_fields (demo_fill_env 10)" by (simp add: s_def open_fields_def)
  then have "willing demo_hw s" using willing_fields demo_willing by blast
  from willing_fill [OF this c] obtain t where t: "do_fill demo_hw 100 False 0 FINISHED STATUS_MASK s = Some (0, t)" by fastforce
  have "to_fill FINISHED STATUS_MASK (lines (log_table s) ! first_line s)"
    "fill_end s < lposition (lines (log_table s) ! first_line s) + lsize (lines (log_table s) ! first_line s)"
    "fill_end s < fill_begin s + cluster_size s"
    by (simp_all add: sel ln to_fill_def) (simp_all add: demo_rows_def status_consts)
  from fill_passes_end [OF c t demo_honest(2) sel(6) _ this] t show ?thesis
    by (auto simp: ln sel s_def [symmetric] Let_def)
qed

end
