(* ===== verification/Pass_Loop.thy ===== *)
theory Pass_Loop
  imports Engine
begin

text \<open>
  The contract of a recovery pass: the loop of \<open>run_pass\<close> relies on what one turn promises.
  \<open>pass_loop\<close> is the promise about what holds between turns and at the end,
  \<open>ending_loop\<close> adds that every turn makes progress.
\<close>

locale pass_loop =
  fixes going :: "'s \<Rightarrow> bool" and turn :: "'s \<Rightarrow> 's outcome option" and fin :: "'s \<Rightarrow> 's"
    and inv :: "'s \<Rightarrow> bool" and result :: "int \<Rightarrow> 's \<Rightarrow> bool"
  assumes turn_next: "inv s \<Longrightarrow> going s \<Longrightarrow> turn s = Some (Next t) \<Longrightarrow> inv t"
    and turn_done: "inv s \<Longrightarrow> going s \<Longrightarrow> turn s = Some (Done t) \<Longrightarrow> result 0 (fin t)"
    and turn_stop: "inv s \<Longrightarrow> going s \<Longrightarrow> turn s = Some (Stop ret t) \<Longrightarrow> result ret t"
    and over: "inv s \<Longrightarrow> \<not> going s \<Longrightarrow> result 0 (fin s)"
begin

lemma returned:
  assumes "inv s" "run_pass going turn fin n s = Some (ret, t)"
  shows "result ret t"
  using assms
proof (induction n arbitrary: s)
  case (Suc n)
  show ?case
  proof (cases "going s")
    case True
    then show ?thesis
      using Suc turn_next [OF Suc.prems(1) True] turn_done [OF Suc.prems(1) True] turn_stop [OF Suc.prems(1) True]
      by (cases "turn s"; cases "the (turn s)") auto
  qed (use over Suc.prems in auto)
qed simp

end

locale ending_loop = pass_loop going turn fin inv result
  for going :: "'s \<Rightarrow> bool" and turn fin inv result +
  fixes left :: "'s \<Rightarrow> nat"
  assumes answers: "inv s \<Longrightarrow> going s \<Longrightarrow> turn s \<noteq> None"
    and progress: "inv s \<Longrightarrow> going s \<Longrightarrow> turn s = Some (Next t) \<Longrightarrow> left t < left s"
begin

lemma returns:
  assumes "inv s" "left s < n"
  shows "\<exists>ret t. run_pass going turn fin n s = Some (ret, t)"
  using assms
proof (induction n arbitrary: s)
  case (Suc n)
  show ?case
  proof (cases "going s")
    case True
    then show ?thesis
      using Suc turn_next [OF Suc.prems(1) True] progress [OF Suc.prems(1) True] answers [OF Suc.prems(1) True]
      by (cases "turn s"; cases "the (turn s)") fastforce+
  qed simp
qed simp

text \<open>More turns than needed change nothing.\<close>

lemma enough:
  assumes "run_pass going turn fin n s = Some res" "n \<le> k"
  shows "run_pass going turn fin k s = Some res"
  using assms
proof (induction n arbitrary: s k)
  case (Suc n)
  then obtain j where "k = Suc j" "n \<le> j" by (cases k) auto
  with Suc show ?case by (auto split: outcome.splits if_splits option.splits)
qed simp

end

end
