(* ===== verification/Under_Way.thy ===== *)
theory Under_Way
  imports Pass_Stages Pass_Loop
begin

text \<open>
  What all passes share: what holds before each of their turns, and how the promise about a turn
  (\<open>turn_fine\<close>) gives the laws of \<open>pass_loop\<close>.
\<close>

definition under_way ::
  "hardware \<Rightarrow> (int \<Rightarrow> 8 word) \<Rightarrow> int \<Rightarrow> int \<Rightarrow> status_word \<Rightarrow> 'a clone_env_scheme \<Rightarrow> 'a clone_env_scheme \<Rightarrow> bool" where
  "under_way hw disk a e new s0 s \<longleftrightarrow> moved disk a e s0 s \<and> calm hw disk s \<and> \<not> finished new \<and>
     (\<exists>d. spaced d (lines (domain_table s)))"

lemma under_way_moved:
  assumes "under_way hw disk a e new s0 s" "moved disk a e s t"
  shows "under_way hw disk a e new s0 t"
proof -
  have "calm hw disk t" using calm_moved [OF assms(2)] assms(1) by (simp add: under_way_def)
  moreover have "domain_table t = domain_table s" using assms(2) by (simp add: moved_def settings_def)
  ultimately show ?thesis using moved_trans [of disk a e s0 s t] assms by (simp add: under_way_def)
qed

lemma under_way_ready: "under_way hw disk a e new s0 s \<Longrightarrow> ready disk a e s"
  by (simp add: under_way_def moved_def)

lemma under_way_stopped: "under_way hw disk a e new s0 s \<Longrightarrow> stopped disk a e s t \<Longrightarrow> stopped disk a e s0 t"
  using moved_stopped by (auto simp: under_way_def)

text \<open>\<open>passed\<close>: with return code 0 another pass can follow, otherwise nothing copied is lost.\<close>

definition passed :: "(int \<Rightarrow> 8 word) \<Rightarrow> int \<Rightarrow> int \<Rightarrow> 'a clone_env_scheme \<Rightarrow> int \<Rightarrow> 'a clone_env_scheme \<Rightarrow> bool" where
  "passed disk a e s0 ret s \<longleftrightarrow> (if ret = 0 then moved disk a e s0 s else stopped disk a e s0 s)"

lemma passed_stopped: "passed disk a e s0 ret s \<Longrightarrow> stopped disk a e s0 s"
  using moved_stopped [OF _ holds_stopped [OF holds_refl [OF moved_ready]]] by (auto simp: passed_def split: if_splits)

lemma under_way_passed: "under_way hw disk a e new s0 s \<Longrightarrow> passed disk a e s0 0 s"
  by (simp add: under_way_def passed_def)

lemma under_way_reset:
  assumes "under_way hw disk a e new s0 s"
  shows "passed disk a e s0 0 (reset_skip s)"
proof -
  have "moved disk a e s0 s" using assms by (simp add: under_way_def)
  from moved_trans [OF this holds_moved [OF reset_skip_holds [OF under_way_ready [OF assms]]]]
  show ?thesis by (simp add: passed_def)
qed

text \<open>The laws of a pass from the promise about one of its turns.\<close>

lemma turn_next_law:
  "under_way hw disk a e new s0 s \<Longrightarrow> turn_fine disk a e g s out \<Longrightarrow> out = Next t \<Longrightarrow> under_way hw disk a e new s0 t"
  using under_way_moved by auto

lemma turn_done_law:
  "under_way hw disk a e new s0 s \<Longrightarrow> turn_fine disk a e g s out \<Longrightarrow> out = Done t \<Longrightarrow> under_way hw disk a e new s0 t"
  using under_way_moved by auto

lemma turn_stop_law:
  "under_way hw disk a e new s0 s \<Longrightarrow> turn_fine disk a e g s out \<Longrightarrow> out = Stop ret t \<Longrightarrow> passed disk a e s0 ret t"
  using under_way_stopped by (auto simp: passed_def)

text \<open>What a pass needs at its start.\<close>

definition pass_ready :: "hardware \<Rightarrow> (int \<Rightarrow> 8 word) \<Rightarrow> int \<Rightarrow> int \<Rightarrow> 'a clone_env_scheme \<Rightarrow> bool" where
  "pass_ready hw disk a e s \<longleftrightarrow> ready disk a e s \<and> calm hw disk s \<and> (\<exists>d. spaced d (lines (domain_table s)))"

lemma pass_ready_under_way:
  "pass_ready hw disk a e s \<Longrightarrow> \<not> finished new \<Longrightarrow> under_way hw disk a e new s s"
  using holds_moved [OF holds_refl [of disk a e s]] by (simp add: pass_ready_def under_way_def)

text \<open>The start of a pass, after the position has been set.\<close>

lemma pass_begin:
  assumes "pass_ready hw disk a e s" "\<not> finished new" "begin_pass hw k skips u = (r, t)"
    and "log_table u = log_table s" "pass_frame u = pass_frame s" "skip_ok u = skip_ok s" "skip_floor u = skip_floor s"
  shows "under_way hw disk a e new s t" "passed disk a e s r t" "current_position t = current_position u"
proof -
  have "ready disk a e s" using assms(1) by (simp add: pass_ready_def)
  then have mu: "moved disk a e s u" by (rule moved_same [OF _ assms(4-7)])
  have h: "holds disk a e u t" by (rule begin_pass_holds [OF moved_ready [OF mu] assms(3)])
  note uw = under_way_moved [OF pass_ready_under_way [OF assms(1,2)] moved_trans [OF mu holds_moved [OF h]]]
  show "under_way hw disk a e new s t" by (rule uw)
  show "passed disk a e s r t" using passed_stopped [OF under_way_passed [OF uw]] uw by (simp add: passed_def under_way_def)
  show "current_position t = current_position u" using h by (simp add: holds_def)
qed

section \<open>A concrete pass\<close>

definition demo_pass_env :: clone_env where
  "demo_pass_env = (demo_clone_env [mk_row 0 100 0] 100)\<lparr>do_domain := False, current_status := PHASE1\<rparr>"

lemma demo_pass_ready: "pass_ready demo_hw demo_disk 0 100 demo_pass_env"
proof -
  have "tiles 0 (lines (log_table demo_pass_env)) 100" "table_ok (log_table demo_pass_env)"
    "lines (domain_table demo_pass_env) = []"
    by (simp_all add: demo_pass_env_def demo_clone_defs demo_table_def mk_row_def table_ok_def)
  moreover have "intact demo_disk demo_pass_env"
    by (auto simp: intact_def demo_pass_env_def demo_clone_defs demo_table_def mk_row_def finished_def covers_def)
  moreover have "skip_ok demo_pass_env \<and> skip_floor demo_pass_env"
    by (simp add: demo_pass_env_def demo_clone_defs skip_ok_def skip_floor_def)
  moreover have "calm demo_hw demo_disk demo_pass_env" using demo_honest
    by (simp add: calm_def sane_def demo_pass_env_def demo_clone_defs output_size_def one_mode_def status_consts)
  ultimately show ?thesis by (simp add: pass_ready_def ready_def safe_def)
qed

lemma demo_pass_bounds: "current_position demo_pass_env = 0" "start_position demo_pass_env = 0" "end_position demo_pass_env = 100"
  by (simp_all add: demo_pass_env_def demo_clone_defs)

lemma demo_start: "0 \<le> start_position demo_pass_env"
  by (simp add: demo_pass_bounds)

end
