(* ===== verification/Trim_Safety.thy ===== *)
theory Trim_Safety
  imports Trim_Passes Under_Way
begin

text \<open>What one chunk and one turn of the loops within a block can lead to.\<close>

section \<open>One chunk\<close>

lemma trim_failure_fine:
  assumes "ready disk a e s" "\<not> finished new" "0 < n"
  shows "(\<exists>major t. trim_failure hw new leading retstat n s = Missed major t \<and> holds disk a e s t) \<or>
    (\<exists>r t. trim_failure hw new leading retstat n s = Broke r t \<and> r \<noteq> 0 \<and> stopped disk a e s t)"
proof -
  define s1 where "s1 = s\<lparr>rate_modifier := rate_modifier s + cdiv (n * sector_size s) (cdiv (cluster_size s) 16 + 1)\<rparr>"
  obtain bad s2 where q: "ncq_stage hw (retstat = 0 \<and> use_fpdma s1) s1 = (bad, s2)" by fastforce
  have h2: "holds disk a e s s2"
    using holds_keeps [OF assms(1)] keeps_trans [OF _ keeps_ncq_stage [OF q], of s] by (simp add: s1_def)
  define m where "m = mark_then (current_position s) n
    (error_status new retstat n s2 OR additional_status retstat 0 s2 OR timing_byte s2)
    (\<lambda>t. (0, if leading then driver_fail hw (current_position s) n t else t)) s2"
  obtain r3 s3 where m': "m = (r3, s3)" by fastforce
  have "served disk a e s2 m"
    unfolding m_def
  proof (rule served_mark_then [OF holds_ready [OF h2] assms(3)])
    fix t assume "holds disk a e s2 t"
    then have t: "ready disk a e t" by (rule holds_ready)
    show "served disk a e t (0, if leading then driver_fail hw (current_position s) n t else t)"
      using served_fail [OF t] holds_served [OF holds_refl [OF t]] by simp
  qed (use error_status_finished [OF assms(2)] in auto)
  then have sv: "served disk a e s (r3, s3)" using served_holds [OF h2] m' by simp
  obtain major s4 where d: "device_stage hw retstat s3 = (major, s4)" by fastforce
  define s5 where "s5 = (if leading \<and> major \<noteq> 0 then s4 else restore_ata (sense s) s4)"
  have eq: "trim_failure hw new leading retstat n s = (if r3 \<noteq> 0 then Broke r3 s3 else Missed major s5)"
    unfolding trim_failure_def Let_def s1_def [symmetric] q prod.case m_def [symmetric] m' d s5_def [symmetric] ..
  show ?thesis
  proof (cases "r3 = 0")
    case True
    then have h3: "holds disk a e s s3" using sv by (simp add: served_def)
    have h4: "holds disk a e s s4"
      by (rule holds_trans [OF h3 holds_keeps [OF holds_ready [OF h3] keeps_device_stage [OF d]]])
    have "holds disk a e s s5"
      using h4 holds_trans [OF h4 holds_keeps [OF holds_ready [OF h4]], of "restore_ata (sense s) s4"]
      by (simp add: s5_def)
    with True eq show ?thesis by simp
  next
    case False
    with sv eq show ?thesis by (simp add: served_def)
  qed
qed

lemma trim_read_cases:
  assumes "ready disk a e s" "calm hw disk s" "\<not> finished new" "0 < n"
  obtains (tried) t where "trim_read hw new leading n s = Tried t" "holds disk a e s t"
  | (missed) major t where "trim_read hw new leading n s = Missed major t" "holds disk a e s t"
  | (broke) r t where "trim_read hw new leading n s = Broke r t" "r \<noteq> 0" "stopped disk a e s t"
proof -
  obtain r t where rd: "read_chunk hw (current_position s) n s = (r, t)" by fastforce
  define u where "u = poll_stop hw t"
  note rh = read_holds [OF assms(1,2) rd, folded u_def]
  have u: "ready disk a e u" "current_position u = current_position s" using rh(1) by (simp_all add: holds_def)
  obtain r2 v where g: "finish_chunk hw n u = (r2, v)" by fastforce
  have eq: "trim_read hw new leading n s =
      (if stop_signal u then Broke STOP_SIGNAL_RETURN_CODE u
       else if read_good r u then if r2 \<noteq> 0 then Broke r2 v else Tried v
       else trim_failure hw new leading r n u)"
    unfolding trim_read_def Let_def rd prod.case u_def [symmetric] g ..
  show thesis
  proof (cases "stop_signal u")
    case True
    with eq show thesis using broke [of STOP_SIGNAL_RETURN_CODE u] holds_stopped [OF rh(1)] by simp
  next
    case ns: False
    show thesis
    proof (cases "read_good r u")
      case True
      have "calm hw disk u" using calm_holds [OF rh(1)] assms(2) by blast
      then have c: "sane u" "honest_target hw" by (simp_all add: calm_def)
      have "has_chunk disk (current_position u) n u" using rh(2) [OF True] u(2) by simp
      from finish_served [OF u(1) c assms(4) this g] have sv: "served disk a e s (r2, v)"
        using served_holds [OF rh(1)] by blast
      with eq True ns show thesis using tried [of v] broke [of r2 v]
        by (cases "r2 = 0") (simp_all add: served_def)
    next
      case False
      with eq ns have f: "trim_read hw new leading n s = trim_failure hw new leading r n u" by simp
      from trim_failure_fine [OF u(1) assms(3,4), of hw leading r] show thesis
        using missed broke holds_trans [OF rh(1)] stopped_holds [OF rh(1)] unfolding f by blast
    qed
  qed
qed

section \<open>The loops within a block\<close>

lemma trim_move_moved: "ready disk a e s \<Longrightarrow> moved disk a e s (trim_move dir s)"
  unfolding trim_move_def by (rule moved_position)

text \<open>The part of a chunk in the domain, whatever its size.\<close>

lemma trim_domain_cases:
  assumes "domain_stage (\<lambda>s. s) n s = (res, t)" "\<not> do_domain s \<or> spaced d (lines (domain_table s))"
  obtains k p where "res = Inr k" "t = s\<lparr>current_position := p\<rparr>" "current_position s \<le> p"
    "k \<le> n \<or> k \<le> cluster_size s" "p = current_position s \<or> p < current_position s + n"
proof (cases "0 < n")
  case False
  then have "res = Inr n" "t = s" using assms(1) by (simp_all add: domain_stage_def)
  with False show thesis using that [of n "current_position s"] by simp
next
  case True
  obtain r u where pd: "process_domain (current_position s) n (domain_status s) STATUS_MASK s = (r, u)" by fastforce
  obtain p where u: "u = s\<lparr>current_position := p\<rparr>" "current_position s \<le> p" "0 \<le> r" "p + r \<le> current_position s + n"
    "r = 0 \<Longrightarrow> u = s"
  proof (cases "do_domain s")
    case True
    then show thesis using process_domain_part_rule [OF True _ \<open>0 < n\<close> pd] assms(2) that by blast
  next
    case False
    then have "r = n" "u = s" using pd by (simp_all add: process_domain_def)
    with True show thesis by (intro that [of "current_position s"]) simp_all
  qed
  show thesis
  proof (cases "r = 0")
    case r: True
    then have "res = Inr 0" "t = s" using assms(1) pd True u(5) by (simp_all add: domain_stage_def Let_def)
    with True show thesis using that [of 0 "current_position s"] by simp
  next
    case False
    define k where "k = domain_size_adjustment (cluster_size u) r u"
    have "res = Inr k" "t = u" using assms(1) True pd u False by (auto simp: domain_stage_def Let_def k_def split: if_splits)
    moreover have "k \<le> n \<or> k \<le> cluster_size s"
      using domain_size_adjustment_bounds_rule [OF k_def] u False by (cases "k = r") auto
    moreover have "p < current_position s + n" using u False by linarith
    ultimately show thesis using that [of k p] u by blast
  qed
qed

lemma fit_block_bound: "fit_block b s \<le> read_size b"
  by (simp add: fit_block_def Let_def)

text \<open>What lies behind a major error gets a status that is not finished.\<close>

lemma major_exit_fine:
  assumes "ready disk a e s" "\<not> finished new" "original_status b AND 0x7f = 0" "major \<noteq> 0" "major_exit dir new major b s = (ret, t)"
  shows "ret \<noteq> 0 \<and> stopped disk a e s t"
proof -
  obtain pos sz where r: "trim_rest dir b (current_position s) = (pos, sz)" by fastforce
  have st: "stopped disk a e u u" if "ready disk a e u" for u by (rule holds_stopped [OF holds_refl [OF that]])
  show ?thesis
  proof (cases "0 < sz")
    case True
    then have m: "mark_then pos sz (new OR original_status b) (\<lambda>s. (major, s)) s = (ret, t)"
      using assms(5) r by (simp add: major_exit_def)
    have "served disk a e s (mark_then pos sz (new OR original_status b) (\<lambda>s. (major, s)) s)"
      by (rule served_mark_then [OF assms(1) True])
        (use assms(2-4) st in \<open>auto simp: finished_or served_def dest: holds_ready\<close>)
    then have "served disk a e s (ret, t)" using m by simp
    moreover have "ret \<noteq> 0" using m assms(4) by (auto simp: mark_then_def split: if_splits prod.splits)
    ultimately show ?thesis using served_stopped by blast
  next
    case False
    with assms(1,4,5) r st show ?thesis by (simp add: major_exit_def)
  qed
qed

lemma trim_lead_cases:
  assumes "ready disk a e s" "calm hw disk s" "\<not> finished new" "original_status b AND 0x7f = 0"
    and "spaced d (lines (domain_table s))" "trim_lead hw new dir (b, s) = out"
  obtains (further) n p t where "out = Next (b\<lparr>read_size := n\<rparr>, t)" "moved disk a e s t"
      "n \<le> read_size b \<or> n \<le> cluster_size s" "current_position t = p + dir * cluster_size s" "current_position s \<le> p"
      "p = current_position s \<or> p < current_position s + read_size b"
  | (failed) n p t where "out = Done (b\<lparr>read_size := n, trim_success := False, forward_error := p, reverse_error := p,
        forward_error_size := n\<rparr>, t)" "moved disk a e s t" "n \<le> read_size b \<or> n \<le> cluster_size s"
  | (ended) ret b' t where "out = Stop ret (b', t)" "ret \<noteq> 0" "stopped disk a e s t"
proof -
  obtain r1 s1 where h: "turn_head hw s = (r1, s1)" by fastforce
  have h1: "holds disk a e s s1" by (rule holds_keeps [OF assms(1) keeps_turn_head [OF h]])
  obtain res s2 where ds: "domain_stage (\<lambda>s. s) (fit_block b s1) s1 = (res, s2)" by fastforce
  have d1: "\<not> do_domain s1 \<or> spaced d (lines (domain_table s1))" and p1: "current_position s1 = current_position s"
    and cl: "cluster_size s1 = cluster_size s"
    using h1 assms(5) by (simp_all add: holds_def settings_def)
  obtain n p where dom: "res = Inr n" "s2 = s1\<lparr>current_position := p\<rparr>" "current_position s \<le> p"
    "n \<le> fit_block b s1 \<or> n \<le> cluster_size s" "p = current_position s \<or> p < current_position s + fit_block b s1"
    using ds d1 unfolding p1 [symmetric] cl [symmetric] by (rule trim_domain_cases)
  have bound: "n \<le> read_size b \<or> n \<le> cluster_size s" "p = current_position s \<or> p < current_position s + read_size b"
    using dom(4,5) fit_block_bound [of b s1] by linarith+
  have m2: "moved disk a e s s2"
    unfolding dom(2) by (rule moved_trans [OF holds_moved [OF h1] moved_position [OF holds_ready [OF h1]]])
  have c2: "calm hw disk s2" using calm_moved [OF m2] assms(2) by blast
  have cl2: "cluster_size s2 = cluster_size s" using m2 by (simp add: moved_def settings_def)
  define b' where "b' = b\<lparr>read_size := n\<rparr>"
  have eq: "out = (if r1 \<noteq> 0 then Stop r1 (b, s1) else
      if n > 0 then
        (case trim_read hw new True n s2 of
           Broke ret s \<Rightarrow> Stop ret (b', s)
         | Tried s \<Rightarrow> Next (b', trim_move dir s)
         | Missed major s \<Rightarrow>
             if major \<noteq> 0 then (let (ret, s) = major_exit dir new major b' s in Stop ret (b', s))
             else Done (b'\<lparr>trim_success := False, forward_error := current_position s,
                            reverse_error := current_position s, forward_error_size := n\<rparr>, s))
      else Next (b', trim_move dir s2))"
    unfolding assms(6) [symmetric] trim_lead_def prod.case Let_def h ds dom(1) b'_def by simp
  have step: "moved disk a e s (trim_move dir t)" "current_position (trim_move dir t) = p + dir * cluster_size s"
    if "moved disk a e s t" "current_position t = p" for t
  proof -
    show "moved disk a e s (trim_move dir t)"
      by (rule moved_trans [OF that(1) trim_move_moved [OF moved_ready [OF that(1)]]])
    have "cluster_size t = cluster_size s" using that(1) by (simp add: moved_def settings_def)
    then show "current_position (trim_move dir t) = p + dir * cluster_size s" using that(2) by (simp add: trim_move_def)
  qed
  consider (early) "r1 \<noteq> 0" | (none) "r1 = 0" "\<not> 0 < n" | (some) "r1 = 0" "0 < n" by blast
  then show thesis
  proof cases
    case early
    then show thesis using eq holds_stopped [OF h1] by (intro ended) auto
  next
    case none
    have "current_position s2 = p" using dom(2) by simp
    with none eq step [OF m2] bound dom(3) show thesis by (intro further [of n]) (simp_all add: b'_def)
  next
    case some
    from moved_ready [OF m2] c2 assms(3) some(2) show thesis
    proof (cases rule: trim_read_cases [where leading = True])
      case (tried t)
      have m: "moved disk a e s t" by (rule moved_trans [OF m2 holds_moved [OF tried(2)]])
      have "current_position t = p" using tried(2) dom(2) by (simp add: holds_def)
      with some eq tried(1) step [OF m] bound dom(3) show thesis by (intro further [of n]) (simp_all add: b'_def)
    next
      case (missed major t)
      have m: "moved disk a e s t" by (rule moved_trans [OF m2 holds_moved [OF missed(2)]])
      show thesis
      proof (cases "major = 0")
        case True
        with some eq missed(1) m bound show thesis by (intro failed [of n]) (simp_all add: b'_def)
      next
        case False
        obtain ret u where x: "major_exit dir new major b' t = (ret, u)" by fastforce
        have "ret \<noteq> 0 \<and> stopped disk a e t u"
          by (rule major_exit_fine [OF moved_ready [OF m] assms(3) _ False x]) (use assms(4) in \<open>simp add: b'_def\<close>)
        with False some eq missed(1) x moved_stopped [OF m] show thesis by (intro ended [of ret b' u]) simp_all
      qed
    next
      case (broke r t)
      with some eq moved_stopped [OF m2] show thesis by (intro ended [of r b' t]) simp_all
    qed
  qed
qed

lemma trim_meet_some:
  assumes "trim_meet dir b s = Some (b', t)"
  obtains (found) m q where "b' = b\<lparr>read_size := m\<rparr>" "t = s\<lparr>current_position := q\<rparr>" "m \<le> read_size b"
    "q = current_position s \<or> (dir \<le> 0 \<and> q < current_position s + forward_error_size b)"
    "q + m \<le> current_position s + read_size b"
proof -
  let ?m = "read_size b - ((current_position s + read_size b) - reverse_error b)" and ?q = "forward_error b + forward_error_size b"
  have same: thesis if "b' = b" "t = s"
    by (rule found [of "read_size b" "current_position s"]) (use that in simp_all)
  show thesis
  proof (cases "0 < dir")
    case True
    show thesis
    proof (cases "current_position s + read_size b > reverse_error b")
      case c: True
      have "b' = b\<lparr>read_size := ?m\<rparr> \<and> t = s"
        using assms True c unfolding trim_meet_def by (auto split: if_splits)
      then show thesis using c by (intro found [of ?m "current_position s"]) simp_all
    next
      case False
      have "b' = b \<and> t = s" using assms True False unfolding trim_meet_def by (auto split: if_splits)
      then show thesis using same by blast
    qed
  next
    case False
    show thesis
    proof (cases "current_position s < ?q")
      case c: True
      have "forward_error b < current_position s \<and> b' = b\<lparr>read_size := read_size b - (?q - current_position s)\<rparr> \<and>
          t = s\<lparr>current_position := ?q\<rparr>"
        using assms False c unfolding trim_meet_def Let_def by (auto split: if_splits)
      then show thesis using c False by (intro found [of "read_size b - (?q - current_position s)" ?q]) simp_all
    next
      case c: False
      have "b' = b \<and> t = s" using assms False c unfolding trim_meet_def Let_def by (auto split: if_splits)
      then show thesis using same by blast
    qed
  qed
qed

lemma trim_follow_cases:
  assumes "ready disk a e s" "calm hw disk s" "\<not> finished new"
    and "spaced d (lines (domain_table s))" "trim_follow hw new dir (b, s) = out"
  obtains (further) n p t where "out = Next (b\<lparr>read_size := n\<rparr>, t)" "moved disk a e s t"
      "n \<le> read_size b \<or> n \<le> cluster_size s" "current_position t = p + dir * cluster_size s"
      "dir \<le> 0 \<Longrightarrow> p = current_position s \<or> p < current_position s + read_size b \<or> p < current_position s + forward_error_size b"
  | (over) b' t where "out = Done (b', t)" "moved disk a e s t" "original_status b' = original_status b"
      "block_start b' = block_start b" "block_end b' = block_end b"
  | (ended) ret b' t where "out = Stop ret (b', t)" "ret \<noteq> 0" "stopped disk a e s t"
proof -
  obtain r1 s1 where h: "turn_head hw s = (r1, s1)" by fastforce
  have h1: "holds disk a e s s1" by (rule holds_keeps [OF assms(1) keeps_turn_head [OF h]])
  have p1: "current_position s1 = current_position s" using h1 by (simp add: holds_def)
  show thesis
  proof (cases "r1 = 0")
    case False
    then have "out = Stop r1 (b, s1)" using assms(5) h by (simp add: trim_follow_def)
    with False show thesis using holds_stopped [OF h1] by (intro ended) auto
  next
    case r1: True
    show thesis
    proof (cases "trim_meet dir b s1")
      case None
      then have "out = Done (b, s1)" using assms(5) h r1 by (simp add: trim_follow_def)
      then show thesis using holds_moved [OF h1] by (intro over) auto
    next
      case (Some x)
      obtain b1 s2 where x: "x = (b1, s2)" by fastforce
      obtain m q where meet: "b1 = b\<lparr>read_size := m\<rparr>" "s2 = s1\<lparr>current_position := q\<rparr>" "m \<le> read_size b"
        "q = current_position s \<or> (dir \<le> 0 \<and> q < current_position s + forward_error_size b)"
        "q + m \<le> current_position s + read_size b"
        using Some unfolding x p1 [symmetric] by (rule trim_meet_some)
      have m2: "moved disk a e s s2"
        unfolding meet(2) by (rule moved_trans [OF holds_moved [OF h1] moved_position [OF holds_ready [OF h1]]])
      obtain res s3 where ds: "domain_stage (\<lambda>s. s) (fit_block b1 s2) s2 = (res, s3)" by fastforce
      have d2: "\<not> do_domain s2 \<or> spaced d (lines (domain_table s2))" and cl: "cluster_size s2 = cluster_size s"
        and p2: "current_position s2 = q"
        using m2 assms(4) meet(2) by (simp_all add: moved_def settings_def)
      obtain n p where dom: "res = Inr n" "s3 = s2\<lparr>current_position := p\<rparr>" "q \<le> p"
        "n \<le> fit_block b1 s2 \<or> n \<le> cluster_size s" "p = q \<or> p < q + fit_block b1 s2"
        using ds d2 unfolding p2 [symmetric] cl [symmetric] by (rule trim_domain_cases)
      have fit: "fit_block b1 s2 \<le> m" using fit_block_bound [of b1 s2] meet(1) by simp
      have bound: "n \<le> read_size b \<or> n \<le> cluster_size s" using dom(4) fit meet(3) by linarith
      have pos: "p = current_position s \<or> p < current_position s + read_size b \<or> p < current_position s + forward_error_size b"
        if "dir \<le> 0" using dom(5) fit meet(4,5) by linarith
      have m3: "moved disk a e s s3"
        unfolding dom(2) by (rule moved_trans [OF m2 moved_position [OF moved_ready [OF m2]]])
      have c3: "calm hw disk s3" using calm_moved [OF m3] assms(2) by blast
      define b' where "b' = b\<lparr>read_size := n\<rparr>"
      have eq: "out = (if n > 0 then
          (case trim_read hw new False n s3 of
             Broke ret s \<Rightarrow> Stop ret (b', s)
           | Tried s \<Rightarrow> Next (b', trim_move dir s)
           | Missed major s \<Rightarrow>
               (let c = b'\<lparr>trim_success := False, major_error := major\<rparr>;
                    c = (if dir > 0 then c\<lparr>forward_error := current_position s\<rparr>
                         else c\<lparr>reverse_error := current_position s\<rparr>)
                in Done (c, s)))
          else Next (b', trim_move dir s3))"
        using r1 ds dom(1)
        unfolding assms(5) [symmetric] trim_follow_def prod.case Let_def h Some x b'_def meet(1) by (simp split: trial.split)
      have step: "moved disk a e s (trim_move dir t)" "current_position (trim_move dir t) = p + dir * cluster_size s"
        if "moved disk a e s t" "current_position t = p" for t
      proof -
        show "moved disk a e s (trim_move dir t)"
          by (rule moved_trans [OF that(1) trim_move_moved [OF moved_ready [OF that(1)]]])
        have "cluster_size t = cluster_size s" using that(1) by (simp add: moved_def settings_def)
        then show "current_position (trim_move dir t) = p + dir * cluster_size s" using that(2) by (simp add: trim_move_def)
      qed
      show thesis
      proof (cases "0 < n")
        case False
        have "current_position s3 = p" using dom(2) by simp
        with False eq step [OF m3] bound pos show thesis by (intro further [of n]) (simp_all add: b'_def)
      next
        case True
        from moved_ready [OF m3] c3 assms(3) True show thesis
        proof (cases rule: trim_read_cases [where leading = False])
          case (tried t)
          have m: "moved disk a e s t" by (rule moved_trans [OF m3 holds_moved [OF tried(2)]])
          have "current_position t = p" using tried(2) dom(2) by (simp add: holds_def)
          with True eq tried(1) step [OF m] bound pos show thesis by (intro further [of n]) (simp_all add: b'_def)
        next
          case (missed major t)
          have m: "moved disk a e s t" by (rule moved_trans [OF m3 holds_moved [OF missed(2)]])
          with True eq missed(1) show thesis by (cases "0 < dir") (auto simp: b'_def Let_def intro!: over)
        next
          case (broke r t)
          with True eq moved_stopped [OF m3] show thesis by (intro ended [of r b' t]) simp_all
        qed
      qed
    qed
  qed
qed

end
