(* ===== verification/Trim_Loops.thy ===== *)
theory Trim_Loops
  imports Trim_Safety
begin

text \<open>
  The loops within a block: their invariant, and the end of those of the forward pass.
\<close>

section \<open>The loops within a block\<close>

text \<open>
  What is kept between the turns: the status put over the rest is not finished and, when \<open>tight\<close>,
  no chunk is longer than a step.
\<close>

definition snug :: "trim_block \<Rightarrow> 'a clone_env_scheme \<Rightarrow> bool" where
  "snug b s \<longleftrightarrow> 0 < cluster_size s \<and> block_size s \<le> cluster_size s \<and> read_size b \<le> cluster_size s \<and>
     forward_error_size b \<le> cluster_size s"

definition trimming ::
  "bool \<Rightarrow> int \<times> int \<Rightarrow> hardware \<Rightarrow> (int \<Rightarrow> 8 word) \<Rightarrow> int \<Rightarrow> int \<Rightarrow> status_word \<Rightarrow> 'a clone_env_scheme \<Rightarrow>
   trim_block \<times> 'a clone_env_scheme \<Rightarrow> bool" where
  "trimming tight sp hw disk a e new s0 x \<longleftrightarrow> under_way hw disk a e new s0 (snd x) \<and> original_status (fst x) AND 0x7f = 0 \<and>
     (block_start (fst x), block_end (fst x)) = sp \<and> (tight \<longrightarrow> snug (fst x) (snd x))"

definition trimmed ::
  "bool \<Rightarrow> int \<times> int \<Rightarrow> hardware \<Rightarrow> (int \<Rightarrow> 8 word) \<Rightarrow> int \<Rightarrow> int \<Rightarrow> status_word \<Rightarrow> 'a clone_env_scheme \<Rightarrow> int \<Rightarrow>
   trim_block \<times> 'a clone_env_scheme \<Rightarrow> bool" where
  "trimmed tight sp hw disk a e new s0 ret x \<longleftrightarrow>
     (if ret = 0 then trimming tight sp hw disk a e new s0 x else stopped disk a e s0 (snd x))"

lemma trimming_moved:
  assumes "trimming tight sp hw disk a e new s0 (b, s)" "moved disk a e s t" "original_status b' = original_status b"
    and "block_start b' = block_start b" "block_end b' = block_end b" "tight \<Longrightarrow> snug b' t"
  shows "trimming tight sp hw disk a e new s0 (b', t)"
  using assms under_way_moved by (auto simp: trimming_def)

lemma snug_moved: "moved disk a e s t \<Longrightarrow> snug b t = snug b s"
  by (simp add: moved_def settings_def snug_def)

lemma snug_read: "snug b s \<Longrightarrow> n \<le> read_size b \<or> n \<le> cluster_size s \<Longrightarrow> snug (b\<lparr>read_size := n\<rparr>) s"
  by (auto simp: snug_def)

lemma trimmed_stop:
  "trimming tight sp hw disk a e new s0 (b, s) \<Longrightarrow> stopped disk a e s t \<Longrightarrow> ret \<noteq> 0 \<Longrightarrow> trimmed tight sp hw disk a e new s0 ret (b', t)"
  using under_way_stopped by (auto simp: trimming_def trimmed_def)

lemma trimming_facts:
  assumes "trimming tight sp hw disk a e new s0 (b, s)"
  obtains d where "ready disk a e s" "calm hw disk s" "\<not> finished new" "original_status b AND 0x7f = 0"
    "spaced d (lines (domain_table s))"
  using assms by (auto simp: trimming_def under_way_def moved_def)

lemma trim_lead_law:
  assumes "trimming tight sp hw disk a e new s0 (b, s)" "trim_lead hw new dir (b, s) = out"
  shows "case out of
      Next (b', t) \<Rightarrow> trimming tight sp hw disk a e new s0 (b', t) \<and>
        (tight \<and> dir = 1 \<longrightarrow> current_position s < current_position t)
    | Done x \<Rightarrow> trimming tight sp hw disk a e new s0 x
    | Stop ret x \<Rightarrow> trimmed tight sp hw disk a e new s0 ret x"
proof -
  have sn: "snug b s" if tight using assms(1) that by (simp add: trimming_def)
  obtain d where f: "ready disk a e s" "calm hw disk s" "\<not> finished new" "original_status b AND 0x7f = 0"
    "spaced d (lines (domain_table s))" using assms(1) by (rule trimming_facts)
  then show ?thesis using assms(2)
  proof (cases rule: trim_lead_cases)
    case (further n p t)
    have "trimming tight sp hw disk a e new s0 (b\<lparr>read_size := n\<rparr>, t)"
      by (rule trimming_moved [OF assms(1) further(2)])
        (use sn snug_read [of b s n] further(3) snug_moved [OF further(2)] in simp_all)
    moreover have "current_position s < current_position t" if "tight" "dir = 1"
      using sn [OF that(1)] that(2) further(4,5) by (simp add: snug_def)
    ultimately show ?thesis using further(1) by simp
  next
    case (failed n p t)
    let ?b = "b\<lparr>read_size := n, trim_success := False, forward_error := p, reverse_error := p, forward_error_size := n\<rparr>"
    have "snug ?b t" if tight using sn [OF that] failed(3) unfolding snug_moved [OF failed(2)] by (auto simp: snug_def)
    then have "trimming tight sp hw disk a e new s0 (?b, t)"
      by (intro trimming_moved [OF assms(1) failed(2)]) simp_all
    then show ?thesis using failed(1) by simp
  next
    case (ended ret b' t)
    then show ?thesis using trimmed_stop [OF assms(1)] by simp
  qed
qed

lemma trim_follow_law:
  assumes "trimming tight sp hw disk a e new s0 (b, s)" "trim_follow hw new dir (b, s) = out"
  shows "case out of
      Next (b', t) \<Rightarrow> trimming tight sp hw disk a e new s0 (b', t) \<and>
        (tight \<and> dir = -1 \<longrightarrow> current_position t < current_position s)
    | Done (b', t) \<Rightarrow> trimming False sp hw disk a e new s0 (b', t)
    | Stop ret x \<Rightarrow> trimmed False sp hw disk a e new s0 ret x"
proof -
  have sn: "snug b s" if tight using assms(1) that by (simp add: trimming_def)
  have loose: "trimming False sp hw disk a e new s0 (b, s)" using assms(1) by (simp add: trimming_def)
  obtain d where f: "ready disk a e s" "calm hw disk s" "\<not> finished new" "original_status b AND 0x7f = 0"
    "spaced d (lines (domain_table s))" using assms(1) by (rule trimming_facts)
  from f(1-3,5) assms(2) show ?thesis
  proof (cases rule: trim_follow_cases)
    case (further n p t)
    have "trimming tight sp hw disk a e new s0 (b\<lparr>read_size := n\<rparr>, t)"
      by (rule trimming_moved [OF assms(1) further(2)])
        (use sn snug_read [of b s n] further(3) snug_moved [OF further(2)] in simp_all)
    moreover have "current_position t < current_position s" if "tight" "dir = -1"
      using sn [OF that(1)] that(2) further(4,5) by (auto simp: snug_def)
    ultimately show ?thesis using further(1) by simp
  next
    case (over b' t)
    then show ?thesis using trimming_moved [OF loose over(2-5)] by simp
  next
    case (ended ret b' t)
    then show ?thesis using trimmed_stop [OF loose] by simp
  qed
qed

interpretation lead: pass_loop going "\<lambda>x. Some (trim_lead hw new dir x)" id
    "trimming tight sp hw disk a e new s0" "trimmed tight sp hw disk a e new s0"
  for going hw new dir tight sp disk a e s0
proof
  fix x y :: "trim_block \<times> 'a clone_env_scheme" and ret
  assume i: "trimming tight sp hw disk a e new s0 x"
  obtain b s where x: "x = (b, s)" by fastforce
  note law = trim_lead_law [OF i [unfolded x] refl, of dir]
  show "Some (trim_lead hw new dir x) = Some (Next y) \<Longrightarrow> trimming tight sp hw disk a e new s0 y" using law x by auto
  show "Some (trim_lead hw new dir x) = Some (Done y) \<Longrightarrow> trimmed tight sp hw disk a e new s0 0 (id y)"
    using law x by (simp add: trimmed_def)
  show "Some (trim_lead hw new dir x) = Some (Stop ret y) \<Longrightarrow> trimmed tight sp hw disk a e new s0 ret y" using law x by simp
  show "trimmed tight sp hw disk a e new s0 0 (id x)" using i by (simp add: trimmed_def)
qed

interpretation follow: pass_loop going "\<lambda>x. Some (trim_follow hw new dir x)" id
    "trimming tight sp hw disk a e new s0" "trimmed False sp hw disk a e new s0"
  for going hw new dir tight sp disk a e s0
proof
  fix x y :: "trim_block \<times> 'a clone_env_scheme" and ret
  assume i: "trimming tight sp hw disk a e new s0 x"
  obtain b s where x: "x = (b, s)" by fastforce
  note law = trim_follow_law [OF i [unfolded x] refl, of dir]
  show "Some (trim_follow hw new dir x) = Some (Next y) \<Longrightarrow> trimming tight sp hw disk a e new s0 y" using law x by auto
  show "Some (trim_follow hw new dir x) = Some (Done y) \<Longrightarrow> trimmed False sp hw disk a e new s0 0 (id y)"
    using law x by (auto simp: trimmed_def)
  show "Some (trim_follow hw new dir x) = Some (Stop ret y) \<Longrightarrow> trimmed False sp hw disk a e new s0 ret y" using law x by simp
  show "trimmed False sp hw disk a e new s0 0 (id x)" using i by (simp add: trimmed_def trimming_def)
qed

text \<open>With chunks no longer than a step both loops of the forward pass end.\<close>

interpretation lead_ends: ending_loop trim_before "\<lambda>x. Some (trim_lead hw new 1 x)" id
    "trimming True sp hw disk a e new s0" "trimmed True sp hw disk a e new s0"
    "\<lambda>(b, s). nat (block_end b - current_position s)"
  for hw new sp disk a e s0
proof unfold_locales
  fix x y :: "trim_block \<times> 'a clone_env_scheme"
  assume i: "trimming True sp hw disk a e new s0 x" and g: "trim_before x"
    and y: "Some (trim_lead hw new 1 x) = Some (Next y)"
  obtain b s b' t where x: "x = (b, s)" "y = (b', t)" by fastforce
  show "(case y of (b, s) \<Rightarrow> nat (block_end b - current_position s)) <
      (case x of (b, s) \<Rightarrow> nat (block_end b - current_position s))"
    using trim_lead_law [OF i [unfolded x] refl, of 1] i y g x by (auto simp: trim_before_def trimming_def)
qed simp

interpretation follow_ends: ending_loop "trim_behind False" "\<lambda>x. Some (trim_follow hw new (-1) x)" id
    "trimming True sp hw disk a e new s0" "trimmed False sp hw disk a e new s0"
    "\<lambda>(b, s). nat (current_position s - block_start b)"
  for hw new sp disk a e s0
proof unfold_locales
  fix x y :: "trim_block \<times> 'a clone_env_scheme"
  assume i: "trimming True sp hw disk a e new s0 x" and g: "trim_behind False x"
    and y: "Some (trim_follow hw new (-1) x) = Some (Next y)"
  obtain b s b' t where x: "x = (b, s)" "y = (b', t)" by fastforce
  show "(case y of (b, s) \<Rightarrow> nat (current_position s - block_start b)) <
      (case x of (b, s) \<Rightarrow> nat (current_position s - block_start b))"
    using trim_follow_law [OF i [unfolded x] refl, of "-1"] i y g x by (auto simp: trim_behind_def trimming_def)
qed simp

end
