(* ===== verification/Forward_Pass.thy ===== *)
theory Forward_Pass
  imports Under_Way
begin

text \<open>
  The forward pass as a whole: it comes to an end, and whatever happens on the way no sector is
  finished that has not been copied.
\<close>

section \<open>The place to read\<close>

lemma find_next_from_bounds:
  "find_next_from rs i st msk \<noteq> -1 \<Longrightarrow> 0 \<le> i \<Longrightarrow>
   i \<le> find_next_from rs i st msk \<and> find_next_from rs i st msk < i + int (length rs)"
proof (induction rs arbitrary: i)
  case (Cons r rs)
  show ?case
  proof (cases "lstatus r AND msk = st AND msk")
    case False
    then have "find_next_from rs (i + 1) st msk \<noteq> -1" using Cons.prems by simp
    then show ?thesis using Cons.IH [of "i + 1"] Cons.prems(2) False by simp
  qed (use Cons.prems in simp)
qed simp

lemma find_next_block_bounds:
  assumes "find_next_block l st msk T \<noteq> -1" "0 \<le> l"
  shows "l < find_next_block l st msk T \<and> find_next_block l st msk T < int (total_lines T)"
  using find_next_from_bounds [of "drop (nat (l + 1)) (lines T)" "max 0 (l + 1)" st msk] assms
  by (auto simp: find_next_block_def)

lemma tiles_later:
  assumes "tiles a rs e" "i < j" "j < length rs" "covers (rs ! i) x"
  shows "x < lposition (rs ! j)"
  using spaced_nth [OF tiles_spaced [OF assms(1)], of i j] assms(2-4) by (force simp: covers_def)

lemma locate_forward_cases:
  assumes "ready disk a e s" "current_position s < end_position s" "locate_forward st msk s = res"
  obtains (stop) r where "res = Inl (Stop r s)" "r \<noteq> 0"
  | (over) t where "res = Inl (Done t)" "moved disk a e s t"
  | (found) r t where "res = Inr (r, t)" "moved disk a e s t" "current_position s \<le> current_position t"
      "current_position t < end_position t" "covers r (current_position t)" "r \<in> set (lines (log_table s))"
proof -
  let ?T = "log_table s" and ?b = "find_block (current_position s) (log_table s)"
  have tl: "tiles a (lines ?T) e" using assms(1) by (simp add: ready_def safe_def)
  have same: "moved disk a e s s" using holds_moved [OF holds_refl [OF assms(1)]] .
  show thesis
  proof (cases "?b = -1")
    case True
    show thesis
    proof (rule stop)
      show "res = Inl (Stop INTERNAL_ERROR_RETURN_CODE s)" using assms(3) True by (auto simp: locate_forward_def Let_def)
    qed simp
  next
    case b: False
    note f = find_block_found [OF b]
    show thesis
    proof (cases "lstatus (lines ?T ! nat ?b) AND msk \<noteq> st")
      case False
      with b assms(2,3) f same show thesis by (intro found) (auto simp: locate_forward_def Let_def)
    next
      case True
      let ?n = "find_next_block ?b st msk ?T"
      show thesis
      proof (cases "?n = -1")
        case True': True
        with True b assms(3) same show thesis by (intro over) (auto simp: locate_forward_def Let_def)
      next
        case False
        have n: "?b < ?n" "nat ?n < total_lines ?T" using find_next_block_bounds [OF False] f by auto
        let ?r = "lines ?T ! nat ?n" and ?t = "s\<lparr>current_position := lposition (lines ?T ! nat ?n)\<rparr>"
        have "nat ?b < nat ?n" using n f by simp
        then have lt: "current_position s < lposition ?r" using tiles_later [OF tl _ n(2)] f by blast
        have mv: "moved disk a e s ?t" by (rule moved_position [OF assms(1)])
        have "0 < lsize ?r" using spaced_nth_size [OF tiles_spaced [OF tl]] n(2) by simp
        then have "covers ?r (lposition ?r)" by (simp add: covers_def)
        moreover have "?r \<in> set (lines ?T)" using n(2) by simp
        ultimately show thesis using True False b assms(3) mv lt
          by (cases "lposition ?r \<ge> end_position s")
            (auto simp: locate_forward_def Let_def intro: over [of ?t] found [of ?r ?t])
      qed
    qed
  qed
qed

lemma fit_forward_bounds:
  assumes "covers r (current_position s)" "current_position s < end_position s" "0 < cluster_size s"
  shows "0 < fit_forward r s \<and> fit_forward r s \<le> cluster_size s"
  using assms by (auto simp: fit_forward_def covers_def Let_def)

section \<open>One turn\<close>

lemma forward_read_fine:
  assumes "ready disk a e s" "calm hw disk s" "\<not> finished new" "0 < n" "n \<le> cluster_size s" "0 \<le> current_position s"
  shows "turn_fine disk a e True s (forward_read hw st new n s)"
proof -
  define s1 where "s1 = note_retry n s"
  have h1: "holds disk a e s s1" unfolding s1_def by (rule holds_keeps [OF assms(1)]) simp
  obtain r t where rd: "read_chunk hw (current_position s1) n s1 = (r, t)" by fastforce
  define u where "u = poll_stop hw t"
  have c1: "calm hw disk s1" using calm_holds [OF h1] assms(2) by simp
  note rh = read_holds [OF holds_ready [OF h1] c1 rd, folded u_def]
  have hu: "holds disk a e s u" by (rule holds_trans [OF h1 rh(1)])
  then have u: "ready disk a e u" "current_position u = current_position s" "cluster_size u = cluster_size s"
    by (simp_all add: holds_def settings_def)
  have cu: "calm hw disk u" using calm_holds [OF hu] assms(2) by simp
  obtain r2 v where g: "good_read hw (uint FORWARD_SKIP) jump_forward n u = (r2, v)" by fastforce
  have eq: "forward_read hw st new n s =
      (if stop_signal u then Stop STOP_SIGNAL_RETURN_CODE u
       else if read_good r u then if r2 \<noteq> 0 then Stop r2 v else Next (advance n 0 0 v)
       else forward_failure hw st new r n u)"
    unfolding forward_read_def Let_def s1_def [symmetric] rd prod.case u_def [symmetric] g ..
  have "turn_fine disk a e True u (if r2 \<noteq> 0 then Stop r2 v else Next (advance n 0 0 v))" if "read_good r u"
  proof -
    have "has_chunk disk (current_position u) n u" using rh(2) [OF that] h1 u(2) by (simp add: holds_def)
    note w = good_read_went [OF u(1) cu assms(4) this skipper_jumps(1), of "uint FORWARD_SKIP", unfolded g]
    show ?thesis
    proof (cases "r2 = 0")
      case True
      with went_forward [OF w True cu] u(2) assms(6) have m: "moved disk a e u v" "current_position u \<le> current_position v"
        by simp_all
      note ad = advance_moved [OF moved_ready [OF m(1)], of n 0 0]
      show ?thesis using True moved_trans [OF m(1) ad(1)] ad(2) m(2) assms(4) by simp
    next
      case False
      with w show ?thesis by (simp add: went_def)
    qed
  qed
  moreover have "turn_fine disk a e True u (forward_failure hw st new r n u)"
    using forward_failure_fine [OF u(1) cu assms(3,4)] u(2,3) assms(5,6) by simp
  moreover have "stopped disk a e u u" by (rule holds_stopped [OF holds_refl [OF u(1)]])
  ultimately have "turn_fine disk a e True u (forward_read hw st new n s)" unfolding eq by simp
  then show ?thesis by (rule turn_fine_holds [OF hu])
qed

lemma forward_chunk_fine:
  assumes "ready disk a e s" "calm hw disk s" "\<not> finished new" "0 < n" "n \<le> cluster_size s" "0 \<le> current_position s"
    and "spaced d (lines (domain_table s))" "current_position s < end_position s"
  shows "turn_fine disk a e True s (forward_chunk hw st new n s)"
proof -
  define outside where
    "outside = (\<lambda>s :: 'a clone_env_scheme. s\<lparr>current_position := min (current_position s + n) (end_position s)\<rparr>)"
  obtain res t where ds: "domain_stage outside n s = (res, t)" by fastforce
  have eq: "forward_chunk hw st new n s = (case res of Inl ret \<Rightarrow> Stop ret t
      | Inr k \<Rightarrow> if k > 0 then forward_read hw st new k t else Next (advance k 0 0 t))"
    unfolding forward_chunk_def Let_def outside_def [symmetric] ds prod.case ..
  have sp: "\<not> do_domain s \<or> spaced d (lines (domain_table s))" using assms(7) by simp
  show ?thesis using ds assms(4) sp
  proof (cases rule: domain_stage_cases)
    case (out p)
    have t: "moved disk a e s t" "current_position s < current_position t"
      using moved_position [OF assms(1)] out(2,3) assms(4,8) by (simp_all add: outside_def)
    have "advance 0 0 0 t = t" using t(2) assms(6) by (simp add: advance_def)
    then show ?thesis using eq out(1) t by simp
  next
    case (part k p)
    have m: "moved disk a e s t" using moved_position [OF assms(1)] part(2) by simp
    have "k \<le> cluster_size s" using part(5) assms(5) by linarith
    then have "turn_fine disk a e True t (forward_read hw st new k t)"
      by (intro forward_read_fine)
        (use moved_ready [OF m] calm_moved [OF m] part assms(2,3,6) in simp_all)
    from turn_fine_moved [OF m _ this] show ?thesis using eq part by simp
  qed
qed

section \<open>The turn\<close>

text \<open>A jump by the skip size, which is at least one aligned block, always makes progress.\<close>

lemma align_forward:
  assumes "ready disk a e s" "sane s" "0 \<le> current_position s"
  shows "current_position s < block_align (current_position s + skip_size s) (block_offset s) s"
proof -
  let ?b = "block_size s" and ?v = "current_position s + skip_size s"
  have b: "0 < ?b" "0 \<le> ?v" "?b + block_offset s \<le> skip_size s"
    using assms by (auto simp: sane_def ready_def skip_floor_def skip_ok_def)
  have "?v = ?v div ?b * ?b + ?v mod ?b" "?v mod ?b < ?b" using b(1) by simp_all
  then have "current_position s < ?v div ?b * ?b - block_offset s" using b(3) by linarith
  then show ?thesis using b by (simp add: block_align_def Let_def)
qed

lemma rate_jump_moved:
  assumes "ready disk a e s" "calm hw disk s" "0 \<le> current_position s"
  shows "moved disk a e s (rate_jump_forward s)" "current_position s < current_position (rate_jump_forward s)"
proof -
  define t where "t = count_rate_skip s"
  have t: "holds disk a e s t" unfolding t_def
    by (rule holds_keeps [OF assms(1)]) (simp add: count_rate_skip_def keeps_def)
  have "calm hw disk t" using calm_holds [OF t] assms(2) by blast
  then have u: "sane t" "0 \<le> current_position t" using assms(3) t by (simp_all add: calm_def holds_def)
  have "moved disk a e s (t\<lparr>current_position := p\<rparr>)" for p
    by (rule moved_trans [OF holds_moved [OF t] moved_position [OF holds_ready [OF t]]])
  then show "moved disk a e s (rate_jump_forward s)" by (simp add: rate_jump_forward_def Let_def t_def)
  have "current_position t = current_position s" using t by (simp add: holds_def)
  with align_forward [OF holds_ready [OF t] u]
  show "current_position s < current_position (rate_jump_forward s)"
    by (simp add: rate_jump_forward_def Let_def t_def [symmetric])
qed

lemma forward_turn_fine:
  assumes "ready disk a e s" "calm hw disk s" "\<not> finished new" "0 \<le> current_position s"
    and "spaced d (lines (domain_table s))" "current_position s < end_position s"
  shows "turn_fine disk a e True s (forward_turn hw st msk new s)"
proof -
  obtain r1 s1 where h: "turn_head hw s = (r1, s1)" by fastforce
  obtain r2 s2 where sl: "slow_exit hw s1 = (r2, s2)" by fastforce
  have h1: "holds disk a e s s1" by (rule holds_keeps [OF assms(1) keeps_turn_head [OF h]])
  have h2: "holds disk a e s s2"
    by (rule holds_trans [OF h1 holds_keeps [OF holds_ready [OF h1] keeps_slow_exit [OF sl]]])
  have r2: "ready disk a e s2" and c2: "calm hw disk s2" and p2: "current_position s2 = current_position s"
    and e2: "end_position s2 = end_position s" "domain_table s2 = domain_table s"
    using h2 calm_holds [OF h2] assms(2) by (simp_all add: holds_def settings_def)
  have cp2: "0 \<le> current_position s2" using p2 assms(4) by simp
  have go: "turn_fine disk a e True s2 (case locate_forward st msk s2 of Inl out \<Rightarrow> out
      | Inr (r, s) \<Rightarrow> forward_chunk hw st new (fit_forward r s)
          (if current_position s > last_skip_position s + min_skip_size s then reset_skip s else s))"
  proof -
    obtain res where l: "locate_forward st msk s2 = res" by blast
    have lt: "current_position s2 < end_position s2" using p2 e2 assms(6) by simp
    show ?thesis using r2 lt l
    proof (cases rule: locate_forward_cases)
      case (stop r)
      then show ?thesis using l holds_stopped [OF holds_refl [OF r2]] by simp
    next
      case (over t)
      then show ?thesis using l by simp
    next
      case (found r t)
      define u where "u = (if current_position t > last_skip_position t + min_skip_size t then reset_skip t else t)"
      have h: "holds disk a e t u"
        using reset_skip_holds [OF moved_ready [OF found(2)]] holds_refl [OF moved_ready [OF found(2)]]
        by (simp add: u_def)
      have m: "moved disk a e s2 u" by (rule moved_trans [OF found(2) holds_moved [OF h]])
      have u: "current_position u = current_position t" "end_position u = end_position t"
        "cluster_size u = cluster_size t" "domain_table u = domain_table s2" "end_position t = end_position s2"
        "calm hw disk t" "calm hw disk u"
        using h found(2) m calm_moved [OF m] calm_moved [OF found(2)] c2 by (simp_all add: holds_def moved_def settings_def)
      have cl: "0 < cluster_size t" using u(6) by (simp add: calm_def sane_def)
      note fb = fit_forward_bounds [OF found(5) _ cl]
      have "turn_fine disk a e True u (forward_chunk hw st new (fit_forward r t) u)"
        by (rule forward_chunk_fine) (use moved_ready [OF m] u fb found(3,4) assms(3,4,5) p2 e2 in simp_all)
      from turn_fine_moved [OF m _ this] show ?thesis
        using found l u by (simp add: u_def [symmetric])
    qed
  qed
  have "stopped disk a e s s1" "stopped disk a e s s2" using holds_stopped h1 h2 by blast+
  moreover have "turn_fine disk a e True s (Next (rate_jump_forward s2))"
    by (rule turn_fine_holds [OF h2]) (use rate_jump_moved [OF r2 c2 cp2] in simp)
  moreover note turn_fine_holds [OF h2 go]
  ultimately show ?thesis
    unfolding forward_turn_def Let_def h sl prod.case by simp
qed

section \<open>The pass\<close>

interpretation forward: ending_loop "\<lambda>s. current_position s < end_position s" "\<lambda>s. Some (forward_turn hw st msk new s)" reset_skip
    "\<lambda>s. under_way hw disk a e new s0 s \<and> 0 \<le> current_position s" "passed disk a e s0"
    "\<lambda>s. nat (end_position s - current_position s)"
  for hw disk a e new s0 st msk
proof -
  have f: "turn_fine disk a e True s (forward_turn hw st msk new s)"
    if u: "under_way hw disk a e new s0 s" "0 \<le> current_position s" "current_position s < end_position s"
    for s :: "'a clone_env_scheme"
  proof -
    obtain d where d: "spaced d (lines (domain_table s))" using u(1) by (auto simp: under_way_def)
    show ?thesis
      by (rule forward_turn_fine [OF under_way_ready [OF u(1)] _ _ u(2) d u(3)]) (use u(1) in \<open>simp_all add: under_way_def\<close>)
  qed
  show "ending_loop (\<lambda>s. current_position s < end_position s) (\<lambda>s. Some (forward_turn hw st msk new s)) reset_skip
    (\<lambda>s. under_way hw disk a e new s0 s \<and> 0 \<le> current_position s) (passed disk a e s0)
    (\<lambda>s. nat (end_position s - current_position s))"
  proof
    fix s t :: "'a clone_env_scheme" and ret
    assume u: "under_way hw disk a e new s0 s \<and> 0 \<le> current_position s"
    show "passed disk a e s0 0 (reset_skip s)" by (rule under_way_reset) (use u in blast)
    assume lt: "current_position s < end_position s"
    note f = f [OF conjunct1 [OF u] conjunct2 [OF u] lt]
    show "Some (forward_turn hw st msk new s) \<noteq> None" by simp
    {
      assume "Some (forward_turn hw st msk new s) = Some (Next t)"
      then have t: "forward_turn hw st msk new s = Next t" by simp
      have "current_position s < current_position t" using f t by simp
      with turn_next_law [OF conjunct1 [OF u] f t] u
      show "under_way hw disk a e new s0 t \<and> 0 \<le> current_position t" by simp
      show "nat (end_position t - current_position t) < nat (end_position s - current_position s)"
        using t f lt by (simp add: moved_def settings_def)
    next
      assume "Some (forward_turn hw st msk new s) = Some (Done t)"
      then have t: "forward_turn hw st msk new s = Done t" by simp
      show "passed disk a e s0 0 (reset_skip t)"
        by (rule under_way_reset [OF turn_done_law [OF conjunct1 [OF u] f t]])
    next
      assume "Some (forward_turn hw st msk new s) = Some (Stop ret t)"
      then have t: "forward_turn hw st msk new s = Stop ret t" by simp
      show "passed disk a e s0 ret t" by (rule turn_stop_law [OF conjunct1 [OF u] f t])
    }
  qed
qed

lemma copy_forward_start:
  assumes "pass_ready hw disk a e s" "\<not> finished new" "0 \<le> start_position s"
  obtains (early) ret t where "copy_forward hw n st msk new s = Some (ret, t)" "passed disk a e s ret t"
  | (loop) t where "copy_forward hw n st msk new s = run_pass (\<lambda>s. current_position s < end_position s)
        (\<lambda>s. Some (forward_turn hw st msk new s)) reset_skip n t"
      "under_way hw disk a e new s t \<and> 0 \<le> current_position t"
      "current_position t = max (current_position s) (start_position s)" "end_position t = end_position s"
proof -
  define u where "u = s\<lparr>direction := FORWARD, current_position := max (current_position s) (start_position s)\<rparr>"
  obtain r t where b: "begin_pass hw (if driver_mode u \<noteq> 0 then LOG_UPDATE_TIME else 0) True u = (r, t)" by fastforce
  have t: "under_way hw disk a e new s t" "passed disk a e s r t" "current_position t = current_position u"
    by (rule pass_begin [OF assms(1,2) b]; simp add: u_def skip_ok_def skip_floor_def)+
  have eq: "copy_forward hw n st msk new s = (if drive_locked s then Some (INPUT_DEVICE_ERROR_RETURN_CODE, s)
      else if r \<noteq> 0 then Some (r, t)
      else run_pass (\<lambda>s. current_position s < end_position s) (\<lambda>s. Some (forward_turn hw st msk new s)) reset_skip n t)"
    unfolding copy_forward_def Let_def u_def [symmetric] b prod.case ..
  have "passed disk a e s INPUT_DEVICE_ERROR_RETURN_CODE s"
    using passed_stopped [OF under_way_passed [OF pass_ready_under_way [OF assms(1,2)]]] by (simp add: passed_def)
  moreover have "current_position t = max (current_position s) (start_position s)" using t(3) by (simp add: u_def)
  moreover have "end_position t = end_position s" using t(1) by (simp add: under_way_def moved_def settings_def)
  moreover have "0 \<le> max (current_position s) (start_position s)" using assms(3) by simp
  ultimately show thesis using early loop t(1,2) eq by (cases "drive_locked s"; cases "r = 0") auto
qed

text \<open>After a pass that returns 0 another one can follow.\<close>

lemma copy_forward_passed:
  assumes "pass_ready hw disk a e s" "\<not> finished new" "0 \<le> start_position s" "copy_forward hw n st msk new s = Some (ret, t)"
  shows "passed disk a e s ret t"
  using assms(1-3)
proof (cases rule: copy_forward_start [where n = n and st = st and msk = msk])
  case (loop u)
  then have "run_pass (\<lambda>s. current_position s < end_position s) (\<lambda>s. Some (forward_turn hw st msk new s)) reset_skip n u = Some (ret, t)"
    using assms(4) by simp
  then show ?thesis by (rule forward.returned [OF loop(2)])
qed (use assms(4) in auto)

text \<open>
  C3: the forward pass never reports a sector as finished that it has not copied.  When it
  returns, for whatever reason, the log still tiles the source, and every sector with the status
  finished has the bytes of the source on the target, seen with the sector size of the start.
\<close>

theorem copy_forward_intact:
  assumes "pass_ready hw disk a e s" "\<not> finished new" "0 \<le> start_position s"
    and "copy_forward hw n st msk new s = Some (ret, t)"
  shows "tiles a (lines (log_table t)) e \<and>
    (\<forall>x st'. status_at (lines (log_table t)) x = Some st' \<and> finished st' \<longrightarrow>
       copied disk (t\<lparr>sector_size := sector_size s\<rparr>) x)"
  using passed_stopped [OF copy_forward_passed [OF assms]] by (simp add: stopped_def intact_def)

lemma copy_forward_terminates_rule:
  assumes "pass_ready hw disk a e s" "\<not> finished new" "0 \<le> start_position s"
    and "nat (end_position s - max (current_position s) (start_position s)) < n"
  shows "\<exists>ret t. copy_forward hw n st msk new s = Some (ret, t)"
  using assms(1-3)
proof (cases rule: copy_forward_start [where n = n and st = st and msk = msk])
  case (loop u)
  then show ?thesis using forward.returns [OF loop(2)] assms(4) by simp
qed auto

text \<open>
  C4: the forward pass ends: every turn that goes on moves the position forward, so the number of
  sectors left bounds the number of turns.  In particular a skip, a rate jump, a chunk outside the
  domain or a jump predicted by the drive never leaves the pass in place.
\<close>

theorem copy_forward_terminates:
  assumes "pass_ready hw disk a e s" "\<not> finished new" "0 \<le> start_position s"
    and "nat (end_position s - max (current_position s) (start_position s)) < n"
  shows "\<exists>ret t. copy_forward hw n st msk new s = Some (ret, t)"
  using assms by (rule copy_forward_terminates_rule)

section \<open>Witnesses\<close>

lemma copy_forward_intact_witness:
  "\<exists>ret t. copy_forward demo_hw 101 0 STATUS_MASK NONTRIMMED demo_pass_env = Some (ret, t) \<and>
     tiles 0 (lines (log_table t)) 100"
proof -
  have new: "\<not> finished NONTRIMMED" by (simp add: finished_def status_consts)
  obtain ret t where "copy_forward demo_hw 101 0 STATUS_MASK NONTRIMMED demo_pass_env = Some (ret, t)"
    using copy_forward_terminates_rule [OF demo_pass_ready new demo_start, of 101 0 STATUS_MASK] by (auto simp: demo_pass_bounds)
  with copy_forward_intact [OF demo_pass_ready new demo_start this] show ?thesis by blast
qed

lemma copy_forward_terminates_witness:
  "\<exists>ret t. copy_forward demo_hw 101 0 STATUS_MASK NONTRIMMED demo_pass_env = Some (ret, t)"
proof -
  have new: "\<not> finished NONTRIMMED" by (simp add: finished_def status_consts)
  show ?thesis
    using copy_forward_terminates [OF demo_pass_ready new demo_start, of 101 0 STATUS_MASK] by (simp add: demo_pass_bounds)
qed

end
