(* ===== verification/Trim_Pass.thy ===== *)
theory Trim_Pass
  imports Trim_Loops Forward_Pass
begin

text \<open>
  The trim passes as a whole: nothing is finished that is not copied, and the forward pass ends.
  The reverse pass does not end on a block that is shorter than a block of the settings.
\<close>

section \<open>One block\<close>

lemma trim_close_law:
  assumes "trimming tight sp hw disk a e new s0 (b, s)"
  shows "case trim_close dir new b s of
      Next t \<Rightarrow> under_way hw disk a e new s0 t \<and> current_position t = (if dir > 0 then snd sp else fst sp)
    | Done t \<Rightarrow> False
    | Stop ret t \<Rightarrow> passed disk a e s0 ret t"
proof -
  let ?pos = "forward_error b + forward_error_size b"
  let ?u = "s\<lparr>current_position := ?pos\<rparr>"
  define m where "m = (if \<not> trim_success b \<and> reverse_error b > ?pos
    then mark_then ?pos (reverse_error b - ?pos) (new OR original_status b) (\<lambda>s. (0, s)) ?u else (0, s))"
  obtain ret t where mt: "m = (ret, t)" by fastforce
  obtain d where f: "ready disk a e s" "calm hw disk s" "\<not> finished new" "original_status b AND 0x7f = 0"
    "spaced d (lines (domain_table s))" using assms by (rule trimming_facts)
  have uw: "under_way hw disk a e new s0 s" and sp: "sp = (block_start b, block_end b)"
    using assms by (auto simp: trimming_def)
  have mu: "moved disk a e s ?u" by (rule moved_position [OF f(1)])
  have sv: "if ret = 0 then moved disk a e s t else stopped disk a e s t"
  proof (cases "\<not> trim_success b \<and> reverse_error b > ?pos")
    case True
    have "served disk a e ?u m"
      unfolding m_def if_P [OF True]
      by (rule served_mark_then [OF moved_ready [OF mu]])
        (use True f(3,4) in \<open>auto simp: finished_or intro: holds_served holds_refl holds_ready\<close>)
    then have "if ret = 0 then holds disk a e ?u t else stopped disk a e ?u t" using mt by (cases "ret = 0") (simp_all add: served_def)
    then show ?thesis using moved_trans [OF mu holds_moved] moved_stopped [OF mu] by (auto split: if_splits)
  next
    case False
    then have "m = (0, s)" unfolding m_def by (rule if_not_P)
    then have "ret = 0" "t = s" using mt by simp_all
    then show ?thesis using holds_moved [OF holds_refl [OF f(1)]] by simp
  qed
  define v where "v = t\<lparr>current_position := (if dir > 0 then block_end b else block_start b)\<rparr>"
  have eq: "trim_close dir new b s = (if ret \<noteq> 0 then Stop ret t
      else if major_error b \<noteq> 0 then Stop (major_error b) v else Next v)"
    unfolding trim_close_def Let_def m_def [symmetric] mt prod.case v_def ..
  show ?thesis
  proof (cases "ret = 0")
    case False
    with sv eq under_way_stopped [OF uw] show ?thesis by (simp add: passed_def)
  next
    case True
    then have mt': "moved disk a e s t" using sv by simp
    have uv: "under_way hw disk a e new s0 v"
      unfolding v_def by (rule under_way_moved [OF uw moved_trans [OF mt' moved_position [OF moved_ready [OF mt']]]])
    have "passed disk a e s0 (major_error b) v" if "major_error b \<noteq> 0"
      using that passed_stopped [OF under_way_passed [OF uv]] by (simp add: passed_def)
    with True eq uv sp show ?thesis by (simp add: v_def)
  qed
qed

lemma new_block_trimming:
  assumes "under_way hw disk a e new s0 s" "tight \<Longrightarrow> block_size s \<le> cluster_size s"
  shows "trimming tight (lposition r, lposition r + lsize r) hw disk a e new s0 (new_block r s, s\<lparr>current_position := p\<rparr>)"
proof -
  have "under_way hw disk a e new s0 (s\<lparr>current_position := p\<rparr>)"
    by (rule under_way_moved [OF assms(1) moved_position [OF under_way_ready [OF assms(1)]]])
  moreover have "(lstatus r AND ADD_STATUS_MASK) AND 0x7f = 0" by (simp add: ADD_STATUS_MASK_def and.assoc)
  moreover have "0 < cluster_size s" using assms(1) by (simp add: under_way_def calm_def sane_def)
  ultimately show ?thesis using assms(2) by (simp add: trimming_def new_block_def Let_def snug_def)
qed

text \<open>The second loop starts from the other end.\<close>

lemma restart_trimming:
  assumes "trimming tight sp hw disk a e new s0 (b, s)" "original_status b' = original_status b"
    and "block_start b' = block_start b" "block_end b' = block_end b"
    and "read_size b' = block_size s \<or> read_size b' = read_size b" "forward_error_size b' = forward_error_size b"
  shows "trimming tight sp hw disk a e new s0 (b', s\<lparr>current_position := p\<rparr>)"
proof -
  obtain d where f: "ready disk a e s" using assms(1) by (rule trimming_facts)
  have sn: "snug b s" if tight using assms(1) that by (simp add: trimming_def)
  show ?thesis
    by (rule trimming_moved [OF assms(1) moved_position [OF f] assms(2-4)])
      (use sn assms(5,6) in \<open>auto simp: snug_def\<close>)
qed

definition block_fine ::
  "hardware \<Rightarrow> (int \<Rightarrow> 8 word) \<Rightarrow> int \<Rightarrow> int \<Rightarrow> status_word \<Rightarrow> 'a clone_env_scheme \<Rightarrow> int \<Rightarrow> 'a clone_env_scheme outcome option \<Rightarrow> bool" where
  "block_fine hw disk a e new s0 p res \<longleftrightarrow>
     (case res of
        None \<Rightarrow> True
      | Some (Next t) \<Rightarrow> under_way hw disk a e new s0 t \<and> current_position t = p
      | Some (Done t) \<Rightarrow> False
      | Some (Stop ret t) \<Rightarrow> passed disk a e s0 ret t)"

lemma trim_forward_block_law:
  assumes "under_way hw disk a e new s0 s"
  shows "block_fine hw disk a e new s0 (lposition r + lsize r) (trim_forward_block hw n new r s)"
    and "block_size s \<le> cluster_size s \<Longrightarrow> 0 \<le> lsize r \<Longrightarrow> nat (lsize r) < n \<Longrightarrow> trim_forward_block hw n new r s \<noteq> None"
proof -
  let ?sp = "(lposition r, lposition r + lsize r)"
  define tight where "tight \<longleftrightarrow> block_size s \<le> cluster_size s"
  define x where "x = (new_block r s, s\<lparr>current_position := block_start (new_block r s)\<rparr>)"
  define y where "y = (\<lambda>(b :: trim_block, t :: 'a clone_env_scheme). (b\<lparr>trim_success := True, read_size := block_size t\<rparr>,
    t\<lparr>current_position := block_end b - block_size t\<rparr>))"
  have t1: "trimming tight ?sp hw disk a e new s0 x"
    unfolding x_def by (rule new_block_trimming [OF assms]) (simp add: tight_def)
  have t2: "trimming tight ?sp hw disk a e new s0 (y z)" if "trimming tight ?sp hw disk a e new s0 z" for z
  proof -
    obtain b t where z: "z = (b, t)" by fastforce
    show ?thesis unfolding y_def z prod.case by (rule restart_trimming [OF that [unfolded z]]) simp_all
  qed
  define L where "L = run_pass trim_before (\<lambda>x. Some (trim_lead hw new 1 x)) id n x"
  define F where "F = (\<lambda>z. run_pass (trim_behind False) (\<lambda>x. Some (trim_follow hw new (-1) x)) id n (y z))"
  have eq: "trim_forward_block hw n new r s =
    (case L of None \<Rightarrow> None
     | Some (ret, b, s) \<Rightarrow>
         if ret \<noteq> 0 then Some (Stop ret s)
         else if trim_success b then Some (trim_close 1 new b s)
         else (case F (b, s) of None \<Rightarrow> None
               | Some (ret, b, s) \<Rightarrow> if ret \<noteq> 0 then Some (Stop ret s) else Some (trim_close 1 new b s)))"
    unfolding trim_forward_block_def Let_def L_def F_def x_def y_def prod.case ..
  have close: "block_fine hw disk a e new s0 (lposition r + lsize r) (Some (trim_close 1 new b t))"
    if "trimming tg ?sp hw disk a e new s0 (b, t)" for tg b t
    using trim_close_law [OF that, of 1] by (cases "trim_close 1 new b t") (simp_all add: block_fine_def)
  have stop: "block_fine hw disk a e new s0 (lposition r + lsize r) (Some (Stop ret t))"
    if "stopped disk a e s0 t" "ret \<noteq> 0" for ret t
    using that by (simp add: block_fine_def passed_def)
  show "block_fine hw disk a e new s0 (lposition r + lsize r) (trim_forward_block hw n new r s)"
  proof (cases L)
    case None
    with eq show ?thesis by (simp add: block_fine_def)
  next
    case (Some z)
    obtain ret b t where z: "z = (ret, b, t)" by (cases z) auto
    have T: "trimmed tight ?sp hw disk a e new s0 ret (b, t)"
      using lead.returned [OF t1] Some z unfolding L_def by blast
    show ?thesis
    proof (cases "ret = 0")
      case False
      with T eq Some z stop show ?thesis by (simp add: trimmed_def)
    next
      case True
      with T have T: "trimming tight ?sp hw disk a e new s0 (b, t)" by (simp add: trimmed_def)
      show ?thesis
      proof (cases "trim_success b")
        case s: True
        with eq Some z True close [OF T] show ?thesis by simp
      next
        case s: False
        show ?thesis
        proof (cases "F (b, t)")
          case None
          with eq Some z True s show ?thesis by (simp add: block_fine_def)
        next
          case f: (Some w)
          obtain ret' b' t' where w: "w = (ret', b', t')" by (cases w) auto
          have "trimmed False ?sp hw disk a e new s0 ret' (b', t')"
            using follow.returned [OF t2 [OF T]] f w unfolding F_def by blast
          with eq Some z True s f w close stop show ?thesis by (cases "ret' = 0") (simp_all add: trimmed_def)
        qed
      qed
    qed
  qed
  assume tg: "block_size s \<le> cluster_size s" and sz: "0 \<le> lsize r" "nat (lsize r) < n"
  then have tight by (simp add: tight_def)
  have "\<exists>ret t. L = Some (ret, t)"
    unfolding L_def
    by (rule lead_ends.returns [of ?sp hw disk a e new s0])
      (use t1 \<open>tight\<close> sz in \<open>simp_all add: x_def new_block_def Let_def\<close>)
  then obtain ret b t where L: "L = Some (ret, b, t)" by auto
  have "\<exists>ret z. F (b, t) = Some (ret, z)" if "ret = 0"
  proof -
    have T: "trimming True ?sp hw disk a e new s0 (b, t)"
      using lead.returned [OF t1] L that \<open>tight\<close> unfolding L_def by (auto simp: trimmed_def)
    then have "0 < block_size t" "block_start b = lposition r" "block_end b = lposition r + lsize r"
      by (auto simp: trimming_def under_way_def calm_def sane_def)
    then have "nat (block_end b - block_size t - block_start b) < n" using sz by linarith
    with t2 T \<open>tight\<close> show ?thesis
      unfolding F_def by (intro follow_ends.returns [of ?sp hw disk a e new s0]) (auto simp: y_def)
  qed
  with eq L show "trim_forward_block hw n new r s \<noteq> None" by auto
qed

lemma trim_reverse_block_law:
  assumes "under_way hw disk a e new s0 s"
  shows "block_fine hw disk a e new s0 (lposition r) (trim_reverse_block hw n new r s)"
proof -
  let ?sp = "(lposition r, lposition r + lsize r)"
  define x where "x = (new_block r s, s\<lparr>current_position := block_end (new_block r s) - block_size s\<rparr>)"
  define y where "y = (\<lambda>(b :: trim_block, t :: 'a clone_env_scheme). (b, t\<lparr>current_position := block_start b\<rparr>))"
  have t1: "trimming False ?sp hw disk a e new s0 x"
    unfolding x_def by (rule new_block_trimming [OF assms]) simp
  have t2: "trimming False ?sp hw disk a e new s0 (y z)" if "trimming False ?sp hw disk a e new s0 z" for z
  proof -
    obtain b t where z: "z = (b, t)" by fastforce
    show ?thesis unfolding y_def z prod.case by (rule restart_trimming [OF that [unfolded z]]) simp_all
  qed
  define L where "L = run_pass (trim_behind True) (\<lambda>x. Some (trim_lead hw new (-1) x)) id n x"
  define F where "F = (\<lambda>z. run_pass trim_before (\<lambda>x. Some (trim_follow hw new 1 x)) id n (y z))"
  have eq: "trim_reverse_block hw n new r s =
    (case L of None \<Rightarrow> None
     | Some (ret, b, s) \<Rightarrow>
         if ret \<noteq> 0 then Some (Stop ret s)
         else if trim_success b then Some (trim_close (-1) new b s)
         else (case F (b, s) of None \<Rightarrow> None
               | Some (ret, b, s) \<Rightarrow> if ret \<noteq> 0 then Some (Stop ret s) else Some (trim_close (-1) new b s)))"
    unfolding trim_reverse_block_def Let_def L_def F_def x_def y_def prod.case ..
  have close: "block_fine hw disk a e new s0 (lposition r) (Some (trim_close (-1) new b t))"
    if "trimming False ?sp hw disk a e new s0 (b, t)" for b t
    using trim_close_law [OF that, of "-1"] by (cases "trim_close (-1) new b t") (simp_all add: block_fine_def)
  have stop: "block_fine hw disk a e new s0 (lposition r) (Some (Stop ret t))"
    if "stopped disk a e s0 t" "ret \<noteq> 0" for ret t
    using that by (simp add: block_fine_def passed_def)
  show ?thesis
  proof (cases L)
    case None
    with eq show ?thesis by (simp add: block_fine_def)
  next
    case (Some z)
    obtain ret b t where z: "z = (ret, b, t)" by (cases z) auto
    have T: "trimmed False ?sp hw disk a e new s0 ret (b, t)"
      using lead.returned [OF t1] Some z unfolding L_def by blast
    show ?thesis
    proof (cases "ret = 0")
      case False
      with T eq Some z stop show ?thesis by (simp add: trimmed_def)
    next
      case True
      with T have T: "trimming False ?sp hw disk a e new s0 (b, t)" by (simp add: trimmed_def)
      show ?thesis
      proof (cases "trim_success b")
        case s: True
        with eq Some z True close [OF T] show ?thesis by simp
      next
        case s: False
        show ?thesis
        proof (cases "F (b, t)")
          case None
          with eq Some z True s show ?thesis by (simp add: block_fine_def)
        next
          case f: (Some w)
          obtain ret' b' t' where w: "w = (ret', b', t')" by (cases w) auto
          have "trimmed False ?sp hw disk a e new s0 ret' (b', t')"
            using follow.returned [OF t2 [OF T]] f w unfolding F_def by blast
          with eq Some z True s f w close stop show ?thesis by (cases "ret' = 0") (simp_all add: trimmed_def)
        qed
      qed
    qed
  qed
qed

section \<open>One turn\<close>

lemma trim_forward_turn_law:
  assumes "under_way hw disk a e new s0 s" "current_position s < end_position s"
  shows "case trim_forward_turn hw n st msk new s of
      None \<Rightarrow> True
    | Some (Next t) \<Rightarrow> under_way hw disk a e new s0 t \<and> current_position s < current_position t
    | Some (Done t) \<Rightarrow> under_way hw disk a e new s0 t
    | Some (Stop ret t) \<Rightarrow> passed disk a e s0 ret t"
    and "block_size s \<le> cluster_size s \<Longrightarrow> nat (e - a) < n \<Longrightarrow> trim_forward_turn hw n st msk new s \<noteq> None"
proof -
  obtain r1 s1 where h: "turn_head hw s = (r1, s1)" by fastforce
  have h1: "holds disk a e s s1" by (rule holds_keeps [OF under_way_ready [OF assms(1)] keeps_turn_head [OF h]])
  have u1: "under_way hw disk a e new s0 s1" by (rule under_way_moved [OF assms(1) holds_moved [OF h1]])
  have p1: "current_position s1 < end_position s1" "current_position s1 = current_position s"
    "block_size s1 = block_size s" "cluster_size s1 = cluster_size s"
    using h1 assms(2) by (simp_all add: holds_def settings_def)
  obtain res where l: "locate_forward st msk s1 = res" by blast
  have tl: "tiles a (lines (log_table s1)) e" using under_way_ready [OF u1] by (simp add: ready_def safe_def)
  have early: "passed disk a e s0 r1 s1" if "r1 \<noteq> 0"
    using that passed_stopped [OF under_way_passed [OF u1]] by (simp add: passed_def)
  have "(case trim_forward_turn hw n st msk new s of
      None \<Rightarrow> True
    | Some (Next t) \<Rightarrow> under_way hw disk a e new s0 t \<and> current_position s < current_position t
    | Some (Done t) \<Rightarrow> under_way hw disk a e new s0 t
    | Some (Stop ret t) \<Rightarrow> passed disk a e s0 ret t) \<and>
    (block_size s \<le> cluster_size s \<and> nat (e - a) < n \<longrightarrow> trim_forward_turn hw n st msk new s \<noteq> None)"
  proof (cases "r1 = 0")
    case False
    with h early show ?thesis by (simp add: trim_forward_turn_def)
  next
    case True
    show ?thesis using under_way_ready [OF u1] p1(1) l
    proof (cases rule: locate_forward_cases)
      case (stop r)
      then show ?thesis using l h True passed_stopped [OF under_way_passed [OF u1]]
        by (simp add: trim_forward_turn_def passed_def)
    next
      case (over t)
      then show ?thesis using l h True under_way_moved [OF u1 over(2)] by (simp add: trim_forward_turn_def)
    next
      case (found r t)
      have ut: "under_way hw disk a e new s0 t" by (rule under_way_moved [OF u1 found(2)])
      have eq: "trim_forward_turn hw n st msk new s = trim_forward_block hw n new r t"
        using l h True found(1) by (simp add: trim_forward_turn_def)
      have far: "current_position s < lposition r + lsize r" using found(3,5) p1(2) by (simp add: covers_def)
      have "a \<le> lposition r" "lposition r + lsize r \<le> e" "0 < lsize r"
        using tiles_mem [OF tl found(6)] by simp_all
      then have sz: "0 \<le> lsize r" "lsize r \<le> e - a" by linarith+
      have bc: "block_size t = block_size s" "cluster_size t = cluster_size s"
        using found(2) p1(3,4) by (simp_all add: moved_def settings_def)
      have ne: "trim_forward_block hw n new r t \<noteq> None" if "block_size s \<le> cluster_size s" "nat (e - a) < n"
      proof -
        have "nat (lsize r) < n" using sz(2) that(2) by linarith
        then show ?thesis using trim_forward_block_law(2) [OF ut] that(1) bc sz(1) by simp
      qed
      show ?thesis
        using trim_forward_block_law(1) [OF ut, of r n] far ne unfolding eq block_fine_def
        by (auto split: option.splits outcome.splits)
    qed
  qed
  then show "case trim_forward_turn hw n st msk new s of
      None \<Rightarrow> True
    | Some (Next t) \<Rightarrow> under_way hw disk a e new s0 t \<and> current_position s < current_position t
    | Some (Done t) \<Rightarrow> under_way hw disk a e new s0 t
    | Some (Stop ret t) \<Rightarrow> passed disk a e s0 ret t"
    "block_size s \<le> cluster_size s \<Longrightarrow> nat (e - a) < n \<Longrightarrow> trim_forward_turn hw n st msk new s \<noteq> None" by blast+
qed

lemma trim_reverse_turn_law:
  assumes "under_way hw disk a e new s0 s"
  shows "case trim_reverse_turn hw n st msk new adj s of
      None \<Rightarrow> True
    | Some (Next t) \<Rightarrow> under_way hw disk a e new s0 t
    | Some (Done t) \<Rightarrow> under_way hw disk a e new s0 t
    | Some (Stop ret t) \<Rightarrow> passed disk a e s0 ret t"
proof -
  obtain r1 s1 where h: "turn_head hw s = (r1, s1)" by fastforce
  have h1: "holds disk a e s s1" by (rule holds_keeps [OF under_way_ready [OF assms(1)] keeps_turn_head [OF h]])
  have u1: "under_way hw disk a e new s0 s1" by (rule under_way_moved [OF assms(1) holds_moved [OF h1]])
  have failed: "passed disk a e s0 r s1" if "r \<noteq> 0" for r
    using that passed_stopped [OF under_way_passed [OF u1]] by (simp add: passed_def)
  have up: "under_way hw disk a e new s0 (s1\<lparr>current_position := p\<rparr>)" for p
    by (rule under_way_moved [OF u1 moved_position [OF under_way_ready [OF u1]]])
  have block: "case trim_reverse_block hw n new r t of
      None \<Rightarrow> True
    | Some (Next t) \<Rightarrow> under_way hw disk a e new s0 t
    | Some (Done t) \<Rightarrow> under_way hw disk a e new s0 t
    | Some (Stop ret t) \<Rightarrow> passed disk a e s0 ret t" if "under_way hw disk a e new s0 t" for r t
    using trim_reverse_block_law [OF that, of r n] unfolding block_fine_def
    by (auto split: option.splits outcome.splits)
  show ?thesis
  proof (cases "r1 = 0")
    case False
    with h failed show ?thesis by (simp add: trim_reverse_turn_def)
  next
    case True
    have eq: "trim_reverse_turn hw n st msk new adj s = (case trim_locate_reverse adj st msk s1 of
        Inl out \<Rightarrow> Some out | Inr (r, s) \<Rightarrow> trim_reverse_block hw n new r s)"
      using h True by (simp add: trim_reverse_turn_def)
    have "trim_locate_reverse adj st msk s1 = Inl (Stop INTERNAL_ERROR_RETURN_CODE s1) \<or>
        (\<exists>t. trim_locate_reverse adj st msk s1 = Inl (Done t) \<and> under_way hw disk a e new s0 t) \<or>
        (\<exists>r t. trim_locate_reverse adj st msk s1 = Inr (r, t) \<and> under_way hw disk a e new s0 t)"
      using u1 up unfolding trim_locate_reverse_def Let_def by (simp split del: if_split split: if_splits)
    then show ?thesis
      unfolding eq using failed block by auto
  qed
qed

end
