(* ===== verification/Trim_Theorems.thy ===== *)
theory Trim_Theorems
  imports Trim_Pass
begin

text \<open>
  The theorems on the trim passes: neither reports a sector as finished that it has not copied,
  the forward pass ends, and the reverse pass hangs on a block shorter than the block size.
\<close>

section \<open>The forward pass\<close>

interpretation trim_fwd: pass_loop "\<lambda>s. current_position s < end_position s" "trim_forward_turn hw n st msk new" id
    "under_way hw disk a e new s0" "passed disk a e s0"
  for hw n disk a e new s0 st msk
proof
  fix s t :: "'a clone_env_scheme" and ret
  assume u: "under_way hw disk a e new s0 s"
  show "passed disk a e s0 0 (id s)" using under_way_passed [OF u] by simp
  assume lt: "current_position s < end_position s"
  note law = trim_forward_turn_law(1) [OF u lt, of n st msk]
  show "trim_forward_turn hw n st msk new s = Some (Next t) \<Longrightarrow> under_way hw disk a e new s0 t" using law by simp
  show "trim_forward_turn hw n st msk new s = Some (Done t) \<Longrightarrow> passed disk a e s0 0 (id t)"
    using law under_way_passed by simp
  show "trim_forward_turn hw n st msk new s = Some (Stop ret t) \<Longrightarrow> passed disk a e s0 ret t" using law by simp
qed

text \<open>The bound covers the loops within the blocks, too, when no block is longer than the log.\<close>

interpretation trim_fwd_ends: ending_loop "\<lambda>s. current_position s < end_position s" "trim_forward_turn hw n st msk new" id
    "\<lambda>s. under_way hw disk a e new s0 s \<and> block_size s0 \<le> cluster_size s0 \<and> nat (e - a) < n" "passed disk a e s0"
    "\<lambda>s. nat (end_position s - current_position s)"
  for hw n disk a e new s0 st msk
proof
  fix s t :: "'a clone_env_scheme" and ret
  assume i: "under_way hw disk a e new s0 s \<and> block_size s0 \<le> cluster_size s0 \<and> nat (e - a) < n"
  then have u: "under_way hw disk a e new s0 s" by simp
  then have bc: "block_size s \<le> cluster_size s" using i by (simp add: under_way_def moved_def settings_def)
  show "passed disk a e s0 0 (id s)" using under_way_passed [OF u] by simp
  assume lt: "current_position s < end_position s"
  note law = trim_forward_turn_law(1) [OF u lt, of n st msk]
  show "trim_forward_turn hw n st msk new s \<noteq> None" by (rule trim_forward_turn_law(2) [OF u lt bc]) (use i in simp)
  show "trim_forward_turn hw n st msk new s = Some (Next t) \<Longrightarrow>
      under_way hw disk a e new s0 t \<and> block_size s0 \<le> cluster_size s0 \<and> nat (e - a) < n" using law i by simp
  show "trim_forward_turn hw n st msk new s = Some (Next t) \<Longrightarrow>
      nat (end_position t - current_position t) < nat (end_position s - current_position s)"
    using law u lt by (simp add: under_way_def moved_def settings_def)
  show "trim_forward_turn hw n st msk new s = Some (Done t) \<Longrightarrow> passed disk a e s0 0 (id t)"
    using law under_way_passed by simp
  show "trim_forward_turn hw n st msk new s = Some (Stop ret t) \<Longrightarrow> passed disk a e s0 ret t" using law by simp
qed

lemma trim_forward_start:
  assumes "pass_ready hw disk a e s" "\<not> finished new"
  obtains (early) ret t where "trim_forward hw n st msk new s = Some (ret, t)" "passed disk a e s ret t"
  | (loop) t where "trim_forward hw n st msk new s = run_pass (\<lambda>s. current_position s < end_position s)
        (trim_forward_turn hw n st msk new) id n t" "under_way hw disk a e new s t"
      "current_position t = max (current_position s) (start_position s)" "end_position t = end_position s"
proof -
  define u where "u = s\<lparr>direction := FORWARD, current_position := max (current_position s) (start_position s)\<rparr>"
  obtain r t where b: "begin_pass hw (if driver_mode u \<noteq> 0 then LOG_UPDATE_TIME else 0) False u = (r, t)" by fastforce
  have t: "under_way hw disk a e new s t" "passed disk a e s r t" "current_position t = current_position u"
    by (rule pass_begin [OF assms(1,2) b]; simp add: u_def skip_ok_def skip_floor_def)+
  have eq: "trim_forward hw n st msk new s = (if drive_locked s then Some (INPUT_DEVICE_ERROR_RETURN_CODE, s)
      else if r \<noteq> 0 then Some (r, t)
      else run_pass (\<lambda>s. current_position s < end_position s) (trim_forward_turn hw n st msk new) id n t)"
    unfolding trim_forward_def Let_def u_def [symmetric] b prod.case ..
  have "passed disk a e s INPUT_DEVICE_ERROR_RETURN_CODE s"
    using passed_stopped [OF under_way_passed [OF pass_ready_under_way [OF assms(1,2)]]] by (simp add: passed_def)
  moreover have "current_position t = max (current_position s) (start_position s)" using t(3) by (simp add: u_def)
  moreover have "end_position t = end_position s" using t(1) by (simp add: under_way_def moved_def settings_def)
  ultimately show thesis using early loop t(1,2) eq by (cases "drive_locked s"; cases "r = 0") auto
qed

lemma trim_forward_passed:
  assumes "pass_ready hw disk a e s" "\<not> finished new" "trim_forward hw n st msk new s = Some (ret, t)"
  shows "passed disk a e s ret t"
  using assms(1,2)
proof (cases rule: trim_forward_start [where n = n and st = st and msk = msk])
  case (loop u)
  then have "run_pass (\<lambda>s. current_position s < end_position s) (trim_forward_turn hw n st msk new) id n u = Some (ret, t)"
    using assms(3) by simp
  then show ?thesis by (rule trim_fwd.returned [OF loop(2)])
qed (use assms(3) in auto)

text \<open>
  C5: the forward trim never reports a sector as finished that it has not copied, with all its
  marks: the chunks that fail, the rest of a block after a major error, and the part between the
  first error from either end.
\<close>

theorem trim_forward_intact:
  assumes "pass_ready hw disk a e s" "\<not> finished new" "trim_forward hw n st msk new s = Some (ret, t)"
  shows "tiles a (lines (log_table t)) e \<and>
    (\<forall>x st'. status_at (lines (log_table t)) x = Some st' \<and> finished st' \<longrightarrow>
       copied disk (t\<lparr>sector_size := sector_size s\<rparr>) x)"
  using passed_stopped [OF trim_forward_passed [OF assms]] by (simp add: stopped_def intact_def)

lemma trim_forward_terminates_rule:
  assumes "pass_ready hw disk a e s" "\<not> finished new" "block_size s \<le> cluster_size s"
    and "nat (end_position s - max (current_position s) (start_position s)) < n" "nat (e - a) < n"
  shows "\<exists>ret t. trim_forward hw n st msk new s = Some (ret, t)"
  using assms(1,2)
proof (cases rule: trim_forward_start [where n = n and st = st and msk = msk])
  case (loop u)
  have "\<exists>ret t. run_pass (\<lambda>s. current_position s < end_position s) (trim_forward_turn hw n st msk new) id n u = Some (ret, t)"
    by (rule trim_fwd_ends.returns [of hw disk a e new s u]) (use loop assms in simp_all)
  then show ?thesis unfolding loop(1) .
qed auto

text \<open>
  C6: the forward trim ends when its step is at least a block, as it is in the trimming phase: the
  loops from both ends of a block and the loop over the blocks all make progress.
\<close>

theorem trim_forward_terminates:
  assumes "pass_ready hw disk a e s" "\<not> finished new" "block_size s \<le> cluster_size s"
    and "nat (end_position s - max (current_position s) (start_position s)) < n" "nat (e - a) < n"
  shows "\<exists>ret t. trim_forward hw n st msk new s = Some (ret, t)"
  using assms by (rule trim_forward_terminates_rule)

section \<open>The reverse pass\<close>

interpretation trim_rev: pass_loop going "trim_reverse_turn hw n st msk new adj" id
    "under_way hw disk a e new s0" "passed disk a e s0"
  for going hw n disk a e new s0 st msk adj
proof
  fix s t :: "'a clone_env_scheme" and ret
  assume u: "under_way hw disk a e new s0 s"
  note law = trim_reverse_turn_law [OF u, of n st msk adj]
  show "passed disk a e s0 0 (id s)" using under_way_passed [OF u] by simp
  show "trim_reverse_turn hw n st msk new adj s = Some (Next t) \<Longrightarrow> under_way hw disk a e new s0 t" using law by simp
  show "trim_reverse_turn hw n st msk new adj s = Some (Done t) \<Longrightarrow> passed disk a e s0 0 (id t)"
    using law under_way_passed by simp
  show "trim_reverse_turn hw n st msk new adj s = Some (Stop ret t) \<Longrightarrow> passed disk a e s0 ret t" using law by simp
qed

lemma trim_reverse_passed:
  assumes "pass_ready hw disk a e s" "\<not> finished new" "trim_reverse hw n st msk new s = Some (ret, t)"
  shows "passed disk a e s ret t"
proof -
  define adj where "adj \<longleftrightarrow> current_position s \<ge> end_position s"
  define u where "u = s\<lparr>direction := REVERSE, current_position := (if adj then end_position s - 1 else current_position s)\<rparr>"
  define going where "going = (\<lambda>s :: 'a clone_env_scheme. current_position s > start_position s)"
  obtain r v where b: "begin_pass hw 0 False u = (r, v)" by fastforce
  have v: "under_way hw disk a e new s v" "passed disk a e s r v"
    by (rule pass_begin [OF assms(1,2) b]; simp add: u_def skip_ok_def skip_floor_def)+
  have eq: "trim_reverse hw n st msk new s = (if drive_locked s then Some (INPUT_DEVICE_ERROR_RETURN_CODE, s)
      else if r \<noteq> 0 then Some (r, v)
      else if going v then
        (case trim_reverse_turn hw n st msk new adj v of
           None \<Rightarrow> None
         | Some (Next s') \<Rightarrow> run_pass going (trim_reverse_turn hw n st msk new False) id n s'
         | Some (Done s') \<Rightarrow> Some (0, s')
         | Some (Stop ret s') \<Rightarrow> Some (ret, s'))
      else Some (0, v))"
    unfolding trim_reverse_def Let_def adj_def [symmetric] u_def [symmetric] b prod.case going_def [symmetric] ..
  have locked: "passed disk a e s INPUT_DEVICE_ERROR_RETURN_CODE s"
    using passed_stopped [OF under_way_passed [OF pass_ready_under_way [OF assms(1,2)]]] by (simp add: passed_def)
  show ?thesis
  proof (cases "drive_locked s \<or> r \<noteq> 0 \<or> \<not> going v")
    case True
    with eq assms(3) locked v(2) show ?thesis by (auto split: if_splits)
  next
    case False
    then obtain out where out: "trim_reverse_turn hw n st msk new adj v = Some out"
      using eq assms(3) by (cases "trim_reverse_turn hw n st msk new adj v") simp_all
    note law = trim_reverse_turn_law [OF v(1), of n st msk adj, unfolded out]
    show ?thesis
    proof (cases out)
      case (Next w)
      then have "under_way hw disk a e new s w" using law by simp
      moreover have "run_pass going (trim_reverse_turn hw n st msk new False) id n w = Some (ret, t)"
        using False eq assms(3) out Next by simp
      ultimately show ?thesis by (rule trim_rev.returned)
    next
      case (Done w)
      with False eq assms(3) out law under_way_passed show ?thesis by auto
    next
      case (Stop k w)
      with False eq assms(3) out law show ?thesis by simp
    qed
  qed
qed


section \<open>A hang of the reverse pass\<close>

text \<open>Nobody asks to stop, and the log can be written.\<close>

definition undisturbed :: "hardware \<Rightarrow> 'a clone_env_scheme \<Rightarrow> bool" where
  "undisturbed hw s \<longleftrightarrow> (\<forall>k. \<not> stop_asked hw k) \<and> (\<forall>k. write_log hw k = 0) \<and> \<not> stop_signal s"

lemma display_stop [simp]: "stop_signal (update_display hw ms s) = stop_signal s"
  by (simp add: update_display_def get_elapsed_usec_def ticked_def note_rate_def Let_def)

lemma undisturbed_head:
  assumes "undisturbed hw s"
  obtains t where "turn_head hw s = (0, t)" "keeps s t" "undisturbed hw t"
proof -
  define u where "u = poll_stop hw (update_display hw DISPLAY_UPDATE_TIME s)"
  have u: "undisturbed hw u" using assms by (simp add: u_def undisturbed_def poll_stop_def ticked_def)
  obtain r t where l: "update_logfile hw LOG_UPDATE_TIME u = (r, t)" by fastforce
  have "r = 0" "stop_signal t = stop_signal u"
    using l u by (auto simp: update_logfile_def get_elapsed_usec_def ticked_def undisturbed_def Let_def split: if_splits)
  moreover have h: "turn_head hw s = (r, t)" using l u by (simp add: turn_head_def u_def [symmetric] undisturbed_def Let_def)
  ultimately show thesis using that u keeps_turn_head [OF h] by (simp add: undisturbed_def)
qed

lemma undisturbed_begin:
  assumes "undisturbed hw s"
  obtains t where "begin_pass hw k False s = (0, t)" "keeps s t" "undisturbed hw t"
proof -
  define u where "u = poll_stop hw (update_display hw (if driver_mode s \<noteq> 0 then DISPLAY_UPDATE_TIME else 0) s)"
  have u: "undisturbed hw u" using assms by (simp add: u_def undisturbed_def poll_stop_def ticked_def)
  obtain r t where l: "update_logfile hw k u = (r, t)" by fastforce
  have "r = 0" "stop_signal t = stop_signal u"
    using l u by (auto simp: update_logfile_def get_elapsed_usec_def ticked_def undisturbed_def Let_def split: if_splits)
  moreover have "begin_pass hw k False s = (r, t)"
    using l u by (simp add: begin_pass_def u_def [symmetric] undisturbed_def Let_def)
  moreover have "keeps s u" unfolding u_def by (rule keeps_poll [OF keeps_update_display])
  then have "keeps s t" using keeps_update_logfile [OF l] by (rule keeps_trans)
  ultimately show thesis using that u by (simp add: undisturbed_def)
qed

text \<open>At a block that is shorter than a block of the settings.\<close>

definition at_short ::
  "nat \<Rightarrow> status_word \<Rightarrow> status_word \<Rightarrow> 'a clone_env_scheme \<Rightarrow> bool" where
  "at_short i st msk s \<longleftrightarrow> (let r = lines (log_table s) ! i in
     spaced 0 (lines (log_table s)) \<and> i < total_lines (log_table s) \<and> covers r (current_position s) \<and>
     lstatus r AND msk = st \<and> lsize r < block_size s \<and> start_position s < lposition r)"

lemma at_short_keeps: "keeps s t \<Longrightarrow> at_short i st msk t = at_short i st msk s"
  by (simp add: at_short_def keeps_def frame_def)

lemma short_block_turn:
  assumes "at_short i st msk s" "undisturbed hw s"
  obtains (out_of_fuel) "trim_reverse_turn hw n st msk new False s = None"
  | (again) t where "trim_reverse_turn hw n st msk new False s = Some (Next t)" "at_short i st msk t" "undisturbed hw t"
proof -
  obtain t where h: "turn_head hw s = (0, t)" "keeps s t" "undisturbed hw t" using assms(2) by (rule undisturbed_head)
  define r where "r = lines (log_table t) ! i"
  have at: "at_short i st msk t" using at_short_keeps [OF h(2)] assms(1) by simp
  then have r: "spaced 0 (lines (log_table t))" "i < total_lines (log_table t)" "covers r (current_position t)"
    "lstatus r AND msk = st" "lsize r < block_size t" "start_position t < lposition r"
    by (simp_all add: at_short_def r_def Let_def)
  have "find_block (current_position t) (log_table t) = int i"
    by (rule find_block_hit [OF r(1,2)]) (use r(3) in \<open>simp add: r_def\<close>)
  then have l: "trim_locate_reverse False st msk t = Inr (r, t\<lparr>current_position := lposition r\<rparr>)"
    using r(3,4,5) by (simp add: trim_locate_reverse_def Let_def r_def [symmetric] covers_def)
  define u where "u = t\<lparr>current_position := lposition r\<rparr>"
  define v where "v = u\<lparr>current_position := block_end (new_block r u) - block_size u\<rparr>"
  have nb: "block_start (new_block r u) = lposition r" "block_end (new_block r u) = lposition r + lsize r"
    "trim_success (new_block r u)" "major_error (new_block r u) = 0"
    by (simp_all add: new_block_def Let_def)
  have "\<not> trim_behind True (new_block r u, v)"
    using r(5) nb by (simp add: trim_behind_def v_def u_def)
  then have run: "run_pass (trim_behind True) (\<lambda>x. Some (trim_lead hw new (-1) x)) id n (new_block r u, v) =
      (if n = 0 then None else Some (0, new_block r u, v))"
    by (cases n) simp_all
  have blk: "trim_reverse_block hw n new r u = (if n = 0 then None else Some (Next (v\<lparr>current_position := lposition r\<rparr>)))"
    unfolding trim_reverse_block_def Let_def v_def [symmetric] run using nb by (simp add: trim_close_def Let_def)
  have eq: "trim_reverse_turn hw n st msk new False s = trim_reverse_block hw n new r u"
    using h(1) l by (simp add: trim_reverse_turn_def u_def)
  show thesis
  proof (cases "n = 0")
    case True
    with eq blk out_of_fuel show thesis by simp
  next
    case False
    have "0 < lsize r" using r(3) by (simp add: covers_def)
    then have "at_short i st msk (v\<lparr>current_position := lposition r\<rparr>)"
      using at r(2) by (simp add: at_short_def v_def u_def Let_def r_def covers_def)
    moreover have "undisturbed hw (v\<lparr>current_position := lposition r\<rparr>)"
      using h(3) by (simp add: undisturbed_def v_def u_def)
    ultimately show thesis using again False eq blk by simp
  qed
qed

lemma short_block_loop:
  "at_short i st msk s \<Longrightarrow> undisturbed hw s \<Longrightarrow>
   run_pass (\<lambda>s. current_position s > start_position s) (trim_reverse_turn hw k st msk new False) id n s = None"
proof (induction n arbitrary: s)
  case (Suc n)
  have "start_position s < current_position s"
    using Suc.prems(1) by (simp add: at_short_def covers_def Let_def)
  moreover from Suc.prems have "trim_reverse_turn hw k st msk new False s = None \<or>
      (\<exists>t. trim_reverse_turn hw k st msk new False s = Some (Next t) \<and> at_short i st msk t \<and> undisturbed hw t)"
    by (rule short_block_turn) auto
  ultimately show ?case using Suc.IH by auto
qed simp

text \<open>
  C9: the reverse trim never ends when it comes to a block of the wanted status that is shorter
  than a block of the settings: the loop from the end of the block does not run, nothing is
  marked, and the position is put to the start of the same block again.
\<close>

theorem trim_reverse_hangs_on_short_block:
  assumes "spaced 0 (lines (log_table s))" "i < total_lines (log_table s)"
    and "covers (lines (log_table s) ! i) (current_position s)" "lstatus (lines (log_table s) ! i) AND msk = st"
    and "lsize (lines (log_table s) ! i) < block_size s" "start_position s < lposition (lines (log_table s) ! i)"
    and "current_position s < end_position s" "\<not> drive_locked s" "undisturbed hw s"
  shows "trim_reverse hw n st msk new s = None"
proof -
  define u where "u = s\<lparr>direction := REVERSE, current_position := current_position s\<rparr>"
  have "at_short i st msk u" "undisturbed hw u"
    using assms by (simp_all add: u_def at_short_def undisturbed_def)
  moreover obtain t where b: "begin_pass hw 0 False u = (0, t)" "keeps u t" "undisturbed hw t"
    using undisturbed_begin calculation(2) by blast
  ultimately have t: "at_short i st msk t" "undisturbed hw t" using at_short_keeps by blast+
  have going: "start_position t < current_position t" using t(1) by (simp add: at_short_def covers_def Let_def)
  have eq: "trim_reverse hw n st msk new s = (case trim_reverse_turn hw n st msk new False t of
      None \<Rightarrow> None
    | Some (Next s') \<Rightarrow> run_pass (\<lambda>s. current_position s > start_position s) (trim_reverse_turn hw n st msk new False) id n s'
    | Some (Done s') \<Rightarrow> Some (0, s')
    | Some (Stop ret s') \<Rightarrow> Some (ret, s'))"
    using assms(7,8) b(1) going by (simp add: trim_reverse_def Let_def u_def [symmetric])
  from t have "trim_reverse_turn hw n st msk new False t = None \<or>
      (\<exists>s'. trim_reverse_turn hw n st msk new False t = Some (Next s') \<and> at_short i st msk s' \<and> undisturbed hw s')"
    by (rule short_block_turn) auto
  then show ?thesis using eq short_block_loop by auto
qed

section \<open>Witnesses\<close>

lemma demo_new: "\<not> finished NONSCRAPED"
  by (simp add: finished_def status_consts)

lemma demo_steps: "block_size (demo_pass_env\<lparr>cluster_size := 8\<rparr>) \<le> cluster_size (demo_pass_env\<lparr>cluster_size := 8\<rparr>)"
  by (simp add: demo_pass_env_def demo_clone_defs)

lemma copied_cluster [simp]: "copied disk (s\<lparr>cluster_size := c\<rparr>) x = copied disk s x"
  by (simp add: copied_def output_size_def target_byte_def write_position_def)

lemma demo_trim_ready: "pass_ready demo_hw demo_disk 0 100 (demo_pass_env\<lparr>cluster_size := 8\<rparr>)"
proof -
  have "calm demo_hw demo_disk (demo_pass_env\<lparr>cluster_size := 8\<rparr>)"
    using demo_pass_ready by (simp add: pass_ready_def calm_def sane_def output_size_def one_mode_def)
  moreover have "ready demo_disk 0 100 (demo_pass_env\<lparr>cluster_size := 8\<rparr>)"
    using demo_pass_ready by (simp add: pass_ready_def ready_def safe_def intact_def skip_ok_def skip_floor_def)
  ultimately show ?thesis using demo_pass_ready by (simp add: pass_ready_def)
qed

lemma trim_forward_terminates_witness:
  "\<exists>ret t. trim_forward demo_hw 101 0 STATUS_MASK NONSCRAPED (demo_pass_env\<lparr>cluster_size := 8\<rparr>) = Some (ret, t)"
  using trim_forward_terminates [OF demo_trim_ready demo_new demo_steps, of 101 0 STATUS_MASK] by (simp add: demo_pass_bounds)

lemma trim_forward_intact_witness:
  "\<exists>ret t. trim_forward demo_hw 101 0 STATUS_MASK NONSCRAPED (demo_pass_env\<lparr>cluster_size := 8\<rparr>) = Some (ret, t) \<and>
     tiles 0 (lines (log_table t)) 100"
proof -
  obtain ret t where "trim_forward demo_hw 101 0 STATUS_MASK NONSCRAPED (demo_pass_env\<lparr>cluster_size := 8\<rparr>) = Some (ret, t)"
    using trim_forward_terminates_rule [OF demo_trim_ready demo_new demo_steps, of 101 0 STATUS_MASK]
    by (auto simp: demo_pass_bounds)
  with trim_forward_intact [OF demo_trim_ready demo_new this] show ?thesis by blast
qed


definition demo_short_env :: clone_env where
  "demo_short_env = (demo_clone_env [mk_row 0 10 FINISHED, mk_row 10 4 NONTRIMMED, mk_row 14 86 FINISHED] 100)
     \<lparr>current_position := 12\<rparr>"

lemma trim_reverse_hangs_on_short_block_witness:
  "trim_reverse demo_hw 1000 NONTRIMMED STATUS_MASK NONSCRAPED demo_short_env = None"
proof -
  let ?s = demo_short_env
  have l: "lines (log_table ?s) = [mk_row 0 10 FINISHED, mk_row 10 4 NONTRIMMED, mk_row 14 86 FINISHED]"
    by (simp add: demo_short_env_def demo_clone_defs demo_table_def)
  have "spaced 0 (lines (log_table ?s))" "1 < total_lines (log_table ?s)" "covers (lines (log_table ?s) ! 1) (current_position ?s)"
    "lstatus (lines (log_table ?s) ! 1) AND STATUS_MASK = NONTRIMMED"
    by (simp_all add: l mk_row_def covers_def status_consts) (simp_all add: demo_short_env_def)
  moreover have "lsize (lines (log_table ?s) ! 1) < block_size ?s" "start_position ?s < lposition (lines (log_table ?s) ! 1)"
    "current_position ?s < end_position ?s" "\<not> drive_locked ?s" "undisturbed demo_hw ?s"
    by (simp_all add: l mk_row_def) (simp_all add: demo_short_env_def demo_clone_defs undisturbed_def demo_hw_def)
  ultimately show ?thesis by (rule trim_reverse_hangs_on_short_block)
qed

end
