(* ===== verification/Reverse_Pass.thy ===== *)
theory Reverse_Pass
  imports Under_Way
begin

text \<open>The reverse pass keeps the promise of the forward one: nothing is finished that is not copied.\<close>

lemma locate_reverse_cases:
  assumes "ready disk a e s" "locate_reverse adj st msk s = res"
  obtains (stop) r where "res = Inl (Stop r s)" "r \<noteq> 0"
  | (over) t where "res = Inl (Done t)" "moved disk a e s t"
  | (found) r t where "res = Inr (r, t)" "moved disk a e s t"
proof -
  have m: "moved disk a e s s" "\<And>p. moved disk a e s (s\<lparr>current_position := p\<rparr>)"
    using holds_moved [OF holds_refl [OF assms(1)]] moved_position [OF assms(1)] by blast+
  have "(\<exists>r. res = Inl (Stop r s) \<and> r \<noteq> 0) \<or> (\<exists>t. res = Inl (Done t) \<and> moved disk a e s t) \<or>
      (\<exists>r t. res = Inr (r, t) \<and> moved disk a e s t)"
    unfolding assms(2) [symmetric] locate_reverse_def Let_def using m by (simp split del: if_split split: if_splits)
  then show thesis using stop over found by blast
qed

lemma reverse_failure_fine:
  assumes "ready disk a e s" "calm hw disk s" "\<not> finished new" "0 < n" "n \<le> cluster_size s"
  shows "turn_fine disk a e False s (reverse_failure hw new retstat n s)"
proof -
  define s1 where "s1 = s\<lparr>rate_modifier := rate_modifier s + cdiv (n * sector_size s) (cluster_size s)\<rparr>"
  define info where "info = skip_info_of (uint REVERSE_SKIP) s1"
  obtain bad s2 where q: "ncq_stage hw (retstat = 0 \<and> use_fpdma s1) s1 = (bad, s2)" by fastforce
  have h2: "holds disk a e s s2"
    using holds_keeps [OF assms(1)] keeps_trans [OF _ keeps_ncq_stage [OF q], of s] by (simp add: s1_def)
  obtain r3 s3 where t: "(if chunk_processable retstat n (ata_aligned s1) s2
      then process_chunk hw new retstat n info s2 else plain_failure hw new retstat n info s2) = (r3, s3)" by fastforce
  have c2: "calm hw disk s2" and "n \<le> cluster_size s2"
    using calm_holds [OF h2] assms(2,5) h2 by (simp_all add: holds_def settings_def)
  then have "served disk a e s2 (r3, s3)"
    using process_chunk_served [OF holds_ready [OF h2] c2 assms(3), of n]
      plain_failure_served [OF holds_ready [OF h2] assms(4,3)]
    unfolding t [symmetric] by (auto simp: chunk_processable_def)
  then have sv: "served disk a e s (r3, s3)" by (rule served_holds [OF h2])
  define skip where "skip = (if skip_enabled s3 then error_skip jump_reverse s3 else (0, s3))"
  obtain r4 s4 where k: "skip = (r4, s4)" by fastforce
  obtain r5 s5 where d: "device_stage hw retstat s4 = (r5, s5)" by fastforce
  have eq: "reverse_failure hw new retstat n s =
      (if r3 \<noteq> 0 then Stop r3 s3 else if r4 \<noteq> 0 then Stop r4 s4 else if r5 \<noteq> 0 then Stop r5 s5
       else Next (restore_ata (sense s) s5))"
    unfolding reverse_failure_def Let_def s1_def [symmetric] info_def [symmetric] q prod.case t skip_def [symmetric] k d ..
  show ?thesis
  proof (cases "r3 = 0")
    case False
    with sv eq show ?thesis by (simp add: served_def)
  next
    case r3: True
    with sv have h3: "holds disk a e s s3" by (simp add: served_def)
    have "went disk a e jump_reverse s3 (r4, s4)"
      using error_skip_went [OF holds_ready [OF h3] skipper_jumps(2)] holds_went [OF holds_refl [OF holds_ready [OF h3]]]
      unfolding k [symmetric] skip_def by simp
    then have w: "went disk a e jump_reverse s (r4, s4)" by (rule went_holds [OF h3])
    show ?thesis
    proof (cases "r4 = 0")
      case False
      with w r3 eq show ?thesis by (simp add: went_def)
    next
      case r4: True
      with w have m4: "moved disk a e s s4" by (simp add: went_def)
      have h5: "holds disk a e s4 s5" by (rule holds_keeps [OF moved_ready [OF m4] keeps_device_stage [OF d]])
      have "holds disk a e s4 (restore_ata (sense s) s5)"
        by (rule holds_trans [OF h5 holds_keeps [OF holds_ready [OF h5]]]) simp
      then have "moved disk a e s (restore_ata (sense s) s5)" using moved_trans [OF m4 holds_moved] by blast
      moreover have "stopped disk a e s s5" using moved_stopped [OF m4 holds_stopped [OF h5]] .
      ultimately show ?thesis using r3 r4 eq by simp
    qed
  qed
qed

lemma reverse_read_fine:
  assumes "ready disk a e s" "calm hw disk s" "\<not> finished new" "0 < n" "n \<le> cluster_size s"
  shows "turn_fine disk a e False s (reverse_read hw new n s)"
proof -
  define s1 where "s1 = note_retry n s"
  have h1: "holds disk a e s s1" unfolding s1_def by (rule holds_keeps [OF assms(1)]) simp
  obtain r t where rd: "read_chunk hw (current_position s1) n s1 = (r, t)" by fastforce
  define u where "u = poll_stop hw t"
  have c1: "calm hw disk s1" using calm_holds [OF h1] assms(2) by simp
  note rh = read_holds [OF holds_ready [OF h1] c1 rd, folded u_def]
  have hu: "holds disk a e s u" by (rule holds_trans [OF h1 rh(1)])
  then have u: "ready disk a e u" "current_position u = current_position s" "cluster_size u = cluster_size s"
    by (simp_all add: holds_def settings_def)
  have cu: "calm hw disk u" using calm_holds [OF hu] assms(2) by simp
  obtain r2 v where g: "good_read hw (uint REVERSE_SKIP) jump_reverse n u = (r2, v)" by fastforce
  have eq: "reverse_read hw new n s =
      (if stop_signal u then Stop STOP_SIGNAL_RETURN_CODE u
       else if read_good r u then if r2 \<noteq> 0 then Stop r2 v else Next v
       else reverse_failure hw new r n u)"
    unfolding reverse_read_def Let_def s1_def [symmetric] rd prod.case u_def [symmetric] g ..
  have "turn_fine disk a e False u (if r2 \<noteq> 0 then Stop r2 v else Next v)" if "read_good r u"
  proof -
    have "has_chunk disk (current_position u) n u" using rh(2) [OF that] h1 u(2) by (simp add: holds_def)
    from good_read_went [OF u(1) cu assms(4) this skipper_jumps(2), of "uint REVERSE_SKIP", unfolded g]
    show ?thesis by (cases "r2 = 0") (simp_all add: went_def)
  qed
  moreover have "turn_fine disk a e False u (reverse_failure hw new r n u)"
    using reverse_failure_fine [OF u(1) cu assms(3,4)] u(3) assms(5) by simp
  moreover have "stopped disk a e u u" by (rule holds_stopped [OF holds_refl [OF u(1)]])
  ultimately have "turn_fine disk a e False u (reverse_read hw new n s)" unfolding eq by simp
  then show ?thesis by (rule turn_fine_holds [OF hu])
qed

lemma turn_fine_went: "moved disk a e s t \<Longrightarrow> turn_fine disk a e False t out \<Longrightarrow> turn_fine disk a e False s out"
  using moved_trans moved_stopped by (cases out) fastforce+

lemma reverse_chunk_fine:
  assumes "ready disk a e s" "calm hw disk s" "\<not> finished new" "n \<le> cluster_size s"
    and "spaced d (lines (domain_table s))"
  shows "turn_fine disk a e False s (reverse_chunk hw new n s)"
proof -
  define outside where
    "outside = (\<lambda>s :: 'a clone_env_scheme. s\<lparr>current_position := max (current_position s - n) (start_position s)\<rparr>)"
  obtain res t where ds: "domain_stage outside n s = (res, t)" by fastforce
  have eq: "reverse_chunk hw new n s = (case res of Inl ret \<Rightarrow> Stop ret t
      | Inr k \<Rightarrow> if k > 0 then reverse_read hw new k t else Next t)"
    unfolding reverse_chunk_def Let_def outside_def [symmetric] ds prod.case ..
  show ?thesis
  proof (cases "0 < n")
    case False
    then have "res = Inr n" "t = s" using ds by (simp_all add: domain_stage_def)
    with False eq holds_moved [OF holds_refl [OF assms(1)]] show ?thesis by simp
  next
    case True
    have sp: "\<not> do_domain s \<or> spaced d (lines (domain_table s))" using assms(5) by simp
    show ?thesis using ds True sp
    proof (cases rule: domain_stage_cases)
      case (out p)
      then have "moved disk a e s t" using moved_position [OF assms(1)] by (simp add: outside_def)
      then show ?thesis using eq out(1) by simp
    next
      case (part k p)
      have m: "moved disk a e s t" using moved_position [OF assms(1)] part(2) by simp
      have "k \<le> cluster_size s" using part(5) assms(4) by linarith
      then have "turn_fine disk a e False t (reverse_read hw new k t)"
        by (intro reverse_read_fine) (use moved_ready [OF m] calm_moved [OF m] part assms(2,3) in simp_all)
      from turn_fine_went [OF m this] show ?thesis using eq part by simp
    qed
  qed
qed

lemma reverse_turn_fine:
  assumes "ready disk a e s" "calm hw disk s" "\<not> finished new" "spaced d (lines (domain_table s))"
  shows "turn_fine disk a e False s (reverse_turn hw st msk new adj s)"
proof -
  obtain r1 s1 where h: "turn_head hw s = (r1, s1)" by fastforce
  obtain r2 s2 where sl: "slow_exit hw s1 = (r2, s2)" by fastforce
  have h1: "holds disk a e s s1" by (rule holds_keeps [OF assms(1) keeps_turn_head [OF h]])
  have h2: "holds disk a e s s2"
    by (rule holds_trans [OF h1 holds_keeps [OF holds_ready [OF h1] keeps_slow_exit [OF sl]]])
  have r2: "ready disk a e s2" and c2: "calm hw disk s2" and d2: "domain_table s2 = domain_table s"
    using h2 calm_holds [OF h2] assms(2) by (simp_all add: holds_def settings_def)
  have jump: "moved disk a e s2 (rate_jump_reverse s2)"
    by (rule moved_same [OF r2]; simp add: rate_jump_reverse_def count_rate_skip_def Let_def pass_frame_def settings_def
        skip_ok_def skip_floor_def)
  define step where "step = (\<lambda>(r, s :: 'a clone_env_scheme). reverse_chunk hw new (fit_reverse r s)
          (if current_position s < last_skip_position s - min_skip_size s then reset_skip s else s))"
  have go: "turn_fine disk a e False s2 (case locate_reverse adj st msk s2 of Inl out \<Rightarrow> out | Inr x \<Rightarrow> step x)"
  proof -
    obtain res where l: "locate_reverse adj st msk s2 = res" by blast
    show ?thesis using r2 l
    proof (cases rule: locate_reverse_cases)
      case (stop r)
      then show ?thesis using l holds_stopped [OF holds_refl [OF r2]] by simp
    next
      case (over t)
      then show ?thesis using l by simp
    next
      case (found r t)
      define u where "u = (if current_position t < last_skip_position t - min_skip_size t then reset_skip t else t)"
      have h: "holds disk a e t u"
        using reset_skip_holds [OF moved_ready [OF found(2)]] holds_refl [OF moved_ready [OF found(2)]]
        by (simp add: u_def)
      have m: "moved disk a e s2 u" by (rule moved_trans [OF found(2) holds_moved [OF h]])
      have u: "cluster_size u = cluster_size t" "domain_table u = domain_table s2" "calm hw disk u"
        using h m calm_moved [OF m] c2 by (simp_all add: holds_def moved_def settings_def)
      have "fit_reverse r t \<le> cluster_size t" by (simp add: fit_reverse_def Let_def)
      then have "turn_fine disk a e False u (reverse_chunk hw new (fit_reverse r t) u)"
        by (intro reverse_chunk_fine) (use moved_ready [OF m] u assms(3,4) d2 in simp_all)
      from turn_fine_went [OF m this] show ?thesis using found l by (simp add: u_def [symmetric] step_def)
    qed
  qed
  have "stopped disk a e s s1" "stopped disk a e s s2" using holds_stopped h1 h2 by blast+
  moreover have "turn_fine disk a e False s (Next (rate_jump_reverse s2))"
    by (rule turn_fine_holds [OF h2]) (use jump in simp)
  moreover note turn_fine_holds [OF h2 go]
  ultimately show ?thesis
    unfolding reverse_turn_def Let_def h sl prod.case step_def [symmetric] by simp
qed

interpretation reverse: pass_loop more_reverse "\<lambda>s. Some (reverse_turn hw st msk new adj s)" reset_skip
    "under_way hw disk a e new s0" "passed disk a e s0"
  for hw disk a e new s0 st msk adj
proof -
  have f: "turn_fine disk a e False s (reverse_turn hw st msk new adj s)" if u: "under_way hw disk a e new s0 s"
    for s :: "'a clone_env_scheme"
  proof -
    obtain d where d: "spaced d (lines (domain_table s))" using u by (auto simp: under_way_def)
    show ?thesis
      by (rule reverse_turn_fine [OF under_way_ready [OF u] _ _ d]) (use u in \<open>simp_all add: under_way_def\<close>)
  qed
  show "pass_loop more_reverse (\<lambda>s. Some (reverse_turn hw st msk new adj s)) reset_skip (under_way hw disk a e new s0) (passed disk a e s0)"
  proof
    fix s t :: "'a clone_env_scheme" and ret
    assume u: "under_way hw disk a e new s0 s"
    show "passed disk a e s0 0 (reset_skip s)" by (rule under_way_reset [OF u])
    show "Some (reverse_turn hw st msk new adj s) = Some (Next t) \<Longrightarrow> under_way hw disk a e new s0 t"
      by (rule turn_next_law [OF u f [OF u]]) simp
    show "Some (reverse_turn hw st msk new adj s) = Some (Done t) \<Longrightarrow> passed disk a e s0 0 (reset_skip t)"
      by (rule under_way_reset [OF turn_done_law [OF u f [OF u]]]) simp
    show "Some (reverse_turn hw st msk new adj s) = Some (Stop ret t) \<Longrightarrow> passed disk a e s0 ret t"
      by (rule turn_stop_law [OF u f [OF u]]) simp
  qed
qed

lemma copy_reverse_passed:
  assumes "pass_ready hw disk a e s" "\<not> finished new" "copy_reverse hw n st msk new s = Some (ret, t)"
  shows "passed disk a e s ret t"
proof -
  define adj where "adj \<longleftrightarrow> current_position s \<ge> end_position s"
  define u where "u = s\<lparr>direction := REVERSE, current_position := (if adj then end_position s - 1 else current_position s)\<rparr>"
  obtain r v where b: "begin_pass hw 0 True u = (r, v)" by fastforce
  have v: "under_way hw disk a e new s v" "passed disk a e s r v"
    by (rule pass_begin [OF assms(1,2) b]; simp add: u_def skip_ok_def skip_floor_def)+
  have eq: "copy_reverse hw n st msk new s = (if drive_locked s then Some (INPUT_DEVICE_ERROR_RETURN_CODE, s)
      else if r \<noteq> 0 then Some (r, v)
      else if more_reverse v then
        (case reverse_turn hw st msk new adj v of
           Next s' \<Rightarrow> run_pass more_reverse (\<lambda>s. Some (reverse_turn hw st msk new False s)) reset_skip n s'
         | Done s' \<Rightarrow> Some (0, reset_skip s')
         | Stop ret s' \<Rightarrow> Some (ret, s'))
      else Some (0, reset_skip v))"
    unfolding copy_reverse_def Let_def adj_def [symmetric] u_def [symmetric] b prod.case ..
  have locked: "passed disk a e s INPUT_DEVICE_ERROR_RETURN_CODE s"
    using passed_stopped [OF under_way_passed [OF pass_ready_under_way [OF assms(1,2)]]] by (simp add: passed_def)
  have over: "passed disk a e s 0 (reset_skip v)" by (rule under_way_reset [OF v(1)])
  note laws = reverse.turn_next [OF v(1)] reverse.turn_done [OF v(1)] reverse.turn_stop [OF v(1)]
  show ?thesis
  proof (cases "drive_locked s \<or> r \<noteq> 0 \<or> \<not> more_reverse v")
    case True
    with eq assms(3) locked v(2) over show ?thesis by (auto split: if_splits)
  next
    case False
    then have g: "more_reverse v" and eq: "copy_reverse hw n st msk new s =
        (case reverse_turn hw st msk new adj v of
           Next s' \<Rightarrow> run_pass more_reverse (\<lambda>s. Some (reverse_turn hw st msk new False s)) reset_skip n s'
         | Done s' \<Rightarrow> Some (0, reset_skip s') | Stop ret s' \<Rightarrow> Some (ret, s'))" using eq by simp_all
    show ?thesis
    proof (cases "reverse_turn hw st msk new adj v")
      case (Next w)
      with eq assms(3) have "run_pass more_reverse (\<lambda>s. Some (reverse_turn hw st msk new False s)) reset_skip n w = Some (ret, t)" by simp
      then show ?thesis by (rule reverse.returned [OF laws(1) [OF g arg_cong [OF Next, of Some]]])
    next
      case (Done w)
      with eq assms(3) laws(2) [OF g arg_cong [OF Done, of Some]] show ?thesis by simp
    next
      case (Stop k w)
      with eq assms(3) laws(3) [OF g arg_cong [OF Stop, of Some]] show ?thesis by simp
    qed
  qed
qed

end
