(* ===== verification/Clone_Safety.thy ===== *)
theory Clone_Safety
  imports Clone_Phases Trim_Theorems Reverse_Pass
begin

text \<open>
  The recovery as a whole: whatever the phases do and wherever they stop, no sector is finished
  that has not been copied.  The locale \<open>sound_passes\<close> is the contract between the sequence of
  the phases and the passes it runs.
\<close>

section \<open>Between the phases\<close>

lemma more_cluster: "clone_env.more u = clone_env.more t \<Longrightarrow> original_cluster_size u = original_cluster_size t"
  by (cases u rule: phase_env.cases_scheme; cases t rule: phase_env.cases_scheme) simp

definition clone_ready ::
  "hardware \<Rightarrow> (int \<Rightarrow> 8 word) \<Rightarrow> int \<Rightarrow> int \<Rightarrow> 'a phase_env_scheme \<Rightarrow> bool" where
  "clone_ready hw disk a e s \<longleftrightarrow> pass_ready hw disk a e (s\<lparr>cluster_size := original_cluster_size s\<rparr>) \<and>
     0 \<le> start_position s \<and> block_size s < 2 ^ 31"

text \<open>What a change of the settings between the phases may touch.\<close>

definition retuned :: "(int \<Rightarrow> 8 word) \<Rightarrow> 'a phase_env_scheme \<Rightarrow> 'a phase_env_scheme \<Rightarrow> bool" where
  "retuned disk s t \<longleftrightarrow> log_table t = log_table s \<and> (\<forall>x. copied disk t x = copied disk s x) \<and>
     (skip_ok s \<and> skip_floor s \<longrightarrow> skip_ok t \<and> skip_floor t) \<and>
     (domain_table t, start_position t, sector_size t, output_sector_size_adjustment t) =
     (domain_table s, start_position s, sector_size s, output_sector_size_adjustment s) \<and>
     (block_size t, block_offset t, generic_mode t, scsi_passthrough t, ata_passthrough t, original_min_skip_size t) =
     (block_size s, block_offset s, generic_mode s, scsi_passthrough s, ata_passthrough s, original_min_skip_size s) \<and>
     original_cluster_size t = original_cluster_size s \<and>
     (current_status s \<noteq> REBUILDASSIST \<longrightarrow> current_status t \<noteq> REBUILDASSIST)"

lemma retuned_trans: "retuned disk s t \<Longrightarrow> retuned disk t u \<Longrightarrow> retuned disk s u"
  by (simp add: retuned_def)

lemma retuned_refl [simp]: "retuned disk s s"
  by (simp add: retuned_def)

lemma pass_ready_retuned:
  assumes "clone_ready hw disk a e s" "retuned disk s t" "0 < cluster_size t" "cluster_size t < 2 ^ 31"
  shows "pass_ready hw disk a e t"
proof -
  have r: "ready disk a e (s\<lparr>cluster_size := original_cluster_size s\<rparr>)" "calm hw disk (s\<lparr>cluster_size := original_cluster_size s\<rparr>)"
    "\<exists>d. spaced d (lines (domain_table s))" using assms(1) by (simp_all add: clone_ready_def pass_ready_def)
  have "ready disk a e s"
    using r(1) by (simp add: ready_def safe_def intact_def skip_ok_def skip_floor_def)
  then have "ready disk a e t" using assms(2) by (simp add: retuned_def ready_def safe_def intact_def)
  moreover have "calm hw disk t"
    using r(2) assms(2-4) by (simp add: retuned_def calm_def sane_def output_size_def one_mode_def)
  ultimately show ?thesis using r(3) assms(2) by (simp add: pass_ready_def retuned_def)
qed

lemma clone_ready_retuned:
  assumes "clone_ready hw disk a e s" "retuned disk s t"
  shows "clone_ready hw disk a e t"
proof -
  have "0 < original_cluster_size s" "original_cluster_size s < 2 ^ 31"
    using assms(1) by (simp_all add: clone_ready_def pass_ready_def calm_def sane_def)
  moreover have "original_cluster_size t = original_cluster_size s" using assms(2) by (simp add: retuned_def)
  moreover have "retuned disk t (t\<lparr>cluster_size := original_cluster_size t\<rparr>)"
    by (simp add: retuned_def skip_ok_def skip_floor_def)
  ultimately have "pass_ready hw disk a e (t\<lparr>cluster_size := original_cluster_size t\<rparr>)"
    by (intro pass_ready_retuned [OF assms(1) retuned_trans [OF assms(2)]]) simp_all
  moreover have "0 \<le> start_position t" "block_size t < 2 ^ 31"
    using assms by (simp_all add: clone_ready_def retuned_def)
  ultimately show ?thesis by (simp add: clone_ready_def)
qed

lemma copied_small [simp]:
  "copied disk (s\<lparr>skip_enabled := b\<rparr>) x = copied disk s x" "copied disk (s\<lparr>skip_size := n\<rparr>) x = copied disk s x"
  "copied disk (s\<lparr>soft_reset_time := n\<rparr>) x = copied disk s x" "copied disk (s\<lparr>current_position := n\<rparr>) x = copied disk s x"
  "copied disk (s\<lparr>current_status := st\<rparr>) x = copied disk s x" "copied disk (s\<lparr>min_skip_size := n\<rparr>) x = copied disk s x"
  "copied disk (s\<lparr>retried_lba_count := n\<rparr>) x = copied disk s x" "copied disk (s\<lparr>rebuild_assist := b\<rparr>) x = copied disk s x"
  "copied disk (s\<lparr>log_tally := ty\<rparr>) x = copied disk s x" "copied disk (s\<lparr>last_finished_value := n\<rparr>) x = copied disk s x"
  by (simp_all add: copied_def output_size_def target_byte_def write_position_def)

lemma copied_retries [simp]: "copied disk (s\<lparr>retries := n\<rparr>) x = copied disk s x"
  by (simp add: copied_def output_size_def target_byte_def write_position_def)

lemma retuned_tune: "retuned disk s (tune c skip st s)"
  by (simp add: retuned_def tune_def set_soft_timer_def skip_ok_def skip_floor_def)

lemma cluster_tune [simp]: "cluster_size (tune c skip st s) = c"
  by (simp add: tune_def set_soft_timer_def)

lemma retuned_position [simp]:
  "retuned disk s (s\<lparr>current_position := p\<rparr>)" "retuned disk s (to_start s)" "retuned disk s (to_end s)" "retuned disk s (to_last s)"
  by (simp_all add: retuned_def to_start_def to_end_def to_last_def skip_ok_def skip_floor_def)

lemma retuned_status [simp]: "st \<noteq> REBUILDASSIST \<Longrightarrow> retuned disk s (s\<lparr>current_status := st\<rparr>)"
  by (simp add: retuned_def skip_ok_def skip_floor_def)

lemma retuned_counts [simp]:
  "retuned disk s (s\<lparr>retried_lba_count := n\<rparr>)" "retuned disk s (s\<lparr>retries := n\<rparr>)"
  by (simp_all add: retuned_def skip_ok_def skip_floor_def)

section \<open>The contract of the passes\<close>

definition sound_pass ::
  "hardware \<Rightarrow> (int \<Rightarrow> 8 word) \<Rightarrow> int \<Rightarrow> int \<Rightarrow> ('a clone_env_scheme \<Rightarrow> (int \<times> 'a clone_env_scheme) option) \<Rightarrow> bool" where
  "sound_pass hw disk a e pass \<longleftrightarrow> (\<forall>s ret t. pass_ready hw disk a e s \<longrightarrow> 0 \<le> start_position s \<longrightarrow>
     pass s = Some (ret, t) \<longrightarrow> passed disk a e s ret t)"

text \<open>Where the sequence of phases stands: after an error only what is finished counts.\<close>

definition recovering ::
  "hardware \<Rightarrow> (int \<Rightarrow> 8 word) \<Rightarrow> int \<Rightarrow> int \<Rightarrow> int \<Rightarrow> 'a progress \<Rightarrow> bool" where
  "recovering hw disk a e ss = (\<lambda>(ret, rollover, s).
     if ret = 0 then clone_ready hw disk a e s \<and> sector_size s = ss
     else tiles a (lines (log_table s)) e \<and> intact disk (s\<lparr>sector_size := ss\<rparr>))"

lemma recovering_stopped:
  assumes "clone_ready hw disk a e s" "sector_size s = ss"
  shows "tiles a (lines (log_table s)) e \<and> intact disk (s\<lparr>sector_size := ss\<rparr>)"
proof -
  have "s\<lparr>sector_size := ss\<rparr> = s" using assms(2) by simp
  then show ?thesis using assms(1) by (simp add: clone_ready_def pass_ready_def ready_def safe_def intact_def)
qed

lemma recovering_retuned:
  assumes "recovering hw disk a e ss (0, roll, s)" "retuned disk s t"
  shows "recovering hw disk a e ss (0, roll', t)"
proof -
  have "clone_ready hw disk a e s" "sector_size s = ss" using assms(1) by (simp_all add: recovering_def)
  with clone_ready_retuned [OF this(1) assms(2)] assms(2) show ?thesis by (simp add: recovering_def retuned_def)
qed

lemma after_pass:
  assumes "clone_ready hw disk a e s" "sector_size s = ss" "retuned disk s t" "0 < cluster_size t" "cluster_size t < 2 ^ 31"
    and "sound_pass hw disk a e pass" "pass t = Some (ret, u)"
  shows "if ret = 0 then clone_ready hw disk a e u \<and> sector_size u = ss \<and> current_status u = current_status t
    else tiles a (lines (log_table u)) e \<and> intact disk (u\<lparr>sector_size := ss\<rparr>)"
proof -
  have pt: "pass_ready hw disk a e t" by (rule pass_ready_retuned [OF assms(1,3-5)])
  have st: "0 \<le> start_position t" "sector_size t = ss" "block_size t < 2 ^ 31"
    using assms(1-3) by (simp_all add: clone_ready_def retuned_def)
  have p: "passed disk a e t ret u" using assms(6,7) pt st(1) unfolding sound_pass_def by blast
  show ?thesis
  proof (cases "ret = 0")
    case True
    with p have m: "moved disk a e t u" by (simp add: passed_def)
    have more: "original_cluster_size u = original_cluster_size t"
      by (rule more_cluster) (use m in \<open>simp add: moved_def settings_def\<close>)
    have ot: "0 < original_cluster_size t" "original_cluster_size t < 2 ^ 31"
      using assms(1,3) by (simp_all add: clone_ready_def pass_ready_def calm_def sane_def retuned_def)
    have "ready disk a e (u\<lparr>cluster_size := original_cluster_size u\<rparr>)"
      using moved_ready [OF m] by (simp add: ready_def safe_def intact_def skip_ok_def skip_floor_def)
    moreover have "calm hw disk u" using calm_moved [OF m] pt by (simp add: pass_ready_def)
    then have "calm hw disk (u\<lparr>cluster_size := original_cluster_size u\<rparr>)"
      using ot more by (simp add: calm_def sane_def output_size_def one_mode_def)
    ultimately have "clone_ready hw disk a e u"
      using pt st m by (simp add: clone_ready_def pass_ready_def moved_def settings_def)
    moreover have "sector_size u = ss" "current_status u = current_status t"
      using m st by (simp_all add: moved_def settings_def)
    ultimately show ?thesis using True by simp
  next
    case False
    with p have "stopped disk a e t u" by (simp add: passed_def)
    then show ?thesis using False st(2) by (simp add: stopped_def)
  qed
qed

lemma run_phase_sound:
  assumes "recovering hw disk a e ss x" "run_phase st next enabled restart tun pass x = Some y"
    and "sound_pass hw disk a e pass" "\<And>s. retuned disk s (restart s)" "\<And>s. retuned disk s (tun s)"
    and "\<And>s. clone_ready hw disk a e s \<Longrightarrow> 0 < cluster_size (tun s) \<and> cluster_size (tun s) < 2 ^ 31"
    and "next \<noteq> REBUILDASSIST"
  shows "recovering hw disk a e ss y"
proof -
  obtain ret roll s where x: "x = (ret, roll, s)" by (cases x) auto
  show ?thesis
  proof (cases "current_status s = st \<and> ret = 0")
    case False
    with assms(1,2) x show ?thesis by (auto simp: run_phase_def)
  next
    case True
    then have c: "clone_ready hw disk a e s" "sector_size s = ss" using assms(1) x by (simp_all add: recovering_def)
    define v where "v = (if roll then restart s else s)"
    have v: "retuned disk s v" using assms(4) by (simp add: v_def)
    obtain r u where run: "(if enabled then pass (tun v) else Some (0, s)) = Some (r, u)"
      and y: "y = (if r = 0 then (0, True, u\<lparr>current_status := next\<rparr>) else (r, roll, u))"
      using assms(2) True x by (auto simp: run_phase_def v_def split: option.splits if_splits)
    have "if r = 0 then clone_ready hw disk a e u \<and> sector_size u = ss
      else tiles a (lines (log_table u)) e \<and> intact disk (u\<lparr>sector_size := ss\<rparr>)"
    proof (cases enabled)
      case True
      with run have p: "pass (tun v) = Some (r, u)" by simp
      have "clone_ready hw disk a e v" by (rule clone_ready_retuned [OF c(1) v])
      then have "0 < cluster_size (tun v)" "cluster_size (tun v) < 2 ^ 31" using assms(6) by blast+
      from after_pass [OF c retuned_trans [OF v assms(5)] this assms(3) p] show ?thesis by (auto split: if_splits)
    next
      case False
      with run c show ?thesis by simp
    qed
    then show ?thesis
      using y clone_ready_retuned [OF _ retuned_status [OF assms(7)]] by (auto simp: recovering_def)
  qed
qed

lemma run_phases_sound:
  assumes "recovering hw disk a e ss x" "run_phases fs x = Some y"
    and "\<And>f x y. f \<in> set fs \<Longrightarrow> recovering hw disk a e ss x \<Longrightarrow> f x = Some y \<Longrightarrow> recovering hw disk a e ss y"
  shows "recovering hw disk a e ss y"
  using assms
proof (induction fs arbitrary: x)
  case (Cons f fs)
  from Cons.prems(2) obtain z where z: "f x = Some z" "run_phases fs z = Some y" by (auto split: option.splits)
  then have "recovering hw disk a e ss z" using Cons.prems(3) [of f x z] Cons.prems(1) by simp
  moreover have "recovering hw disk a e ss v" if "g \<in> set fs" "recovering hw disk a e ss u" "g u = Some v" for g u v
    by (rule Cons.prems(3) [of g u v]) (use that in simp_all)
  ultimately show ?case using z(2) Cons.IH by blast
qed simp

section \<open>The passes keep the contract\<close>

lemma sound_passes:
  assumes "\<not> finished new"
  shows "sound_pass hw disk a e (copy_forward hw n st msk new)" "sound_pass hw disk a e (copy_reverse hw n st msk new)"
    "sound_pass hw disk a e (trim_forward hw n st msk new)" "sound_pass hw disk a e (trim_reverse hw n st msk new)"
  unfolding sound_pass_def
  using copy_forward_passed [OF _ assms] copy_reverse_passed [OF _ assms] trim_forward_passed [OF _ assms]
    trim_reverse_passed [OF _ assms]
  by (metis (no_types))+

lemma not_finished [simp]:
  "\<not> finished NONTRIMMED" "\<not> finished NONDIVIDED" "\<not> finished NONSCRAPED"
  by (simp_all add: finished_def status_consts)

lemma no_assist [simp]:
  "PHASE1 \<noteq> REBUILDASSIST" "PHASE2 \<noteq> REBUILDASSIST" "PHASE3 \<noteq> REBUILDASSIST" "PHASE4 \<noteq> REBUILDASSIST"
  "TRIMMING \<noteq> REBUILDASSIST" "DIVIDING1 \<noteq> REBUILDASSIST" "DIVIDING2 \<noteq> REBUILDASSIST" "SCRAPING \<noteq> REBUILDASSIST"
  "RETRYING \<noteq> REBUILDASSIST" "FINISHED \<noteq> REBUILDASSIST"
  by (simp_all add: status_consts)

section \<open>The sequence of one direction\<close>

text \<open>
  \<open>recovery\<close>: the passes of a direction keep the contract; \<open>restart\<close> is where they start.
\<close>

locale recovery =
  fixes hw :: hardware and disk :: "int \<Rightarrow> 8 word" and a e :: int
    and copy trim :: "status_word \<Rightarrow> status_word \<Rightarrow> status_word \<Rightarrow> 'a phase_env_scheme \<Rightarrow> (int \<times> 'a phase_env_scheme) option"
    and restart :: "'a phase_env_scheme \<Rightarrow> 'a phase_env_scheme"
  assumes copy: "\<not> finished new \<Longrightarrow> sound_pass hw disk a e (copy st msk new)"
    and trim: "\<not> finished new \<Longrightarrow> sound_pass hw disk a e (trim st msk new)"
    and restart: "retuned disk s (restart s)"
begin

lemma late_sound:
  assumes "clone_ready hw disk a e s" "f \<in> set (late_phases copy trim restart s)"
    and "recovering hw disk a e ss x" "f x = Some y"
  shows "recovering hw disk a e ss y"
proof -
  have sz: "0 < original_cluster_size s" "original_cluster_size s < 2 ^ 31" "0 < block_size s" "block_size s < 2 ^ 31"
    using assms(1) by (simp_all add: clone_ready_def pass_ready_def calm_def sane_def)
  have dv: "0 < divided_size k s \<and> divided_size k s < 2 ^ 31" if "1 \<le> k" for k
  proof -
    have "cdiv (original_cluster_size s) k = original_cluster_size s div k" using sz(1) that by simp
    moreover have "original_cluster_size s div k \<le> original_cluster_size s" using sz(1) that
      by (metis div_by_1 less_imp_le zdiv_mono2 zero_less_one)
    ultimately show ?thesis using sz by (simp add: divided_size_def)
  qed
  have d: "1 \<le> DIVIDE_VALUE" "1 \<le> DIVIDE1_VALUE" "1 \<le> DIVIDE2_VALUE"
    by (simp_all add: DIVIDE_VALUE_def DIVIDE1_VALUE_def DIVIDE2_VALUE_def)
  have phase: "recovering hw disk a e ss y"
    if "f = run_phase st nx on restart (tune c False st') pass" "sound_pass hw disk a e pass" "0 < c \<and> c < 2 ^ 31" "nx \<noteq> REBUILDASSIST"
    for st nx on c st' pass
    by (rule run_phase_sound [OF assms(3) assms(4) [unfolded that(1)] that(2) restart retuned_tune]) (use that(3,4) in simp_all)
  from assms(2) show ?thesis
    unfolding late_phases_def Let_def set_simps insert_iff empty_iff simp_thms
    by (elim disjE) (erule phase; simp add: copy trim sz [simplified] dv [simplified] d)+
qed

end

interpretation onward: recovery hw disk a e "copy_forward hw n" "trim_forward hw n" to_start
  for hw disk a e n
  by unfold_locales (simp_all add: sound_passes)

interpretation backward: recovery hw disk a e "copy_reverse hw n" "trim_reverse hw n" to_end
  for hw disk a e n
  by unfold_locales (simp_all add: sound_passes)

section \<open>The other steps\<close>

lemma renew_sound:
  assumes "recovering hw disk a e ss x" "renew_skips x = Some y"
  shows "recovering hw disk a e ss y"
proof -
  obtain ret roll s where x: "x = (ret, roll, s)" by (cases x) auto
  define t where "t = (if roll then s\<lparr>min_skip_size := original_min_skip_size s\<rparr> else s)"
  define u where "u = t\<lparr>skip_size := min_skip_size t\<rparr>"
  define v where "v = (if current_status u = FINISHED then u\<lparr>current_status := PHASE3\<rparr> else u)"
  have y: "y = (ret, roll, v)"
    using assms(2) unfolding x renew_skips_def prod.case Let_def t_def [symmetric] u_def [symmetric] v_def [symmetric] by simp
  show ?thesis
  proof (cases "ret = 0")
    case True
    have "retuned disk s t"
    proof (cases roll)
      case True
      have "original_min_skip_size s div 2 \<le> original_min_skip_size s" if "skip_ok s"
      proof -
        have "0 \<le> original_min_skip_size s" using that by (simp add: skip_ok_def)
        then show ?thesis by linarith
      qed
      with True show ?thesis by (auto simp: t_def retuned_def skip_ok_def skip_floor_def)
    qed (simp add: t_def)
    moreover have "retuned disk t u" by (simp add: u_def retuned_def skip_ok_def skip_floor_def)
    moreover have "retuned disk u v" by (simp add: v_def)
    ultimately have "retuned disk s v" using retuned_trans by blast
    then show ?thesis using assms(1) True recovering_retuned unfolding x y by blast
  next
    case False
    have "copied disk (v\<lparr>sector_size := ss\<rparr>) x = copied disk (s\<lparr>sector_size := ss\<rparr>) x" for x
      by (simp add: v_def u_def t_def copied_def output_size_def target_byte_def write_position_def)
    moreover have "log_table v = log_table s" by (simp add: v_def u_def t_def)
    ultimately show ?thesis using assms(1) False unfolding x y by (simp add: recovering_def intact_def)
  qed
qed

lemma retry_loop_sound:
  assumes "recovering hw disk a e ss (ret, roll, s)" "ret = 0" "\<And>s. retuned disk s (restart s)"
    and "retry_loop hw n restart k (ret, roll, s) = Some y"
  shows "recovering hw disk a e ss y"
  using assms(1,2,4)
proof (induction k arbitrary: ret roll s)
  case (Suc k)
  then have c: "clone_ready hw disk a e s" "sector_size s = ss" by (simp_all add: recovering_def)
  define t where "t = s\<lparr>current_status := RETRYING\<rparr>"
  define u where "u = (if roll then (restart t)\<lparr>retried_lba_count := 0\<rparr> else t)"
  define v where "v = tune (block_size u) False RETRYING u"
  have "retuned disk s t" by (simp add: t_def)
  moreover have tu: "retuned disk t u" using retuned_trans [OF assms(3) retuned_counts(1)] by (simp add: u_def)
  moreover have "retuned disk u v" unfolding v_def by (rule retuned_tune)
  ultimately have sv: "retuned disk s v" using retuned_trans by blast
  have "block_size u = block_size s" using tu by (simp add: retuned_def t_def)
  then have cl: "0 < cluster_size v" "cluster_size v < 2 ^ 31"
    using c by (simp_all add: v_def clone_ready_def pass_ready_def calm_def sane_def)
  obtain r w where run: "copy_forward hw n BAD plain_mask BAD v = Some (r, w)"
    and y: "(if r = 0 then retry_loop hw n restart k (0, True, w\<lparr>current_status := FINISHED, retries := retries w - 1\<rparr>)
       else Some (r, roll, w)) = Some y"
    using Suc.prems(2,3) by (auto simp: t_def u_def v_def Let_def split: option.splits if_splits)
  note w = after_pass [OF c sv cl sound_passes(1) [OF finished_consts(2)] run]
  show ?case
  proof (cases "r = 0")
    case True
    have "retuned disk w (w\<lparr>current_status := FINISHED, retries := retries w - 1\<rparr>)"
      by (rule retuned_trans [OF retuned_status retuned_counts(2)]) simp
    then have "recovering hw disk a e ss (0, True, w\<lparr>current_status := FINISHED, retries := retries w - 1\<rparr>)"
      using w True clone_ready_retuned by (auto simp: recovering_def)
    then show ?thesis using Suc.IH [of 0 True "w\<lparr>current_status := FINISHED, retries := retries w - 1\<rparr>"] y True by simp
  next
    case False
    with w y show ?thesis by (auto simp: recovering_def)
  qed
qed simp

lemma retry_phase_sound:
  assumes "recovering hw disk a e ss x" "\<And>s. retuned disk s (restart s)" "retry_phase hw n restart x = Some y"
  shows "recovering hw disk a e ss y"
proof -
  obtain ret roll s where x: "x = (ret, roll, s)" by (cases x) auto
  define roll' where "roll' \<longleftrightarrow> roll \<or> current_status s \<noteq> RETRYING"
  define t where "t = (if retries s > 0 \<and> ret = 0 then s\<lparr>current_status := RETRYING\<rparr> else s)"
  define u where "u = (if retries t < 1 then t\<lparr>current_status := FINISHED\<rparr> else t)"
  have y: "(if current_status t = RETRYING \<and> ret = 0 then retry_loop hw n restart (nat (retries t)) (ret, roll', u)
      else Some (ret, roll', t)) = Some y"
    using assms(3) unfolding x retry_phase_def prod.case Let_def roll'_def [symmetric] t_def [symmetric] u_def [symmetric] .
  have t: "retuned disk s t" "retuned disk t u" by (simp_all add: t_def u_def)
  have keep: "recovering hw disk a e ss (ret, roll', w)" if "retuned disk s w" "ret = 0" for w
    using assms(1) that recovering_retuned unfolding x by blast
  show ?thesis
  proof (cases "ret = 0")
    case True
    then show ?thesis
      using y keep [OF t(1)] retry_loop_sound [OF keep [OF retuned_trans [OF t]] True assms(2)] by (auto split: if_splits)
  next
    case False
    then show ?thesis using y assms(1) x by (auto simp: t_def recovering_def)
  qed
qed

lemma retuned_keeps:
  assumes "keeps s t"
  shows "retuned disk s t"
proof -
  have "copied disk t x = copied disk s x" for x using assms by (intro copied_frame) (simp_all add: keeps_def)
  moreover have "original_cluster_size t = original_cluster_size s"
    by (rule more_cluster) (use assms in \<open>simp add: keeps_def frame_def\<close>)
  ultimately show ?thesis using assms by (simp add: retuned_def keeps_def frame_def skip_ok_def skip_floor_def)
qed

lemma clone_begin_keeps:
  assumes "clone_begin hw past s = (ret, t)"
  shows "\<exists>v. keeps s v \<and> (t = v \<or> (\<exists>p. t = v\<lparr>current_position := p\<rparr>))"
proof -
  define u where "u = (let s = snd (get_elapsed_usec hw 0 s); tl = get_log_status plain_mask (log_tally s) s
    in s\<lparr>log_tally := tl, last_finished_value := size_of tl Finished\<rparr>)"
  define v where "v = poll_stop hw (update_display hw 0 u)"
  have "keeps s u" by (simp add: u_def get_elapsed_usec_def keeps_def Let_def)
  moreover have "keeps u v" unfolding v_def by (rule keeps_poll [OF keeps_update_display])
  ultimately have "keeps s v" by (rule keeps_trans)
  moreover have "t = v \<or> (\<exists>p. t = v\<lparr>current_position := p\<rparr>)"
    using assms by (auto simp: clone_begin_def u_def v_def get_elapsed_usec_def Let_def split: if_splits)
  ultimately show ?thesis by blast
qed

lemma clone_begin_retuned:
  assumes "clone_begin hw past s = (ret, t)"
  shows "retuned disk s t"
proof -
  obtain v where v: "keeps s v" "t = v \<or> (\<exists>p. t = v\<lparr>current_position := p\<rparr>)" using clone_begin_keeps [OF assms] by blast
  have sv: "retuned disk s v" by (rule retuned_keeps [OF v(1)])
  then show ?thesis using v(2) retuned_trans [OF sv retuned_position(1)] by auto
qed

lemma clone_end_intact:
  assumes "recovering hw disk a e ss x" "clone_end hw x = (ret, t)"
  shows "tiles a (lines (log_table t)) e \<and> intact disk (t\<lparr>sector_size := ss\<rparr>)"
proof -
  obtain r roll s where x: "x = (r, roll, s)" by (cases x) auto
  have s: "tiles a (lines (log_table s)) e \<and> intact disk (s\<lparr>sector_size := ss\<rparr>)"
  proof (cases "r = 0")
    case True
    then have "clone_ready hw disk a e s" "sector_size s = ss" using assms(1) x by (simp_all add: recovering_def)
    then show ?thesis by (rule recovering_stopped)
  next
    case False
    then show ?thesis using assms(1) x by (simp add: recovering_def)
  qed
  define u where "u = set_soft_timer None (update_display hw 0 s)"
  have "keeps (update_display hw 0 s) u" by (simp add: u_def set_soft_timer_def keeps_def)
  then have "keeps s u" using keeps_update_display keeps_trans by blast
  moreover have "t = u \<or> t = update_display hw 0 u"
    using assms(2) by (auto simp: x clone_end_def u_def Let_def split: if_splits)
  ultimately have k: "keeps s t" using keeps_update_display keeps_trans by blast
  then have "copied disk (t\<lparr>sector_size := ss\<rparr>) y = copied disk (s\<lparr>sector_size := ss\<rparr>) y" for y
    by (simp add: keeps_def frame_def copied_def output_size_def target_byte_def write_position_def)
  then show ?thesis using s k by (simp add: intact_def keeps_def frame_def)
qed

section \<open>The recovery\<close>

text \<open>A recovery that can start: the rebuild assist phase, whose marks may be empty, is not entered.\<close>

definition recoverable :: "hardware \<Rightarrow> (int \<Rightarrow> 8 word) \<Rightarrow> int \<Rightarrow> int \<Rightarrow> 'a phase_env_scheme \<Rightarrow> bool" where
  "recoverable hw disk a e s \<longleftrightarrow> clone_ready hw disk a e s \<and> \<not> rebuild_assist_enabled s"

lemma clone_ready_status: "clone_ready hw disk a e s \<Longrightarrow> current_status s \<noteq> REBUILDASSIST"
  by (simp add: clone_ready_def pass_ready_def calm_def sane_def)

lemma begun:
  assumes "clone_ready hw disk a e s0" "retuned disk s0 s" "clone_begin hw past s = (ret, t)"
  shows "clone_ready hw disk a e t" "recovering hw disk a e (sector_size s0) (0, False, t)"
    "tiles a (lines (log_table t)) e \<and> intact disk (t\<lparr>sector_size := sector_size s0\<rparr>)"
proof -
  have r: "retuned disk s0 t" by (rule retuned_trans [OF assms(2) clone_begin_retuned [OF assms(3)]])
  show c: "clone_ready hw disk a e t" by (rule clone_ready_retuned [OF assms(1) r])
  have ss: "sector_size t = sector_size s0" using r by (simp add: retuned_def)
  show "recovering hw disk a e (sector_size s0) (0, False, t)" using c ss by (simp add: recovering_def)
  show "tiles a (lines (log_table t)) e \<and> intact disk (t\<lparr>sector_size := sector_size s0\<rparr>)"
    by (rule recovering_stopped [OF c ss])
qed

lemma big_fits: "clone_ready hw disk a e s \<Longrightarrow> 0 < original_cluster_size s \<and> original_cluster_size s < 2 ^ 31"
  by (simp add: clone_ready_def pass_ready_def calm_def sane_def)

lemma clone_forward_sound:
  assumes "recoverable hw disk a e s" "clone_forward hw n s = Some (ret, t)"
  shows "tiles a (lines (log_table t)) e \<and> intact disk (t\<lparr>sector_size := sector_size s\<rparr>)"
proof -
  let ?ss = "sector_size s"
  define s1 where "s1 = (if current_status s = PHASE1 \<and> rebuild_assist_enabled s \<and> rebuild_assist s
      then s\<lparr>current_status := REBUILDASSIST\<rparr>
      else if current_status s = FINISHED \<and> rebuild_assist_enabled s
      then s\<lparr>current_status := PHASE1, current_position := start_position s\<rparr>
      else if current_status s = FINISHED
      then s\<lparr>current_status := PHASE3, current_position := start_position s\<rparr> else s)"
  obtain r u where b: "clone_begin hw (end_position s1 - 1) s1 = (r, u)" by fastforce
  have c: "clone_ready hw disk a e s" "\<not> rebuild_assist_enabled s" using assms(1) by (simp_all add: recoverable_def)
  have "retuned disk s s1"
  proof (cases "current_status s = FINISHED")
    case True
    then have "s1 = s\<lparr>current_status := PHASE3, current_position := start_position s\<rparr>" using c(2) by (simp add: s1_def)
    then show ?thesis using retuned_trans [OF retuned_status [OF no_assist(3)] retuned_position(1)] by simp
  next
    case False
    then show ?thesis using c(2) by (simp add: s1_def)
  qed
  note u = begun [OF c(1) this b]
  note big = big_fits [OF u(1)]
  define fs where "fs = forward_phases hw n u"
  have eq: "clone_forward hw n s = (if r \<noteq> 0 then Some (r, u) else map_option (clone_end hw) (run_phases fs (0, False, u)))"
    unfolding clone_forward_def Let_def s1_def [symmetric] b prod.case fs_def ..
  have step: "recovering hw disk a e ?ss y" if f: "f \<in> set fs" and rx: "recovering hw disk a e ?ss x" "f x = Some y" for f x y
  proof -
    have *: "recovering hw disk a e ?ss y"
      if "f = run_phase st nx on rs (tune (original_cluster_size u) True st') pass" "sound_pass hw disk a e pass"
        "\<And>s. retuned disk s (rs s)" "nx \<noteq> REBUILDASSIST" for st nx on rs st' pass
      by (rule run_phase_sound [OF rx(1) rx(2) [unfolded that(1)] that(2,3) retuned_tune]) (use big that(4) in simp_all)
    consider (assist) "f = rebuild_phase hw n"
      | (one) "f = run_phase PHASE1 PHASE2 (\<not> no_phase1 u) to_start (tune (original_cluster_size u) True PHASE1)
        (copy_forward hw n NONTRIED (pass_mask u) NONTRIMMED)"
      | (two) "f = run_phase PHASE2 PHASE3 (\<not> no_phase2 u) to_last (tune (original_cluster_size u) True PHASE2)
        (copy_reverse hw n NONTRIED (pass_mask u) NONTRIMMED)"
      | (skips) "f = renew_skips" | (late) "f \<in> set (late_phases (copy_forward hw n) (trim_forward hw n) to_start u)"
      | (retry) "f = retry_phase hw n to_start"
      using f unfolding fs_def forward_phases_def Let_def by auto
    then show ?thesis
    proof cases
      case assist
      obtain ret roll v where x: "x = (ret, roll, v)" by (cases x) auto
      have "current_status v \<noteq> REBUILDASSIST" if "ret = 0"
        by (rule clone_ready_status [of hw disk a e]) (use rx(1) that x in \<open>simp add: recovering_def\<close>)
      then have "y = x" using rx(2) unfolding assist x rebuild_phase_def by (auto split: if_splits)
      then show ?thesis using rx(1) by simp
    next
      case one
      then show ?thesis by (rule *) (simp_all add: sound_passes)
    next
      case two
      then show ?thesis by (rule *) (simp_all add: sound_passes)
    next
      case skips
      then show ?thesis using renew_sound rx by blast
    next
      case late
      show ?thesis by (rule onward.late_sound [where s = u and f = f]) (fact u(1) late rx)+
    next
      case retry
      then show ?thesis using retry_phase_sound [OF rx(1) retuned_position(2)] rx(2) by blast
    qed
  qed
  show ?thesis
  proof (cases "r = 0")
    case False
    with eq assms(2) u(3) show ?thesis by simp
  next
    case True
    then have "map_option (clone_end hw) (run_phases fs (0, False, u)) = Some (ret, t)" using eq assms(2) by simp
    then obtain z where z: "run_phases fs (0, False, u) = Some z" "clone_end hw z = (ret, t)" by auto
    have "recovering hw disk a e ?ss z" using u(2) z(1) by (rule run_phases_sound) (rule step)
    then show ?thesis using z(2) by (rule clone_end_intact)
  qed
qed

lemma clone_reverse_sound:
  assumes "recoverable hw disk a e s" "clone_reverse hw n s = Some (ret, t)"
  shows "tiles a (lines (log_table t)) e \<and> intact disk (t\<lparr>sector_size := sector_size s\<rparr>)"
proof -
  let ?ss = "sector_size s"
  define s1 where "s1 = (if current_status s = REBUILDASSIST then s\<lparr>current_status := PHASE1\<rparr>
      else if current_status s = FINISHED
      then s\<lparr>current_status := PHASE3, current_position := end_position s\<rparr> else s)"
  obtain r u where b: "clone_begin hw (end_position s1) s1 = (r, u)" by fastforce
  have c: "clone_ready hw disk a e s" using assms(1) by (simp add: recoverable_def)
  have "retuned disk s s1"
  proof (cases "current_status s = FINISHED")
    case True
    then have "s1 = s\<lparr>current_status := PHASE3, current_position := end_position s\<rparr>" by (simp add: s1_def)
    then show ?thesis using retuned_trans [OF retuned_status [OF no_assist(3)] retuned_position(1)] by simp
  next
    case False
    then show ?thesis using clone_ready_status [OF c] by (simp add: s1_def)
  qed
  note u = begun [OF c this b]
  note big = big_fits [OF u(1)]
  define fs where "fs = reverse_phases hw n u"
  have eq: "clone_reverse hw n s = (if r \<noteq> 0 then Some (r, u) else map_option (clone_end hw) (run_phases fs (0, False, u)))"
    unfolding clone_reverse_def Let_def s1_def [symmetric] b prod.case fs_def ..
  have step: "recovering hw disk a e ?ss y" if f: "f \<in> set fs" and rx: "recovering hw disk a e ?ss x" "f x = Some y" for f x y
  proof -
    consider (one) "f = first_reverse_phase hw n"
      | (two) "f = run_phase PHASE2 PHASE3 (\<not> no_phase2 u) to_start (tune (original_cluster_size u) True PHASE2)
        (copy_forward hw n NONTRIED (pass_mask u) NONTRIMMED)"
      | (skips) "f = renew_skips" | (late) "f \<in> set (late_phases (copy_reverse hw n) (trim_reverse hw n) to_end u)"
      | (retry) "f = retry_phase hw n to_end"
      using f unfolding fs_def reverse_phases_def by auto
    then show ?thesis
    proof cases
      case one
      obtain ret roll v where x: "x = (ret, roll, v)" by (cases x) auto
      define go where "go = (\<lambda>s :: 'a phase_env_scheme. tune (original_cluster_size s) True PHASE1
        (if current_position s = start_position s then to_end s else s))"
      have run: "run_phase PHASE1 PHASE2 (\<not> no_phase1 v) (\<lambda>s. s) go
          (copy_reverse hw n NONTRIED (pass_mask v) NONTRIMMED) x = Some y"
        using rx(2) unfolding one x first_reverse_phase_def prod.case go_def .
      have "retuned disk s (if current_position s = start_position s then to_end s else s)" for s :: "'a phase_env_scheme"
        by simp
      then have "retuned disk s (go s)" for s
        unfolding go_def by (rule retuned_trans) (rule retuned_tune)
      moreover have "0 < cluster_size (go s) \<and> cluster_size (go s) < 2 ^ 31" if "clone_ready hw disk a e s" for s
        using big_fits [OF that] by (simp add: go_def)
      ultimately show ?thesis
        by (intro run_phase_sound [OF rx(1) run sound_passes(2)]) simp_all
    next
      case two
      show ?thesis
        by (rule run_phase_sound [OF rx(1) rx(2) [unfolded two] sound_passes(1) _ retuned_tune]) (use big in simp_all)
    next
      case skips
      then show ?thesis using renew_sound rx by blast
    next
      case late
      show ?thesis by (rule backward.late_sound [where s = u and f = f]) (fact u(1) late rx)+
    next
      case retry
      then show ?thesis using retry_phase_sound [OF rx(1) retuned_position(3)] rx(2) by blast
    qed
  qed
  show ?thesis
  proof (cases "r = 0")
    case False
    with eq assms(2) u(3) show ?thesis by simp
  next
    case True
    then have "map_option (clone_end hw) (run_phases fs (0, False, u)) = Some (ret, t)" using eq assms(2) by simp
    then obtain z where z: "run_phases fs (0, False, u) = Some z" "clone_end hw z = (ret, t)" by auto
    have "recovering hw disk a e ?ss z" using u(2) z(1) by (rule run_phases_sound) (rule step)
    then show ?thesis using z(2) by (rule clone_end_intact)
  qed
qed

end
