(* ===== verification/Clone_Theorems.thy ===== *)
theory Clone_Theorems
  imports Clone_Safety
begin

text \<open>
  The theorems on the recovery as a whole: no sector is finished that has not been copied, and
  the retries of a recovery in reverse read nothing.
\<close>

section \<open>Nothing is lost\<close>



section \<open>The retries of the reverse recovery\<close>

lemma skip_more_reset: "skip_env.more (reset_skip s) = skip_env.more s"
  by (simp add: reset_skip_def shrink_min_def note_run_def process_skip_run_def note_history_def Let_def)

lemma skip_more_fields:
  "skip_env.more t = skip_env.more s \<Longrightarrow> dest t = dest s \<and> drive_locked t = drive_locked s \<and> stop_signal t = stop_signal s"
  by (cases s rule: clone_env.cases_scheme; cases t rule: clone_env.cases_scheme) simp

text \<open>\<open>idle hw s t\<close>: between \<open>s\<close> and \<open>t\<close> nothing has been read; only bad-head bits of the log may differ.\<close>

definition idle :: "hardware \<Rightarrow> 'a clone_env_scheme \<Rightarrow> 'a clone_env_scheme \<Rightarrow> bool" where
  "idle hw s t \<longleftrightarrow> skip_ok t \<and> undisturbed hw t \<and> same_rows (lines (log_table s)) (lines (log_table t)) \<and>
     dest t = dest s \<and> drive_locked t = drive_locked s \<and> start_position t = start_position s \<and> end_position t = end_position s"

lemma idle_trans: "idle hw s t \<Longrightarrow> idle hw t u \<Longrightarrow> idle hw s u"
  by (auto simp: idle_def intro: same_rows_trans)

lemma idle_reset: "skip_ok s \<Longrightarrow> undisturbed hw s \<Longrightarrow> idle hw s (reset_skip s)"
  using reset_skip_ok [of s] skip_more_fields [OF skip_more_reset, of s] by (auto simp: idle_def kept_def undisturbed_def)

lemma idle_keeps: "skip_ok s \<Longrightarrow> keeps s t \<Longrightarrow> undisturbed hw t \<Longrightarrow> idle hw s t"
  by (simp add: idle_def keeps_def frame_def skip_ok_def)

text \<open>A pass that starts at the end returns at once.\<close>

lemma copy_forward_at_end:
  assumes "skip_ok s" "undisturbed hw s" "\<not> drive_locked s" "end_position s \<le> current_position s"
  obtains t where "copy_forward hw (Suc n) st msk new s = Some (0, t)" "idle hw s t"
proof -
  define u where "u = s\<lparr>direction := FORWARD, current_position := max (current_position s) (start_position s)\<rparr>"
  define k where "k = (if driver_mode u \<noteq> 0 then LOG_UPDATE_TIME else 0)"
  have u: "undisturbed hw u" "skip_ok u" using assms(1,2) by (simp_all add: u_def undisturbed_def skip_ok_def)
  obtain v where v: "begin_pass hw k False u = (0, v)" "keeps u v" "undisturbed hw v" using u(1) by (rule undisturbed_begin)
  define v' where "v' = v\<lparr>last_skip_position := current_position v, rate_skip_count := 0, exit_on_slow_count := 0\<rparr>"
  define w where "w = reset_skip v'"
  have b: "begin_pass hw k True u = (0, w)"
    using v(1) by (auto simp: begin_pass_def Let_def w_def v'_def STOP_SIGNAL_RETURN_CODE_def split: if_splits prod.splits)
  have uv: "idle hw u v" by (rule idle_keeps [OF u(2) v(2,3)])
  have vv: "idle hw v v'" using uv by (simp add: idle_def v'_def undisturbed_def skip_ok_def)
  then have vw: "idle hw v' w" unfolding w_def by (intro idle_reset) (simp_all add: idle_def)
  have ww: "idle hw w (reset_skip w)" using vw by (intro idle_reset) (simp_all add: idle_def)
  have "current_position w = current_position v'" "end_position w = end_position v'"
    using vv reset_skip_ok [of v'] by (simp_all add: w_def idle_def kept_def)
  then have "\<not> current_position w < end_position w" using v(2) assms(4) by (simp add: v'_def keeps_def frame_def u_def)
  then have "copy_forward hw (Suc n) st msk new s = Some (0, reset_skip w)"
    using assms(3) b by (simp add: copy_forward_def Let_def u_def [symmetric] k_def [symmetric])
  moreover have "idle hw u (reset_skip w)" using idle_trans uv vv vw ww by blast
  then have "idle hw s (reset_skip w)" by (simp add: idle_def u_def)
  ultimately show thesis by (rule that)
qed

lemma retries_at_end:
  assumes "skip_ok s" "undisturbed hw s" "\<not> drive_locked s" "start_position s \<le> end_position s"
  shows "\<exists>t. retry_loop hw (Suc n) to_end k (0, True, s) = Some (0, True, t) \<and> idle hw s t"
  using assms
proof (induction k arbitrary: s)
  case 0
  then show ?case by (simp add: idle_def)
next
  case (Suc k)
  define u where "u = (let s = (to_end (s\<lparr>current_status := RETRYING\<rparr>))\<lparr>retried_lba_count := 0\<rparr>
    in tune (block_size s) False RETRYING s)"
  have u: "skip_ok u" "undisturbed hw u" "\<not> drive_locked u" "end_position u \<le> current_position u"
    using Suc.prems by (simp_all add: u_def undisturbed_def to_end_def tune_def set_soft_timer_def Let_def skip_ok_def)
  have su: "idle hw s u"
    using u(1,2) by (simp add: idle_def u_def to_end_def tune_def set_soft_timer_def Let_def)
  obtain t where t: "copy_forward hw (Suc n) BAD plain_mask BAD u = Some (0, t)" "idle hw u t"
    using copy_forward_at_end [OF u] .
  define v where "v = t\<lparr>current_status := FINISHED, retries := retries t - 1\<rparr>"
  have tv: "idle hw t v" using t(2) by (simp add: v_def idle_def undisturbed_def skip_ok_def)
  have sv: "idle hw s v" using idle_trans su t(2) tv by blast
  have eq: "retry_loop hw (Suc n) to_end (Suc k) (0, True, s) = retry_loop hw (Suc n) to_end k (0, True, v)"
    using t(1) by (simp add: u_def Let_def v_def)
  have "\<exists>t. retry_loop hw (Suc n) to_end k (0, True, v) = Some (0, True, t) \<and> idle hw v t"
    by (rule Suc.IH) (use sv Suc.prems(3,4) in \<open>simp_all add: idle_def\<close>)
  then show ?case unfolding eq using idle_trans [OF sv] by blast
qed

text \<open>
  C10: the retries of a recovery in reverse read nothing.  \<open>clone_reverse_ccc\<close> sets the position to
  the end and calls \<open>copy_forward_ccc\<close>, whose loop runs while the position is before the end: the
  statuses in the log, but for bad-head bits, and the target stay as they are, however many retries
  are asked for.
\<close>

theorem reverse_retries_read_nothing:
  assumes "skip_ok s" "undisturbed hw s" "\<not> drive_locked s" "start_position s \<le> end_position s" "current_status s \<noteq> RETRYING"
  shows "\<exists>roll t. retry_phase hw (Suc n) to_end (0, roll0, s) = Some (0, roll, t) \<and> dest t = dest s \<and>
    (\<forall>x. masked_at BAD_HEAD_MASK (lines (log_table t)) x = masked_at BAD_HEAD_MASK (lines (log_table s)) x)"
proof (cases "retries s > 0")
  case True
  define u where "u = s\<lparr>current_status := RETRYING\<rparr>"
  have eq: "retry_phase hw (Suc n) to_end (0, roll0, s) = retry_loop hw (Suc n) to_end (nat (retries u)) (0, True, u)"
    using assms(5) True by (simp add: retry_phase_def u_def)
  have "skip_ok u" "undisturbed hw u" "\<not> drive_locked u" "start_position u \<le> end_position u"
    using assms by (simp_all add: u_def undisturbed_def skip_ok_def)
  then obtain t where "retry_loop hw (Suc n) to_end (nat (retries u)) (0, True, u) = Some (0, True, t)" "idle hw u t"
    using retries_at_end by blast
  then show ?thesis unfolding eq using same_rows_masked by (auto simp: idle_def u_def)
next
  case False
  then show ?thesis using assms(5) by (auto simp: retry_phase_def)
qed

section \<open>A concrete recovery\<close>

definition demo_phase_env :: phase_env where
  "demo_phase_env = clone_env.extend demo_pass_env
     (phase_env.fields 64 True True True True True True False True False 0 False 0 0 0 0 0)"

lemmas demo_phase_defs = demo_phase_env_def clone_env.extend_def phase_env.fields_def

lemma demo_recoverable: "recoverable demo_hw demo_disk 0 100 demo_phase_env"
proof -
  have p: "pass_ready demo_hw demo_disk 0 100 demo_pass_env" by (rule demo_pass_ready)
  have "pass_ready demo_hw demo_disk 0 100 (demo_phase_env\<lparr>cluster_size := 64\<rparr>)"
    using p
    by (simp add: demo_phase_defs pass_ready_def ready_def calm_def safe_def intact_def skip_ok_def skip_floor_def sane_def one_mode_def output_size_def
       copied_def target_byte_def write_position_def demo_pass_env_def demo_clone_defs)
  then show ?thesis
    by (simp add: recoverable_def clone_ready_def) (simp add: demo_phase_defs demo_pass_env_def demo_clone_defs)
qed

text \<open>With every phase switched off the recovery walks through the statuses.\<close>

lemma phase_fields:
  "clone_env.more t = clone_env.more s \<Longrightarrow> no_phase1 t = no_phase1 s \<and> no_phase2 t = no_phase2 s \<and> no_phase3 t = no_phase3 s \<and>
     no_phase4 t = no_phase4 s \<and> no_trim t = no_trim s \<and> no_divide1 t = no_divide1 s \<and> no_scrape t = no_scrape s \<and>
     retries t = retries s"
  by (cases s rule: phase_env.cases_scheme; cases t rule: phase_env.cases_scheme) simp

text \<open>Steps that return and keep a property of the sequence.\<close>

lemma run_phases_return:
  assumes "P x" "\<And>f x. f \<in> set fs \<Longrightarrow> P x \<Longrightarrow> \<exists>y. f x = Some y \<and> P y"
  shows "\<exists>y. run_phases fs x = Some y \<and> P y"
  using assms
proof (induction fs arbitrary: x)
  case (Cons f fs)
  from Cons.prems obtain y where "f x = Some y" "P y" by force
  moreover from this(2) have "\<exists>z. run_phases fs y = Some z \<and> P z" by (rule Cons.IH) (use Cons.prems(2) in force)
  ultimately show ?case by auto
qed simp

definition no_reads :: "'a progress \<Rightarrow> bool" where
  "no_reads = (\<lambda>(ret, roll, s). retries s = 0 \<and> no_phase1 s \<and> current_status s \<noteq> REBUILDASSIST)"

lemma no_reads_steps:
  assumes "no_reads x"
  shows "nx \<noteq> REBUILDASSIST \<Longrightarrow> \<exists>y. run_phase st nx False rs tn pass x = Some y \<and> no_reads y"
    "\<exists>y. renew_skips x = Some y \<and> no_reads y" "\<exists>y. retry_phase hw n rs x = Some y \<and> no_reads y"
    "\<exists>y. rebuild_phase hw n x = Some y \<and> no_reads y" "\<exists>y. first_reverse_phase hw n x = Some y \<and> no_reads y"
proof -
  obtain ret roll s where x: "x = (ret, roll, s)" by (cases x) auto
  then have s: "retries s = 0" "no_phase1 s" "current_status s \<noteq> REBUILDASSIST" using assms by (simp_all add: no_reads_def)
  show "\<exists>y. run_phase st nx False rs tn pass x = Some y \<and> no_reads y" if "nx \<noteq> REBUILDASSIST"
    using s that by (auto simp: x run_phase_def no_reads_def)
  show "\<exists>y. first_reverse_phase hw n x = Some y \<and> no_reads y"
    using s by (auto simp: x first_reverse_phase_def run_phase_def no_reads_def)
  show "\<exists>y. rebuild_phase hw n x = Some y \<and> no_reads y" using s by (simp add: x rebuild_phase_def no_reads_def)
  show "\<exists>y. retry_phase hw n rs x = Some y \<and> no_reads y" using s by (auto simp: x retry_phase_def no_reads_def Let_def)
  define t where "t = (if roll then s\<lparr>min_skip_size := original_min_skip_size s\<rparr> else s)"
  have "retries t = 0" "no_phase1 t" "current_status t \<noteq> REBUILDASSIST" using s by (simp_all add: t_def)
  then show "\<exists>y. renew_skips x = Some y \<and> no_reads y"
    by (simp add: x renew_skips_def no_reads_def Let_def t_def [symmetric])
qed

lemma demo_begun:
  assumes "clone_begin demo_hw past demo_phase_env = (r, u)"
  shows "no_phase1 u \<and> no_phase2 u \<and> no_phase3 u \<and> no_phase4 u \<and> no_trim u \<and> no_divide1 u \<and> no_scrape u"
    "no_reads (0, roll, u)"
proof -
  obtain v where v: "keeps demo_phase_env v" "u = v \<or> (\<exists>p. u = v\<lparr>current_position := p\<rparr>)"
    using clone_begin_keeps [OF assms] by blast
  have "clone_env.more v = clone_env.more demo_phase_env" "current_status v = current_status demo_phase_env"
    using v(1) by (simp_all add: keeps_def frame_def)
  then have m: "clone_env.more u = clone_env.more demo_phase_env" "current_status u = current_status demo_phase_env"
    using v(2) by auto
  show "no_phase1 u \<and> no_phase2 u \<and> no_phase3 u \<and> no_phase4 u \<and> no_trim u \<and> no_divide1 u \<and> no_scrape u"
    using phase_fields [OF m(1)] by (simp add: demo_phase_defs)
  have "retries u = 0" using phase_fields [OF m(1)] by (simp add: demo_phase_defs)
  moreover have "current_status u = PHASE1" using m(2) by (simp add: demo_phase_defs demo_pass_env_def)
  ultimately show "no_reads (0, roll, u)" using phase_fields [OF m(1)] by (simp add: no_reads_def demo_phase_defs)
qed

lemma demo_phases_return:
  assumes "clone_begin demo_hw past demo_phase_env = (r, u)"
    and "fs = forward_phases hw n u \<or> fs = reverse_phases hw n u"
  shows "\<exists>y. run_phases fs (0, False, u) = Some y"
proof -
  have off: "no_phase1 u" "no_phase2 u" "no_phase3 u" "no_phase4 u" "no_trim u" "no_divide1 u" "no_scrape u"
    using demo_begun(1) [OF assms(1)] by simp_all
  have "\<exists>y. f x = Some y \<and> no_reads y" if "f \<in> set fs" "no_reads x" for f x
    using that(1) no_reads_steps [OF that(2)] assms(2)
    by (elim disjE) (auto simp: forward_phases_def reverse_phases_def late_phases_def Let_def off)
  then show ?thesis using run_phases_return [of no_reads "(0, False, u)" fs] demo_begun(2) [OF assms(1)] by blast
qed

lemma demo_status: "current_status demo_phase_env = PHASE1" "\<not> rebuild_assist_enabled demo_phase_env"
  by (simp_all add: demo_phase_defs demo_pass_env_def demo_clone_defs)

lemma demo_forward_returns: "\<exists>ret t. clone_forward demo_hw 5 demo_phase_env = Some (ret, t)"
proof -
  obtain r u where b: "clone_begin demo_hw (end_position demo_phase_env - 1) demo_phase_env = (r, u)" by fastforce
  obtain y where "run_phases (forward_phases demo_hw 5 u) (0, False, u) = Some y" using demo_phases_return [OF b] by blast
  then show ?thesis using demo_status b by (cases "clone_end demo_hw y") (simp add: clone_forward_def status_consts)
qed

lemma demo_reverse_returns: "\<exists>ret t. clone_reverse demo_hw 5 demo_phase_env = Some (ret, t)"
proof -
  obtain r u where b: "clone_begin demo_hw (end_position demo_phase_env) demo_phase_env = (r, u)" by fastforce
  obtain y where "run_phases (reverse_phases demo_hw 5 u) (0, False, u) = Some y" using demo_phases_return [OF b] by blast
  then show ?thesis using demo_status b by (cases "clone_end demo_hw y") (simp add: clone_reverse_def status_consts)
qed



lemma reverse_retries_read_nothing_witness:
  "\<exists>roll t. retry_phase demo_hw 1 to_end (0, True, demo_phase_env\<lparr>retries := 3\<rparr>) = Some (0, roll, t) \<and> dest t = dest demo_phase_env"
proof -
  let ?s = "demo_phase_env\<lparr>retries := 3\<rparr>"
  have "skip_ok ?s" "undisturbed demo_hw ?s" "\<not> drive_locked ?s" "start_position ?s \<le> end_position ?s" "current_status ?s \<noteq> RETRYING"
    by (simp_all add: demo_phase_defs skip_ok_def demo_pass_env_def demo_clone_defs undisturbed_def demo_hw_def status_consts)
  from reverse_retries_read_nothing [OF this, of 0 True] show ?thesis by auto
qed

end
