(* ===== verification/Begin.thy ===== *)
theory Begin
  imports Fill_Theorems Clone_Theorems
begin

text \<open>
  What the program runs when the user starts it (\<open>begin_cloning_ccc\<close>): a recovery forward or in
  reverse, or a fill, and the log written at the end.
\<close>

definition exit_code :: "int \<Rightarrow> int \<Rightarrow> int" where
  "exit_code ret code = (if ret < 0 \<and> code = 0 then - ret else if code = 0 then ret else code)"

text \<open>The result of the last write of the log is ignored.\<close>

definition begin_cloning ::
  "hardware \<Rightarrow> nat \<Rightarrow> bool \<Rightarrow> int \<Rightarrow> int \<Rightarrow> 'a fill_env_scheme \<Rightarrow> (int \<times> int \<times> 'a fill_env_scheme) option" where
  "begin_cloning hw n confirmed target_bytes code s =
     (case (if fill_mode s then do_fill hw n confirmed target_bytes FINISHED (STATUS_MASK AND BAD_HEAD_MASK) s
            else if reverse s then clone_reverse hw n s else clone_forward hw n s) of
        None \<Rightarrow> None
      | Some (ret, s) \<Rightarrow> Some (ret, exit_code ret code, snd (update_logfile hw 0 s)))"

text \<open>What the start of the program needs, for each of its modes.\<close>

definition may_begin :: "hardware \<Rightarrow> (int \<Rightarrow> 8 word) \<Rightarrow> int \<Rightarrow> 'a fill_env_scheme \<Rightarrow> bool" where
  "may_begin hw disk e s \<longleftrightarrow> (if fill_mode s then can_fill e s \<and> intact disk s else recoverable hw disk 0 e s)"

lemma finished_mask: "finished st \<longleftrightarrow> st AND (STATUS_MASK AND BAD_HEAD_MASK) = FINISHED AND (STATUS_MASK AND BAD_HEAD_MASK)"
  by (simp add: finished_def status_consts)

lemma copied_same:
  assumes "copied disk s x" "sector_same s t x" "fill_settings u = fill_settings (s\<lparr>end_position := p\<rparr>)" "dest u = dest t"
  shows "copied disk u x"
proof -
  note q = fill_settings_end [OF assms(3)]
  show ?thesis using assms(1,2,4) q(1-3) by (simp add: copied_def sector_same_def target_byte_def)
qed

lemma fill_intact:
  assumes "can_fill e s" "intact disk s"
    and "do_fill hw n confirmed target_bytes FINISHED (STATUS_MASK AND BAD_HEAD_MASK) s = Some (ret, t)"
  shows "log_table t = log_table s" "intact disk (t\<lparr>sector_size := sector_size s\<rparr>)"
proof -
  note p = do_fill_places [OF assms(1,3)]
  from fill_settings_end(6) [OF p] show l: "log_table t = log_table s" by simp
  have "copied disk (t\<lparr>sector_size := sector_size s\<rparr>) x" if "status_at (lines (log_table s)) x = Some st" "finished st" for x st
  proof -
    have "sector_same s t x" using fill_spares_rule [OF assms(1,3), of x st] that finished_mask by simp
    then show ?thesis using copied_same [OF _ _ p] assms(2) that by (simp add: intact_def)
  qed
  then show "intact disk (t\<lparr>sector_size := sector_size s\<rparr>)" by (simp add: intact_def l)
qed

lemma update_logfile_keeps: "update_logfile hw sec s = (r, t) \<Longrightarrow> keeps s t"
  by (auto simp: update_logfile_def get_elapsed_usec_def keeps_def frame_def ticked_def Let_def split: if_splits)



end
