(* ===== verification/Settings.thy ===== *)
theory Settings
  imports C_Text
begin

text \<open>
  The settings in the progress log: \<open>write_logfile_ccc\<close> writes them as comments between \<open># startconfig\<close> and
  \<open># endconfig\<close>, \<open>read_log_file_ccc\<close> assigns them to the variables of the program.  The variables are
  kept by name, with their values at the range of their C type.
\<close>

section \<open>Variables\<close>

datatype ctype = CBool | CInt | CLong | CULong

text \<open>A relay setting: the relays to switch on and those to switch off, each with eight entries.\<close>

record config =
  int_vars :: "string \<Rightarrow> int"
  text_vars :: "string \<Rightarrow> string option"
  activate_relays :: "bool list"
  deactivate_relays :: "bool list"

text \<open>The value that an assignment of a \<open>long long\<close> leaves in a variable.\<close>

fun assigned :: "ctype \<Rightarrow> 64 word \<Rightarrow> int" where
  "assigned CBool w = (if w = 0 then 0 else 1)"
| "assigned CInt w = sint (ucast w :: 32 word)"
| "assigned CLong w = sint w"
| "assigned CULong w = uint w"

text \<open>\<open>get_primary_relay_settings_ccc\<close> and \<open>set_primary_relay_settings_ccc\<close>; relay 1 is the lowest bit.\<close>

definition relay_bits :: "bool list \<Rightarrow> int" where
  "relay_bits bs = foldr (\<lambda>b a. push_bit 1 a + of_bool b) bs 0"

fun split_bits :: "nat \<Rightarrow> int \<Rightarrow> bool list" where
  "split_bits 0 a = []"
| "split_bits (Suc n) a = odd a # split_bits n (drop_bit 1 a)"

definition get_primary_relay_settings :: "config \<Rightarrow> int" where
  "get_primary_relay_settings c = push_bit 8 (relay_bits (activate_relays c)) + relay_bits (deactivate_relays c)"

definition set_primary_relay_settings :: "int \<Rightarrow> config \<Rightarrow> config" where
  "set_primary_relay_settings v c =
     c\<lparr>activate_relays := split_bits 8 (drop_bit 8 v), deactivate_relays := split_bits 8 (v AND 0xff)\<rparr>"

section \<open>Comments\<close>

text \<open>\<open>sscanf(line, "# %s %[^\n]")\<close>: the \<open>#\<close> must be the first character of the line.\<close>

definition comment_command :: "string \<Rightarrow> string" where
  "comment_command l =
     (if take 1 l = ''#'' then (case scan_words (drop 1 l) of [] \<Rightarrow> [] | w # ws \<Rightarrow> w) else [])"

definition comment_data :: "string \<Rightarrow> string" where
  "comment_data l =
     (if take 1 l = ''#''
      then takeWhile (\<lambda>c. c \<noteq> newline) (dropWhile is_space (dropWhile (\<lambda>c. \<not> is_space c) (dropWhile is_space (drop 1 l))))
      else [])"

section \<open>Reading\<close>

text \<open>The commands whose data go to a number: command, variable, type of the variable.\<close>

definition device_settings :: "(string \<times> string \<times> ctype) list" where
  "device_settings =
    [(''dodomain'', ''do_domain_ccc'', CBool), (''domaindd'', ''domain_dd_ccc'', CBool),
     (''nologbackup'', ''no_log_backup_ccc'', CBool), (''phaselogs'', ''enable_logfile_phase_ccc'', CBool),
     (''softtimer'', ''soft_reset_time_ccc'', CULong), (''hardtimer'', ''hard_reset_time_ccc'', CULong),
     (''busytimer'', ''busy_wait_time_ccc'', CULong), (''initbusytimer'', ''initial_busy_wait_time_ccc'', CULong),
     (''resettimer'', ''reset_wait_time_ccc'', CULong), (''generaltimer'', ''general_timeout_ccc'', CULong),
     (''phasetimers'', ''phase_timers_ccc'', CBool), (''p12softtimer'', ''p12_soft_reset_time_ccc'', CULong),
     (''p3softtimer'', ''p3_soft_reset_time_ccc'', CULong), (''p4softtimer'', ''p4_soft_reset_time_ccc'', CULong),
     (''tdsofttimer'', ''td_soft_reset_time_ccc'', CULong), (''d2softtimer'', ''d2_soft_reset_time_ccc'', CULong),
     (''scsofttimer'', ''sc_soft_reset_time_ccc'', CULong), (''rtsofttimer'', ''rt_soft_reset_time_ccc'', CULong),
     (''alwayswaitresettime'', ''always_wait_for_reset_timers_ccc'', CBool), (''usbbulkreset'', ''usb_bulk_reset_enabled_ccc'', CInt),
     (''usbsoftreset'', ''usb_soft_reset_enabled_ccc'', CInt), (''usbhardreset'', ''usb_hard_reset_enabled_ccc'', CInt),
     (''usbportreset'', ''usb_port_reset_enabled_ccc'', CInt)]"

definition pass_settings :: "(string \<times> string \<times> ctype) list" where
  "pass_settings =
    [(''skipfast'', ''skip_fast_ccc'', CBool), (''skiptimer'', ''skip_timeout_ccc'', CLong), (''nophase1'', ''no_phase1_ccc'', CBool),
     (''nophase2'', ''no_phase2_ccc'', CBool), (''nophase3'', ''no_phase3_ccc'', CBool), (''nophase4'', ''no_phase4_ccc'', CBool),
     (''nodivide1'', ''no_divide1_ccc'', CBool), (''dodivide2'', ''do_divide2_ccc'', CBool), (''notrim'', ''no_trim_ccc'', CBool),
     (''noscrape'', ''no_scrape_ccc'', CBool), (''markbadhead'', ''mark_bad_head_ccc'', CBool),
     (''readbadhead'', ''read_bad_head_ccc'', CBool), (''rebuildassist'', ''rebuild_assist_ccc'', CBool),
     (''clustersize'', ''original_cluster_size_ccc'', CInt), (''blocksize'', ''block_size_ccc'', CInt),
     (''sectorsize'', ''sector_size_ccc'', CInt), (''blockoffset'', ''block_offset_ccc'', CInt),
     (''maxreadrate'', ''max_read_rate_ccc'', CLong), (''retries'', ''retries_ccc'', CInt),
     (''retried'', ''retried_lba_count_ccc'', CLong), (''inputoffset'', ''input_offset_ccc'', CLong),
     (''outputoffset'', ''output_offset_ccc'', CLong)]"

definition run_settings :: "(string \<times> string \<times> ctype) list" where
  "run_settings =
    [(''size'', ''read_size_ccc'', CLong), (''rateskip'', ''rate_skip_ccc'', CLong), (''exitonslow'', ''exit_on_slow_ccc'', CLong),
     (''exitonslowtime'', ''exit_slow_time_ccc'', CLong), (''minskip'', ''original_min_skip_size_ccc'', CLong),
     (''maxskip'', ''original_max_skip_size_ccc'', CLong), (''reverse'', ''reverse_ccc'', CBool),
     (''fillmode'', ''fill_mode_ccc'', CBool), (''fillmark'', ''fill_mark_ccc'', CBool), (''quiet'', ''quiet_ccc'', CBool),
     (''skipsize'', ''min_skip_size_ccc'', CLong), (''skips'', ''total_skip_count_ccc'', CInt),
     (''slowskips'', ''total_slow_skips_ccc'', CInt), (''skipruns'', ''total_skip_runs_ccc'', CInt),
     (''skipresets'', ''total_skip_resets_ccc'', CInt), (''stoponerror'', ''stop_on_error_ccc'', CBool),
     (''callcommand'', ''do_call_command_ccc'', CBool), (''primaryrelayonerror'', ''activate_primary_relay_on_error_ccc'', CBool),
     (''callpowercommand'', ''call_power_command_ccc'', CBool), (''primaryrelaypowercycle'', ''power_cycle_primary_relay_ccc'', CBool)]"

definition program_settings :: "(string \<times> string \<times> ctype) list" where
  "program_settings =
    [(''writebufferdisable'', ''write_buffer_disable_ccc'', CBool), (''writebufferenable'', ''write_buffer_enable_ccc'', CBool),
     (''driverreturnerror'', ''driver_return_error_ccc'', CBool), (''driverreturnzeros'', ''driver_return_zeros_ccc'', CBool),
     (''driverreturnmarked'', ''driver_return_marked_ccc'', CBool),
     (''driverminclustersize'', ''driver_minimum_cluster_size_ccc'', CLong),
     (''disableidentify'', ''enable_dont_identify_on_choose_source_ccc'', CBool), (''piomode'', ''pio_mode_ccc'', CBool),
     (''enablerebuildassist'', ''use_rebuild_assist_ccc'', CBool), (''enableprocesschunk'', ''enable_process_chunk_ccc'', CBool),
     (''enablereadtwice'', ''enable_read_twice_ccc'', CBool), (''enableretryconnecting'', ''enable_retry_connecting_ccc'', CBool),
     (''enablescsiwrite'', ''enable_scsi_write_ccc'', CBool), (''sectorsizeadjust'', ''output_sector_size_adjustment_ccc'', CLong),
     (''ioscsionly'', ''driver_io_scsi_only_ccc'', CInt),
     (''usephysicalsectorsize'', ''use_physical_sector_size_for_virtual_ccc'', CBool),
     (''colorstatusbar'', ''color_statusbar_ccc'', CBool), (''primerelayactivatetime'', ''primary_relay_activation_time_ccc'', CULong),
     (''primerelaydelaytime'', ''primary_relay_delay_time_ccc'', CULong)]"

definition number_settings :: "(string \<times> string \<times> ctype) list" where
  "number_settings = device_settings @ pass_settings @ run_settings @ program_settings"

text \<open>
  The commands whose data go to texts, with the number of characters that are copied.  The copies by
  \<open>strcpy\<close> have no limit but the length of a line, which is longer than some of the arrays.
\<close>

definition text_settings :: "(string \<times> (string \<times> nat) list) list" where
  "text_settings =
    [(''domainfile'', [(''domain_file_ccc'', 255)]),
     (''model'', [(''current_model_ccc'', 40), (''current_source_model_ccc'', 63)]),
     (''serial'', [(''current_serial_ccc'', 20), (''current_source_serial_ccc'', 63)]),
     (''commandtocall'', [(''command_to_call_ccc'', 255)]),
     (''powercommandtocall'', [(''power_command_to_call_ccc'', 255)]),
     (''driverdiskname'', [(''virtual_driver_name_ccc'', 255)])]"

definition set_text :: "string \<Rightarrow> string \<times> nat \<Rightarrow> config \<Rightarrow> config" where
  "set_text d = (\<lambda>(x, n) c. c\<lparr>text_vars := (text_vars c)(x \<mapsto> take n d)\<rparr>)"

text \<open>One comment within the settings; the other commands, and those that are not known, change nothing.\<close>

definition set_config :: "string \<Rightarrow> string \<Rightarrow> config \<Rightarrow> config" where
  "set_config k d c =
     (case map_of number_settings k of
        Some (x, ty) \<Rightarrow> c\<lparr>int_vars := (int_vars c)(x := assigned ty (fst (strtoll d)))\<rparr>
      | None \<Rightarrow>
          (case map_of text_settings k of
             Some xs \<Rightarrow> fold (set_text d) xs c
           | None \<Rightarrow>
               if k = ''primerelaysettings'' then set_primary_relay_settings (assigned CInt (fst (strtoll d))) c else c))"

section \<open>Writing\<close>

datatype written = Dec32 string | Dec64 string | Hex64 string | Text string | Relays

abbreviation gap :: string where "gap \<equiv> ''  '' @ [tab]"
abbreviation gap_after :: string where "gap_after \<equiv> '' '' @ [tab] @ '' ''"
abbreviation gap_short :: string where "gap_short \<equiv> '' '' @ [tab]"

text \<open>\<open>%d\<close> for a variable of 32 bits, \<open>%lld\<close>, \<open>%llx\<close>, \<open>%s\<close> and \<open>%04x\<close>; a pointer that is not set is written as an empty text.\<close>

fun shown :: "config \<Rightarrow> written \<Rightarrow> string" where
  "shown c (Dec32 x) = print_dec (sint (word_of_int (int_vars c x) :: 32 word))"
| "shown c (Dec64 x) = print_dec (sint (word_of_int (int_vars c x) :: 64 word))"
| "shown c (Hex64 x) = ''0x'' @ print_hex False 0 (word_of_int (int_vars c x))"
| "shown c (Text x) = (case text_vars c x of None \<Rightarrow> [] | Some t \<Rightarrow> t)"
| "shown c Relays = ''0x'' @ print_hex False 4 (ucast (word_of_int (get_primary_relay_settings c) :: 32 word))"

text \<open>The lines in their order: command, gap, value.\<close>

definition written_settings :: "(string \<times> string \<times> written) list" where
  "written_settings =
    [(''logfile'', gap, Text ''log_file_ccc''), (''source'', gap, Text ''disk_1_ccc''), (''destination'', gap, Text ''disk_2_ccc''),
     (''verbose'', gap, Hex64 ''verbose_ccc''), (''debug'', gap, Hex64 ''debug_ccc''),
     (''forcemounted'', gap, Dec32 ''force_mounted_ccc''), (''forcedangerous'', gap, Dec32 ''force_danger_ccc''),
     (''importdd'', gap, Dec32 ''importdd_ccc''), (''exportdd'', gap, Dec32 ''exportdd_ccc''),
     (''dodomain'', gap, Dec32 ''do_domain_ccc''), (''domaindd'', gap, Dec32 ''domain_dd_ccc''),
     (''domainfile'', gap, Text ''domain_file_ccc''), (''repairlog'', gap, Dec32 ''repair_log_ccc''),
     (''nologbackup'', gap, Dec32 ''no_log_backup_ccc''), (''phaselogs'', gap, Dec32 ''enable_logfile_phase_ccc''),
     (''softtimer'', gap, Dec64 ''soft_reset_time_ccc''), (''hardtimer'', gap, Dec64 ''hard_reset_time_ccc''),
     (''busytimer'', gap, Dec64 ''busy_wait_time_ccc''), (''initbusytimer'', gap, Dec64 ''initial_busy_wait_time_ccc''),
     (''resettimer'', gap, Dec64 ''reset_wait_time_ccc''), (''generaltimer'', gap, Dec64 ''general_timeout_ccc''),
     (''phasetimers'', gap, Dec32 ''phase_timers_ccc''), (''p12softtimer'', gap, Dec64 ''p12_soft_reset_time_ccc''),
     (''p3softtimer'', gap, Dec64 ''p3_soft_reset_time_ccc''), (''p4softtimer'', gap, Dec64 ''p4_soft_reset_time_ccc''),
     (''tdsofttimer'', gap, Dec64 ''td_soft_reset_time_ccc''), (''d2softtimer'', gap, Dec64 ''d2_soft_reset_time_ccc''),
     (''scsofttimer'', gap, Dec64 ''sc_soft_reset_time_ccc''), (''rtsofttimer'', gap, Dec64 ''rt_soft_reset_time_ccc''),
     (''alwayswaitresettime'', gap, Dec32 ''always_wait_for_reset_timers_ccc''),
     (''usbbulkreset'', gap, Dec32 ''usb_bulk_reset_enabled_ccc''), (''usbsoftreset'', gap, Dec32 ''usb_soft_reset_enabled_ccc''),
     (''usbhardreset'', gap, Dec32 ''usb_hard_reset_enabled_ccc''), (''usbportreset'', gap, Dec32 ''usb_port_reset_enabled_ccc''),
     (''imagesource'', gap, Dec32 ''copy_image_mode_ccc''), (''genericsource'', gap, Dec32 ''generic_mode_ccc''),
     (''atapass'', gap, Dec32 ''ata_passthrough_ccc''), (''scsipass'', gap, Dec32 ''scsi_passthrough_ccc''),
     (''skipfast'', gap, Dec32 ''skip_fast_ccc''), (''skiptimer'', gap, Dec64 ''skip_timeout_ccc''),
     (''direct'', gap, Dec32 ''direct_mode_ccc''), (''ahci'', gap, Dec32 ''ahci_mode_ccc''), (''usb'', gap, Dec32 ''usb_mode_ccc''),
     (''nophase1'', gap, Dec32 ''no_phase1_ccc''), (''nophase2'', gap, Dec32 ''no_phase2_ccc''),
     (''nophase3'', gap_after, Dec32 ''no_phase3_ccc''), (''nophase4'', gap, Dec32 ''no_phase4_ccc''),
     (''notrim'', gap, Dec32 ''no_trim_ccc''), (''nodivide1'', gap, Dec32 ''no_divide1_ccc''),
     (''dodivide2'', gap, Dec32 ''do_divide2_ccc''), (''notrim'', gap, Dec32 ''no_trim_ccc''),
     (''noscrape'', gap, Dec32 ''no_scrape_ccc''), (''markbadhead'', gap, Dec32 ''mark_bad_head_ccc''),
     (''readbadhead'', gap, Dec32 ''read_bad_head_ccc''), (''rebuildassist'', gap, Dec32 ''rebuild_assist_ccc''),
     (''clustersize'', gap, Dec32 ''original_cluster_size_ccc''), (''blocksize'', gap, Dec32 ''block_size_ccc''),
     (''sectorsize'', gap, Dec32 ''sector_size_ccc''), (''blockoffset'', gap, Dec32 ''block_offset_ccc''),
     (''maxreadrate'', gap, Dec64 ''max_read_rate_ccc''), (''retries'', gap, Dec32 ''retries_ccc''),
     (''retried'', gap, Dec64 ''retried_lba_count_ccc''), (''inputoffset'', gap, Dec64 ''input_offset_ccc''),
     (''outputoffset'', gap, Dec64 ''output_offset_ccc''), (''size'', gap, Dec64 ''read_size_ccc''),
     (''rateskip'', gap, Dec64 ''rate_skip_ccc''), (''exitonslow'', gap, Dec64 ''exit_on_slow_ccc''),
     (''exitonslowtime'', gap, Dec64 ''exit_slow_time_ccc''), (''minskip'', gap_after, Dec64 ''original_min_skip_size_ccc''),
     (''maxskip'', gap, Dec64 ''original_max_skip_size_ccc''), (''reverse'', gap_short, Dec32 ''reverse_ccc''),
     (''fillmode'', gap, Dec32 ''fill_mode_ccc''), (''fillmark'', gap, Dec32 ''fill_mark_ccc''),
     (''findserial'', gap_after, Text ''drive_serial_ccc''), (''quiet'', gap, Dec32 ''quiet_ccc''),
     (''forcestupid'', gap, Dec32 ''force_stupid_ccc''), (''model'', gap, Text ''current_model_ccc''),
     (''serial'', gap, Text ''current_serial_ccc''), (''skipsize'', gap, Dec64 ''min_skip_size_ccc''),
     (''skips'', gap, Dec32 ''total_skip_count_ccc''), (''slowskips'', gap, Dec32 ''total_slow_skips_ccc''),
     (''skipruns'', gap, Dec32 ''total_skip_runs_ccc''), (''skipresets'', gap, Dec32 ''total_skip_resets_ccc''),
     (''stoponerror'', gap, Dec32 ''stop_on_error_ccc''), (''callcommand'', gap, Dec32 ''do_call_command_ccc''),
     (''commandtocall'', gap, Text ''command_to_call_ccc''),
     (''primaryrelayonerror'', gap, Dec32 ''activate_primary_relay_on_error_ccc''),
     (''callpowercommand'', gap, Dec32 ''call_power_command_ccc''), (''powercommandtocall'', gap, Text ''power_command_to_call_ccc''),
     (''primaryrelaypowercycle'', gap, Dec32 ''power_cycle_primary_relay_ccc''),
     (''writebufferdisable'', gap, Dec32 ''write_buffer_disable_ccc''), (''writebufferenable'', gap, Dec32 ''write_buffer_enable_ccc''),
     (''driverreturnerror'', gap, Dec32 ''driver_return_error_ccc''), (''driverreturnzeros'', gap, Dec32 ''driver_return_zeros_ccc''),
     (''driverreturnmarked'', gap, Dec32 ''driver_return_marked_ccc''), (''driverdiskname'', gap, Text ''virtual_driver_name_ccc''),
     (''driverminclustersize'', gap, Dec64 ''driver_minimum_cluster_size_ccc''),
     (''disableidentify'', gap, Dec32 ''enable_dont_identify_on_choose_source_ccc''), (''piomode'', gap, Dec32 ''pio_mode_ccc''),
     (''enablerebuildassist'', gap, Dec32 ''use_rebuild_assist_ccc''),
     (''enableprocesschunk'', gap, Dec32 ''enable_process_chunk_ccc''), (''enablereadtwice'', gap, Dec32 ''enable_read_twice_ccc''),
     (''enableretryconnecting'', gap_short, Dec32 ''enable_retry_connecting_ccc''),
     (''enablescsiwrite'', gap, Dec32 ''enable_scsi_write_ccc''),
     (''sectorsizeadjust'', gap, Dec64 ''output_sector_size_adjustment_ccc''), (''ioscsionly'', gap, Dec32 ''driver_io_scsi_only_ccc''),
     (''usephysicalsectorsize'', gap, Dec32 ''use_physical_sector_size_for_virtual_ccc''),
     (''colorstatusbar'', gap, Dec32 ''color_statusbar_ccc''),
     (''primerelayactivatetime'', gap, Dec64 ''primary_relay_activation_time_ccc''),
     (''primerelaydelaytime'', gap, Dec64 ''primary_relay_delay_time_ccc''), (''primerelaysettings'', gap, Relays)]"

definition setting_line :: "config \<Rightarrow> string \<times> string \<times> written \<Rightarrow> string" where
  "setting_line c = (\<lambda>(k, g, w). ''# '' @ k @ g @ shown c w)"

definition config_lines :: "config \<Rightarrow> string list" where
  "config_lines c =
     [''################ START CONFIGURATION DATA ################'', ''# startconfig''] @
     map (setting_line c) written_settings @
     [''# endconfig'', ''################ END CONFIGURATION DATA ################'', ''#'']"

end
