(* ===== verification/Log_File.thy ===== *)
theory Log_File
  imports Settings Log_Check
begin

text \<open>
  The progress log as a file: \<open>read_log_file_ccc\<close> and the lines that \<open>write_logfile_ccc\<close> writes.
\<close>

definition MAX_LINE_LENGTH :: nat where "MAX_LINE_LENGTH = 256"

section \<open>Reading\<close>

record log_scan =
  found_current :: bool
  found_error :: int
  analyze_data :: bool
  analyze_line :: int
  analyze_text :: string
  smart_data :: bool
  smart_line :: int
  smart_text :: string
  scanned :: "row list"
  config_data :: bool
  config :: config

definition new_scan :: "config \<Rightarrow> log_scan" where
  "new_scan c = \<lparr>found_current = False, found_error = 0, analyze_data = False, analyze_line = 0, analyze_text = [],
     smart_data = False, smart_line = 0, smart_text = [], scanned = [], config_data = False, config = c\<rparr>"

text \<open>The marks where the settings and the two texts begin, and where the texts end.\<close>

definition scan_marks :: "string \<Rightarrow> log_scan \<Rightarrow> log_scan" where
  "scan_marks c x =
     (let x = (if \<not> config_data x \<and> c = ''startconfig'' then x\<lparr>config_data := True\<rparr> else x);
          x = (if \<not> analyze_data x \<and> c = ''startanyalyze'' then x\<lparr>analyze_data := True\<rparr> else x);
          x = (if analyze_data x \<and> c = ''endanalyze'' then x\<lparr>analyze_data := False\<rparr> else x);
          x = (if \<not> smart_data x \<and> c = ''startsmart'' then x\<lparr>smart_data := True\<rparr> else x)
      in if smart_data x \<and> c = ''endsmart'' then x\<lparr>smart_data := False\<rparr> else x)"

text \<open>A line of one of the two texts; the first one, which is the mark, only opens the text.\<close>

definition add_text :: "string \<Rightarrow> int \<Rightarrow> string \<Rightarrow> int \<times> string" where
  "add_text l n t =
     (let d = takeWhile (\<lambda>c. c \<noteq> newline) l
      in if n = 0 then (1, t) else if n = 1 then (2, t @ d) else (n, t @ newline # d))"

definition scan_comment :: "string \<Rightarrow> log_scan \<Rightarrow> log_scan" where
  "scan_comment l x =
     (let c = comment_command l; x = scan_marks c x in
      if config_data x then
        if c = ''endconfig'' then x\<lparr>config_data := False\<rparr>
        else if c = ''startconfig'' then x\<lparr>config_data := True\<rparr>
        else x\<lparr>config := set_config c (comment_data l) (config x)\<rparr>
      else if analyze_data x then
        let (k, t) = add_text l (analyze_line x) (analyze_text x) in x\<lparr>analyze_line := k, analyze_text := t\<rparr>
      else if smart_data x then
        let (k, t) = add_text l (smart_line x) (smart_text x) in x\<lparr>smart_line := k, smart_text := t\<rparr>
      else x)"

definition parse_row :: "string list \<Rightarrow> row \<times> bool" where
  "parse_row ws =
     (let (p, e1) = strtoull (ws ! 0); (n, e2) = strtoull (ws ! 1); (st, e3) = strtoll (ws ! 2);
          (info, e4) = strtoll (ws ! 3); (err, e5) = strtoll (ws ! 4)
      in (mk_row (sint p) (sint n) (st + push_bit 8 info + push_bit 32 err),
          e1 \<noteq> [] \<or> e2 \<noteq> [] \<or> e3 \<noteq> [] \<or> e4 \<noteq> [] \<or> e5 \<noteq> []))"

definition fail_if :: "bool \<Rightarrow> log_scan \<Rightarrow> log_scan" where
  "fail_if b x = (if b then x\<lparr>found_error := 1\<rparr> else x)"

text \<open>The number of conversions of \<open>sscanf(line, "%s %s %s %s %s %[^\\n]")\<close> is that of the words, at most 6.\<close>

definition read_log_line :: "string \<Rightarrow> log_scan \<times> 'a log_env_scheme \<Rightarrow> log_scan \<times> 'a log_env_scheme" where
  "read_log_line l = (\<lambda>(x, s).
     let ws = scan_words l; n = min 6 (length ws) in
     if n = 0 then (x, s)
     else if take 1 (ws ! 0) \<noteq> ''#'' \<and> \<not> analyze_data x \<and> \<not> smart_data x then
       if \<not> found_current x \<and> n = 2 then
         let (p, e1) = strtoull (ws ! 0); (st, e2) = strtoull (ws ! 1)
         in (fail_if (e1 \<noteq> [] \<or> e2 \<noteq> []) (x\<lparr>found_current := True\<rparr>), s\<lparr>current_position := sint p, current_status := st\<rparr>)
       else if \<not> found_current x \<or> n \<noteq> 5 then (fail_if True x, s)
       else let (r, bad) = parse_row ws in (fail_if bad (x\<lparr>scanned := scanned x @ [r]\<rparr>), s)
     else if ws ! 0 = ''#'' then (scan_comment l x, s)
     else (x, s))"

text \<open>The result of growing the arrays is ignored.\<close>

definition grow_for_scan :: "log_scan \<times> 'a log_env_scheme \<Rightarrow> log_scan \<times> 'a log_env_scheme" where
  "grow_for_scan = (\<lambda>(x, s).
     (x, if length (scanned x) \<ge> line_rows (log_table s)
         then s\<lparr>log_table := snd (increase_log_memory 1000 (log_table s))\<rparr> else s))"

fun read_log_lines :: "string list \<Rightarrow> log_scan \<times> 'a log_env_scheme \<Rightarrow> log_scan \<times> 'a log_env_scheme" where
  "read_log_lines [] y = y"
| "read_log_lines (l # ls) y =
     (let y = grow_for_scan (read_log_line l y) in if found_error (fst y) \<noteq> 0 then y else read_log_lines ls y)"

text \<open>\<open>None\<close>: no file name, or the file cannot be opened.  The result has the two texts, if the file could be
  opened, and the settings, too.\<close>

definition read_log_file :: "string option \<Rightarrow> config \<Rightarrow> 'a log_env_scheme \<Rightarrow> int \<times> (string \<times> string) option \<times> config \<times> 'a log_env_scheme" where
  "read_log_file file c s =
     (case file of
        None \<Rightarrow> (1, None, c, s)
      | Some text \<Rightarrow>
          (let (x, s) = read_log_lines (file_lines (MAX_LINE_LENGTH - 2) text) (new_scan c, s)
           in (found_error x, Some (analyze_text x, smart_text x), config x,
               s\<lparr>log_table := (log_table s)\<lparr>lines := (if found_error x \<noteq> 0 then [] else scanned x)\<rparr>\<rparr>)))"

section \<open>Writing\<close>

definition row_text :: "row \<Rightarrow> string" where
  "row_text r =
     ''0x'' @ print_hex False 6 (word_of_int (lposition r)) @ '' '' @ [tab] @
     ''0x'' @ print_hex False 6 (word_of_int (lsize r)) @ '' '' @ [tab] @
     ''0x'' @ print_hex False 0 (lstatus r AND STATUS_MASK) @ '' '' @ [tab] @
     ''0x'' @ print_hex False 0 (drop_bit 8 (lstatus r AND INFO_MASK)) @ '' '' @ [tab] @
     ''0x'' @ print_hex False 0 (signed_drop_bit 32 (lstatus r))"

definition position_text :: "'a log_env_scheme \<Rightarrow> string" where
  "position_text s =
     ''0x'' @ print_hex False 6 (word_of_int (current_position s)) @ ''        '' @ [tab] @ '' '' @ [tab] @
     ''0x'' @ print_hex False 0 (current_status s)"

text \<open>
  The lines of the file: \<open>notes\<close> are the comments in front (version, date, command, settings,
  analysis, SMART and identify data), each of which begins with \<open>#\<close>.
\<close>

definition log_lines :: "string list \<Rightarrow> 'a log_env_scheme \<Rightarrow> string list" where
  "log_lines notes s =
     notes @ [''#'', ''# current position  '' @ [tab] @ '' '' @ [tab] @ ''status'', position_text s,
       ''#'', ''# position '' @ [tab] @ ''size     '' @ [tab] @ ''status '' @ [tab] @ ''info '' @ [tab] @ ''err/status/time''] @
     map row_text (lines (log_table s))"

definition log_text :: "string list \<Rightarrow> 'a log_env_scheme \<Rightarrow> string" where
  "log_text notes s = concat (map (\<lambda>l. l @ [newline]) (log_lines notes s))"

end
