(* ===== verification/Log_Trip.thy ===== *)
theory Log_Trip
  imports Log_File
begin

text \<open>What is written to the log file is read back: numbers, rows, and the file as a whole.\<close>

section \<open>Numbers\<close>

lemma hex_first: "\<exists>d t. d < 16 \<and> hex u n = hex_digit u d # t"
proof (induction u n rule: hex.induct)
  case (1 u n)
  show ?case
  proof (cases "n < 16")
    case True
    then show ?thesis by (subst hex.simps) auto
  next
    case False
    with 1 show ?thesis by (subst hex.simps) auto
  qed
qed

lemma print_hex_first: "begins_digit 16 (print_hex u w x)"
proof (cases "w - length (hex u (unat x))")
  case 0
  then show ?thesis using hex_first [of u "unat x"] by (auto simp: print_hex_def begins_digit_def)
qed (simp add: print_hex_def begins_digit_def digit_val_def Let_def)

lemma scan_print_hex: "scan_digits 16 0 (print_hex u w x) = (unat x, [])"
  using scan_digits_hex [of 0 u "unat x" "[]"] by (simp add: print_hex_def Let_def scan_digits_zeros)

lemma scan_number_hex: "scan_number (''0x'' @ print_hex u w x) = Some (False, unat x, [])"
  using print_hex_first [of u w x]
  by (simp add: scan_number_def scan_magnitude_def scan_print_hex is_space_def Let_def)

lemma strtoull_hex [simp]: "strtoull (CHR ''0'' # CHR ''x'' # print_hex u w x) = (x, [])"
proof -
  have "unat x < 2 ^ 64" using unsigned_less [of x] by simp
  then show ?thesis using scan_number_hex [of u w x] by (simp add: strtoull_def)
qed

lemma strtoll_hex: "unat x < 2 ^ 63 \<Longrightarrow> strtoll (CHR ''0'' # CHR ''x'' # print_hex u w x) = (x, [])"
proof -
  assume "unat x < 2 ^ 63"
  moreover have "\<not> uint x < - 9223372036854775808" using uint_nonnegative [of x] by linarith
  ultimately show ?thesis using scan_number_hex [of u w x] by (simp add: strtoll_def Let_def)
qed

text \<open>A value with the sign bit does not survive: \<open>strtoll\<close> stops at the largest signed value.\<close>

lemma strtoll_hex_big: "2 ^ 63 \<le> unat x \<Longrightarrow> strtoll (CHR ''0'' # CHR ''x'' # print_hex u w x) = (2 ^ 63 - 1, [])"
  using scan_number_hex [of u w x] by (simp add: strtoll_def)

section \<open>Status words\<close>

lemma disjoint_add: "a AND b = 0 \<Longrightarrow> a + b = a OR (b :: 'a::len word)"
  by (rule disjunctive_add) (auto simp: bit_eq_iff bit_simps dest: bit_imp_le_length)

lemma status_masks: "STATUS_MASK = mask 8" "INFO_MASK = push_bit 8 (mask 24)"
  by (simp_all add: STATUS_MASK_def INFO_MASK_def mask_eq_exp_minus_1)

lemma status_parts:
  "(st AND STATUS_MASK) + push_bit 8 (drop_bit 8 (st AND INFO_MASK)) + push_bit 32 (drop_bit 32 st) = st"
proof -
  have "(st AND mask 8) + push_bit 8 (drop_bit 8 (st AND push_bit 8 (mask 24))) =
      (st AND mask 8) OR push_bit 8 (drop_bit 8 (st AND push_bit 8 (mask 24)))"
    by (rule disjoint_add) (auto simp: bit_eq_iff bit_simps)
  moreover have "\<dots> = st AND mask 32" by (auto simp: bit_eq_iff bit_simps)
  moreover have "(st AND mask 32) + push_bit 32 (drop_bit 32 st) = (st AND mask 32) OR push_bit 32 (drop_bit 32 st)"
    by (rule disjoint_add) (auto simp: bit_eq_iff bit_simps)
  moreover have "bit ((st AND mask 32) OR push_bit 32 (drop_bit 32 st)) n \<longleftrightarrow> bit st n" if "n < 64" for n
    using that by (cases "n < 32") (auto simp: bit_simps)
  then have "(st AND mask 32) OR push_bit 32 (drop_bit 32 st) = st" by (intro bit_word_eqI) simp
  ultimately show ?thesis by (simp add: status_masks)
qed

lemma part_sizes:
  "unat (st AND STATUS_MASK) < 2 ^ 63" "unat (drop_bit 8 (st AND INFO_MASK)) < 2 ^ 63"
  "unat (drop_bit 32 (st :: status_word)) < 2 ^ 63"
proof -
  have l: "unat st < 2 ^ 64" for st :: status_word using unsigned_less [of st] by simp
  have d: "unat (drop_bit k st) < 2 ^ 63" if "1 \<le> k" for k and st :: status_word
  proof -
    have "unat (drop_bit k st) = drop_bit k (take_bit 64 (unat st))" by (simp add: unsigned_drop_bit_eq)
    then have "unat (drop_bit k st) = unat st div 2 ^ k" using l [of st] by (simp add: drop_bit_eq_div take_bit_nat_eq_self)
    also have "\<dots> \<le> unat st div 2 ^ 1" using that by (intro div_le_mono2 power_increasing) simp_all
    finally show ?thesis using l [of st] by simp
  qed
  show "unat (drop_bit 8 (st AND INFO_MASK)) < 2 ^ 63" "unat (drop_bit 32 st) < 2 ^ 63" by (rule d, simp)+
  have "unat (st AND STATUS_MASK) = take_bit 8 (unat st)"
    by (simp add: status_masks take_bit_eq_mask [symmetric] unsigned_take_bit_eq)
  moreover have "take_bit 8 (unat st) < 2 ^ 8" by (rule take_bit_nat_less_exp)
  ultimately show "unat (st AND STATUS_MASK) < 2 ^ 63" by simp
qed

lemma signed_part: "\<not> bit st 63 \<Longrightarrow> signed_drop_bit 32 st = drop_bit 32 (st :: status_word)"
  by (auto simp: bit_eq_iff bit_simps dest: bit_imp_le_length)

section \<open>Rows\<close>

text \<open>Rows that the file can hold.\<close>

definition storable :: "row \<Rightarrow> bool" where
  "storable r \<longleftrightarrow> 0 \<le> lposition r \<and> lposition r < 2 ^ 63 \<and> 0 \<le> lsize r \<and> lsize r < 2 ^ 63 \<and> \<not> bit (lstatus r) 63"

lemma sint_back: "0 \<le> p \<Longrightarrow> p < 2 ^ 63 \<Longrightarrow> sint (word_of_int p :: 64 word) = p"
  by (simp add: sint_uint signed_take_bit_int_eq_self unsigned_of_int take_bit_int_eq_self)

lemma print_hex_not_space: "c \<in> set (print_hex u w x) \<Longrightarrow> \<not> is_space c"
  using hex_not_space by (auto simp: print_hex_def Let_def is_space_def)

lemma number_word:
  "is_space c \<Longrightarrow> scan_words (CHR ''0'' # CHR ''x'' # print_hex u w x @ c # s) = (CHR ''0'' # CHR ''x'' # print_hex u w x) # scan_words s"
  using scan_words_word [of "CHR ''0'' # CHR ''x'' # print_hex u w x" c s] print_hex_not_space
  by (auto simp: is_space_def)

lemma spaces [simp]: "is_space (CHR '' '')" "is_space tab" "is_space newline"
  by (simp_all add: is_space_def)

lemma row_words:
  "scan_words (row_text r @ [newline]) =
     [''0x'' @ print_hex False 6 (word_of_int (lposition r)), ''0x'' @ print_hex False 6 (word_of_int (lsize r)),
      ''0x'' @ print_hex False 0 (lstatus r AND STATUS_MASK), ''0x'' @ print_hex False 0 (drop_bit 8 (lstatus r AND INFO_MASK)),
      ''0x'' @ print_hex False 0 (signed_drop_bit 32 (lstatus r))]"
  by (simp add: row_text_def number_word)

lemma parse_row_text:
  assumes "storable r"
  shows "parse_row (scan_words (row_text r @ [newline])) = (r, False)"
proof -
  note s = assms [unfolded storable_def]
  have "strtoll (''0x'' @ print_hex False 0 (signed_drop_bit 32 (lstatus r))) = (drop_bit 32 (lstatus r), [])"
    using s strtoll_hex [OF part_sizes(3)] by (simp add: signed_part)
  moreover have "sint (word_of_int (lposition r) :: 64 word) = lposition r" "sint (word_of_int (lsize r) :: 64 word) = lsize r"
    using s by (simp_all add: sint_back)
  ultimately show ?thesis
    using status_parts [of "lstatus r"] strtoll_hex [OF part_sizes(1)] strtoll_hex [OF part_sizes(2)]
    by (simp add: parse_row_def row_words mk_row_def)
qed

lemma position_words:
  "scan_words (position_text s @ [newline]) =
     [''0x'' @ print_hex False 6 (word_of_int (current_position s)), ''0x'' @ print_hex False 0 (current_status s)]"
  by (simp add: position_text_def number_word)

section \<open>The length of the lines\<close>

lemma length_print_hex:
  assumes "w \<le> 16"
  shows "length (print_hex u w x) \<le> 16"
proof -
  have "unat x < 16 ^ 16" using unsigned_less [of x] by simp
  then have "length (hex u (unat x)) \<le> 16" by (rule length_hex) simp
  moreover have "length (print_hex u w x) = max w (length (hex u (unat x)))"
    by (simp add: print_hex_def Let_def max_def)
  ultimately show ?thesis using assms by simp
qed

lemma newline_print_hex [simp]: "newline \<notin> set (print_hex u w x)"
  using print_hex_not_space [of newline u w x] by auto

lemma row_text_fits: "newline \<notin> set (row_text r)" "length (row_text r) \<le> MAX_LINE_LENGTH - 2"
proof -
  show "newline \<notin> set (row_text r)" by (simp add: row_text_def)
  have "length (print_hex False 6 x) \<le> 16" "length (print_hex False 0 x) \<le> 16" for x by (rule length_print_hex; simp)+
  from this(1) [of "word_of_int (lposition r)"] this(1) [of "word_of_int (lsize r)"] this(2) [of "lstatus r AND STATUS_MASK"]
    this(2) [of "drop_bit 8 (lstatus r AND INFO_MASK)"] this(2) [of "signed_drop_bit 32 (lstatus r)"]
  show "length (row_text r) \<le> MAX_LINE_LENGTH - 2" by (simp add: row_text_def MAX_LINE_LENGTH_def)
qed

lemma position_text_fits: "newline \<notin> set (position_text s)" "length (position_text s) \<le> MAX_LINE_LENGTH - 2"
proof -
  show "newline \<notin> set (position_text s)" by (simp add: position_text_def)
  have "length (print_hex False 6 x) \<le> 16" "length (print_hex False 0 x) \<le> 16" for x by (rule length_print_hex; simp)+
  from this(1) [of "word_of_int (current_position s)"] this(2) [of "current_status s"]
  show "length (position_text s) \<le> MAX_LINE_LENGTH - 2" by (simp add: position_text_def MAX_LINE_LENGTH_def)
qed

section \<open>Reading what was written\<close>

text \<open>A comment that \<open>fgets\<close> reads in one piece.\<close>

definition comment_line :: "string \<Rightarrow> bool" where
  "comment_line l \<longleftrightarrow> take 1 l = ''#'' \<and> newline \<notin> set l \<and> length l \<le> MAX_LINE_LENGTH - 2"

lemma comment_words:
  assumes "comment_line l"
  shows "scan_words (l @ [newline]) \<noteq> []" "take 1 (scan_words (l @ [newline]) ! 0) = ''#''"
proof -
  obtain t where l: "l = CHR ''#'' # t" using assms by (cases l) (auto simp: comment_line_def)
  have "\<not> is_space (CHR ''#'')" by (simp add: is_space_def)
  then show "scan_words (l @ [newline]) \<noteq> []" "take 1 (scan_words (l @ [newline]) ! 0) = ''#''"
    by (simp_all add: l scan_words.simps [of "CHR ''#'' # _"])
qed

text \<open>What is left of the scan after the comments; one of the two texts may still be open.\<close>

definition after_comments :: "string list \<Rightarrow> log_scan \<Rightarrow> log_scan" where
  "after_comments ls = fold scan_comment (filter (\<lambda>l. scan_words l ! 0 = ''#'') (map (\<lambda>l. l @ [newline]) ls))"

definition no_config :: config where
  "no_config = \<lparr>int_vars = (\<lambda>_. 0), text_vars = (\<lambda>_. None), activate_relays = replicate 8 False, deactivate_relays = replicate 8 False\<rparr>"

definition open_text :: "string list \<Rightarrow> bool" where
  "open_text notes = (let x = after_comments notes (new_scan no_config) in analyze_data x \<or> smart_data x)"

lemma after_comments_simps [simp]:
  "after_comments [] x = x"
  "after_comments (l # ls) x =
     after_comments ls (if scan_words (l @ [newline]) ! 0 = ''#'' then scan_comment (l @ [newline]) x else x)"
  "after_comments (ls @ ms) x = after_comments ms (after_comments ls x)"
  by (simp_all add: after_comments_def)

text \<open>What of the scan matters for the rows: a comment changes none of it but the two flags.\<close>

definition scan_flags :: "log_scan \<Rightarrow> bool \<times> bool" where
  "scan_flags x = (analyze_data x, smart_data x)"

definition scan_rows :: "log_scan \<Rightarrow> bool \<times> int \<times> row list" where
  "scan_rows x = (found_current x, found_error x, scanned x)"

lemma scan_comment_flags [simp]: "scan_flags (scan_comment l x) = scan_flags (scan_marks (comment_command l) x)"
  by (auto simp: scan_flags_def scan_comment_def Let_def split: prod.split)

lemma scan_marks_flags: "scan_flags x = scan_flags y \<Longrightarrow> scan_flags (scan_marks c x) = scan_flags (scan_marks c y)"
  by (auto simp: scan_flags_def scan_marks_def Let_def)

lemma after_comments_flags: "scan_flags x = scan_flags y \<Longrightarrow> scan_flags (after_comments ls x) = scan_flags (after_comments ls y)"
proof (induction ls arbitrary: x y)
  case (Cons l ls)
  from Cons.IH [OF Cons.prems] Cons.IH [of "scan_comment (l @ [newline]) x" "scan_comment (l @ [newline]) y"] scan_marks_flags [OF Cons.prems]
  show ?case by simp
qed simp

lemma scan_marks_rows [simp]: "scan_rows (scan_marks c x) = scan_rows x"
  by (simp add: scan_rows_def scan_marks_def Let_def)

lemma scan_comment_rows [simp]: "scan_rows (scan_comment l x) = scan_rows x"
proof -
  have "scan_rows (scan_comment l x) = scan_rows (scan_marks (comment_command l) x)"
    by (simp add: scan_rows_def scan_comment_def Let_def split: prod.split)
  then show ?thesis by simp
qed

lemma after_comments_rows [simp]: "scan_rows (after_comments ls x) = scan_rows x"
  by (induction ls arbitrary: x) simp_all

lemma closed_text_flags: "\<not> open_text notes \<Longrightarrow> scan_flags (after_comments notes (new_scan c)) = (False, False)"
  using after_comments_flags [where x = "new_scan c" and y = "new_scan no_config" and ls = "notes"]
  by (simp add: open_text_def scan_flags_def new_scan_def Let_def)

definition grown :: "'a log_env_scheme \<Rightarrow> 'a log_env_scheme \<Rightarrow> bool" where
  "grown s t \<longleftrightarrow> (\<exists>T. t = s\<lparr>log_table := T\<rparr> \<and> lines T = lines (log_table s))"

lemma grown_refl [simp]: "grown s s"
  by (auto simp: grown_def intro: exI [of _ "log_table s"])

lemma grown_trans: "grown s t \<Longrightarrow> grown t u \<Longrightarrow> grown s u"
  by (auto simp: grown_def)

lemma lines_increase [simp]: "lines (snd (increase_log_memory n T)) = lines T"
  by (simp add: increase_log_memory_def Let_def)

lemma grow_for_scan_cases:
  obtains t where "grow_for_scan (x, s) = (x, t)" "grown s t"
proof -
  have "grow_for_scan (x, s) = (x, snd (grow_for_scan (x, s)))" by (simp add: grow_for_scan_def)
  moreover have "grown s (snd (grow_for_scan (x, s)))"
    using grown_refl [of s] by (auto simp: grow_for_scan_def) (auto simp: grown_def)
  ultimately show thesis by (rule that)
qed

lemma read_comment:
  assumes w: "scan_words l \<noteq> []" "take 1 (scan_words l ! 0) = ''#''" and "found_error x = 0"
  shows "\<exists>t. (\<forall>ls. read_log_lines (l # ls) (x, s) = read_log_lines ls (if scan_words l ! 0 = ''#'' then scan_comment l x else x, t)) \<and>
    grown s t"
proof -
  define y where "y = (if scan_words l ! 0 = ''#'' then scan_comment l x else x)"
  have n: "min 6 (length (scan_words l)) \<noteq> 0" using w by (simp add: min_def)
  have y: "read_log_line l (x, s) = (y, s)"
    using w(2) unfolding read_log_line_def prod.case Let_def if_not_P [OF n] by (simp add: y_def)
  obtain t where t: "grow_for_scan (y, s) = (y, t)" "grown s t" by (rule grow_for_scan_cases)
  have "scan_rows y = scan_rows x" by (simp add: y_def)
  then have "found_error y = 0" using assms(3) by (simp add: scan_rows_def)
  then show ?thesis using t by (intro exI [of _ t]) (simp add: y y_def [symmetric])
qed

lemma read_comments:
  assumes "\<forall>l\<in>set ls. comment_line l" "found_error x = 0"
  shows "\<exists>t. (\<forall>ms. read_log_lines (map (\<lambda>l. l @ [newline]) ls @ ms) (x, s) = read_log_lines ms (after_comments ls x, t)) \<and> grown s t"
  using assms
proof (induction ls arbitrary: x s)
  case (Cons l ls)
  define y where "y = (if scan_words (l @ [newline]) ! 0 = ''#'' then scan_comment (l @ [newline]) x else x)"
  have c: "comment_line l" using Cons.prems by simp
  from read_comment [OF comment_words [OF c] Cons.prems(2), of s] obtain t where
    t: "\<forall>ms. read_log_lines ((l @ [newline]) # ms) (x, s) = read_log_lines ms (y, t)" "grown s t"
    unfolding y_def by blast
  have "scan_rows y = scan_rows x" by (simp add: y_def)
  then have "found_error y = 0" "\<forall>l\<in>set ls. comment_line l" using Cons.prems by (simp_all add: scan_rows_def)
  from Cons.IH [OF this(2,1), of t] obtain u where
    "\<forall>ms. read_log_lines (map (\<lambda>l. l @ [newline]) ls @ ms) (y, t) = read_log_lines ms (after_comments ls y, u)" "grown t u" by blast
  with t grown_trans [of s t u] show ?case
    by (intro exI [of _ u]) (simp add: y_def [symmetric] del: read_log_lines.simps)
next
  case Nil
  then show ?case by (intro exI [of _ s]) simp
qed

lemma scan_position:
  assumes "scan_flags x = (False, False)" "\<not> found_current x" "found_error x = 0" "0 \<le> current_position s0" "current_position s0 < 2 ^ 63"
  shows "\<exists>t. (\<forall>ls. read_log_lines ((position_text s0 @ [newline]) # ls) (x, s) = read_log_lines ls (x\<lparr>found_current := True\<rparr>, t)) \<and>
    grown (s\<lparr>current_position := current_position s0, current_status := current_status s0\<rparr>) t"
proof -
  define y where "y = x\<lparr>found_current := True\<rparr>"
  let ?s = "s\<lparr>current_position := current_position s0, current_status := current_status s0\<rparr>"
  have r: "read_log_line (position_text s0 @ [newline]) (x, s) = (y, ?s)"
    using assms by (simp add: read_log_line_def position_words Let_def scan_flags_def y_def fail_if_def sint_back)
  obtain t where t: "grow_for_scan (y, ?s) = (y, t)" "grown ?s t" by (rule grow_for_scan_cases)
  have "found_error y = 0" using assms(3) by (simp add: y_def)
  then have "\<forall>ls. read_log_lines ((position_text s0 @ [newline]) # ls) (x, s) = read_log_lines ls (y, t)" by (simp add: r t(1))
  then show ?thesis using t(2) unfolding y_def by blast
qed

lemma scan_row_texts:
  assumes "\<forall>r\<in>set qs. storable r" "scan_flags x = (False, False)" "found_current x" "found_error x = 0"
  shows "\<exists>t. read_log_lines (map (\<lambda>r. row_text r @ [newline]) qs) (x, s) = (x\<lparr>scanned := scanned x @ qs\<rparr>, t) \<and> grown s t"
  using assms
proof (induction qs arbitrary: x s)
  case (Cons r qs)
  define y where "y = x\<lparr>scanned := scanned x @ [r]\<rparr>"
  have "parse_row (scan_words (row_text r @ [newline])) = (r, False)" by (rule parse_row_text) (use Cons.prems in simp)
  then have rd: "read_log_line (row_text r @ [newline]) (x, s) = (y, s)"
    using Cons.prems by (simp add: read_log_line_def row_words Let_def scan_flags_def y_def fail_if_def)
  obtain t where t: "grow_for_scan (y, s) = (y, t)" "grown s t" by (rule grow_for_scan_cases)
  have y: "scan_flags y = (False, False)" "found_current y" "found_error y = 0" "y\<lparr>scanned := scanned y @ qs\<rparr> = x\<lparr>scanned := scanned x @ r # qs\<rparr>"
    using Cons.prems by (simp_all add: y_def scan_flags_def)
  obtain u where "read_log_lines (map (\<lambda>r. row_text r @ [newline]) qs) (y, t) = (y\<lparr>scanned := scanned y @ qs\<rparr>, u)" "grown t u"
    using Cons.IH [OF _ y(1-3), of t] Cons.prems(1) by auto
  then show ?case using grown_trans [OF t(2)] y(3,4) by (simp add: rd t(1))
next
  case Nil
  then show ?case by (intro exI [of _ s]) simp
qed

section \<open>The file as a whole\<close>

lemma head_comments:
  "comment_line ''#''" "comment_line (''# current position  '' @ [tab] @ '' '' @ [tab] @ ''status'')"
  "comment_line (''# position '' @ [tab] @ ''size     '' @ [tab] @ ''status '' @ [tab] @ ''info '' @ [tab] @ ''err/status/time'')"
  by (simp_all add: comment_line_def MAX_LINE_LENGTH_def)

lemma head_commands:
  "comment_command (''#'' @ [newline]) = []"
  "comment_command ((''# current position  '' @ [tab] @ '' '' @ [tab] @ ''status'') @ [newline]) = ''current''"
  "comment_command ((''# position '' @ [tab] @ ''size     '' @ [tab] @ ''status '' @ [tab] @ ''info '' @ [tab] @ ''err/status/time'') @ [newline]) =
    ''position''"
  by (simp_all add: comment_command_def scan_words.simps [of "CHR ''c'' # _"] scan_words.simps [of "CHR ''p'' # _"] is_space_def)

text \<open>Commands that are no settings.\<close>

lemma other_settings:
  "list_all (\<lambda>k. map_of number_settings k = None \<and> map_of text_settings k = None \<and> k \<noteq> ''primerelaysettings'')
     [[], ''current'', ''position'']"
  by code_simp

lemma set_config_other: "k \<in> {[], ''current'', ''position''} \<Longrightarrow> set_config k d c = c"
  using other_settings by (auto simp: set_config_def)

lemma scan_comment_other:
  assumes "comment_command l \<in> {[], ''current'', ''position''}" "scan_flags x = (False, False)"
  shows "scan_comment l x = x"
proof -
  have "comment_command l \<notin> {''startconfig'', ''startanyalyze'', ''endanalyze'', ''startsmart'', ''endsmart''}" using assms(1) by auto
  then have "scan_marks (comment_command l) x = x" by (simp add: scan_marks_def)
  moreover have "x\<lparr>config := config x\<rparr> = x" by simp
  moreover have "comment_command l \<notin> {''startconfig'', ''endconfig''}" using assms(1) by auto
  ultimately show ?thesis using assms set_config_other [OF assms(1)] by (simp add: scan_comment_def scan_flags_def Let_def)
qed

lemma head_after:
  assumes "scan_flags x = (False, False)"
  shows "after_comments [''#'', ''# current position  '' @ [tab] @ '' '' @ [tab] @ ''status''] x = x"
    "after_comments [''#'', ''# position '' @ [tab] @ ''size     '' @ [tab] @ ''status '' @ [tab] @ ''info '' @ [tab] @ ''err/status/time''] x = x"
  using scan_comment_other [OF _ assms] by (simp_all only: after_comments_simps head_commands insertI1 insertI2 if_cancel)

lemma log_file_lines:
  assumes "\<forall>l\<in>set notes. comment_line l"
  shows "file_lines (MAX_LINE_LENGTH - 2) (log_text notes s) = map (\<lambda>l. l @ [newline]) (log_lines notes s)"
proof -
  have "\<forall>l\<in>set (log_lines notes s). newline \<notin> set l \<and> length l \<le> MAX_LINE_LENGTH - 2"
    using assms head_comments row_text_fits position_text_fits by (auto simp: log_lines_def comment_line_def)
  from file_lines_texts [OF this, of "[]"] show ?thesis by (simp add: log_text_def)
qed

lemma log_file_round_trip_rule:
  assumes "\<forall>l\<in>set notes. comment_line l" "\<not> open_text notes" "\<forall>r\<in>set (lines (log_table s)). storable r"
    and "0 \<le> current_position s" "current_position s < 2 ^ 63"
  shows "let x = after_comments notes (new_scan c) in \<exists>T. read_log_file (Some (log_text notes s)) c s0 =
      (0, Some (analyze_text x, smart_text x), config x,
       s0\<lparr>log_table := T, current_position := current_position s, current_status := current_status s\<rparr>) \<and>
    lines T = lines (log_table s)"
proof -
  define c1 where "c1 = [''#'', ''# current position  '' @ [tab] @ '' '' @ [tab] @ ''status'']"
  define c2 where "c2 = [''#'', ''# position '' @ [tab] @ ''size     '' @ [tab] @ ''status '' @ [tab] @ ''info '' @ [tab] @ ''err/status/time'']"
  define nl where "nl = map (\<lambda>l. l @ [newline])"
  define x where "x = after_comments notes (new_scan c)"
  have c: "\<forall>l\<in>set (notes @ c1). comment_line l" "\<forall>l\<in>set c2. comment_line l"
    using assms(1) head_comments by (auto simp: c1_def c2_def)
  have ll: "nl (log_lines notes s) = nl (notes @ c1) @ (position_text s @ [newline]) # nl c2 @ map (\<lambda>r. row_text r @ [newline]) (lines (log_table s))"
    by (simp add: log_lines_def c1_def c2_def nl_def)
  have f: "scan_flags x = (False, False)" using closed_text_flags [OF assms(2)] by (simp add: x_def)
  have "scan_rows x = scan_rows (new_scan c)" by (simp add: x_def)
  then have r: "\<not> found_current x" "found_error x = 0" "scanned x = []" by (simp_all add: scan_rows_def new_scan_def)
  have a: "after_comments (notes @ c1) (new_scan c) = x" using head_after(1) [OF f] by (simp add: c1_def x_def)
  have e: "found_error (new_scan c) = 0" by (simp add: new_scan_def)
  from read_comments [OF c(1) e, of s0] obtain s1 where
    1: "\<forall>ms. read_log_lines (nl (notes @ c1) @ ms) (new_scan c, s0) = read_log_lines ms (x, s1)" "grown s0 s1"
    unfolding nl_def a by blast
  define x2 where "x2 = x\<lparr>found_current := True\<rparr>"
  have x2: "scan_flags x2 = (False, False)" "found_current x2" "found_error x2 = 0" using f r by (simp_all add: x2_def scan_flags_def)
  from scan_position [OF f r(1,2) assms(4,5), of s1] obtain s2 where
    2: "\<forall>ms. read_log_lines ((position_text s @ [newline]) # ms) (x, s1) = read_log_lines ms (x2, s2)"
      "grown (s1\<lparr>current_position := current_position s, current_status := current_status s\<rparr>) s2"
    unfolding x2_def by blast
  have b: "after_comments c2 x2 = x2" using head_after(2) [OF x2(1)] by (simp add: c2_def)
  from read_comments [OF c(2) x2(3), of s2] obtain s3 where
    3: "\<forall>ms. read_log_lines (nl c2 @ ms) (x2, s2) = read_log_lines ms (x2, s3)" "grown s2 s3"
    unfolding nl_def b by blast
  define x4 where "x4 = x2\<lparr>scanned := scanned x2 @ lines (log_table s)\<rparr>"
  obtain s4 where
    4: "read_log_lines (map (\<lambda>r. row_text r @ [newline]) (lines (log_table s))) (x2, s3) = (x4, s4)" "grown s3 s4"
    using scan_row_texts [OF assms(3) x2(1-3), of s3] by (auto simp: x4_def)
  have "read_log_lines (file_lines (MAX_LINE_LENGTH - 2) (log_text notes s)) (new_scan c, s0) = (x4, s4)"
    unfolding log_file_lines [OF assms(1)] nl_def [symmetric] ll using 1(1) 2(1) 3(1) 4(1) by simp
  moreover have "grown (s0\<lparr>current_position := current_position s, current_status := current_status s\<rparr>) s4"
    using 1(2) 2(2) 3(2) 4(2) by (auto simp: grown_def)
  moreover have "found_error x4 = 0" "scanned x4 = lines (log_table s)" "analyze_text x4 = analyze_text x" "smart_text x4 = smart_text x"
    "config x4 = config x" using r by (simp_all add: x4_def x2_def)
  ultimately have "read_log_file (Some (log_text notes s)) c s0 = (0, Some (analyze_text x, smart_text x), config x,
      s4\<lparr>log_table := (log_table s4)\<lparr>lines := lines (log_table s)\<rparr>\<rparr>)"
    "\<exists>T. s4 = s0\<lparr>current_position := current_position s, current_status := current_status s, log_table := T\<rparr>"
    by (simp_all add: read_log_file_def) (auto simp: grown_def)
  then show ?thesis unfolding x_def [symmetric] Let_def
    by (intro exI [of _ "(log_table s4)\<lparr>lines := lines (log_table s)\<rparr>"]) auto
qed

text \<open>
  What \<open>write_logfile_ccc\<close> writes, \<open>read_log_file_ccc\<close> reads back: the position, the phase and
  every line of the table with its position, size and all parts of its status, whatever comments,
  settings and texts stand in front of them, when no comment is longer than the buffer of \<open>fgets\<close>.
\<close>

theorem log_file_round_trip:
  assumes "\<forall>l\<in>set notes. comment_line l" "\<not> open_text notes" "\<forall>r\<in>set (lines (log_table s)). storable r"
    and "0 \<le> current_position s" "current_position s < 2 ^ 63"
  shows "let x = after_comments notes (new_scan c) in \<exists>T. read_log_file (Some (log_text notes s)) c s0 =
      (0, Some (analyze_text x, smart_text x), config x,
       s0\<lparr>log_table := T, current_position := current_position s, current_status := current_status s\<rparr>) \<and>
    lines T = lines (log_table s)"
  using assms by (rule log_file_round_trip_rule)

lemma log_file_round_trip_witness:
  "let x = after_comments [''# note''] (new_scan no_config) in \<exists>T. read_log_file (Some (log_text [''# note''] (demo_env demo_rows 100))) no_config (demo_env [] 100) =
      (0, Some (analyze_text x, smart_text x), config x, (demo_env [] 100)\<lparr>log_table := T, current_position := current_position (demo_env demo_rows 100),
         current_status := current_status (demo_env demo_rows 100)\<rparr>) \<and>
    lines T = demo_rows"
proof -
  have c: "\<forall>l\<in>set [''# note'']. comment_line l" by (simp add: comment_line_def MAX_LINE_LENGTH_def)
  have o: "\<not> open_text [''# note'']"
    by (simp add: open_text_def new_scan_def scan_comment_def scan_marks_def comment_command_def is_space_def
      scan_words.simps [of "CHR ''#'' # _"] scan_words.simps [of "CHR ''n'' # _"])
  have r: "\<forall>r\<in>set (lines (log_table (demo_env demo_rows 100))). storable r"
    by (simp add: demo_rows_def storable_def FINISHED_def NONTRIED_def)
  have p: "0 \<le> current_position (demo_env demo_rows 100)" "current_position (demo_env demo_rows 100) < 2 ^ 63"
    by (simp_all add: demo_env_def)
  from log_file_round_trip [OF c o r p, of no_config "demo_env [] 100"] show ?thesis unfolding demo_env_sel demo_sel .
qed

section \<open>A comment that is too long\<close>

text \<open>The second part of the comment is read as a line of its own, and it is not a comment.\<close>

lemma read_rest_fails:
  assumes "scan_words l = [w]" "take 1 w \<noteq> ''#''" "scan_flags x = (False, False)" "scan_rows x = (False, 0, rs)"
  shows "found_error (fst (read_log_lines (l # ls) (x, s))) = 1"
  using assms
  by (simp add: read_log_line_def scan_flags_def scan_rows_def fail_if_def grow_for_scan_def Let_def)

lemma long_comment_unreadable_rule:
  assumes "\<forall>m\<in>set pre. comment_line m" "\<not> open_text pre"
    and l: "take 1 l = ''#''" "newline \<notin> set l" "255 < length l" "length l \<le> 509"
    and "comment_command (take 255 l) \<notin> {''startanyalyze'', ''startsmart''}"
    and r: "\<forall>c\<in>set (drop 255 l). \<not> is_space c" "l ! 255 \<noteq> CHR ''#''"
  shows "\<exists>texts d t. read_log_file (Some (log_text (pre @ l # post) s)) c s0 = (1, texts, d, t) \<and> lines (log_table t) = []"
proof -
  define n where "n = MAX_LINE_LENGTH - 2"
  have n: "n = 254" by (simp add: n_def MAX_LINE_LENGTH_def)
  define l1 where "l1 = take 255 l"
  define l2 where "l2 = drop 255 l"
  define rest where "rest = concat (map (\<lambda>l. l @ [newline]) (drop (length pre + 1) (log_lines (pre @ l # post) s)))"
  have "log_text (pre @ l # post) s = concat (map (\<lambda>l. l @ [newline]) pre) @ l1 @ l2 @ newline # rest"
    by (simp add: log_text_def log_lines_def l1_def l2_def rest_def)
  moreover have "\<forall>m\<in>set pre. newline \<notin> set m \<and> length m \<le> n" using assms(1) by (simp add: comment_line_def n_def)
  moreover have "newline \<notin> set l1" "length l1 = Suc n" "newline \<notin> set l2" "length l2 \<le> n"
    using l by (auto simp: l1_def l2_def n dest: in_set_takeD in_set_dropD)
  ultimately have fl: "file_lines n (log_text (pre @ l # post) s) = map (\<lambda>l. l @ [newline]) pre @ l1 # (l2 @ [newline]) # file_lines n rest"
    by (simp add: file_lines_texts file_lines_part file_lines_line)
  define x1 where "x1 = after_comments pre (new_scan c)"
  have f1: "scan_flags x1 = (False, False)" using closed_text_flags [OF assms(2)] by (simp add: x1_def)
  have r1: "scan_rows x1 = (False, 0, [])" by (simp add: x1_def) (simp add: scan_rows_def new_scan_def)
  have e: "found_error (new_scan c) = 0" by (simp add: new_scan_def)
  from read_comments [OF assms(1) e, of s0] obtain s1 where
    1: "\<forall>ms. read_log_lines (map (\<lambda>l. l @ [newline]) pre @ ms) (new_scan c, s0) = read_log_lines ms (x1, s1)"
    unfolding x1_def by blast
  obtain t1 where t1: "l1 = CHR ''#'' # t1" using l(1,3) by (cases l) (auto simp: l1_def)
  have w: "scan_words l1 \<noteq> []" "take 1 (scan_words l1 ! 0) = ''#''" "found_error x1 = 0"
    using r1 by (simp_all add: t1 scan_words.simps [of "CHR ''#'' # _"] is_space_def scan_rows_def)
  define x2 where "x2 = (if scan_words l1 ! 0 = ''#'' then scan_comment l1 x1 else x1)"
  from read_comment [OF w, of s1] obtain s2 where 2: "\<forall>ms. read_log_lines (l1 # ms) (x1, s1) = read_log_lines ms (x2, s2)"
    unfolding x2_def by blast
  have "scan_flags (scan_marks (comment_command l1) x1) = (False, False)"
    using f1 assms(7) by (simp add: scan_marks_def scan_flags_def l1_def Let_def)
  then have f2: "scan_flags x2 = (False, False)" "scan_rows x2 = (False, 0, [])" using f1 r1 by (simp_all add: x2_def)
  have ne: "l2 \<noteq> []" using l(3) by (simp add: l2_def)
  have "scan_words (l2 @ newline # []) = l2 # scan_words []"
    by (rule scan_words_word) (use r ne in \<open>simp_all add: l2_def\<close>)
  moreover have "take 1 l2 = [l ! 255]" using l(3) by (simp add: l2_def take_Suc hd_drop_conv_nth)
  then have "take 1 l2 \<noteq> ''#''" using r(2) by simp
  ultimately have "found_error (fst (read_log_lines ((l2 @ [newline]) # file_lines n rest) (x2, s2))) = 1"
    by (intro read_rest_fails [OF _ _ f2]) simp_all
  then have "found_error (fst (read_log_lines (file_lines n (log_text (pre @ l # post) s)) (new_scan c, s0))) = 1"
    unfolding fl using 1 2 by (simp del: read_log_lines.simps)
  then show ?thesis by (auto simp: read_log_file_def n_def split: prod.splits)
qed



end
