(* ===== verification/Log_Types.thy ===== *)
theory Log_Types
  imports Log_Trip
begin

text \<open>What reading a progress log can make of an arbitrary file: values of 64 bits, and nothing but the log is touched.\<close>

definition int64 :: "int \<Rightarrow> bool" where
  "int64 x \<longleftrightarrow> - (2 ^ 63) \<le> x \<and> x < 2 ^ 63"

definition row_typed :: "row \<Rightarrow> bool" where
  "row_typed r \<longleftrightarrow> int64 (lposition r) \<and> int64 (lsize r)"

lemma int64_sint: "int64 (sint (w :: 64 word))"
  using sint_greater_eq [of w] sint_less [of w] by (simp add: int64_def)

text \<open>Every number among the settings is in the range of its variable.\<close>

fun in_ctype :: "ctype \<Rightarrow> int \<Rightarrow> bool" where
  "in_ctype CBool v \<longleftrightarrow> v \<in> {0, 1}"
| "in_ctype CInt v \<longleftrightarrow> - (2 ^ 31) \<le> v \<and> v < 2 ^ 31"
| "in_ctype CLong v \<longleftrightarrow> int64 v"
| "in_ctype CULong v \<longleftrightarrow> 0 \<le> v \<and> v < 2 ^ 64"

definition config_typed :: "config \<Rightarrow> bool" where
  "config_typed c \<longleftrightarrow> (\<forall>k x ty. (k, x, ty) \<in> set number_settings \<longrightarrow> in_ctype ty (int_vars c x)) \<and>
     length (activate_relays c) = 8 \<and> length (deactivate_relays c) = 8"

lemma assigned_typed: "in_ctype ty (assigned ty w)"
proof (cases ty)
  case CInt
  have "- (2 ^ 31) \<le> sint (ucast w :: 32 word)" "sint (ucast w :: 32 word) < 2 ^ 31"
    using sint_greater_eq [of "ucast w :: 32 word"] sint_less [of "ucast w :: 32 word"] by simp_all
  then show ?thesis using CInt by simp
next
  case CULong
  have "uint w < 2 ^ 64" using unsigned_less [of w] by simp
  then show ?thesis using CULong by simp
qed (simp_all add: int64_sint)

text \<open>No variable stands for two settings: a fingerprint tells the names apart.\<close>

definition key_hash :: "string \<Rightarrow> int" where
  "key_hash k = foldr (\<lambda>c a. (of_char c + 5 * a) mod 1592) k 0"

lemma setting_hashes: "distinct (map key_hash (map (fst \<circ> snd) number_settings))"
  by code_simp

lemma setting_names: "distinct (map (fst \<circ> snd) number_settings)"
  using distinct_map [of key_hash "map (fst \<circ> snd) number_settings"] setting_hashes by blast

lemma setting_type: "(k, x, ty) \<in> set number_settings \<Longrightarrow> (k', x, ty') \<in> set number_settings \<Longrightarrow> ty' = ty"
  using inj_onD [of "fst \<circ> snd" "set number_settings" "(k, x, ty)" "(k', x, ty')"] setting_names by (simp add: distinct_map)

lemma length_split_bits [simp]: "length (split_bits n a) = n"
  by (induction n arbitrary: a) simp_all

lemma set_text_fields [simp]:
  "int_vars (fold (set_text d) xs c) = int_vars c" "activate_relays (fold (set_text d) xs c) = activate_relays c"
  "deactivate_relays (fold (set_text d) xs c) = deactivate_relays c"
  by (induction xs arbitrary: c) (auto simp: set_text_def)

lemma set_config_typed:
  assumes "config_typed c"
  shows "config_typed (set_config k d c)"
proof (cases "map_of number_settings k")
  case None
  then show ?thesis using assms
    by (auto simp: set_config_def config_typed_def set_primary_relay_settings_def split: option.split)
next
  case (Some p)
  obtain x ty where p: "p = (x, ty)" by (cases p)
  then have m: "(k, x, ty) \<in> set number_settings" using Some by (simp add: map_of_SomeD)
  have "in_ctype ty' (((int_vars c)(x := assigned ty w)) y)" if "(k', y, ty') \<in> set number_settings" for k' y ty' w
  proof (cases "y = x")
    case True
    then show ?thesis using setting_type [OF m, of k' ty'] that by (simp add: assigned_typed)
  qed (use assms that in \<open>auto simp: config_typed_def\<close>)
  then show ?thesis using assms Some p by (simp add: set_config_def config_typed_def)
qed

text \<open>What has been read so far, and how the state differs from the one at the start.\<close>

definition same_but_log :: "'a log_env_scheme \<Rightarrow> 'a log_env_scheme \<Rightarrow> bool" where
  "same_but_log s0 s \<longleftrightarrow>
     s\<lparr>log_table := log_table s0, current_position := current_position s0, current_status := current_status s0\<rparr> = s0"

definition scan_typed :: "'a log_env_scheme \<Rightarrow> log_scan \<times> 'a log_env_scheme \<Rightarrow> bool" where
  "scan_typed s0 y \<longleftrightarrow> (\<forall>r\<in>set (scanned (fst y)). row_typed r) \<and> found_error (fst y) \<in> {0, 1} \<and>
     config_typed (config (fst y)) \<and> same_but_log s0 (snd y) \<and> (current_position (snd y) = current_position s0 \<or> int64 (current_position (snd y)))"

lemma same_but_log_updates [simp]:
  "same_but_log s0 (s\<lparr>log_table := T\<rparr>) = same_but_log s0 s"
  "same_but_log s0 (s\<lparr>current_position := p\<rparr>) = same_but_log s0 s"
  "same_but_log s0 (s\<lparr>current_status := st\<rparr>) = same_but_log s0 s"
  "same_but_log s0 s0"
  by (simp_all add: same_but_log_def)

lemma fail_if_fields [simp]:
  "scanned (fail_if b x) = scanned x" "config (fail_if b x) = config x" "found_error (fail_if b x) = (if b then 1 else found_error x)"
  by (simp_all add: fail_if_def)

lemma parse_row_typed: "parse_row ws = (r, bad) \<Longrightarrow> row_typed r"
  by (auto simp: parse_row_def row_typed_def int64_sint split: prod.splits)

lemma scan_marks_fields [simp]:
  "scanned (scan_marks c x) = scanned x" "found_error (scan_marks c x) = found_error x" "config (scan_marks c x) = config x"
  by (simp_all add: scan_marks_def Let_def)

lemma scan_comment_fields [simp]:
  "scanned (scan_comment l x) = scanned x" "found_error (scan_comment l x) = found_error x"
  by (simp_all add: scan_comment_def Let_def split: prod.split)

lemma scan_comment_typed: "config_typed (config x) \<Longrightarrow> config_typed (config (scan_comment l x))"
  by (simp add: scan_comment_def set_config_typed Let_def split: prod.split)

lemma read_log_line_typed:
  assumes "scan_typed s0 y"
  shows "scan_typed s0 (read_log_line l y)"
proof -
  obtain x s where y: "y = (x, s)" by (cases y)
  note t = assms [unfolded y scan_typed_def fst_conv snd_conv]
  obtain r bad where r: "parse_row (scan_words l) = (r, bad)" by fastforce
  note rt = parse_row_typed [OF r]
  show ?thesis
    unfolding y read_log_line_def Let_def prod.case r
    using t rt scan_comment_typed [of x l] by (simp add: scan_typed_def int64_sint split: prod.split)
qed

lemma grow_for_scan_typed: "scan_typed s0 y \<Longrightarrow> scan_typed s0 (grow_for_scan y)"
  by (cases y) (simp add: scan_typed_def grow_for_scan_def)

lemma read_log_lines_typed: "scan_typed s0 y \<Longrightarrow> scan_typed s0 (read_log_lines ls y)"
proof (induction ls arbitrary: y)
  case (Cons l ls)
  have "scan_typed s0 (grow_for_scan (read_log_line l y))"
    by (rule grow_for_scan_typed, rule read_log_line_typed, rule Cons.prems)
  with Cons.IH [OF this] show ?case by (simp add: Let_def)
qed simp


lemma no_config_typed: "config_typed no_config"
proof -
  have "in_ctype ty 0" for ty by (cases ty) (simp_all add: int64_def)
  then show ?thesis by (simp add: config_typed_def no_config_def)
qed


end
