(* ===== verification/Settings_Trip.thy ===== *)
theory Settings_Trip
  imports Log_Types
begin

text \<open>The settings and the texts in the log file are read back as they were written.\<close>

section \<open>The comments of the file\<close>

fun split_text :: "string \<Rightarrow> string list" where
  "split_text [] = [[]]"
| "split_text (c # t) = (if c = newline then [] # split_text t else (c # hd (split_text t)) # tl (split_text t))"

text \<open>A text between its marks; an empty one is left out.\<close>

definition text_section :: "string \<Rightarrow> string \<Rightarrow> string \<Rightarrow> string list" where
  "text_section name mark t =
     (if t = [] then []
      else [''#'', ''################ START '' @ name @ '' DATA ################'', ''# start'' @ mark] @ split_text t @
        [''# end'' @ (if mark = ''anyalyze'' then ''analyze'' else mark), ''################ END '' @ name @ '' DATA ################'', ''#''])"

definition ident_section :: "bool \<Rightarrow> string list \<Rightarrow> string list" where
  "ident_section generic ident =
     (if generic then []
      else [''#'', ''################ START IDENTIFY DEVICE INFO ################''] @ ident @
        [''################ END IDENTIFY DEVICE INFO ################'', ''#''])"

text \<open>
  All that \<open>write_logfile_ccc\<close> writes before the current position: \<open>head\<close> has the version, the date, the
  command line and the message on the display.
\<close>

definition log_notes :: "string list \<Rightarrow> config \<Rightarrow> string \<Rightarrow> string \<Rightarrow> bool \<Rightarrow> string list \<Rightarrow> string list" where
  "log_notes head c analysis smart generic ident =
     head @ config_lines c @ text_section ''ANALYZE'' ''anyalyze'' analysis @ text_section ''SMART'' ''smart'' smart @
     ident_section generic ident"

section \<open>One setting\<close>

lemma dropWhile_all: "\<forall>c\<in>set xs. p c \<Longrightarrow> dropWhile p (xs @ ys) = dropWhile p ys"
  by (induction xs) auto

text \<open>A key, and the gap behind it.\<close>

definition key_ok :: "string \<Rightarrow> bool" where
  "key_ok k \<longleftrightarrow> k \<noteq> [] \<and> list_all (\<lambda>c. \<not> is_space c) k"

definition gap_ok :: "string \<Rightarrow> bool" where
  "gap_ok g \<longleftrightarrow> g \<noteq> [] \<and> list_all is_space g \<and> newline \<notin> set g"

definition value_ok :: "string \<Rightarrow> bool" where
  "value_ok v \<longleftrightarrow> newline \<notin> set v \<and> (v = [] \<or> \<not> is_space (hd v)) \<and> length v \<le> 200"

lemma setting_parts:
  assumes "key_ok k" "gap_ok g" "value_ok v"
  shows "comment_command ((''# '' @ k @ g @ v) @ [newline]) = k" "comment_data ((''# '' @ k @ g @ v) @ [newline]) = v"
    "scan_words ((''# '' @ k @ g @ v) @ [newline]) ! 0 = ''#''"
proof -
  obtain a b where g: "g = a # b" "is_space a" "\<forall>c\<in>set b. is_space c"
    using assms(2) by (cases g) (auto simp: gap_ok_def list_all_iff)
  have k: "k \<noteq> []" "\<forall>c\<in>set k. \<not> is_space c" using assms(1) by (auto simp: key_ok_def list_all_iff)
  obtain d e where ke: "k = d # e" using k(1) by (cases k) auto
  have "scan_words (k @ a # b @ v @ [newline]) = k # scan_words (b @ v @ [newline])" by (rule scan_words_word [OF k g(2)])
  then show "comment_command ((''# '' @ k @ g @ v) @ [newline]) = k" by (simp add: comment_command_def g(1))
  have "dropWhile is_space (k @ g @ v @ [newline]) = k @ g @ v @ [newline]" using k by (simp add: ke)
  moreover have "dropWhile (\<lambda>c. \<not> is_space c) (k @ g @ v @ [newline]) = g @ v @ [newline]"
    using dropWhile_all [OF k(2)] g by simp
  moreover have "dropWhile is_space (g @ v @ [newline]) = (if v = [] then [] else v @ [newline])"
    using g assms(3) by (cases v) (auto simp: value_ok_def dropWhile_all)
  moreover have "takeWhile (\<lambda>c. c \<noteq> newline) (v @ [newline]) = v"
    using assms(3) by (auto simp: value_ok_def takeWhile_tail)
  ultimately show "comment_data ((''# '' @ k @ g @ v) @ [newline]) = v" by (auto simp: comment_data_def)
  show "scan_words ((''# '' @ k @ g @ v) @ [newline]) ! 0 = ''#''"
    using scan_words_word [of "''#''" "CHR '' ''" "k @ g @ v @ [newline]"] by (simp add: is_space_def)
qed

definition marks :: "string list" where
  "marks = [''startconfig'', ''endconfig'', ''startanyalyze'', ''endanalyze'', ''startsmart'', ''endsmart'']"

lemma scan_marks_id: "c \<notin> set marks \<Longrightarrow> scan_marks c x = x"
  by (simp add: scan_marks_def marks_def)

lemma scan_setting:
  assumes "config_data x" "comment_command l \<notin> set marks"
  shows "scan_comment l x = x\<lparr>config := set_config (comment_command l) (comment_data l) (config x)\<rparr>"
  using assms by (simp add: scan_comment_def scan_marks_id) (simp add: marks_def)

text \<open>The numbers that are written have no spaces and are short.\<close>

lemma print_dec_ok: "- (2 ^ 63) \<le> v \<Longrightarrow> v < 2 ^ 63 \<Longrightarrow> value_ok (print_dec v)"
proof -
  assume v: "- (2 ^ 63) \<le> v" "v < 2 ^ 63"
  have "length (dec (nat \<bar>v\<bar>)) \<le> 20" by (rule length_dec) (use v in simp_all)
  then have "length (print_dec v) \<le> 200" by (auto simp: print_dec_def)
  moreover have "hd (print_dec v) \<in> set (print_dec v)" by simp
  ultimately show ?thesis using print_dec_not_space [of _ v] by (auto simp: value_ok_def is_space_def)
qed

lemma print_hex_ok: "w \<le> 16 \<Longrightarrow> value_ok (''0x'' @ print_hex False w v)"
  using length_print_hex [of w False v] by (simp add: value_ok_def is_space_def)

definition texts_ok :: "config \<Rightarrow> bool" where
  "texts_ok c \<longleftrightarrow> (\<forall>k g x. (k, g, Text x) \<in> set written_settings \<longrightarrow> value_ok (shown c (Text x)))"

lemma shown_ok:
  assumes "texts_ok c" "(k, g, w) \<in> set written_settings"
  shows "value_ok (shown c w)"
proof (cases w)
  case (Dec32 x)
  let ?v = "sint (word_of_int (int_vars c x) :: 32 word)"
  have "- (2 ^ 31) \<le> ?v" "?v < 2 ^ 31"
    using sint_greater_eq [of "word_of_int (int_vars c x) :: 32 word"] sint_less [of "word_of_int (int_vars c x) :: 32 word"] by simp_all
  then show ?thesis using print_dec_ok [of ?v] Dec32 by simp
next
  case (Dec64 x)
  let ?v = "sint (word_of_int (int_vars c x) :: 64 word)"
  have "- (2 ^ 63) \<le> ?v" "?v < 2 ^ 63"
    using sint_greater_eq [of "word_of_int (int_vars c x) :: 64 word"] sint_less [of "word_of_int (int_vars c x) :: 64 word"] by simp_all
  then show ?thesis using print_dec_ok [of ?v] Dec64 by simp
next
  case (Hex64 x)
  show ?thesis unfolding Hex64 shown.simps by (rule print_hex_ok) simp
next
  case (Text x)
  then show ?thesis using assms by (auto simp: texts_ok_def)
next
  case Relays
  show ?thesis unfolding Relays shown.simps by (rule print_hex_ok) simp
qed

section \<open>All settings\<close>

lemma written_keys: "list_all (\<lambda>(k, g, w). key_ok k \<and> gap_ok g \<and> k \<notin> set marks) written_settings"
  by code_simp

definition read_back :: "config \<Rightarrow> config \<Rightarrow> config" where
  "read_back c = fold (\<lambda>(k, g, w). set_config k (shown c w)) written_settings"

lemma setting_comment:
  assumes "texts_ok c" "(k, g, w) \<in> set written_settings" "config_data x"
  shows "scan_words (setting_line c (k, g, w) @ [newline]) ! 0 = ''#''"
    "scan_comment (setting_line c (k, g, w) @ [newline]) x = x\<lparr>config := set_config k (shown c w) (config x)\<rparr>"
proof -
  have k: "key_ok k" "gap_ok g" "k \<notin> set marks" using written_keys assms(2) by (auto simp: list_all_iff)
  note s = setting_parts [OF k(1,2) shown_ok [OF assms(1,2)]]
  show "scan_words (setting_line c (k, g, w) @ [newline]) ! 0 = ''#''" using s(3) by (simp add: setting_line_def)
  have e: "setting_line c (k, g, w) @ [newline] = (''# '' @ k @ g @ shown c w) @ [newline]" by (simp add: setting_line_def)
  have "scan_comment (setting_line c (k, g, w) @ [newline]) x = x\<lparr>config := set_config (comment_command (setting_line c (k, g, w) @ [newline]))
      (comment_data (setting_line c (k, g, w) @ [newline])) (config x)\<rparr>"
    by (rule scan_setting [OF assms(3)]) (simp only: e s(1) k(3) not_False_eq_True)
  then show "scan_comment (setting_line c (k, g, w) @ [newline]) x = x\<lparr>config := set_config k (shown c w) (config x)\<rparr>"
    unfolding e s(1,2) .
qed

lemma after_settings:
  assumes "texts_ok c" "set rows \<subseteq> set written_settings" "config_data x"
  shows "after_comments (map (setting_line c) rows) x = x\<lparr>config := fold (\<lambda>(k, g, w). set_config k (shown c w)) rows (config x)\<rparr>"
  using assms(2,3)
proof (induction rows arbitrary: x)
  case (Cons r rows)
  obtain k g w where r: "r = (k, g, w)" by (cases r)
  have m: "(k, g, w) \<in> set written_settings" using Cons.prems by (simp add: r)
  note s = setting_comment [OF assms(1) m Cons.prems(2)]
  let ?y = "x\<lparr>config := set_config k (shown c w) (config x)\<rparr>"
  have "after_comments (map (setting_line c) (r # rows)) x = after_comments (map (setting_line c) rows) ?y"
    by (simp only: list.map after_comments_simps r s if_True simp_thms)
  also have "\<dots> = ?y\<lparr>config := fold (\<lambda>(k, g, w). set_config k (shown c w)) rows (config ?y)\<rparr>"
    by (rule Cons.IH) (use Cons.prems in simp_all)
  finally show ?case by (simp add: r)
qed simp

lemma frame_comments:
  "scan_words (''################ START CONFIGURATION DATA ################'' @ [newline]) ! 0 \<noteq> ''#''"
  "scan_words (''################ END CONFIGURATION DATA ################'' @ [newline]) ! 0 \<noteq> ''#''"
  "scan_words (''# startconfig'' @ [newline]) ! 0 = ''#''" "scan_words (''# endconfig'' @ [newline]) ! 0 = ''#''"
  "comment_command (''# startconfig'' @ [newline]) = ''startconfig''" "comment_command (''# endconfig'' @ [newline]) = ''endconfig''"
  by code_simp+

lemma after_config:
  assumes "texts_ok c" "scan_flags x = (False, False)" "\<not> config_data x"
  shows "after_comments (config_lines c) x = x\<lparr>config := read_back c (config x)\<rparr>"
proof -
  let ?x1 = "x\<lparr>config_data := True\<rparr>"
  have 1: "scan_comment (''# startconfig'' @ [newline]) x = ?x1"
    using assms(2,3) by (simp add: scan_comment_def scan_marks_def frame_comments(5) [simplified] scan_flags_def)
  let ?x2 = "?x1\<lparr>config := read_back c (config x)\<rparr>"
  have 2: "after_comments (map (setting_line c) written_settings) ?x1 = ?x2"
    using after_settings [OF assms(1) subset_refl, of ?x1] by (simp add: read_back_def)
  let ?x3 = "x\<lparr>config := read_back c (config x)\<rparr>"
  have 3: "scan_comment (''# endconfig'' @ [newline]) ?x2 = ?x3"
    using assms(2,3) by (simp add: scan_comment_def scan_marks_def frame_comments(6) [simplified] scan_flags_def)
  have "comment_command (''#'' @ [newline]) \<in> {[], ''current'', ''position''}" by (simp only: head_commands insertI1)
  moreover have "scan_flags ?x3 = (False, False)" using assms(2) by (simp add: scan_flags_def)
  ultimately have 4: "scan_comment (''#'' @ [newline]) ?x3 = ?x3" by (rule scan_comment_other)
  show ?thesis
    unfolding config_lines_def after_comments_simps
    by (simp only: frame_comments if_True if_False 1 2 3 4 if_cancel simp_thms)
qed

section \<open>The texts\<close>

definition join_lines :: "string list \<Rightarrow> string" where
  "join_lines ls = (case ls of [] \<Rightarrow> [] | l # ms \<Rightarrow> l @ concat (map (\<lambda>m. newline # m) ms))"

lemma join_split: "split_text t \<noteq> [] \<and> join_lines (split_text t) = t"
proof (induction t)
  case (Cons c t)
  then obtain l ls where "split_text t = l # ls" by (cases "split_text t") auto
  with Cons show ?case by (simp add: join_lines_def)
qed (simp add: join_lines_def)

text \<open>Every line of a text that is saved is a comment of its own, and not one of the marks.\<close>

definition text_line_ok :: "string \<Rightarrow> bool" where
  "text_line_ok l \<longleftrightarrow> comment_line l \<and> scan_words (l @ [newline]) ! 0 = ''#'' \<and> comment_command (l @ [newline]) \<notin> set marks"

definition text_ok :: "string \<Rightarrow> bool" where
  "text_ok t \<longleftrightarrow> t = [] \<or> list_all text_line_ok (split_text t)"

lemma take_text_line: "text_line_ok l \<Longrightarrow> takeWhile (\<lambda>c. c \<noteq> newline) (l @ [newline]) = l"
  by (auto simp: text_line_ok_def comment_line_def takeWhile_tail)

lemma analysis_line:
  assumes "text_line_ok l" "\<not> config_data x" "analyze_data x"
  shows "scan_comment (l @ [newline]) x =
    x\<lparr>analyze_line := fst (add_text (l @ [newline]) (analyze_line x) (analyze_text x)),
      analyze_text := snd (add_text (l @ [newline]) (analyze_line x) (analyze_text x))\<rparr>"
  using assms by (simp add: scan_comment_def scan_marks_id text_line_ok_def split: prod.split)

lemma smart_line:
  assumes "text_line_ok l" "\<not> config_data x" "\<not> analyze_data x" "smart_data x"
  shows "scan_comment (l @ [newline]) x =
    x\<lparr>smart_line := fst (add_text (l @ [newline]) (smart_line x) (smart_text x)),
      smart_text := snd (add_text (l @ [newline]) (smart_line x) (smart_text x))\<rparr>"
  using assms by (simp add: scan_comment_def scan_marks_id text_line_ok_def split: prod.split)

lemma add_text_lines:
  assumes "text_line_ok l"
  shows "add_text (l @ [newline]) 1 [] = (2, l)" "add_text (l @ [newline]) 2 t = (2, t @ newline # l)"
  using take_text_line [OF assms] by (simp_all add: add_text_def)

lemma analysis_rest:
  assumes "list_all text_line_ok ls" "\<not> config_data x" "analyze_data x" "analyze_line x = 2"
  shows "after_comments ls x = x\<lparr>analyze_line := 2, analyze_text := analyze_text x @ concat (map (\<lambda>m. newline # m) ls)\<rparr>"
  using assms
proof (induction ls arbitrary: x)
  case (Cons l ls)
  have l: "text_line_ok l" "scan_words (l @ [newline]) ! 0 = ''#''" using Cons.prems by (simp_all add: text_line_ok_def)
  from analysis_line [OF l(1) Cons.prems(2,3)] Cons.prems(4) Cons.IH [of "x\<lparr>analyze_line := 2, analyze_text := analyze_text x @ newline # l\<rparr>"] Cons.prems
  show ?case by (simp add: l add_text_lines)
next
  case Nil
  then show ?case by (cases x) simp
qed

lemma smart_rest:
  assumes "list_all text_line_ok ls" "\<not> config_data x" "\<not> analyze_data x" "smart_data x" "smart_line x = 2"
  shows "after_comments ls x = x\<lparr>smart_line := 2, smart_text := smart_text x @ concat (map (\<lambda>m. newline # m) ls)\<rparr>"
  using assms
proof (induction ls arbitrary: x)
  case (Cons l ls)
  have l: "text_line_ok l" "scan_words (l @ [newline]) ! 0 = ''#''" using Cons.prems by (simp_all add: text_line_ok_def)
  from smart_line [OF l(1) Cons.prems(2-4)] Cons.prems(5) Cons.IH [of "x\<lparr>smart_line := 2, smart_text := smart_text x @ newline # l\<rparr>"] Cons.prems
  show ?case by (simp add: l add_text_lines)
next
  case Nil
  then show ?case by (cases x) simp
qed

lemma analysis_text:
  assumes "text_ok t" "t \<noteq> []" "\<not> config_data x" "analyze_data x" "analyze_line x = 1" "analyze_text x = []"
  shows "after_comments (split_text t) x = x\<lparr>analyze_line := 2, analyze_text := t\<rparr>"
proof -
  obtain l ls where s: "split_text t = l # ls" using join_split [of t] by (cases "split_text t") auto
  have l: "text_line_ok l" "scan_words (l @ [newline]) ! 0 = ''#''" "list_all text_line_ok ls"
    using assms(1,2) s by (auto simp: text_ok_def text_line_ok_def)
  have tt: "l @ concat (map (\<lambda>m. newline # m) ls) = t" using join_split [of t] s by (simp add: join_lines_def)
  show ?thesis
    using analysis_line [OF l(1) assms(3,4)] analysis_rest [OF l(3), of "x\<lparr>analyze_line := 2, analyze_text := l\<rparr>"] assms(3-6)
    by (simp add: s l add_text_lines tt)
qed

lemma smart_text_read:
  assumes "text_ok t" "t \<noteq> []" "\<not> config_data x" "\<not> analyze_data x" "smart_data x" "smart_line x = 1" "smart_text x = []"
  shows "after_comments (split_text t) x = x\<lparr>smart_line := 2, smart_text := t\<rparr>"
proof -
  obtain l ls where s: "split_text t = l # ls" using join_split [of t] by (cases "split_text t") auto
  have l: "text_line_ok l" "scan_words (l @ [newline]) ! 0 = ''#''" "list_all text_line_ok ls"
    using assms(1,2) s by (auto simp: text_ok_def text_line_ok_def)
  have tt: "l @ concat (map (\<lambda>m. newline # m) ls) = t" using join_split [of t] s by (simp add: join_lines_def)
  show ?thesis
    using smart_line [OF l(1) assms(3-5)] smart_rest [OF l(3), of "x\<lparr>smart_line := 2, smart_text := l\<rparr>"] assms(3-7)
    by (simp add: s l add_text_lines tt)
qed

text \<open>The marks of the sections.\<close>

lemma section_commands:
  "scan_words ((''################ START '' @ ''ANALYZE'' @ '' DATA ################'') @ [newline]) ! 0 \<noteq> ''#''"
  "scan_words ((''################ END '' @ ''ANALYZE'' @ '' DATA ################'') @ [newline]) ! 0 \<noteq> ''#''"
  "scan_words ((''################ START '' @ ''SMART'' @ '' DATA ################'') @ [newline]) ! 0 \<noteq> ''#''"
  "scan_words ((''################ END '' @ ''SMART'' @ '' DATA ################'') @ [newline]) ! 0 \<noteq> ''#''"
  "scan_words ((''################ START IDENTIFY DEVICE INFO ################'') @ [newline]) ! 0 \<noteq> ''#''"
  "scan_words ((''################ END IDENTIFY DEVICE INFO ################'') @ [newline]) ! 0 \<noteq> ''#''"
  "scan_words ((''# start'' @ ''anyalyze'') @ [newline]) ! 0 = ''#''" "comment_command ((''# start'' @ ''anyalyze'') @ [newline]) = ''startanyalyze''"
  "scan_words ((''# end'' @ ''analyze'') @ [newline]) ! 0 = ''#''" "comment_command ((''# end'' @ ''analyze'') @ [newline]) = ''endanalyze''"
  "scan_words ((''# start'' @ ''smart'') @ [newline]) ! 0 = ''#''" "comment_command ((''# start'' @ ''smart'') @ [newline]) = ''startsmart''"
  "scan_words ((''# end'' @ ''smart'') @ [newline]) ! 0 = ''#''" "comment_command ((''# end'' @ ''smart'') @ [newline]) = ''endsmart''"
  "scan_words (''#'' @ [newline]) ! 0 = ''#''" "comment_command (''#'' @ [newline]) = []"
  by code_simp+

definition closed_scan :: "log_scan \<Rightarrow> bool" where
  "closed_scan x \<longleftrightarrow> \<not> config_data x \<and> \<not> analyze_data x \<and> \<not> smart_data x"

lemma closed_hash: "closed_scan x \<Longrightarrow> scan_comment (''#'' @ [newline]) x = x"
  by (rule scan_comment_other) (simp_all only: head_commands insertI1, simp add: closed_scan_def scan_flags_def)

lemma after_analysis:
  assumes "text_ok t" "closed_scan x" "analyze_line x = 0" "analyze_text x = []"
  shows "after_comments (text_section ''ANALYZE'' ''anyalyze'' t) x = (if t = [] then x else x\<lparr>analyze_line := 2, analyze_text := t\<rparr>)"
proof (cases "t = []")
  case False
  let ?x1 = "x\<lparr>analyze_data := True, analyze_line := 1\<rparr>"
  have 1: "scan_comment ((''# start'' @ ''anyalyze'') @ [newline]) x = ?x1"
    using assms(2-4) unfolding scan_comment_def section_commands scan_marks_def by (cases x) (simp add: closed_scan_def add_text_def)
  let ?x2 = "?x1\<lparr>analyze_line := 2, analyze_text := t\<rparr>"
  have 2: "after_comments (split_text t) ?x1 = ?x2"
    by (rule analysis_text [OF assms(1) False]) (use assms(2-4) in \<open>simp_all add: closed_scan_def\<close>)
  let ?x3 = "x\<lparr>analyze_line := 2, analyze_text := t\<rparr>"
  have 3: "scan_comment ((''# end'' @ ''analyze'') @ [newline]) ?x2 = ?x3"
    using assms(2) unfolding scan_comment_def section_commands scan_marks_def by (cases x) (simp add: closed_scan_def)
  have "closed_scan ?x3" using assms(2) by (simp add: closed_scan_def)
  note 4 = closed_hash [OF this]
  note 0 = closed_hash [OF assms(2)]
  show ?thesis
    unfolding text_section_def if_not_P [OF False]
    by (simp only: after_comments_simps section_commands if_True if_False 0 1 2 3 4 simp_thms)
qed (simp add: text_section_def)

lemma after_smart:
  assumes "text_ok t" "closed_scan x" "smart_line x = 0" "smart_text x = []"
  shows "after_comments (text_section ''SMART'' ''smart'' t) x = (if t = [] then x else x\<lparr>smart_line := 2, smart_text := t\<rparr>)"
proof (cases "t = []")
  case False
  have m: "(''smart'' = ''anyalyze'') = False" by simp
  let ?x1 = "x\<lparr>smart_data := True, smart_line := 1\<rparr>"
  have 1: "scan_comment ((''# start'' @ ''smart'') @ [newline]) x = ?x1"
    using assms(2-4) unfolding scan_comment_def section_commands scan_marks_def by (cases x) (simp add: closed_scan_def add_text_def)
  let ?x2 = "?x1\<lparr>smart_line := 2, smart_text := t\<rparr>"
  have 2: "after_comments (split_text t) ?x1 = ?x2"
    by (rule smart_text_read [OF assms(1) False]) (use assms(2-4) in \<open>simp_all add: closed_scan_def\<close>)
  let ?x3 = "x\<lparr>smart_line := 2, smart_text := t\<rparr>"
  have 3: "scan_comment ((''# end'' @ ''smart'') @ [newline]) ?x2 = ?x3"
    using assms(2) unfolding scan_comment_def section_commands scan_marks_def by (cases x) (simp add: closed_scan_def)
  have "closed_scan ?x3" using assms(2) by (simp add: closed_scan_def)
  note 4 = closed_hash [OF this]
  note 0 = closed_hash [OF assms(2)]
  show ?thesis
    unfolding text_section_def if_not_P [OF False]
    by (simp only: after_comments_simps section_commands if_True if_False 0 1 2 3 4 simp_thms m)
qed (simp add: text_section_def)

text \<open>Comments that mean nothing to the reader: the head of the file and the data of the source.\<close>

definition idle_line :: "string \<Rightarrow> bool" where
  "idle_line l \<longleftrightarrow> comment_line l \<and> comment_command (l @ [newline]) \<notin> set marks"

lemma after_idle:
  assumes "list_all idle_line ls" "closed_scan x"
  shows "after_comments ls x = x"
  using assms(1)
proof (induction ls)
  case (Cons l ls)
  have "scan_comment (l @ [newline]) x = x"
    using Cons.prems assms(2) by (simp add: idle_line_def scan_comment_def scan_marks_id closed_scan_def)
  then show ?case using Cons by (simp del: append_Cons)
qed simp

lemma after_ident:
  assumes "list_all idle_line ident" "closed_scan x"
  shows "after_comments (ident_section generic ident) x = x"
  using closed_hash [OF assms(2)] after_idle [OF assms]
  by (cases generic) (simp_all only: ident_section_def after_comments_simps section_commands if_True if_False simp_thms if_cancel)

section \<open>What is restored\<close>

lemma after_notes:
  assumes "list_all idle_line head" "texts_ok c" "text_ok analysis" "text_ok smart" "list_all idle_line ident"
    and x_def: "x = after_comments (log_notes head c analysis smart generic ident) (new_scan c0)"
  shows "config x = read_back c c0" "analyze_text x = analysis" "smart_text x = smart" "scan_flags x = (False, False)"
proof -
  have s0: "closed_scan (new_scan c0)" "scan_flags (new_scan c0) = (False, False)" "\<not> config_data (new_scan c0)"
    by (simp_all add: closed_scan_def new_scan_def scan_flags_def)
  define x1 where "x1 = (new_scan c0)\<lparr>config := read_back c c0\<rparr>"
  have 1: "after_comments (config_lines c) (new_scan c0) = x1"
    using after_config [OF assms(2) s0(2,3)] by (simp add: x1_def new_scan_def)
  have c1: "closed_scan x1" "analyze_line x1 = 0" "analyze_text x1 = []" by (simp_all add: x1_def closed_scan_def new_scan_def)
  define x2 where "x2 = (if analysis = [] then x1 else x1\<lparr>analyze_line := 2, analyze_text := analysis\<rparr>)"
  have c2: "closed_scan x2" "smart_line x2 = 0" "smart_text x2 = []" by (simp_all add: x2_def x1_def closed_scan_def new_scan_def)
  define x3 where "x3 = (if smart = [] then x2 else x2\<lparr>smart_line := 2, smart_text := smart\<rparr>)"
  have c3: "closed_scan x3" using c2(1) by (simp add: x3_def closed_scan_def)
  have "x = x3"
    unfolding x_def log_notes_def after_comments_simps after_idle [OF assms(1) s0(1)] 1 after_analysis [OF assms(3) c1]
      x2_def [symmetric] after_smart [OF assms(4) c2] x3_def [symmetric] by (rule after_ident [OF assms(5) c3])
  then show "config x = read_back c c0" "analyze_text x = analysis" "smart_text x = smart" "scan_flags x = (False, False)"
    using c3 by (simp_all add: x3_def x2_def x1_def new_scan_def closed_scan_def scan_flags_def)
qed

section \<open>The values\<close>

text \<open>Each setting is written from the variable that it is read into, with a conversion for its type.\<close>

text \<open>The lines that are written for no number, and a fingerprint by which the keys are told apart.\<close>

definition other_keys :: "string list" where
  "other_keys = [''logfile'', ''source'', ''destination'', ''verbose'', ''debug'', ''forcemounted'', ''forcedangerous'', ''importdd'',
     ''exportdd'', ''domainfile'', ''repairlog'', ''imagesource'', ''genericsource'', ''atapass'', ''scsipass'', ''direct'', ''ahci'', ''usb'',
     ''findserial'', ''forcestupid'', ''model'', ''serial'', ''commandtocall'', ''powercommandtocall'', ''driverdiskname'', ''primerelaysettings'']"

lemma key_hashes: "distinct (map key_hash (map fst number_settings @ other_keys))"
  by code_simp

lemma distinct_keys: "distinct (map fst number_settings)" "set (map fst number_settings) \<inter> set other_keys = {}"
  using distinct_map [of key_hash "map fst number_settings @ other_keys"] key_hashes by (auto simp only: distinct_append)

definition number_rows :: "(string \<times> written) list" where
  "number_rows = map (\<lambda>(k, x, ty). (k, if ty = CBool \<or> ty = CInt then Dec32 x else Dec64 x)) number_settings"

text \<open>The reader and the writer have the numbers in the same order, but one of them is written twice.\<close>

lemma rows_aligned:
  "map (\<lambda>(k, g, w). (k, w)) (filter (\<lambda>r. fst r \<notin> set other_keys) written_settings) =
   (let ns = number_rows in take 29 ns @ (''notrim'', Dec32 ''no_trim_ccc'') # drop 29 ns)"
  by code_simp

lemma notrim_row: "(''notrim'', Dec32 ''no_trim_ccc'') \<in> set number_rows"
  by code_simp

lemma written_row:
  assumes "(k, g, w) \<in> set written_settings"
  shows "k \<in> set other_keys \<or> (k, w) \<in> set number_rows"
proof (cases "k \<in> set other_keys")
  case False
  then have "(k, w) \<in> set (map (\<lambda>(k, g, w). (k, w)) (filter (\<lambda>r. fst r \<notin> set other_keys) written_settings))" using assms by force
  then have "(k, w) \<in> set (take 29 number_rows @ (''notrim'', Dec32 ''no_trim_ccc'') # drop 29 number_rows)"
    by (simp only: rows_aligned Let_def)
  then show ?thesis using notrim_row by (auto dest: in_set_takeD in_set_dropD)
qed simp

lemma written_numbers:
  assumes "(k, g, w) \<in> set written_settings" "map_of number_settings k = Some (x, ty)"
  shows "w = (if ty = CBool \<or> ty = CInt then Dec32 x else Dec64 x)"
proof -
  have m: "(k, x, ty) \<in> set number_settings" using assms(2) by (rule map_of_SomeD)
  then have "k \<in> set (map fst number_settings)" by force
  then have "k \<notin> set other_keys" using distinct_keys(2) by auto
  then have "(k, w) \<in> set number_rows" using written_row [OF assms(1)] by simp
  then obtain x' ty' where "(k, x', ty') \<in> set number_settings" "w = (if ty' = CBool \<or> ty' = CInt then Dec32 x' else Dec64 x')"
    by (auto simp: number_rows_def)
  then show ?thesis using m eq_key_imp_eq_value [OF distinct_keys(1)] by fastforce
qed

lemma all_written:
  assumes "(k, x, ty) \<in> set number_settings"
  shows "map_of number_settings k = Some (x, ty)" "\<exists>g w. (k, g, w) \<in> set written_settings"
proof -
  show "map_of number_settings k = Some (x, ty)" using assms distinct_keys(1) by simp
  let ?w = "if ty = CBool \<or> ty = CInt then Dec32 x else Dec64 x"
  have "(k, ?w) \<in> set number_rows" using assms by (force simp: number_rows_def)
  then have "(k, ?w) \<in> set (take 29 number_rows @ (''notrim'', Dec32 ''no_trim_ccc'') # drop 29 number_rows)"
    by (metis Un_iff append_take_drop_id list.set_intros(2) set_append)
  then have "(k, ?w) \<in> set (map (\<lambda>(k, g, w). (k, w)) (filter (\<lambda>r. fst r \<notin> set other_keys) written_settings))"
    by (simp only: rows_aligned Let_def)
  then show "\<exists>g w. (k, g, w) \<in> set written_settings" by auto
qed

lemma written_relays:
  "list_all (\<lambda>(k, g, w). (k = ''primerelaysettings'') = (w = Relays)) written_settings"
  "list_ex (\<lambda>(k, g, w). k = ''primerelaysettings'') written_settings"
  "map_of number_settings ''primerelaysettings'' = None" "map_of text_settings ''primerelaysettings'' = None"
  by code_simp+

lemma signed_back: "- (2 ^ (LENGTH('a) - 1)) \<le> v \<Longrightarrow> v < 2 ^ (LENGTH('a) - 1) \<Longrightarrow> sint (word_of_int v :: 'a::len word) = v"
  by (simp add: sint_sbintrunc' signed_take_bit_int_eq_self)

lemma ucast_of_int: "ucast (word_of_int v :: 64 word) = (word_of_int v :: 32 word)"
  by (rule bit_word_eqI) (auto simp: bit_simps)

lemma number_back:
  assumes "in_ctype ty (int_vars c x)" "w = (if ty = CBool \<or> ty = CInt then Dec32 x else Dec64 x)"
  shows "assigned ty (fst (strtoll (shown c w))) = int_vars c x"
proof -
  let ?v = "int_vars c x"
  have s32: "sint (word_of_int ?v :: 32 word) = ?v" if "- (2 ^ 31) \<le> ?v" "?v < 2 ^ 31"
    using that by (intro signed_back) simp_all
  have s64: "sint (word_of_int ?v :: 64 word) = ?v" if "- (2 ^ 63) \<le> ?v" "?v < 2 ^ 63"
    using that by (intro signed_back) simp_all
  show ?thesis
  proof (cases ty)
    case CBool
    then have v: "?v = 0 \<or> ?v = 1" using assms(1) by auto
    then have "strtoll (print_dec ?v) = (word_of_int ?v, [])" by (intro strtoll_dec) auto
    then show ?thesis using CBool assms(2) v s32 by auto
  next
    case CInt
    then have v: "- (2 ^ 31) \<le> ?v" "?v < 2 ^ 31" using assms(1) by simp_all
    then have "strtoll (print_dec ?v) = (word_of_int ?v, [])" by (intro strtoll_dec) auto
    moreover have "ucast (word_of_int ?v :: 64 word) = (word_of_int ?v :: 32 word)" by (rule ucast_of_int)
    ultimately show ?thesis using CInt assms(2) s32 [OF v] by simp
  next
    case CLong
    then have v: "- (2 ^ 63) \<le> ?v" "?v < 2 ^ 63" using assms(1) by (simp_all add: int64_def)
    then have "strtoll (print_dec ?v) = (word_of_int ?v, [])" by (rule strtoll_dec)
    then show ?thesis using CLong assms(2) s64 [OF v] by simp
  next
    case CULong
    then have v: "0 \<le> ?v" "?v < 2 ^ 64" using assms(1) by simp_all
    let ?s = "sint (word_of_int ?v :: 64 word)"
    have "- (2 ^ 63) \<le> ?s" "?s < 2 ^ 63"
      using sint_greater_eq [of "word_of_int ?v :: 64 word"] sint_less [of "word_of_int ?v :: 64 word"] by simp_all
    then have "strtoll (print_dec ?s) = (word_of_int ?v, [])" using strtoll_dec [of ?s] by simp
    moreover have "uint (word_of_int ?v :: 64 word) = ?v" using v by (simp add: unsigned_of_int take_bit_int_eq_self)
    ultimately show ?thesis using CULong assms(2) by simp
  qed
qed

lemma relay_bits_bounds: "0 \<le> relay_bits bs \<and> relay_bits bs < 2 ^ length bs"
proof (induction bs)
  case (Cons b bs)
  have "relay_bits (b # bs) = 2 * relay_bits bs + of_bool b" by (simp add: relay_bits_def push_bit_eq_mult)
  with Cons show ?case by (cases b) auto
qed (simp add: relay_bits_def)

lemma split_relay_bits: "split_bits (length bs) (relay_bits bs) = bs"
proof (induction bs)
  case (Cons b bs)
  have "relay_bits (b # bs) = 2 * relay_bits bs + of_bool b" by (simp add: relay_bits_def push_bit_eq_mult)
  with Cons show ?case by (simp add: drop_bit_eq_div)
qed simp

lemma relays_back:
  assumes "config_typed c"
  shows "set_primary_relay_settings (assigned CInt (fst (strtoll (shown c Relays)))) d =
    d\<lparr>activate_relays := activate_relays c, deactivate_relays := deactivate_relays c\<rparr>"
proof -
  define a where "a = relay_bits (activate_relays c)"
  define b where "b = relay_bits (deactivate_relays c)"
  have l: "length (activate_relays c) = 8" "length (deactivate_relays c) = 8" using assms by (simp_all add: config_typed_def)
  have ab: "0 \<le> a" "a < 256" "0 \<le> b" "b < 256"
    using relay_bits_bounds [of "activate_relays c"] relay_bits_bounds [of "deactivate_relays c"] l by (simp_all add: a_def b_def)
  define v where "v = 256 * a + b"
  have g: "get_primary_relay_settings c = v" by (simp add: get_primary_relay_settings_def push_bit_eq_mult a_def b_def v_def)
  have v: "0 \<le> v" "v < 65536" using ab by (simp_all add: v_def)
  have w: "ucast (word_of_int v :: 32 word) = (word_of_int v :: 64 word)"
    using v by (simp add: unsigned_of_int take_bit_int_eq_self unsigned_ucast_eq word_eq_iff_unsigned)
  have "unat (word_of_int v :: 64 word) < 2 ^ 63" using v by (simp add: unsigned_of_int take_bit_int_eq_self)
  from strtoll_hex [OF this] have "strtoll (shown c Relays) = (word_of_int v, [])" using w by (simp add: g)
  moreover have "sint (word_of_int v :: 32 word) = v" by (rule signed_back) (use v in simp_all)
  then have "assigned CInt (word_of_int v) = v" using ucast_of_int [of v] by simp
  moreover have "drop_bit 8 v = a" "v AND 0xff = b"
  proof -
    show "drop_bit 8 v = a" using ab by (simp add: drop_bit_eq_div v_def)
    have "v AND 0xff = take_bit 8 v" by (simp add: take_bit_eq_mask mask_eq_exp_minus_1)
    then show "v AND 0xff = b" using ab by (simp add: take_bit_eq_mod v_def)
  qed
  moreover have "split_bits 8 a = activate_relays c" "split_bits 8 b = deactivate_relays c"
    using split_relay_bits [of "activate_relays c"] split_relay_bits [of "deactivate_relays c"] l by (simp_all add: a_def b_def)
  ultimately show ?thesis by (simp add: set_primary_relay_settings_def)
qed

lemma set_config_numbers:
  assumes "config_typed c" "(k, g, w) \<in> set written_settings"
  shows "int_vars (set_config k (shown c w) d) =
    (case map_of number_settings k of None \<Rightarrow> int_vars d | Some (x, ty) \<Rightarrow> (int_vars d)(x := int_vars c x))"
proof (cases "map_of number_settings k")
  case None
  then show ?thesis by (auto simp: set_config_def set_primary_relay_settings_def split: option.split)
next
  case (Some p)
  obtain x ty where p: "p = (x, ty)" by (cases p)
  have w: "w = (if ty = CBool \<or> ty = CInt then Dec32 x else Dec64 x)" using written_numbers [OF assms(2)] Some p by simp
  have "(k, x, ty) \<in> set number_settings" using Some p by (simp add: map_of_SomeD)
  then have "in_ctype ty (int_vars c x)" using assms(1) by (auto simp: config_typed_def)
  from number_back [OF this w] Some p show ?thesis by (simp add: set_config_def)
qed

abbreviation read_row :: "config \<Rightarrow> string \<times> string \<times> written \<Rightarrow> config \<Rightarrow> config" where
  "read_row c \<equiv> \<lambda>(k, g, w). set_config k (shown c w)"

lemma fold_numbers:
  assumes "config_typed c" "set rows \<subseteq> set written_settings"
  shows "int_vars (fold (read_row c) rows d) y =
    (if \<exists>k g w ty. (k, g, w) \<in> set rows \<and> map_of number_settings k = Some (y, ty) then int_vars c y else int_vars d y)"
  using assms(2)
proof (induction rows arbitrary: d)
  case (Cons r rows)
  obtain k g w where r: "r = (k, g, w)" by (cases r)
  have m: "(k, g, w) \<in> set written_settings" using Cons.prems by (simp add: r)
  let ?P = "\<lambda>rows. \<exists>k g w ty. (k, g, w) \<in> set rows \<and> map_of number_settings k = Some (y, ty)"
  let ?d = "set_config k (shown c w) d"
  have IH: "int_vars (fold (read_row c) rows ?d) y = (if ?P rows then int_vars c y else int_vars ?d y)"
    using Cons.IH [of ?d] Cons.prems by simp
  have "int_vars ?d y = (if \<exists>ty. map_of number_settings k = Some (y, ty) then int_vars c y else int_vars d y)"
    using set_config_numbers [OF assms(1) m, of d] by (auto split: option.splits)
  moreover have "?P (r # rows) \<longleftrightarrow> (\<exists>ty. map_of number_settings k = Some (y, ty)) \<or> ?P rows"
    unfolding r list.set(2) insert_iff prod.inject by blast
  moreover have "fold (read_row c) (r # rows) d = fold (read_row c) rows ?d" by (simp add: r)
  ultimately show ?case using IH by presburger
qed simp

lemma set_config_relays:
  assumes "config_typed c" "(k, g, w) \<in> set written_settings"
  shows "activate_relays (set_config k (shown c w) d) = (if k = ''primerelaysettings'' then activate_relays c else activate_relays d)"
    "deactivate_relays (set_config k (shown c w) d) = (if k = ''primerelaysettings'' then deactivate_relays c else deactivate_relays d)"
proof -
  have w: "w = Relays" if "k = ''primerelaysettings''" using written_relays(1) assms(2) that by (auto simp: list_all_iff)
  have "activate_relays (set_config k (shown c w) d) = (if k = ''primerelaysettings'' then activate_relays c else activate_relays d) \<and>
    deactivate_relays (set_config k (shown c w) d) = (if k = ''primerelaysettings'' then deactivate_relays c else deactivate_relays d)"
  proof (cases "k = ''primerelaysettings''")
    case True
    have "set_config k (shown c w) d = set_primary_relay_settings (assigned CInt (fst (strtoll (shown c Relays)))) d"
      unfolding set_config_def True written_relays(3,4) option.case if_P [OF refl] w [OF True] by (rule refl)
    then have "set_config k (shown c w) d = d\<lparr>activate_relays := activate_relays c, deactivate_relays := deactivate_relays c\<rparr>"
      unfolding relays_back [OF assms(1)] .
    then show ?thesis using True by simp
  qed (auto simp: set_config_def split: option.split)
  then show "activate_relays (set_config k (shown c w) d) = (if k = ''primerelaysettings'' then activate_relays c else activate_relays d)"
    "deactivate_relays (set_config k (shown c w) d) = (if k = ''primerelaysettings'' then deactivate_relays c else deactivate_relays d)"
    by simp_all
qed

lemma fold_relays:
  assumes "config_typed c" "set rows \<subseteq> set written_settings"
  shows "activate_relays (fold (read_row c) rows d) = (if ''primerelaysettings'' \<in> fst ` set rows then activate_relays c else activate_relays d) \<and>
    deactivate_relays (fold (read_row c) rows d) = (if ''primerelaysettings'' \<in> fst ` set rows then deactivate_relays c else deactivate_relays d)"
  using assms(2)
proof (induction rows arbitrary: d)
  case (Cons r rows)
  obtain k g w where r: "r = (k, g, w)" by (cases r)
  have m: "(k, g, w) \<in> set written_settings" using Cons.prems by (simp add: r)
  from Cons set_config_relays [OF assms(1) m, of d] show ?case by (auto simp: r)
qed simp

text \<open>The texts: the variable that is set, the variable that was written, and the number of characters that are kept.\<close>

definition text_copies :: "(string \<times> string \<times> nat) list" where
  "text_copies =
    [(''domain_file_ccc'', ''domain_file_ccc'', 255), (''current_model_ccc'', ''current_model_ccc'', 40),
     (''current_source_model_ccc'', ''current_model_ccc'', 63), (''current_serial_ccc'', ''current_serial_ccc'', 20),
     (''current_source_serial_ccc'', ''current_serial_ccc'', 63), (''command_to_call_ccc'', ''command_to_call_ccc'', 255),
     (''power_command_to_call_ccc'', ''power_command_to_call_ccc'', 255), (''virtual_driver_name_ccc'', ''virtual_driver_name_ccc'', 255)]"

definition copy_texts :: "config \<Rightarrow> string \<times> string \<times> written \<Rightarrow> (string \<Rightarrow> string option) \<Rightarrow> string \<Rightarrow> string option" where
  "copy_texts c = (\<lambda>(k, g, w) v. case map_of text_settings k of None \<Rightarrow> v
     | Some xs \<Rightarrow> fold (\<lambda>(x, n) v. v(x \<mapsto> take n (shown c w))) xs v)"

lemma fold_set_text: "text_vars (fold (set_text t) xs d) = fold (\<lambda>(x, n) v. v(x \<mapsto> take n t)) xs (text_vars d)"
  by (induction xs arbitrary: d) (auto simp: set_text_def)

lemma text_keys: "list_all (\<lambda>(k, xs). k \<in> set other_keys) text_settings"
  by code_simp

lemma set_config_texts: "text_vars (set_config k (shown c w) d) = copy_texts c (k, g, w) (text_vars d)"
proof (cases "map_of text_settings k")
  case None
  then show ?thesis by (auto simp: set_config_def copy_texts_def set_primary_relay_settings_def split: option.split)
next
  case (Some xs)
  then have "k \<in> set other_keys" using text_keys map_of_SomeD [OF Some] by (auto simp: list_all_iff)
  then have "map_of number_settings k = None" using distinct_keys(2) by (auto simp: map_of_eq_None_iff)
  then show ?thesis using Some by (simp add: set_config_def copy_texts_def fold_set_text)
qed

lemma fold_texts:
  "text_vars (fold (read_row c) rows d) =
   fold (copy_texts c) (filter (\<lambda>r. map_of text_settings (fst r) \<noteq> None) rows) (text_vars d)"
proof (induction rows arbitrary: d)
  case (Cons r rows)
  obtain k g w where r: "r = (k, g, w)" by (cases r)
  from Cons.IH [of "read_row c r d"] set_config_texts [of k c w d g] show ?case by (simp add: r copy_texts_def)
qed simp

lemma text_rows:
  "filter (\<lambda>r. map_of text_settings (fst r) \<noteq> None) written_settings =
    [(''domainfile'', gap, Text ''domain_file_ccc''), (''model'', gap, Text ''current_model_ccc''), (''serial'', gap, Text ''current_serial_ccc''),
     (''commandtocall'', gap, Text ''command_to_call_ccc''), (''powercommandtocall'', gap, Text ''power_command_to_call_ccc''),
     (''driverdiskname'', gap, Text ''virtual_driver_name_ccc'')]"
  by code_simp

lemma text_targets:
  "map_of text_settings ''domainfile'' = Some [(''domain_file_ccc'', 255)]"
  "map_of text_settings ''model'' = Some [(''current_model_ccc'', 40), (''current_source_model_ccc'', 63)]"
  "map_of text_settings ''serial'' = Some [(''current_serial_ccc'', 20), (''current_source_serial_ccc'', 63)]"
  "map_of text_settings ''commandtocall'' = Some [(''command_to_call_ccc'', 255)]"
  "map_of text_settings ''powercommandtocall'' = Some [(''power_command_to_call_ccc'', 255)]"
  "map_of text_settings ''driverdiskname'' = Some [(''virtual_driver_name_ccc'', 255)]" "distinct (map fst text_copies)"
  by code_simp+

definition copy_text :: "config \<Rightarrow> string \<times> string \<times> nat \<Rightarrow> (string \<Rightarrow> string option) \<Rightarrow> string \<Rightarrow> string option" where
  "copy_text c = (\<lambda>(y, x, n) v. v(y \<mapsto> take n (shown c (Text x))))"

lemma fold_copy_text:
  assumes "distinct (map fst ps)"
  shows "y \<notin> fst ` set ps \<Longrightarrow> fold (copy_text c) ps v y = v y"
    "(y, x, n) \<in> set ps \<Longrightarrow> fold (copy_text c) ps v y = Some (take n (shown c (Text x)))"
proof -
  have out: "fold (copy_text c) ps v y = v y" if "y \<notin> fst ` set ps" for ps v
    using that by (induction ps arbitrary: v) (auto simp: copy_text_def)
  then show "y \<notin> fst ` set ps \<Longrightarrow> fold (copy_text c) ps v y = v y" .
  show "(y, x, n) \<in> set ps \<Longrightarrow> fold (copy_text c) ps v y = Some (take n (shown c (Text x)))"
    using assms
  proof (induction ps arbitrary: v)
    case (Cons p ps)
    show ?case
    proof (cases "p = (y, x, n)")
      case True
      then have "y \<notin> fst ` set ps" using Cons.prems by simp
      from out [OF this] show ?thesis by (simp add: True copy_text_def)
    qed (use Cons in simp)
  qed simp
qed

lemma texts_back:
  "(y, x, n) \<in> set text_copies \<Longrightarrow> text_vars (read_back c d) y = Some (take n (shown c (Text x)))"
  "y \<notin> fst ` set text_copies \<Longrightarrow> text_vars (read_back c d) y = text_vars d y"
proof -
  have "text_vars (read_back c d) = fold (copy_text c) text_copies (text_vars d)"
    unfolding read_back_def fold_texts text_rows text_copies_def
    by (simp only: fold.simps copy_texts_def copy_text_def prod.case text_targets option.case o_apply id_apply)
  with fold_copy_text [OF text_targets(7), where v = "text_vars d" and c = c]
  show "(y, x, n) \<in> set text_copies \<Longrightarrow> text_vars (read_back c d) y = Some (take n (shown c (Text x)))"
    "y \<notin> fst ` set text_copies \<Longrightarrow> text_vars (read_back c d) y = text_vars d y" by simp_all
qed

text \<open>
  Every setting that the reader knows has its value again, for texts up to the size of their variable;
  nothing else is changed.
\<close>

definition restored :: "config \<Rightarrow> config \<Rightarrow> config \<Rightarrow> bool" where
  "restored c c0 d \<longleftrightarrow>
     (\<forall>k x ty. (k, x, ty) \<in> set number_settings \<longrightarrow> int_vars d x = int_vars c x) \<and>
     (\<forall>x. x \<notin> (fst \<circ> snd) ` set number_settings \<longrightarrow> int_vars d x = int_vars c0 x) \<and>
     (\<forall>y x n. (y, x, n) \<in> set text_copies \<longrightarrow> text_vars d y = Some (take n (shown c (Text x)))) \<and>
     (\<forall>y. y \<notin> fst ` set text_copies \<longrightarrow> text_vars d y = text_vars c0 y) \<and>
     activate_relays d = activate_relays c \<and> deactivate_relays d = deactivate_relays c"

lemma read_back_restored:
  assumes "config_typed c"
  shows "restored c c0 (read_back c c0)"
proof -
  have n: "int_vars (read_back c c0) y =
      (if \<exists>k g w ty. (k, g, w) \<in> set written_settings \<and> map_of number_settings k = Some (y, ty) then int_vars c y else int_vars c0 y)" for y
    unfolding read_back_def by (rule fold_numbers [OF assms subset_refl])
  have "int_vars (read_back c c0) x = int_vars c x" if "(k, x, ty) \<in> set number_settings" for k x ty
    using all_written [OF that] unfolding n by auto
  moreover have "int_vars (read_back c c0) x = int_vars c0 x" if "x \<notin> (fst \<circ> snd) ` set number_settings" for x
  proof -
    have "map_of number_settings k \<noteq> Some (x, ty)" for k ty using that by (force dest: map_of_SomeD)
    then show ?thesis unfolding n by simp
  qed
  moreover have "''primerelaysettings'' \<in> fst ` set written_settings"
    using written_relays(2) by (force simp: list_ex_iff)
  then have "activate_relays (read_back c c0) = activate_relays c" "deactivate_relays (read_back c c0) = deactivate_relays c"
    using fold_relays [OF assms subset_refl, of c0] unfolding read_back_def by simp_all
  ultimately show ?thesis using texts_back unfolding restored_def by blast
qed

section \<open>The whole file\<close>

lemma key_lengths: "list_all (\<lambda>(k, g, w). length k \<le> 30 \<and> length g \<le> 5 \<and> newline \<notin> set k) written_settings"
  by code_simp

lemma setting_comment_line:
  assumes "texts_ok c" "r \<in> set written_settings"
  shows "comment_line (setting_line c r)"
proof -
  obtain k g w where r: "r = (k, g, w)" by (cases r)
  have "length k \<le> 30" "length g \<le> 5" "newline \<notin> set k" using key_lengths assms(2) by (auto simp: list_all_iff r)
  moreover have "newline \<notin> set g" using written_keys assms(2) by (auto simp: list_all_iff r gap_ok_def)
  moreover have "newline \<notin> set (shown c w)" "length (shown c w) \<le> 200"
    using shown_ok [OF assms(1), of k g w] assms(2) by (auto simp: r value_ok_def)
  ultimately show ?thesis by (simp add: comment_line_def setting_line_def r MAX_LINE_LENGTH_def)
qed

lemma notes_comments:
  assumes "list_all idle_line head" "texts_ok c" "text_ok analysis" "text_ok smart" "list_all idle_line ident"
  shows "\<forall>l\<in>set (log_notes head c analysis smart generic ident). comment_line l"
proof -
  have "\<forall>l\<in>set (config_lines c). comment_line l"
    using setting_comment_line [OF assms(2)] by (auto simp: config_lines_def comment_line_def MAX_LINE_LENGTH_def)
  moreover have "\<forall>l\<in>set (text_section ''ANALYZE'' ''anyalyze'' analysis). comment_line l" "\<forall>l\<in>set (text_section ''SMART'' ''smart'' smart). comment_line l"
    using assms(3,4) by (auto simp: text_section_def text_ok_def text_line_ok_def list_all_iff) (simp_all add: comment_line_def MAX_LINE_LENGTH_def)
  moreover have "\<forall>l\<in>set (ident_section generic ident). comment_line l"
    using assms(5) by (auto simp: ident_section_def idle_line_def list_all_iff) (simp_all add: comment_line_def MAX_LINE_LENGTH_def)
  moreover have "\<forall>l\<in>set head. comment_line l" using assms(1) by (simp add: idle_line_def list_all_iff)
  ultimately show ?thesis unfolding log_notes_def set_append by blast
qed

text \<open>
  C17: a program that reads the log file of another one is where that one was: it has the position, the phase,
  the table, the two texts, every setting that the reader knows and the relays; no other variable is changed.
\<close>

theorem log_file_restores:
  assumes "config_typed c" "texts_ok c" "list_all idle_line head" "text_ok analysis" "text_ok smart" "list_all idle_line ident"
    and "\<forall>r\<in>set (lines (log_table s)). storable r" "0 \<le> current_position s" "current_position s < 2 ^ 63"
  shows "\<exists>d T. read_log_file (Some (log_text (log_notes head c analysis smart generic ident) s)) c0 s0 =
      (0, Some (analysis, smart), d, s0\<lparr>log_table := T, current_position := current_position s, current_status := current_status s\<rparr>) \<and>
    lines T = lines (log_table s) \<and> restored c c0 d"
proof -
  define notes0 where "notes0 = log_notes head c analysis smart generic ident"
  note a = after_notes [OF assms(3,2,4-6) refl, where generic = generic, folded notes0_def]
  have "\<not> open_text notes0" using a(4) [of no_config] by (simp add: open_text_def scan_flags_def)
  moreover have "\<forall>l\<in>set notes0. comment_line l" unfolding notes0_def by (rule notes_comments [OF assms(3,2,4-6)])
  ultimately show ?thesis
    using log_file_round_trip_rule [of notes0 s c0 s0] assms(7-9) a(1-3) [of c0] read_back_restored [OF assms(1), of c0]
    unfolding notes0_def [symmetric] by (auto simp: Let_def)
qed

lemma log_file_restores_witness:
  "\<exists>d T. read_log_file (Some (log_text (log_notes [''# note''] no_config ''# good'' [] True []) (demo_env demo_rows 100))) no_config (demo_env [] 100) =
      (0, Some (''# good'', []), d, (demo_env [] 100)\<lparr>log_table := T, current_position := current_position (demo_env demo_rows 100),
         current_status := current_status (demo_env demo_rows 100)\<rparr>) \<and>
    lines T = lines (log_table (demo_env demo_rows 100)) \<and> restored no_config no_config d"
proof (rule log_file_restores)
  show "config_typed no_config" by (rule no_config_typed)
  show "texts_ok no_config" by (simp add: texts_ok_def no_config_def value_ok_def)
  show "list_all idle_line [''# note'']" "text_ok ''# good''" by code_simp+
  show "\<forall>r\<in>set (lines (log_table (demo_env demo_rows 100))). storable r"
    by (simp add: demo_rows_def storable_def FINISHED_def NONTRIED_def)
qed (simp_all add: text_ok_def demo_env_def)

end
