(* ===== verification/Log_Write.thy ===== *)
theory Log_Write
  imports Log_File
begin

text \<open>
  How the progress log and the domain reach the disk: \<open>write_logfile_ccc\<close> and
  \<open>write_domainfile_ccc\<close> as small steps over the files, each of which can fail and between which
  the program can be killed or the machine can stop.
\<close>

section \<open>Files\<close>

text \<open>
  What a file holds.  \<open>Synced t\<close>: the text is on the disk.  \<open>Pending t\<close>: the program would read
  \<open>t\<close>, but after a crash the file may hold anything.
\<close>

datatype file_state = Synced string | Pending string

fun file_text :: "file_state \<Rightarrow> string" where
  "file_text (Synced t) = t"
| "file_text (Pending t) = t"

type_synonym files = "string \<Rightarrow> file_state option"

definition tmp_name :: "string \<Rightarrow> string" where "tmp_name n = n @ ''.tmp''"

definition bak_name :: "string \<Rightarrow> string" where "bak_name n = n @ ''.bak''"

lemma names_differ [simp]:
  "tmp_name n \<noteq> n" "bak_name n \<noteq> n" "tmp_name n \<noteq> bak_name n" "n \<noteq> tmp_name n" "n \<noteq> bak_name n" "bak_name n \<noteq> tmp_name n"
  by (simp_all add: tmp_name_def bak_name_def)

text \<open>\<open>rename\<close> is one step: the new name stands for the old file or for the new one, never for neither.\<close>

definition rename_file :: "string \<Rightarrow> string \<Rightarrow> files \<Rightarrow> files" where
  "rename_file a b fs = (fs(b := fs a))(a := None)"

text \<open>What can be found after a crash.\<close>

definition crashed :: "files \<Rightarrow> files \<Rightarrow> bool" where
  "crashed fs gs \<longleftrightarrow> (\<forall>n. case fs n of
      None \<Rightarrow> gs n = None
    | Some (Synced t) \<Rightarrow> gs n = Some (Synced t)
    | Some (Pending t) \<Rightarrow> gs n \<noteq> None)"

section \<open>The steps of the code\<close>

text \<open>What a call is given: the file, its lines, the settings and the clock.\<close>

record save_call =
  save_name :: string
  save_lines :: "string list"
  make_backup :: bool
  export_name :: "string option"
  new_time :: int
  time_sec :: int

datatype stage =
    Starting
  | Printing "string list"
  | Flushing
  | Syncing
  | Closing
  | Checking
  | Backing_Up
  | Replacing
  | Exporting
  | Returned int

record save_state =
  save_files :: files
  save_stage :: stage
  last_write :: int
  error_ret :: int
  print_failed :: bool
  changed_flag :: bool

definition save_due :: "save_call \<Rightarrow> save_state \<Rightarrow> bool" where
  "save_due c s \<longleftrightarrow> new_time c > last_write s + time_sec c \<or> time_sec c = 0"

text \<open>One \<open>fprintf\<close>: the line is appended to the file that is being written.\<close>

definition append_line :: "string \<Rightarrow> string \<Rightarrow> files \<Rightarrow> files" where
  "append_line n l fs = fs(n := map_option (\<lambda>f. Pending (file_text f @ l @ [newline])) (fs n))"

definition sync_file :: "string \<Rightarrow> files \<Rightarrow> files" where
  "sync_file n fs = fs(n := map_option (\<lambda>f. Synced (file_text f)) (fs n))"

text \<open>
  One rule for each outcome of each call.  A failed \<open>fprintf\<close> loses its line and is not noticed:
  neither its result nor \<open>ferror\<close> is looked at.  What a stream that could not be flushed leaves in
  the file is not known, so syncing it does not help.
\<close>

inductive save_step :: "save_call \<Rightarrow> save_state \<Rightarrow> save_state \<Rightarrow> bool" for c where
  not_due: "save_stage s = Starting \<Longrightarrow> \<not> save_due c s \<Longrightarrow> save_step c s (s\<lparr>save_stage := Returned 0\<rparr>)"
| open_fails: "save_stage s = Starting \<Longrightarrow> save_due c s \<Longrightarrow>
    save_step c s (s\<lparr>last_write := new_time c, save_stage := Returned 1\<rparr>)"
| open_tmp: "save_stage s = Starting \<Longrightarrow> save_due c s \<Longrightarrow>
    save_step c s (s\<lparr>last_write := new_time c, save_files := (save_files s)(tmp_name (save_name c) := Some (Pending [])),
      save_stage := Printing (save_lines c)\<rparr>)"
| print_line: "save_stage s = Printing (l # ls) \<Longrightarrow>
    save_step c s (s\<lparr>save_files := append_line (tmp_name (save_name c)) l (save_files s), save_stage := Printing ls\<rparr>)"
| print_fails: "save_stage s = Printing (l # ls) \<Longrightarrow>
    save_step c s (s\<lparr>print_failed := True, save_stage := Printing ls\<rparr>)"
| printed: "save_stage s = Printing [] \<Longrightarrow> save_step c s (s\<lparr>error_ret := 0, save_stage := Flushing\<rparr>)"
| flush_ok: "save_stage s = Flushing \<Longrightarrow> save_step c s (s\<lparr>save_stage := Syncing\<rparr>)"
| flush_fails: "save_stage s = Flushing \<Longrightarrow> save_step c s (s\<lparr>error_ret := 1, save_stage := Syncing\<rparr>)"
| sync_ok: "save_stage s = Syncing \<Longrightarrow>
    save_step c s (s\<lparr>save_files := (if error_ret s = 0 then sync_file (tmp_name (save_name c)) (save_files s) else save_files s),
      save_stage := Closing\<rparr>)"
| sync_fails: "save_stage s = Syncing \<Longrightarrow> save_step c s (s\<lparr>error_ret := 1, save_stage := Closing\<rparr>)"
| close_ok: "save_stage s = Closing \<Longrightarrow> save_step c s (s\<lparr>save_stage := Checking\<rparr>)"
| close_fails: "save_stage s = Closing \<Longrightarrow> save_step c s (s\<lparr>error_ret := 1, save_stage := Checking\<rparr>)"
| check_bad: "save_stage s = Checking \<Longrightarrow> error_ret s \<noteq> 0 \<Longrightarrow> save_step c s (s\<lparr>save_stage := Returned 1\<rparr>)"
| check_good: "save_stage s = Checking \<Longrightarrow> error_ret s = 0 \<Longrightarrow> save_step c s (s\<lparr>save_stage := Backing_Up\<rparr>)"
| no_backup: "save_stage s = Backing_Up \<Longrightarrow> \<not> make_backup c \<or> save_files s (save_name c) = None \<Longrightarrow>
    save_step c s (s\<lparr>save_stage := Replacing\<rparr>)"
| backup_ok: "save_stage s = Backing_Up \<Longrightarrow> make_backup c \<Longrightarrow> save_files s (save_name c) \<noteq> None \<Longrightarrow>
    save_step c s (s\<lparr>save_files := rename_file (save_name c) (bak_name (save_name c)) (save_files s), save_stage := Replacing\<rparr>)"
| backup_fails: "save_stage s = Backing_Up \<Longrightarrow> make_backup c \<Longrightarrow> save_files s (save_name c) \<noteq> None \<Longrightarrow>
    save_step c s (s\<lparr>save_stage := Returned 1\<rparr>)"
| replace_ok: "save_stage s = Replacing \<Longrightarrow>
    save_step c s (s\<lparr>save_files := rename_file (tmp_name (save_name c)) (save_name c) (save_files s), save_stage := Exporting\<rparr>)"
| replace_fails: "save_stage s = Replacing \<Longrightarrow> save_step c s (s\<lparr>save_stage := Returned 1\<rparr>)"
| no_export: "save_stage s = Exporting \<Longrightarrow> export_name c = None \<Longrightarrow>
    save_step c s (s\<lparr>changed_flag := False, save_stage := Returned 0\<rparr>)"
| export_ok: "save_stage s = Exporting \<Longrightarrow> export_name c = Some e \<Longrightarrow>
    save_step c s (s\<lparr>save_files := (save_files s)(e := Some f), changed_flag := False, save_stage := Returned 0\<rparr>)"
| export_fails: "save_stage s = Exporting \<Longrightarrow> export_name c = Some e \<Longrightarrow>
    save_step c s (s\<lparr>save_files := (save_files s)(e := g), save_stage := Returned 1\<rparr>)"

inductive_cases save_stepE: "save_step c s t"

text \<open>Nothing happens after the return.\<close>

lemma returned_final: "save_stage s = Returned r \<Longrightarrow> \<not> save_step c s t"
  by (auto elim: save_stepE)

text \<open>A call begins with the files as they are and the flag of the changes.\<close>

definition save_begins :: "save_state \<Rightarrow> bool" where
  "save_begins s \<longleftrightarrow> save_stage s = Starting \<and> \<not> print_failed s"

abbreviation save_steps :: "save_call \<Rightarrow> save_state \<Rightarrow> save_state \<Rightarrow> bool" where
  "save_steps c \<equiv> (save_step c)\<^sup>*\<^sup>*"

text \<open>The two calls of the program.\<close>

definition log_call ::
  "string \<Rightarrow> string list \<Rightarrow> bool \<Rightarrow> string option \<Rightarrow> int \<Rightarrow> int \<Rightarrow> 'a log_env_scheme \<Rightarrow> save_call" where
  "log_call name notes disable_backup exported now sec s =
     \<lparr>save_name = name, save_lines = log_lines notes s, make_backup = (\<not> no_log_backup s \<and> \<not> disable_backup),
      export_name = exported, new_time = now, time_sec = sec\<rparr>"

definition domain_lines :: "string list \<Rightarrow> 'a maps_scheme \<Rightarrow> string list" where
  "domain_lines notes s = notes @ map row_text (lines (domain_table s))"

definition domain_call :: "string \<Rightarrow> string list \<Rightarrow> int \<Rightarrow> int \<Rightarrow> 'a log_env_scheme \<Rightarrow> save_call" where
  "domain_call name notes now sec s =
     \<lparr>save_name = name, save_lines = domain_lines notes s, make_backup = (\<not> no_log_backup s),
      export_name = None, new_time = now, time_sec = sec\<rparr>"

section \<open>The invariant\<close>

definition lines_text :: "string list \<Rightarrow> string" where
  "lines_text ls = concat (map (\<lambda>l. l @ [newline]) ls)"

lemma lines_text_simps [simp]: "lines_text [] = []" "lines_text (l # ls) = l @ newline # lines_text ls"
  by (simp_all add: lines_text_def)

text \<open>The text behind which everything was written, unless a \<open>fprintf\<close> failed.\<close>

definition complete :: "save_call \<Rightarrow> save_state \<Rightarrow> string \<Rightarrow> bool" where
  "complete c s t \<longleftrightarrow> print_failed s \<or> t = lines_text (save_lines c)"

definition tmp_synced :: "save_call \<Rightarrow> save_state \<Rightarrow> bool" where
  "tmp_synced c s \<longleftrightarrow> (\<exists>t. save_files s (tmp_name (save_name c)) = Some (Synced t) \<and> complete c s t)"

definition new_there :: "save_call \<Rightarrow> save_state \<Rightarrow> bool" where
  "new_there c s \<longleftrightarrow> (\<exists>t. save_files s (save_name c) = Some (Synced t) \<and> complete c s t)"

text \<open>The moment between the two renames, if there was a file before.\<close>

definition moved_away :: "file_state option \<Rightarrow> save_call \<Rightarrow> save_state \<Rightarrow> bool" where
  "moved_away old c s \<longleftrightarrow>
     save_files s (save_name c) = None \<and> save_files s (bak_name (save_name c)) = old \<and> tmp_synced c s"

fun stage_inv :: "stage \<Rightarrow> file_state option \<Rightarrow> save_call \<Rightarrow> save_state \<Rightarrow> bool" where
  "stage_inv Starting old c s \<longleftrightarrow> save_files s (save_name c) = old \<and> \<not> print_failed s"
| "stage_inv (Printing ls) old c s \<longleftrightarrow> save_files s (save_name c) = old \<and>
     (\<exists>t. save_files s (tmp_name (save_name c)) = Some (Pending t) \<and> complete c s (t @ lines_text ls))"
| "stage_inv Flushing old c s \<longleftrightarrow> save_files s (save_name c) = old \<and>
     (\<exists>t. save_files s (tmp_name (save_name c)) = Some (Pending t) \<and> complete c s t)"
| "stage_inv Syncing old c s \<longleftrightarrow> save_files s (save_name c) = old \<and>
     (\<exists>t. save_files s (tmp_name (save_name c)) = Some (Pending t) \<and> complete c s t)"
| "stage_inv Closing old c s \<longleftrightarrow> save_files s (save_name c) = old \<and> (error_ret s = 0 \<longrightarrow> tmp_synced c s)"
| "stage_inv Checking old c s \<longleftrightarrow> save_files s (save_name c) = old \<and> (error_ret s = 0 \<longrightarrow> tmp_synced c s)"
| "stage_inv Backing_Up old c s \<longleftrightarrow> save_files s (save_name c) = old \<and> tmp_synced c s"
| "stage_inv Replacing old c s \<longleftrightarrow> tmp_synced c s \<and> (save_files s (save_name c) = old \<or> moved_away old c s)"
| "stage_inv Exporting old c s \<longleftrightarrow> new_there c s"
| "stage_inv (Returned r) old c s \<longleftrightarrow>
     (if r = 0 then save_files s (save_name c) = old \<and> \<not> print_failed s \<or> new_there c s
      else save_files s (save_name c) = old \<or> new_there c s \<or> moved_away old c s)"

definition export_apart :: "save_call \<Rightarrow> bool" where
  "export_apart c \<longleftrightarrow> (\<forall>e. export_name c = Some e \<longrightarrow> e \<noteq> save_name c)"

lemma save_step_inv:
  assumes "save_step c s t" "stage_inv (save_stage s) old c s" "export_apart c"
  shows "stage_inv (save_stage t) old c t"
  using assms
  by (induction rule: save_step.induct)
    (auto simp: tmp_synced_def new_there_def moved_away_def complete_def export_apart_def append_line_def
      sync_file_def rename_file_def)

end
