(* ===== verification/Log_Safety.thy ===== *)
theory Log_Safety
  imports Log_Write Log_Trip
begin

text \<open>What a save promises: the log on the disk is the old one or the new one, whenever the machine stops.\<close>

section \<open>Every moment of a save\<close>

lemma save_steps_inv:
  assumes "save_steps c s t" "stage_inv (save_stage s) old c s" "export_apart c"
  shows "stage_inv (save_stage t) old c t"
  using assms by (induction rule: rtranclp_induct) (auto intro: save_step_inv)

lemma save_begins_inv: "save_begins s \<Longrightarrow> stage_inv (save_stage s) (save_files s (save_name c)) c s"
  by (simp add: save_begins_def)

lemma stage_inv_whole:
  assumes "stage_inv st old c s" "\<not> print_failed s"
  shows "save_files s (save_name c) = old \<or> save_files s (save_name c) = Some (Synced (lines_text (save_lines c))) \<or>
    save_files s (save_name c) = None \<and> save_files s (bak_name (save_name c)) = old \<and>
      save_files s (tmp_name (save_name c)) = Some (Synced (lines_text (save_lines c)))"
  using assms by (cases st) (auto simp: tmp_synced_def new_there_def moved_away_def complete_def split: if_splits)

lemma crashed_synced: "crashed fs gs \<Longrightarrow> fs n = Some (Synced t) \<Longrightarrow> gs n = Some (Synced t)"
  by (auto simp: crashed_def dest!: spec [of _ n])

lemma crashed_none: "crashed fs gs \<Longrightarrow> fs n = None \<Longrightarrow> gs n = None"
  by (auto simp: crashed_def dest!: spec [of _ n])

lemma save_survives_crash:
  assumes "save_begins s0" "save_files s0 (save_name c) = Some (Synced old)" "export_apart c"
    and "save_steps c s0 s" "\<not> print_failed s" "crashed (save_files s) gs"
  shows "gs (save_name c) = Some (Synced old) \<or> gs (save_name c) = Some (Synced (lines_text (save_lines c))) \<or>
    gs (save_name c) = None \<and> gs (bak_name (save_name c)) = Some (Synced old)"
proof -
  from save_begins_inv [OF assms(1), of c] have "stage_inv (save_stage s) (Some (Synced old)) c s"
    unfolding assms(2) by (rule save_steps_inv [OF assms(4) _ assms(3)])
  from stage_inv_whole [OF this assms(5)] show ?thesis
    using crashed_synced [OF assms(6)] crashed_none [OF assms(6)] by blast
qed

text \<open>The file that is left of a log: the log itself or, if it is missing, its backup.\<close>

definition found_log :: "string \<Rightarrow> files \<Rightarrow> string option" where
  "found_log n gs = map_option file_text (if gs n = None then gs (bak_name n) else gs n)"

definition writable_log :: "string list \<Rightarrow> 'a log_env_scheme \<Rightarrow> bool" where
  "writable_log notes s \<longleftrightarrow> (\<forall>l\<in>set notes. comment_line l) \<and> \<not> open_text notes \<and>
     (\<forall>r\<in>set (lines (log_table s)). storable r) \<and> 0 \<le> current_position s \<and> current_position s < 2 ^ 63"

definition restores :: "'b log_env_scheme \<Rightarrow> string option \<Rightarrow> 'a log_env_scheme \<Rightarrow> bool" where
  "restores e file s \<longleftrightarrow> (\<forall>c. \<exists>texts d T. read_log_file file c e =
      (0, texts, d, e\<lparr>log_table := T, current_position := current_position s, current_status := current_status s\<rparr>) \<and>
    lines T = lines (log_table s))"

lemma restores_log_text: "writable_log notes s \<Longrightarrow> restores e (Some (log_text notes s)) s"
  using log_file_round_trip_rule [of "notes" s _ e] unfolding restores_def writable_log_def Let_def by blast

lemma log_call_simps [simp]:
  "save_name (log_call n notes d ex now sec s) = n" "save_lines (log_call n notes d ex now sec s) = log_lines notes s"
  "make_backup (log_call n notes d ex now sec s) = (\<not> no_log_backup s \<and> \<not> d)" "export_name (log_call n notes d ex now sec s) = ex"
  "new_time (log_call n notes d ex now sec s) = now" "time_sec (log_call n notes d ex now sec s) = sec"
  by (simp_all add: log_call_def)

lemma log_text_lines: "lines_text (log_lines notes s) = log_text notes s"
  by (simp add: lines_text_def log_text_def)


section \<open>A save that reports success\<close>

fun backup_inv :: "stage \<Rightarrow> file_state option \<Rightarrow> save_call \<Rightarrow> save_state \<Rightarrow> bool" where
  "backup_inv Replacing old c s \<longleftrightarrow> make_backup c \<and> old \<noteq> None \<longrightarrow> save_files s (bak_name (save_name c)) = old"
| "backup_inv Exporting old c s \<longleftrightarrow> make_backup c \<and> old \<noteq> None \<longrightarrow> save_files s (bak_name (save_name c)) = old"
| "backup_inv (Returned r) old c s \<longleftrightarrow>
     (r = 0 \<longrightarrow> new_there c s \<and> \<not> changed_flag s \<and> (make_backup c \<and> old \<noteq> None \<longrightarrow> save_files s (bak_name (save_name c)) = old))"
| "backup_inv Starting old c s \<longleftrightarrow> save_due c s"
| "backup_inv _ old c s \<longleftrightarrow> True"

lemma save_step_backup:
  assumes "save_step c s t" "backup_inv (save_stage s) old c s" "stage_inv (save_stage s) old c s"
    and "\<forall>e. export_name c = Some e \<longrightarrow> e \<noteq> save_name c \<and> e \<noteq> bak_name (save_name c)"
  shows "backup_inv (save_stage t) old c t"
  using assms
  by (induction rule: save_step.induct)
    (auto simp: new_there_def complete_def rename_file_def save_due_def)

lemma save_steps_backup:
  assumes "save_steps c s t" "backup_inv (save_stage s) old c s" "stage_inv (save_stage s) old c s"
    and e: "\<forall>e. export_name c = Some e \<longrightarrow> e \<noteq> save_name c \<and> e \<noteq> bak_name (save_name c)"
  shows "backup_inv (save_stage t) old c t"
  using assms(1-3)
proof (induction rule: rtranclp_induct)
  case (step t u)
  have "export_apart c" using e by (auto simp: export_apart_def)
  with step have "stage_inv (save_stage t) old c t" by (auto intro: save_steps_inv)
  with step show ?case by (auto intro: save_step_backup [OF _ _ _ e])
qed


section \<open>A line that could not be printed\<close>

lemma save_more: "save_step c s t \<Longrightarrow> save_steps c t u \<Longrightarrow> save_steps c s u"
  by (rule converse_rtranclp_into_rtranclp)

lemma print_run:
  assumes "save_stage s = Printing (ls @ ms)" "save_files s (tmp_name (save_name c)) = Some (Pending t)"
  shows "\<exists>fs. save_steps c s (s\<lparr>save_files := fs, save_stage := Printing ms\<rparr>) \<and>
    fs (tmp_name (save_name c)) = Some (Pending (t @ lines_text ls)) \<and> fs (save_name c) = save_files s (save_name c)"
  using assms
proof (induction ls arbitrary: s t)
  case Nil
  then have "s\<lparr>save_files := save_files s, save_stage := Printing ms\<rparr> = s" by (cases s) simp
  then have "save_steps c s (s\<lparr>save_files := save_files s, save_stage := Printing ms\<rparr>)" by (simp only: rtranclp.rtrancl_refl)
  then show ?case using Nil by (intro exI [of _ "save_files s"] conjI) simp_all
next
  case (Cons l ls)
  define s1 where "s1 = s\<lparr>save_files := append_line (tmp_name (save_name c)) l (save_files s), save_stage := Printing (ls @ ms)\<rparr>"
  have 1: "save_step c s s1" unfolding s1_def by (rule print_line) (use Cons.prems in simp)
  have "save_stage s1 = Printing (ls @ ms)" by (simp add: s1_def)
  moreover have "save_files s1 (tmp_name (save_name c)) = Some (Pending (t @ l @ [newline]))"
    using Cons.prems by (simp add: s1_def append_line_def)
  ultimately obtain fs where "save_steps c s1 (s1\<lparr>save_files := fs, save_stage := Printing ms\<rparr>)"
    "fs (tmp_name (save_name c)) = Some (Pending (t @ lines_text (l # ls)))" "fs (save_name c) = save_files s1 (save_name c)"
    using Cons.IH [of s1] by auto
  with 1 show ?case
    by (intro exI [of _ fs]) (auto simp: s1_def append_line_def intro: save_more)
qed

lemma finish_run:
  assumes "save_stage s = Printing []" "save_files s (tmp_name (save_name c)) = Some (Pending t)" "export_apart c"
  shows "\<exists>u. save_steps c s u \<and> save_stage u = Returned 0 \<and> save_files u (save_name c) = Some (Synced t) \<and>
    print_failed u = print_failed s"
proof -
  define fs where "fs = sync_file (tmp_name (save_name c)) (save_files s)"
  define s1 where "s1 = s\<lparr>error_ret := 0, save_stage := Flushing\<rparr>"
  define s2 where "s2 = s1\<lparr>save_stage := Syncing\<rparr>"
  define s3 where "s3 = s2\<lparr>save_files := fs, save_stage := Closing\<rparr>"
  define s4 where "s4 = s3\<lparr>save_stage := Checking\<rparr>"
  define s5 where "s5 = s4\<lparr>save_stage := Backing_Up\<rparr>"
  define gs where "gs = (if make_backup c \<and> fs (save_name c) \<noteq> None then rename_file (save_name c) (bak_name (save_name c)) fs else fs)"
  define s6 where "s6 = s5\<lparr>save_files := gs, save_stage := Replacing\<rparr>"
  define hs where "hs = rename_file (tmp_name (save_name c)) (save_name c) gs"
  define s7 where "s7 = s6\<lparr>save_files := hs, save_stage := Exporting\<rparr>"
  have 1: "save_step c s s1" unfolding s1_def by (rule printed) (rule assms)
  have 2: "save_step c s1 s2" unfolding s2_def by (rule flush_ok) (simp add: s1_def)
  have 3: "save_step c s2 s3"
    using sync_ok [of s2 c] by (simp add: s3_def s2_def s1_def fs_def)
  have 4: "save_step c s3 s4" unfolding s4_def by (rule close_ok) (simp add: s3_def)
  have 5: "save_step c s4 s5"
    unfolding s5_def by (rule check_good) (simp_all add: s4_def s3_def s2_def s1_def)
  have 6: "save_step c s5 s6"
    using no_backup [of s5 c] backup_ok [of s5 c] by (auto simp: s6_def gs_def s5_def s4_def s3_def)
  have 7: "save_step c s6 s7"
    using replace_ok [of s6 c] by (simp add: s7_def s6_def hs_def)
  have r: "save_steps c s s7"
    by (rule save_more [OF 1 save_more [OF 2 save_more [OF 3 save_more [OF 4 save_more [OF 5 save_more [OF 6 save_more [OF 7]]]]]]])
      (rule rtranclp.rtrancl_refl)
  have h: "hs (save_name c) = Some (Synced t)"
    using assms(2) by (simp add: hs_def gs_def fs_def rename_file_def sync_file_def)
  have p: "print_failed s7 = print_failed s" "save_stage s7 = Exporting" "save_files s7 = hs"
    by (simp_all add: s7_def s6_def s5_def s4_def s3_def s2_def s1_def)
  show ?thesis
  proof (cases "export_name c")
    case None
    from rtranclp.rtrancl_into_rtrancl [OF r no_export [OF p(2) None]] h p show ?thesis
      by (intro exI conjI) (assumption, simp_all)
  next
    case (Some e)
    then have "e \<noteq> save_name c" using assms(3) by (auto simp: export_apart_def)
    with rtranclp.rtrancl_into_rtrancl [OF r export_ok [OF p(2) Some, of "Synced []"]] h p show ?thesis
      by (intro exI conjI) (assumption, simp_all)
  qed
qed

text \<open>
  C28: a line that could not be printed is not noticed: every save that is due can return 0 after it has
  replaced the file by one in which any one of the lines, for example a line of the table, is missing.
\<close>

theorem failed_print_unnoticed:
  assumes "save_begins b" "save_due c b" "save_lines c = xs @ l # ys" "export_apart c"
  shows "\<exists>t. save_steps c b t \<and> save_stage t = Returned 0 \<and> save_files t (save_name c) = Some (Synced (lines_text (xs @ ys)))"
proof -
  let ?n = "tmp_name (save_name c)"
  define s1 where "s1 = b\<lparr>last_write := new_time c, save_files := (save_files b)(?n := Some (Pending [])),
    save_stage := Printing (xs @ l # ys)\<rparr>"
  have 1: "save_step c b s1" using open_tmp [of b c] assms(1-3) by (simp add: s1_def save_begins_def)
  have "save_stage s1 = Printing (xs @ l # ys)" "save_files s1 ?n = Some (Pending [])" by (simp_all add: s1_def)
  from print_run [OF this] obtain fs where
    2: "save_steps c s1 (s1\<lparr>save_files := fs, save_stage := Printing (l # ys)\<rparr>)" "fs ?n = Some (Pending (lines_text xs))" by auto
  define s2 where "s2 = s1\<lparr>save_files := fs, save_stage := Printing (l # ys)\<rparr>"
  define s3 where "s3 = s2\<lparr>print_failed := True, save_stage := Printing ys\<rparr>"
  have 3: "save_step c s2 s3" unfolding s3_def by (rule print_fails) (simp add: s2_def)
  have "save_stage s3 = Printing (ys @ [])" "save_files s3 ?n = Some (Pending (lines_text xs))"
    using 2(2) by (simp_all add: s3_def s2_def)
  from print_run [OF this] obtain gs where
    4: "save_steps c s3 (s3\<lparr>save_files := gs, save_stage := Printing []\<rparr>)" "gs ?n = Some (Pending (lines_text xs @ lines_text ys))"
    by auto
  obtain t where 5: "save_steps c (s3\<lparr>save_files := gs, save_stage := Printing []\<rparr>) t" "save_stage t = Returned 0"
    "save_files t (save_name c) = Some (Synced (lines_text xs @ lines_text ys))"
    using finish_run [of "s3\<lparr>save_files := gs, save_stage := Printing []\<rparr>" c] 4(2) assms(4) by auto
  have "save_steps c b t"
    using 1 2(1) [folded s2_def] 3 4(1) 5(1) by (meson save_more rtranclp_trans)
  then show ?thesis using 5 by (intro exI [of _ t]) (simp add: lines_text_def)
qed

section \<open>Examples\<close>

definition new_save :: "files \<Rightarrow> save_state" where
  "new_save fs = \<lparr>save_files = fs, save_stage = Starting, last_write = 0, error_ret = 0, print_failed = False, changed_flag = True\<rparr>"

lemma new_save_simps [simp]:
  "save_begins (new_save fs)" "save_files (new_save fs) = fs" "save_stage (new_save fs) = Starting" "\<not> print_failed (new_save fs)"
  by (simp_all add: new_save_def save_begins_def)

lemma good_save:
  assumes "save_begins b" "save_due c b" "export_apart c"
  shows "\<exists>t. save_steps c b t \<and> save_stage t = Returned 0 \<and> \<not> print_failed t"
proof -
  let ?n = "tmp_name (save_name c)"
  define s1 where "s1 = b\<lparr>last_write := new_time c, save_files := (save_files b)(?n := Some (Pending [])),
    save_stage := Printing (save_lines c)\<rparr>"
  have 1: "save_step c b s1" using open_tmp [of b c] assms(1,2) by (simp add: s1_def save_begins_def)
  have "save_stage s1 = Printing (save_lines c @ [])" "save_files s1 ?n = Some (Pending [])" by (simp_all add: s1_def)
  from print_run [OF this] obtain fs where
    2: "save_steps c s1 (s1\<lparr>save_files := fs, save_stage := Printing []\<rparr>)" "fs ?n = Some (Pending (lines_text (save_lines c)))" by auto
  obtain t where 3: "save_steps c (s1\<lparr>save_files := fs, save_stage := Printing []\<rparr>) t" "save_stage t = Returned 0"
    "print_failed t = print_failed s1"
    using finish_run [of "s1\<lparr>save_files := fs, save_stage := Printing []\<rparr>" c] 2(2) assms(3) by auto
  have "\<not> print_failed s1" using assms(1) by (simp add: s1_def save_begins_def)
  with save_more [OF 1 rtranclp_trans [OF 2(1) 3(1)]] 3 show ?thesis by auto
qed

definition demo_files :: files where
  "demo_files = [''a.log'' \<mapsto> Synced (log_text [] (demo_env demo_rows 100))]"

definition demo_call :: save_call where
  "demo_call = log_call ''a.log'' [] False None 10 5 (demo_env [mk_row 0 100 FINISHED] 100)"

lemma demo_writable: "writable_log [] (demo_env demo_rows 100)" "writable_log [] (demo_env [mk_row 0 100 FINISHED] 100)"
  by (simp_all add: writable_log_def open_text_def new_scan_def storable_def demo_rows_def FINISHED_def NONTRIED_def demo_env_def)

lemma demo_due: "save_due demo_call (new_save fs)"
  by (simp add: save_due_def demo_call_def new_save_def)



lemma failed_print_unnoticed_witness:
  "\<exists>t. save_steps demo_call (new_save demo_files) t \<and> save_stage t = Returned 0 \<and>
    save_files t ''a.log'' = Some (Synced (lines_text (take 5 (save_lines demo_call))))"
proof -
  have "export_apart demo_call" "save_name demo_call = ''a.log''" by (simp_all add: export_apart_def demo_call_def)
  moreover have "save_lines demo_call = take 5 (save_lines demo_call) @ row_text (mk_row 0 100 FINISHED) # []"
    by (simp add: demo_call_def log_lines_def)
  ultimately show ?thesis
    using failed_print_unnoticed [OF _ demo_due, of "demo_files" "take 5 (save_lines demo_call)" "row_text (mk_row 0 100 FINISHED)" "[]"] by simp
qed

end
