(* ===== verification/Ddrescue.thy ===== *)
theory Ddrescue
  imports Log_Trip
begin

text \<open>
  The exchange of logs with ddrescue: \<open>write_ddrescue_logfile_ccc\<close> and \<open>read_ddrescue_log_ccc\<close>.
  A map file of ddrescue counts in bytes and has one character for the status of a line.
\<close>

section \<open>Export\<close>

definition EXPORT_STATUS_MASK :: status_word where [status_consts]: "EXPORT_STATUS_MASK = 0x70"

definition phase_char :: "status_word \<Rightarrow> char" where
  "phase_char st =
     (let st = st AND STATUS_MASK in
      if st = NONTRIED then CHR ''?'' else if st = FINISHED then CHR ''+''
      else if st = TRIMMING \<or> st = DIVIDING1 \<or> st = DIVIDING2 then CHR ''*''
      else if st = SCRAPING then CHR ''/'' else if st = RETRYING then CHR ''-'' else CHR ''?'')"

definition status_char :: "status_word \<Rightarrow> char" where
  "status_char st =
     (let st = st AND EXPORT_STATUS_MASK in
      if st = NONTRIED AND EXPORT_STATUS_MASK then CHR ''?''
      else if st = FINISHED AND EXPORT_STATUS_MASK then CHR ''+''
      else if st = NONTRIMMED AND EXPORT_STATUS_MASK \<or> st = NONDIVIDED AND EXPORT_STATUS_MASK then CHR ''*''
      else if st = NONSCRAPED AND EXPORT_STATUS_MASK then CHR ''/''
      else if st = BAD AND EXPORT_STATUS_MASK then CHR ''-'' else CHR ''?'')"

definition map_row_text :: "int \<Rightarrow> row \<Rightarrow> string" where
  "map_row_text ss r =
     ''0x'' @ print_hex True 8 (word_of_int (lposition r * ss)) @ ''  '' @
     ''0x'' @ print_hex True 8 (word_of_int (lsize r * ss)) @ ''  '' @ [status_char (lstatus r)]"

definition map_position_text :: "int \<Rightarrow> 'a log_env_scheme \<Rightarrow> string" where
  "map_position_text ss s =
     ''0x'' @ print_hex True 8 (word_of_int (current_position s * ss)) @ ''     '' @ [phase_char (current_status s)]"

text \<open>\<open>notes\<close>: the two lines with the version and the date.\<close>

definition map_lines :: "string \<Rightarrow> string \<Rightarrow> int \<Rightarrow> 'a log_env_scheme \<Rightarrow> string list" where
  "map_lines version date ss s =
     [version, ''# ddrescue export'', date, ''# current_pos  current_status'', map_position_text ss s,
      ''#      pos        size  status''] @ map (map_row_text ss) (lines (log_table s))"

definition map_text :: "string \<Rightarrow> string \<Rightarrow> int \<Rightarrow> 'a log_env_scheme \<Rightarrow> string" where
  "map_text version date ss s = concat (map (\<lambda>l. l @ [newline]) (map_lines version date ss s))"

section \<open>Import\<close>

definition char_status :: "string \<Rightarrow> status_word option" where
  "char_status c =
     (if c = ''?'' then Some NONTRIED else if c = ''+'' then Some FINISHED else if c = ''*'' then Some NONTRIMMED
      else if c = ''/'' then Some NONSCRAPED else if c = ''-'' then Some BAD else None)"

text \<open>
  A line of the map: bytes become sectors.  A position in the middle of a sector moves to the next one
  and costs one sector; the code of the line is 1 for the position, 2 for the size, \<open>-1\<close> for an error
  (an odd number, too).  What a line with an error leaves in the arrays is never read, because the
  table is emptied at the end; it is an empty line here.
\<close>

definition scan_map_row :: "int \<Rightarrow> string list \<Rightarrow> int \<times> row" where
  "scan_map_row ss ws =
     (let (p, e1) = strtoull (ws ! 0); (n, e2) = strtoull (ws ! 1); p = sint p; n = sint n in
      if e1 \<noteq> [] \<or> e2 \<noteq> [] \<or> length (ws ! 2) \<noteq> 1 then (-1, mk_row 0 0 0)
      else
        let err = (if cmod p ss \<noteq> 0 then 1 else 0) + (if cmod n ss \<noteq> 0 then 2 else 0);
            err = (if char_status (ws ! 2) = None then -1 else err);
            st = (case char_status (ws ! 2) of None \<Rightarrow> 0 | Some st \<Rightarrow> st);
            pos = cdiv p ss; sz = cdiv n ss
        in (err, if odd err then mk_row (pos + 1) (if sz > 0 then sz - 1 else sz) st else mk_row pos sz st))"

record map_scan =
  map_current :: bool
  map_error :: int
  map_rows :: "row list"

definition new_map_scan :: map_scan where
  "new_map_scan = \<lparr>map_current = False, map_error = 0, map_rows = []\<rparr>"

text \<open>The number of conversions of \<open>sscanf(line, "%s %s %s %[^\\n]")\<close> is that of the words, at most 4.\<close>

definition read_map_line :: "int \<Rightarrow> string \<Rightarrow> map_scan \<times> 'a log_env_scheme \<Rightarrow> map_scan \<times> 'a log_env_scheme" where
  "read_map_line ss l = (\<lambda>(x, s).
     let ws = scan_words l; n = min 4 (length ws); x = x\<lparr>map_error := 0\<rparr> in
     if n = 0 \<or> take 1 (ws ! 0) = ''#'' then (x, s)
     else if \<not> map_current x \<and> (n = 2 \<or> n = 3) then
       let (p, e) = strtoull (ws ! 0); p = sint p; x = x\<lparr>map_current := True\<rparr> in
       if e \<noteq> [] \<or> length (ws ! 1) \<noteq> 1 then (x\<lparr>map_error := -1\<rparr>, s)
       else
         let s = s\<lparr>current_position := cdiv p ss\<rparr>; x = x\<lparr>map_error := (if cmod p ss \<noteq> 0 then 1 else 0)\<rparr>
         in (case char_status (ws ! 1) of None \<Rightarrow> (x\<lparr>map_error := -1\<rparr>, s) | Some st \<Rightarrow> (x, s\<lparr>current_status := st\<rparr>))
     else if \<not> map_current x \<or> n \<noteq> 3 then (x\<lparr>map_error := -1\<rparr>, s)
     else let (err, r) = scan_map_row ss ws in (x\<lparr>map_error := err, map_rows := map_rows x @ [r]\<rparr>, s))"

definition grow_for_map :: "map_scan \<times> 'a log_env_scheme \<Rightarrow> map_scan \<times> 'a log_env_scheme" where
  "grow_for_map = (\<lambda>(x, s).
     if length (map_rows x) \<ge> line_rows (log_table s) then
       let (ret, T) = increase_log_memory 1000 (log_table s)
       in (if ret < 0 then x\<lparr>map_error := ret\<rparr> else x, s\<lparr>log_table := T\<rparr>)
     else (x, s))"

fun read_map_lines :: "int \<Rightarrow> string list \<Rightarrow> map_scan \<times> 'a log_env_scheme \<Rightarrow> map_scan \<times> 'a log_env_scheme" where
  "read_map_lines ss [] y = y"
| "read_map_lines ss (l # ls) y =
     (let y = grow_for_map (read_map_line ss l y) in if map_error (fst y) < 0 then y else read_map_lines ss ls y)"

text \<open>\<open>None\<close>: no file name, or the file cannot be opened.\<close>

definition read_ddrescue_log :: "int \<Rightarrow> string option \<Rightarrow> 'a log_env_scheme \<Rightarrow> int \<times> 'a log_env_scheme" where
  "read_ddrescue_log ss file s =
     (case file of
        None \<Rightarrow> (1, s)
      | Some text \<Rightarrow>
          (let (x, s) = read_map_lines ss (file_lines (MAX_LINE_LENGTH - 2) text) (new_map_scan, s)
           in (map_error x, s\<lparr>log_table := (log_table s)\<lparr>lines := (if map_error x < 0 then [] else map_rows x)\<rparr>\<rparr>)))"

section \<open>Statuses there and back\<close>

definition exported_status :: "status_word \<Rightarrow> status_word" where
  "exported_status st =
     (let c = st AND EXPORT_STATUS_MASK in
      if c = 0x70 then FINISHED else if c = NONTRIMMED \<or> c = NONDIVIDED then NONTRIMMED
      else if c = NONSCRAPED \<or> c = BAD then c else NONTRIED)"

definition exported_phase :: "status_word \<Rightarrow> status_word" where
  "exported_phase st =
     (let c = st AND STATUS_MASK in
      if c = FINISHED then FINISHED else if c = TRIMMING \<or> c = DIVIDING1 \<or> c = DIVIDING2 then NONTRIMMED
      else if c = SCRAPING then NONSCRAPED else if c = RETRYING then BAD else NONTRIED)"

lemma char_status_export [simp]: "char_status [status_char st] = Some (exported_status st)"
  by (simp add: char_status_def status_char_def exported_status_def Let_def status_consts)

lemma char_status_phase [simp]: "char_status [phase_char st] = Some (exported_phase st)"
  by (simp add: char_status_def phase_char_def exported_phase_def Let_def status_consts)

lemma char_not_space [simp]: "\<not> is_space (status_char st)" "\<not> is_space (phase_char st)"
  by (simp_all add: status_char_def phase_char_def is_space_def Let_def)

section \<open>Lines there and back\<close>

text \<open>Sector numbers that are byte offsets of 63 bits.\<close>

definition in_bytes :: "int \<Rightarrow> int \<Rightarrow> bool" where
  "in_bytes ss x \<longleftrightarrow> 0 \<le> x \<and> x * ss < 2 ^ 63"

lemma bytes_back:
  assumes "0 < ss" "in_bytes ss x"
  shows "sint (word_of_int (x * ss) :: 64 word) = x * ss" "cdiv (x * ss) ss = x" "cmod (x * ss) ss = 0"
proof -
  have "0 \<le> x * ss" using assms by (simp add: in_bytes_def)
  moreover have "x * ss < 2 ^ 63" using assms by (simp add: in_bytes_def)
  ultimately show "sint (word_of_int (x * ss) :: 64 word) = x * ss" by (rule sint_back)
  show "cdiv (x * ss) ss = x" "cmod (x * ss) ss = 0" using assms \<open>0 \<le> x * ss\<close> by simp_all
qed

lemma char_word: "\<not> is_space c \<Longrightarrow> scan_words [c, newline] = [[c]]"
  using scan_words_word [of "[c]" newline "[]"] by simp

lemma map_row_words:
  "scan_words (map_row_text ss r @ [newline]) =
    [''0x'' @ print_hex True 8 (word_of_int (lposition r * ss)), ''0x'' @ print_hex True 8 (word_of_int (lsize r * ss)),
     [status_char (lstatus r)]]"
  by (simp add: map_row_text_def number_word char_word)

lemma map_position_words:
  "scan_words (map_position_text ss s @ [newline]) =
    [''0x'' @ print_hex True 8 (word_of_int (current_position s * ss)), [phase_char (current_status s)]]"
  by (simp add: map_position_text_def number_word char_word)

lemma scan_map_row_text:
  assumes "0 < ss" "in_bytes ss (lposition r)" "in_bytes ss (lsize r)"
  shows "scan_map_row ss (scan_words (map_row_text ss r @ [newline])) = (0, r\<lparr>lstatus := exported_status (lstatus r)\<rparr>)"
  using bytes_back [OF assms(1,2)] bytes_back [OF assms(1,3)]
  by (simp add: scan_map_row_def map_row_words mk_row_def)

end
