(* ===== verification/Ddrescue_Trip.thy ===== *)
theory Ddrescue_Trip
  imports Ddrescue
begin

text \<open>A log that is exported and imported again; and which sectors a line of a map file becomes.\<close>

section \<open>Reading an exported log\<close>

text \<open>The arrays can grow.\<close>

definition roomy :: "'a log_env_scheme \<Rightarrow> bool" where
  "roomy s \<longleftrightarrow> (\<forall>a n. realloc_ok (log_table s) a n)"

lemma grow_for_map_cases:
  assumes "roomy s"
  obtains t where "grow_for_map (x, s) = (x, t)" "grown s t" "roomy t"
proof (cases "length (map_rows x) \<ge> line_rows (log_table s)")
  case True
  define T where "T = snd (increase_log_memory 1000 (log_table s))"
  have inc: "increase_log_memory 1000 (log_table s) = (0, T)" "realloc_ok T = realloc_ok (log_table s)" "lines T = lines (log_table s)"
    using assms by (simp_all add: T_def increase_log_memory_def roomy_def Let_def)
  then have "grow_for_map (x, s) = (x, s\<lparr>log_table := T\<rparr>)" using True by (simp add: grow_for_map_def)
  moreover have "grown s (s\<lparr>log_table := T\<rparr>)" using inc by (auto simp: grown_def)
  moreover have "roomy (s\<lparr>log_table := T\<rparr>)" using assms inc by (simp add: roomy_def)
  ultimately show thesis by (rule that)
next
  case False
  then have "grow_for_map (x, s) = (x, s)" by (simp add: grow_for_map_def)
  with assms show thesis by (intro that) simp_all
qed

lemma read_map_step:
  assumes "read_map_line ss l (x, s) = (y, s1)" "map_error y = 0" "roomy s1"
  obtains t where "\<forall>ls. read_map_lines ss (l # ls) (x, s) = read_map_lines ss ls (y, t)" "grown s1 t" "roomy t"
proof -
  obtain t where t: "grow_for_map (y, s1) = (y, t)" "grown s1 t" "roomy t" by (rule grow_for_map_cases [OF assms(3)])
  then have "\<forall>ls. read_map_lines ss (l # ls) (x, s) = read_map_lines ss ls (y, t)" using assms by simp
  then show thesis using t by (intro that)
qed

lemma read_map_comments:
  assumes "\<forall>l\<in>set ls. comment_line l" "map_error x = 0" "roomy s"
  shows "\<exists>t. (\<forall>ms. read_map_lines ss (map (\<lambda>l. l @ [newline]) ls @ ms) (x, s) = read_map_lines ss ms (x, t)) \<and> grown s t \<and> roomy t"
  using assms
proof (induction ls arbitrary: s)
  case (Cons l ls)
  have "comment_line l" using Cons.prems by simp
  note w = comment_words [OF this]
  have "x\<lparr>map_error := 0\<rparr> = x" using Cons.prems(2) by (cases x) simp
  then have rd: "read_map_line ss (l @ [newline]) (x, s) = (x, s)" using w by (simp add: read_map_line_def Let_def)
  obtain t where t: "\<forall>ls. read_map_lines ss ((l @ [newline]) # ls) (x, s) = read_map_lines ss ls (x, t)" "grown s t" "roomy t"
    by (rule read_map_step [OF rd Cons.prems(2,3)])
  from Cons.IH [OF _ Cons.prems(2) t(3)] Cons.prems(1) obtain u where
    u: "\<forall>ms. read_map_lines ss (map (\<lambda>l. l @ [newline]) ls @ ms) (x, t) = read_map_lines ss ms (x, u)" "grown t u" "roomy u" by auto
  have "\<forall>ms. read_map_lines ss (map (\<lambda>l. l @ [newline]) (l # ls) @ ms) (x, s) = read_map_lines ss ms (x, u)"
    using t(1) u(1) by (simp del: read_map_lines.simps)
  then show ?case using grown_trans [OF t(2) u(2)] u(3) by blast
next
  case Nil
  then show ?case by (intro exI [of _ s]) simp
qed

lemma hex_not_comment: "take 1 (''0x'' @ s) \<noteq> ''#''"
  by simp

lemma read_map_rows:
  assumes "0 < ss" "\<forall>r\<in>set qs. in_bytes ss (lposition r) \<and> in_bytes ss (lsize r)" "map_error x = 0" "map_current x" "roomy s"
  shows "\<exists>y t. read_map_lines ss (map (\<lambda>r. map_row_text ss r @ [newline]) qs) (x, s) = (y, t) \<and> map_error y = 0 \<and>
    map_rows y = map_rows x @ map (\<lambda>r. r\<lparr>lstatus := exported_status (lstatus r)\<rparr>) qs \<and> grown s t"
  using assms(2-)
proof (induction qs arbitrary: x s)
  case (Cons r qs)
  define y where "y = x\<lparr>map_rows := map_rows x @ [r\<lparr>lstatus := exported_status (lstatus r)\<rparr>]\<rparr>"
  have "scan_map_row ss (scan_words (map_row_text ss r @ [newline])) = (0, r\<lparr>lstatus := exported_status (lstatus r)\<rparr>)"
    by (rule scan_map_row_text) (use assms(1) Cons.prems in simp_all)
  moreover have "x\<lparr>map_error := 0\<rparr> = x" using Cons.prems(2) by (cases x) simp
  ultimately have rd: "read_map_line ss (map_row_text ss r @ [newline]) (x, s) = (y, s)"
    using Cons.prems by (simp add: read_map_line_def map_row_words Let_def y_def)
  have "map_error y = 0" "map_current y" using Cons.prems by (simp_all add: y_def)
  obtain t where t: "\<forall>ls. read_map_lines ss ((map_row_text ss r @ [newline]) # ls) (x, s) = read_map_lines ss ls (y, t)" "grown s t" "roomy t"
    by (rule read_map_step [OF rd \<open>map_error y = 0\<close> Cons.prems(4)])
  from Cons.IH [OF _ \<open>map_error y = 0\<close> \<open>map_current y\<close> t(3)] Cons.prems(1) obtain z u where
    "read_map_lines ss (map (\<lambda>r. map_row_text ss r @ [newline]) qs) (y, t) = (z, u)" "map_error z = 0"
    "map_rows z = map_rows y @ map (\<lambda>r. r\<lparr>lstatus := exported_status (lstatus r)\<rparr>) qs" "grown t u" by auto
  then show ?case using t(1) grown_trans [OF t(2)]
    by (intro exI [of _ z] exI [of _ u]) (simp add: y_def del: read_map_lines.simps)
qed auto

lemma map_text_fits:
  "newline \<notin> set (map_row_text ss r)" "length (map_row_text ss r) \<le> MAX_LINE_LENGTH - 2"
  "newline \<notin> set (map_position_text ss s)" "length (map_position_text ss s) \<le> MAX_LINE_LENGTH - 2"
proof -
  have c: "newline \<noteq> status_char st" "newline \<noteq> phase_char st" for st
    by (simp_all add: status_char_def phase_char_def Let_def)
  show "newline \<notin> set (map_row_text ss r)" "newline \<notin> set (map_position_text ss s)"
    using c by (simp_all add: map_row_text_def map_position_text_def)
  have "length (print_hex True 8 x) \<le> 16" for x by (rule length_print_hex) simp
  from this [of "word_of_int (lposition r * ss)"] this [of "word_of_int (lsize r * ss)"] this [of "word_of_int (current_position s * ss)"]
  show "length (map_row_text ss r) \<le> MAX_LINE_LENGTH - 2" "length (map_position_text ss s) \<le> MAX_LINE_LENGTH - 2"
    by (simp_all add: map_row_text_def map_position_text_def MAX_LINE_LENGTH_def)
qed

lemma map_head_comments:
  "comment_line ''# ddrescue export''" "comment_line ''# current_pos  current_status''" "comment_line ''#      pos        size  status''"
  by (simp_all add: comment_line_def MAX_LINE_LENGTH_def)

lemma read_map_position:
  assumes "0 < ss" "in_bytes ss (current_position s0)" "map_error x = 0" "\<not> map_current x"
  shows "read_map_line ss (map_position_text ss s0 @ [newline]) (x, s) =
    (x\<lparr>map_current := True\<rparr>, s\<lparr>current_position := current_position s0, current_status := exported_phase (current_status s0)\<rparr>)"
  using bytes_back [OF assms(1,2)] assms(3,4) by (cases x) (simp add: read_map_line_def map_position_words Let_def)

lemma ddrescue_round_trip_rule:
  assumes "0 < ss" "comment_line version" "comment_line date" "in_bytes ss (current_position s)" "roomy s0"
    and r: "\<forall>r\<in>set (lines (log_table s)). in_bytes ss (lposition r) \<and> in_bytes ss (lsize r)"
  shows "\<exists>T. read_ddrescue_log ss (Some (map_text version date ss s)) s0 =
      (0, s0\<lparr>log_table := T, current_position := current_position s, current_status := exported_phase (current_status s)\<rparr>) \<and>
    lines T = map (\<lambda>r. r\<lparr>lstatus := exported_status (lstatus r)\<rparr>) (lines (log_table s))"
proof -
  define c1 where "c1 = [version, ''# ddrescue export'', date, ''# current_pos  current_status'']"
  define c2 where "c2 = [''#      pos        size  status'']"
  define nl where "nl = map (\<lambda>l. l @ [newline])"
  have c: "\<forall>l\<in>set c1. comment_line l" "\<forall>l\<in>set c2. comment_line l" using assms(2,3) map_head_comments by (simp_all add: c1_def c2_def)
  have "\<forall>l\<in>set (map_lines version date ss s). newline \<notin> set l \<and> length l \<le> MAX_LINE_LENGTH - 2"
    using assms(2,3) map_head_comments by (auto simp: map_lines_def comment_line_def map_text_fits)
  from file_lines_texts [OF this, of "[]"]
  have fl: "file_lines (MAX_LINE_LENGTH - 2) (map_text version date ss s) =
      nl c1 @ (map_position_text ss s @ [newline]) # nl c2 @ map (\<lambda>r. map_row_text ss r @ [newline]) (lines (log_table s))"
    by (simp add: map_text_def map_lines_def c1_def c2_def nl_def)
  let ?x = "new_map_scan" and ?y = "new_map_scan\<lparr>map_current := True\<rparr>"
  have x: "map_error ?x = 0" "\<not> map_current ?x" "map_error ?y = 0" "map_current ?y" "map_rows ?y = []" by (simp_all add: new_map_scan_def)
  from read_map_comments [OF c(1) x(1) assms(5), of ss] obtain s1 where
    1: "\<forall>ms. read_map_lines ss (nl c1 @ ms) (?x, s0) = read_map_lines ss ms (?x, s1)" "grown s0 s1" "roomy s1"
    unfolding nl_def by blast
  let ?s = "s1\<lparr>current_position := current_position s, current_status := exported_phase (current_status s)\<rparr>"
  have "roomy ?s" using 1(3) by (simp add: roomy_def)
  then obtain s2 where
    2: "\<forall>ms. read_map_lines ss ((map_position_text ss s @ [newline]) # ms) (?x, s1) = read_map_lines ss ms (?y, s2)" "grown ?s s2" "roomy s2"
    by (rule read_map_step [OF read_map_position [OF assms(1,4) x(1,2)] x(3)])
  from read_map_comments [OF c(2) x(3) 2(3), of ss] obtain s3 where
    3: "\<forall>ms. read_map_lines ss (nl c2 @ ms) (?y, s2) = read_map_lines ss ms (?y, s3)" "grown s2 s3" "roomy s3"
    unfolding nl_def by blast
  from read_map_rows [OF assms(1) r x(3,4) 3(3)] obtain z t where
    4: "read_map_lines ss (map (\<lambda>r. map_row_text ss r @ [newline]) (lines (log_table s))) (?y, s3) = (z, t)" "map_error z = 0"
      "map_rows z = map (\<lambda>r. r\<lparr>lstatus := exported_status (lstatus r)\<rparr>) (lines (log_table s))" "grown s3 t"
    using x(5) by auto
  have "read_map_lines ss (file_lines (MAX_LINE_LENGTH - 2) (map_text version date ss s)) (?x, s0) = (z, t)"
    unfolding fl using 1(1) 2(1) 3(1) 4(1) by (simp del: read_map_lines.simps)
  moreover have "\<exists>T. t = s0\<lparr>current_position := current_position s, current_status := exported_phase (current_status s), log_table := T\<rparr>"
    using 1(2) 2(2) 3(2) 4(4) by (auto simp: grown_def)
  ultimately show ?thesis using 4(2,3)
    by (intro exI [of _ "(log_table t)\<lparr>lines := map_rows z\<rparr>"]) (auto simp: read_ddrescue_log_def)
qed

text \<open>
  C24: a log that is exported as a map of ddrescue and imported again has the same lines at the same
  positions; of a status only the stage is left that a map can say: nothing read, untrimmed (divided
  or not), unscraped, bad, or finished, without the information about skips, heads and errors.
\<close>

theorem ddrescue_round_trip:
  assumes "0 < ss" "comment_line version" "comment_line date" "in_bytes ss (current_position s)" "roomy s0"
    and "\<forall>r\<in>set (lines (log_table s)). in_bytes ss (lposition r) \<and> in_bytes ss (lsize r)"
  shows "\<exists>T. read_ddrescue_log ss (Some (map_text version date ss s)) s0 =
      (0, s0\<lparr>log_table := T, current_position := current_position s, current_status := exported_phase (current_status s)\<rparr>) \<and>
    lines T = map (\<lambda>r. r\<lparr>lstatus := exported_status (lstatus r)\<rparr>) (lines (log_table s))"
  using assms by (rule ddrescue_round_trip_rule)

lemma ddrescue_round_trip_witness:
  "\<exists>T. read_ddrescue_log 512 (Some (map_text ''# v'' ''# d'' 512 (demo_env demo_rows 100))) (demo_env [] 100) =
      (0, (demo_env [] 100)\<lparr>log_table := T, current_position := 0, current_status := NONTRIED\<rparr>) \<and>
    lines T = demo_rows"
proof -
  have "current_position (demo_env demo_rows 100) = 0" "exported_phase (current_status (demo_env demo_rows 100)) = NONTRIED"
    by (simp_all add: demo_env_def exported_phase_def status_consts Let_def)
  moreover have "map (\<lambda>r. r\<lparr>lstatus := exported_status (lstatus r)\<rparr>) demo_rows = demo_rows"
    by (simp add: demo_rows_def exported_status_def status_consts Let_def mk_row_def)
  moreover have "comment_line ''# v''" "comment_line ''# d''" by (simp_all add: comment_line_def MAX_LINE_LENGTH_def)
  moreover have "roomy (demo_env [] 100)" by (simp add: roomy_def demo_table_def)
  moreover have "\<forall>r\<in>set demo_rows. in_bytes 512 (lposition r) \<and> in_bytes 512 (lsize r)" "in_bytes 512 0"
    by (simp_all add: demo_rows_def in_bytes_def)
  ultimately show ?thesis
    using ddrescue_round_trip [of 512 "''# v''" "''# d''" "demo_env demo_rows 100" "demo_env [] 100"] by simp
qed

section \<open>Bytes and sectors\<close>

lemma le_div: "0 < ss \<Longrightarrow> y * ss \<le> (n :: int) \<longleftrightarrow> y \<le> n div ss"
proof
  assume "0 < ss" "y * ss \<le> n"
  then have "y * ss div ss \<le> n div ss" by (intro zdiv_mono1)
  then show "y \<le> n div ss" using \<open>0 < ss\<close> by simp
next
  assume s: "0 < ss" and "y \<le> n div ss"
  then have "y * ss \<le> n div ss * ss" by simp
  also have "\<dots> \<le> n" using s by (simp add: minus_mod_eq_div_mult [symmetric])
  finally show "y * ss \<le> n" .
qed

lemma ge_div: "0 < ss \<Longrightarrow> n \<le> y * ss \<longleftrightarrow> (if n mod ss = 0 then n div ss \<le> y else n div ss + 1 \<le> (y :: int))"
proof -
  assume s: "0 < ss"
  have "n \<le> y * ss \<longleftrightarrow> \<not> y * ss \<le> n - 1" by linarith
  also have "\<dots> \<longleftrightarrow> (n - 1) div ss < y" using le_div [OF s, of y "n - 1"] by linarith
  also have "(n - 1) div ss = (if n mod ss = 0 then n div ss - 1 else n div ss)"
  proof -
    have "n - 1 = ss * (n div ss) + (n mod ss - 1)" by (simp add: algebra_simps)
    then have "(n - 1) div ss = n div ss + (n mod ss - 1) div ss" using s by (metis div_mult_self4 less_irrefl)
    moreover have "(n mod ss - 1) div ss = (if n mod ss = 0 then - 1 else 0)"
      using s pos_mod_bound [OF s, of n] pos_mod_sign [OF s, of n]
      by (auto simp: div_pos_pos_trivial div_eq_minus1)
    ultimately show ?thesis by simp
  qed
  finally show ?thesis by auto
qed

text \<open>The whole sectors of a range of bytes.\<close>

definition whole_sector :: "int \<Rightarrow> int \<Rightarrow> int \<Rightarrow> int \<Rightarrow> bool" where
  "whole_sector ss p n x \<longleftrightarrow> p \<le> x * ss \<and> (x + 1) * ss \<le> p + n"

lemma whole_sectors:
  assumes "0 < ss"
  shows "whole_sector ss p n x \<longleftrightarrow> (if p mod ss = 0 then p div ss \<le> x else p div ss + 1 \<le> x) \<and> x < (p + n) div ss"
  using le_div [OF assms, of "x + 1" "p + n"] ge_div [OF assms, of p x] by (auto simp: whole_sector_def)

lemma scan_map_row_good:
  assumes "0 < ss" "scan_map_row ss ws = (err, r)" "0 \<le> err"
    and "p = sint (fst (strtoull (ws ! 0)))" "n = sint (fst (strtoull (ws ! 1)))" "0 \<le> p" "0 \<le> n"
  shows "lposition r = (if p mod ss = 0 then p div ss else p div ss + 1)"
    "lsize r = (if p mod ss \<noteq> 0 \<and> 0 < n div ss then n div ss - 1 else n div ss)"
  using assms by (auto simp: scan_map_row_def Let_def split: prod.splits if_splits)

lemma sum_div: "0 < ss \<Longrightarrow> (p + n) div ss = p div ss + n div ss + (if p mod ss + n mod ss < ss then 0 else 1)" for ss :: int
proof -
  assume s: "0 < ss"
  have "p + n = (p mod ss + n mod ss) + ss * (p div ss + n div ss)" by (simp add: algebra_simps)
  then have "(p + n) div ss = p div ss + n div ss + (p mod ss + n mod ss) div ss" using s by (metis div_mult_self2 less_irrefl)
  moreover have "(p mod ss + n mod ss) div ss = (if p mod ss + n mod ss < ss then 0 else 1)"
  proof (cases "p mod ss + n mod ss < ss")
    case True
    then have "(p mod ss + n mod ss) div ss = 0"
      by (intro div_pos_pos_trivial) (use s in simp_all)
    then show ?thesis using True by simp
  next
    case False
    then have "(p mod ss + n mod ss) div ss = (p mod ss + n mod ss - ss) div ss + 1"
      by (intro div_pos_geq) (use s in simp_all)
    moreover have "(p mod ss + n mod ss - ss) div ss = 0"
      by (rule div_pos_pos_trivial) (use False pos_mod_bound [OF s, of p] pos_mod_bound [OF s, of n] in linarith)+
    ultimately show ?thesis using False by simp
  qed
  ultimately show ?thesis by simp
qed

text \<open>
  a line of a map file is never imported for more than the sectors that lie in it as a whole,
  and for all of these if it begins at the start of a sector; if it does not, the last one can be lost.
\<close>

theorem map_row_whole_sectors:
  assumes "0 < ss" "scan_map_row ss ws = (err, r)" "0 \<le> err"
    and "p = sint (fst (strtoull (ws ! 0)))" "n = sint (fst (strtoull (ws ! 1)))" "0 \<le> p" "0 \<le> n"
  shows "(covers r x \<longrightarrow> whole_sector ss p n x) \<and>
    (whole_sector ss p n x \<longrightarrow> covers r x \<or> p mod ss \<noteq> 0 \<and> x = (p + n) div ss - 1)"
proof -
  note r = scan_map_row_good [OF assms]
  have "n mod ss < ss" "0 \<le> n div ss" using assms(1,7) by (simp_all add: pos_imp_zdiv_nonneg_iff)
  then show ?thesis
    unfolding whole_sectors [OF assms(1)] covers_def r sum_div [OF assms(1)] by auto
qed

lemma map_row_whole_sectors_witness:
  "let r = snd (scan_map_row 512 [''0x'' @ print_hex True 8 256, ''0x'' @ print_hex True 8 1792, ''+''])
   in r = mk_row 1 2 FINISHED \<and> (covers r 1 \<longrightarrow> whole_sector 512 256 1792 1) \<and> whole_sector 512 256 1792 3 \<and> \<not> covers r 3"
proof -
  let ?ws = "[''0x'' @ print_hex True 8 256, ''0x'' @ print_hex True 8 1792, ''+'']"
  have e: "scan_map_row 512 ?ws = (3, mk_row 1 2 FINISHED)" by (simp add: scan_map_row_def char_status_def)
  have n: "256 = sint (fst (strtoull (?ws ! 0)))" "1792 = sint (fst (strtoull (?ws ! 1)))" by simp_all
  have "\<not> covers (mk_row 1 2 FINISHED) 3" by (simp add: covers_def)
  moreover have "whole_sector 512 256 1792 3" by (simp add: whole_sector_def)
  ultimately show ?thesis
    unfolding e snd_conv Let_def using map_row_whole_sectors [OF _ e _ n, of 1] by simp
qed

end
