(* ===== verification/Domain_File.thy ===== *)
theory Domain_File
  imports Ddrescue_Trip Log_Write Domain
begin

text \<open>
  The domain as a file: \<open>read_domain_file_ccc\<close>, which takes a domain written by the program, a
  progress log or a map of ddrescue, the lines that \<open>write_domainfile_ccc\<close> writes, and
  \<open>read_domain_add_file_ccc\<close>, which adds ranges of bytes to the domain.
\<close>

section \<open>Reading a domain\<close>

text \<open>\<open>domain_dd_ccc\<close> is the last format seen.\<close>

record domain_scan = map_scan +
  domain_dd :: bool

text \<open>
  The two flags of the formats are declared inside the loop, so each line begins with both of them
  unset.
\<close>

definition scan_own_row :: "bool \<Rightarrow> string list \<Rightarrow> domain_scan \<Rightarrow> domain_scan" where
  "scan_own_row found_ddrescue ws x =
     (let (r, bad) = parse_row ws
      in x\<lparr>domain_dd := False, map_rows := map_rows x @ [r],
        map_error := (if found_ddrescue \<or> bad then -1 else map_error x)\<rparr>)"

definition scan_dd_row :: "bool \<Rightarrow> int \<Rightarrow> string list \<Rightarrow> domain_scan \<Rightarrow> domain_scan" where
  "scan_dd_row found_hddsuperclone ss ws x =
     (let (err, r) = scan_map_row ss ws
      in x\<lparr>domain_dd := True, map_rows := map_rows x @ [r], map_error := (if found_hddsuperclone then -1 else err)\<rparr>)"

definition read_domain_line :: "int \<Rightarrow> string \<Rightarrow> domain_scan \<Rightarrow> domain_scan" where
  "read_domain_line ss l x =
     (let found_ddrescue = False; found_hddsuperclone = False;
          ws = scan_words l; n = min 6 (length ws); x = x\<lparr>map_error := 0\<rparr> in
      if n = 0 \<or> take 1 (ws ! 0) = ''#'' then x
      else
        let y = (if \<not> map_current x \<and> (n = 2 \<or> n = 3) then x
                 else if n = 5 then scan_own_row found_ddrescue ws x
                 else if n = 3 then scan_dd_row found_hddsuperclone ss ws x
                 else x\<lparr>map_error := -1\<rparr>)
        in y\<lparr>map_current := True\<rparr>)"

text \<open>The result of growing the arrays is ignored.\<close>

definition grow_for_domain :: "domain_scan \<times> 'a maps_scheme \<Rightarrow> domain_scan \<times> 'a maps_scheme" where
  "grow_for_domain = (\<lambda>(x, s).
     (x, if length (map_rows x) \<ge> line_rows (domain_table s)
         then s\<lparr>domain_table := snd (increase_domain_memory 1000 (domain_table s))\<rparr> else s))"

fun read_domain_lines :: "int \<Rightarrow> string list \<Rightarrow> domain_scan \<times> 'a maps_scheme \<Rightarrow> domain_scan \<times> 'a maps_scheme" where
  "read_domain_lines ss [] y = y"
| "read_domain_lines ss (l # ls) y =
     (let y = grow_for_domain (read_domain_line ss l (fst y), snd y)
      in if map_error (fst y) < 0 then y else read_domain_lines ss ls y)"

definition new_domain_scan :: "bool \<Rightarrow> domain_scan" where
  "new_domain_scan dd = \<lparr>map_current = False, map_error = 0, map_rows = [], domain_dd = dd\<rparr>"

text \<open>\<open>None\<close>: no file name, or the file cannot be opened.  The result has \<open>domain_dd_ccc\<close>, too.\<close>

definition read_domain_file :: "int \<Rightarrow> string option \<Rightarrow> bool \<times> 'a maps_scheme \<Rightarrow> int \<times> bool \<times> 'a maps_scheme" where
  "read_domain_file ss file = (\<lambda>(dd, s).
     (case file of
        None \<Rightarrow> (1, dd, s)
      | Some text \<Rightarrow>
          (let (x, s) = read_domain_lines ss (file_lines (MAX_LINE_LENGTH - 2) text) (new_domain_scan dd, s)
           in (map_error x, domain_dd x,
               s\<lparr>domain_table := (domain_table s)\<lparr>lines := (if map_error x < 0 then [] else map_rows x)\<rparr>\<rparr>))))"

section \<open>Adding ranges of bytes\<close>

text \<open>
  A line has a position and a size in bytes, both rounded up to sectors.  \<open>upd\<close> is what
  \<open>update_domainfile_ccc\<close> returns when the range is added.
\<close>

definition sectors_up :: "int \<Rightarrow> int \<Rightarrow> int" where
  "sectors_up ss n = (if cmod n ss \<noteq> 0 then cdiv n ss + 1 else cdiv n ss)"

definition add_domain_line :: "int \<Rightarrow> int \<Rightarrow> string \<Rightarrow> 'a log_env_scheme \<Rightarrow> int \<times> 'a log_env_scheme" where
  "add_domain_line ss upd l s =
     (let ws = scan_words l; n = min 3 (length ws) in
      if n = 0 then (0, s)
      else if n \<noteq> 2 then (-1, s)
      else
        let (p, e1) = strtoull (ws ! 0); (z, e2) = strtoull (ws ! 1); p = sint p; z = sint z in
        if e1 \<noteq> [] \<or> e2 \<noteq> [] then (-1, s)
        else
          let pos = sectors_up ss p; sz = sectors_up ss z in
          if pos + sz > source_total_size s then (-1, s)
          else if pos > 0 \<and> sz > 0 then
            let (ret, s) = add_to_domain upd pos sz s in (if ret \<noteq> 0 then -1 else 0, s)
          else (0, s))"

text \<open>An error does not end the loop; \<open>upd\<close> is per line.\<close>

fun add_domain_lines :: "int \<Rightarrow> (nat \<Rightarrow> int) \<Rightarrow> nat \<Rightarrow> string list \<Rightarrow> int \<times> 'a log_env_scheme \<Rightarrow> int \<times> 'a log_env_scheme" where
  "add_domain_lines ss upd k [] y = y"
| "add_domain_lines ss upd k (l # ls) y = add_domain_lines ss upd (k + 1) ls (add_domain_line ss (upd k) l (snd y))"

definition read_domain_add_file :: "int \<Rightarrow> (nat \<Rightarrow> int) \<Rightarrow> string option \<Rightarrow> 'a log_env_scheme \<Rightarrow> int \<times> 'a log_env_scheme" where
  "read_domain_add_file ss upd file s =
     (case file of
        None \<Rightarrow> (1, s)
      | Some text \<Rightarrow> add_domain_lines ss upd 0 (file_lines (MAX_LINE_LENGTH - 2) text) (0, s))"

section \<open>Reading a domain of either format\<close>

text \<open>The lines of a file: each in the program's own format or in that of ddrescue.\<close>

datatype domain_item = Own row | Mapped row

fun item_text :: "int \<Rightarrow> domain_item \<Rightarrow> string" where
  "item_text ss (Own r) = row_text r"
| "item_text ss (Mapped r) = map_row_text ss r"

fun item_ok :: "int \<Rightarrow> domain_item \<Rightarrow> bool" where
  "item_ok ss (Own r) \<longleftrightarrow> storable r"
| "item_ok ss (Mapped r) \<longleftrightarrow> in_bytes ss (lposition r) \<and> in_bytes ss (lsize r)"

fun item_row :: "domain_item \<Rightarrow> row" where
  "item_row (Own r) = r"
| "item_row (Mapped r) = r\<lparr>lstatus := exported_status (lstatus r)\<rparr>"

definition same_but_domain :: "'a maps_scheme \<Rightarrow> 'a maps_scheme \<Rightarrow> bool" where
  "same_but_domain s t \<longleftrightarrow> (\<exists>T. t = s\<lparr>domain_table := T\<rparr>)"

lemma same_but_domain_trans: "same_but_domain s t \<Longrightarrow> same_but_domain t u \<Longrightarrow> same_but_domain s u"
  by (auto simp: same_but_domain_def)

lemma grow_for_domain_cases:
  obtains t where "grow_for_domain (x, s) = (x, t)" "same_but_domain s t"
proof -
  have "same_but_domain s (snd (grow_for_domain (x, s)))"
    by (auto simp: grow_for_domain_def same_but_domain_def intro: exI [of _ "domain_table s"])
  then show thesis by (intro that [of "snd (grow_for_domain (x, s))"]) (simp_all add: grow_for_domain_def)
qed

lemma read_domain_comments:
  assumes "\<forall>l\<in>set ls. comment_line l" "map_error x = 0"
  shows "\<exists>t. (\<forall>ms. read_domain_lines ss (map (\<lambda>l. l @ [newline]) ls @ ms) (x, s) = read_domain_lines ss ms (x, t)) \<and> same_but_domain s t"
  using assms
proof (induction ls arbitrary: s)
  case (Cons l ls)
  have "comment_line l" using Cons.prems by simp
  note w = comment_words [OF this]
  have "x\<lparr>map_error := 0\<rparr> = x" using Cons.prems(2) by (cases x) simp
  then have rd: "read_domain_line ss (l @ [newline]) x = x" using w by (simp add: read_domain_line_def Let_def)
  obtain t where t: "grow_for_domain (x, s) = (x, t)" "same_but_domain s t" by (rule grow_for_domain_cases)
  from Cons.IH [of t] Cons.prems obtain u where
    "\<forall>ms. read_domain_lines ss (map (\<lambda>l. l @ [newline]) ls @ ms) (x, t) = read_domain_lines ss ms (x, u)" "same_but_domain t u" by auto
  then show ?case using same_but_domain_trans [OF t(2)] Cons.prems(2) by (intro exI [of _ u]) (simp add: rd t(1))
next
  case Nil
  then show ?case by (intro exI [of _ s]) (simp add: same_but_domain_def, rule exI [of _ "domain_table s"], simp)
qed

lemma read_domain_item:
  assumes "0 < ss" "item_ok ss i" "map_error x = 0" "map_current x \<or> (\<exists>r. i = Own r)"
  shows "\<exists>dd. read_domain_line ss (item_text ss i @ [newline]) x =
    x\<lparr>map_current := True, map_rows := map_rows x @ [item_row i], domain_dd := dd\<rparr>"
proof (cases i)
  case (Own r)
  then have "parse_row (scan_words (row_text r @ [newline])) = (r, False)" using assms(2) by (intro parse_row_text) simp
  then show ?thesis using Own assms(3)
    by (intro exI [of _ False], cases x) (simp add: read_domain_line_def scan_own_row_def row_words Let_def)
next
  case (Mapped r)
  then have "scan_map_row ss (scan_words (map_row_text ss r @ [newline])) = (0, r\<lparr>lstatus := exported_status (lstatus r)\<rparr>)"
    using assms(1,2) by (intro scan_map_row_text) simp_all
  then show ?thesis using Mapped assms(3,4)
    by (intro exI [of _ True], cases x) (auto simp: read_domain_line_def scan_dd_row_def map_row_words Let_def)
qed

lemma read_domain_items:
  assumes "0 < ss" "\<forall>i\<in>set is. item_ok ss i" "map_error x = 0" "map_current x \<or> (case is of Mapped r # js \<Rightarrow> False | _ \<Rightarrow> True)"
  shows "\<exists>y t. read_domain_lines ss (map (\<lambda>i. item_text ss i @ [newline]) is) (x, s) = (y, t) \<and> map_error y = 0 \<and>
    map_rows y = map_rows x @ map item_row is \<and> same_but_domain s t"
  using assms(2-)
proof (induction "is" arbitrary: x s)
  case (Cons i js)
  have "map_current x \<or> (\<exists>r. i = Own r)" using Cons.prems(3) by (cases i) auto
  then obtain dd where rd: "read_domain_line ss (item_text ss i @ [newline]) x =
      x\<lparr>map_current := True, map_rows := map_rows x @ [item_row i], domain_dd := dd\<rparr>"
    using read_domain_item [OF assms(1) _ Cons.prems(2)] Cons.prems(1) by auto
  define y where "y = x\<lparr>map_current := True, map_rows := map_rows x @ [item_row i], domain_dd := dd\<rparr>"
  have y: "map_error y = 0" "map_current y" "map_rows y = map_rows x @ [item_row i]" using Cons.prems(2) by (simp_all add: y_def)
  obtain t where t: "grow_for_domain (y, s) = (y, t)" "same_but_domain s t" by (rule grow_for_domain_cases)
  obtain z u where "read_domain_lines ss (map (\<lambda>i. item_text ss i @ [newline]) js) (y, t) = (z, u)" "map_error z = 0"
    "map_rows z = map_rows y @ map item_row js" "same_but_domain t u"
    using Cons.IH [of y t] Cons.prems(1) y by auto
  then show ?case using same_but_domain_trans [OF t(2)] y(1,3)
    by (intro exI [of _ z] exI [of _ u]) (simp add: rd [folded y_def] t(1))
next
  case Nil
  then show ?case by (intro exI [of _ x] exI [of _ s]) (simp add: same_but_domain_def, rule exI [of _ "domain_table s"], simp)
qed

end
