(* ===== verification/Domain_Trip.thy ===== *)
theory Domain_Trip
  imports Domain_File
begin

text \<open>What the readers of the domain do with a file: the written domain, mixed formats, ranges that are passed over.\<close>

section \<open>Domain files\<close>

definition domain_text :: "int \<Rightarrow> string list \<Rightarrow> domain_item list \<Rightarrow> string" where
  "domain_text ss notes items = concat (map (\<lambda>l. l @ [newline]) (notes @ map (item_text ss) items))"

lemma item_text_fits: "newline \<notin> set (item_text ss i) \<and> length (item_text ss i) \<le> MAX_LINE_LENGTH - 2"
  by (cases i) (simp_all add: row_text_fits map_text_fits)

lemma read_domain_text:
  assumes "0 < ss" "\<forall>l\<in>set notes. comment_line l" "\<forall>i\<in>set items. item_ok ss i"
    and "case items of Mapped r # js \<Rightarrow> False | _ \<Rightarrow> True"
  shows "\<exists>dd' T. read_domain_file ss (Some (domain_text ss notes items)) (dd, s) = (0, dd', s\<lparr>domain_table := T\<rparr>) \<and>
    lines T = map item_row items"
proof -
  let ?x = "new_domain_scan dd"
  have "\<forall>l\<in>set (notes @ map (item_text ss) items). newline \<notin> set l \<and> length l \<le> MAX_LINE_LENGTH - 2"
    using assms(2) item_text_fits by (auto simp: comment_line_def)
  from file_lines_texts [OF this, of "[]"]
  have fl: "file_lines (MAX_LINE_LENGTH - 2) (domain_text ss notes items) =
      map (\<lambda>l. l @ [newline]) notes @ map (\<lambda>i. item_text ss i @ [newline]) items"
    by (simp add: domain_text_def comp_def)
  have x: "map_error ?x = 0" "map_rows ?x = []" by (simp_all add: new_domain_scan_def)
  from read_domain_comments [OF assms(2) x(1), of ss s] obtain s1 where
    1: "\<forall>ms. read_domain_lines ss (map (\<lambda>l. l @ [newline]) notes @ ms) (?x, s) = read_domain_lines ss ms (?x, s1)" "same_but_domain s s1"
    by blast
  from read_domain_items [OF assms(1,3) x(1) disjI2 [OF assms(4)], of s1] obtain y t where
    2: "read_domain_lines ss (map (\<lambda>i. item_text ss i @ [newline]) items) (?x, s1) = (y, t)" "map_error y = 0"
      "map_rows y = map item_row items" "same_but_domain s1 t"
    using x(2) by auto
  have "read_domain_lines ss (file_lines (MAX_LINE_LENGTH - 2) (domain_text ss notes items)) (?x, s) = (y, t)"
    unfolding fl using 1(1) 2(1) by simp
  moreover obtain T where "t = s\<lparr>domain_table := T\<rparr>" using 1(2) 2(4) by (auto simp: same_but_domain_def)
  ultimately show ?thesis using 2(2,3)
    by (intro exI [of _ "domain_dd y"] exI [of _ "T\<lparr>lines := map item_row items\<rparr>"]) (simp add: read_domain_file_def)
qed

text \<open>
  C26: the domain that \<open>write_domainfile_ccc\<close> writes, \<open>read_domain_file_ccc\<close> reads back line by line, and it changes
  nothing else.
\<close>

theorem domain_file_round_trip:
  assumes "0 < ss" "\<forall>l\<in>set notes. comment_line l" "\<forall>r\<in>set (lines (domain_table s)). storable r"
  shows "\<exists>dd' T. read_domain_file ss (Some (lines_text (domain_lines notes s))) (dd, s0) = (0, dd', s0\<lparr>domain_table := T\<rparr>) \<and>
    lines T = lines (domain_table s)"
proof -
  have "lines_text (domain_lines notes s) = domain_text ss notes (map Own (lines (domain_table s)))"
    by (simp add: lines_text_def domain_lines_def domain_text_def comp_def)
  moreover have "\<forall>i\<in>set (map Own (lines (domain_table s))). item_ok ss i" using assms(3) by simp
  moreover have "case map Own (lines (domain_table s)) of Mapped r # js \<Rightarrow> False | _ \<Rightarrow> True"
    by (cases "lines (domain_table s)") simp_all
  ultimately show ?thesis using read_domain_text [OF assms(1,2), of "map Own (lines (domain_table s))" dd s0] by (simp add: comp_def)
qed

lemma domain_file_round_trip_witness:
  "\<exists>dd' T. read_domain_file 512 (Some (lines_text (domain_lines [''# v''] (demo_maps [] demo_rows)))) (True, demo_maps [] []) =
      (0, dd', (demo_maps [] [])\<lparr>domain_table := T\<rparr>) \<and> lines T = demo_rows"
proof -
  have "\<forall>r\<in>set demo_rows. storable r" "comment_line ''# v''"
    by (simp_all add: demo_rows_def storable_def FINISHED_def NONTRIED_def comment_line_def MAX_LINE_LENGTH_def)
  then show ?thesis using domain_file_round_trip [of 512 "[''# v'']" "demo_maps [] demo_rows" True "demo_maps [] []"] by simp
qed

text \<open>
  a domain file in which lines of the program and lines of ddrescue are mixed, positions in sectors and positions in
  bytes, is read without an error: the flags for \<open>domain format error\<close> are declared inside the loop and never set when they
  are tested.
\<close>

theorem mixed_formats_accepted:
  assumes "0 < ss" "\<forall>l\<in>set notes. comment_line l" "storable r" "\<forall>i\<in>set items. item_ok ss i"
  shows "\<exists>dd' T. read_domain_file ss (Some (domain_text ss notes (Own r # items))) (dd, s) = (0, dd', s\<lparr>domain_table := T\<rparr>) \<and>
    lines T = r # map item_row items"
  using read_domain_text [OF assms(1,2), of "Own r # items" dd s] assms(3,4) by simp

lemma mixed_formats_accepted_witness:
  "\<exists>dd' T. read_domain_file 512 (Some (domain_text 512 [] [Own (mk_row 0 40 FINISHED), Mapped (mk_row 40 60 FINISHED)])) (True, demo_maps [] []) =
      (0, dd', (demo_maps [] [])\<lparr>domain_table := T\<rparr>) \<and> total_lines T = 2"
proof -
  obtain dd' T where t: "read_domain_file 512 (Some (domain_text 512 [] [Own (mk_row 0 40 FINISHED), Mapped (mk_row 40 60 FINISHED)]))
      (True, demo_maps [] []) = (0, dd', (demo_maps [] [])\<lparr>domain_table := T\<rparr>)"
    "lines T = mk_row 0 40 FINISHED # map item_row [Mapped (mk_row 40 60 FINISHED)]"
    using mixed_formats_accepted [of 512 "[]" "mk_row 0 40 FINISHED" "[Mapped (mk_row 40 60 FINISHED)]" True "demo_maps [] []"]
    by (auto simp: storable_def FINISHED_def in_bytes_def)
  from t(2) have "total_lines T = 2" by simp
  with t(1) show ?thesis by blast
qed

section \<open>Ranges\<close>

definition range_text :: "int \<Rightarrow> int \<Rightarrow> string" where
  "range_text p z = ''0x'' @ print_hex False 0 (word_of_int p) @ '' 0x'' @ print_hex False 0 (word_of_int z) @ [newline]"

lemma range_words:
  "scan_words (range_text p z) = [''0x'' @ print_hex False 0 (word_of_int p), ''0x'' @ print_hex False 0 (word_of_int z)]"
  by (simp add: range_text_def number_word)

definition to_sectors :: "int \<Rightarrow> int \<Rightarrow> int" where
  "to_sectors ss n = (n + ss - 1) div ss"

lemma to_sectors:
  assumes "0 < ss" "0 \<le> n"
  shows "sectors_up ss n = to_sectors ss n"
proof -
  have "n + ss - 1 = (n mod ss + (ss - 1)) + ss * (n div ss)" by (simp add: algebra_simps)
  then have "to_sectors ss n = n div ss + (n mod ss + (ss - 1)) div ss"
    using assms(1) div_mult_self2 [of ss "n mod ss + (ss - 1)" "n div ss"] by (simp only: to_sectors_def)
  moreover have "(n mod ss + (ss - 1)) div ss = (if n mod ss = 0 then 0 else 1)"
  proof (cases "n mod ss = 0")
    case False
    then have "1 \<le> n mod ss" using pos_mod_sign [OF assms(1), of n] by linarith
    then have "(n mod ss + (ss - 1)) div ss = (n mod ss - 1) div ss + 1"
      using assms(1) by (subst div_pos_geq) (simp_all add: algebra_simps)
    also have "(n mod ss - 1) div ss = 0"
      by (rule div_pos_pos_trivial) (use \<open>1 \<le> n mod ss\<close> pos_mod_bound [OF assms(1), of n] in linarith)+
    finally show ?thesis using False by simp
  qed (use assms(1) in \<open>simp add: div_pos_pos_trivial\<close>)
  ultimately show ?thesis using assms by (simp add: sectors_up_def)
qed

lemma to_sectors_pos: "0 < ss \<Longrightarrow> 0 \<le> n \<Longrightarrow> 0 < to_sectors ss n \<longleftrightarrow> n \<noteq> 0"
  using pos_imp_zdiv_pos_iff [of ss "n + ss - 1"] by (auto simp: to_sectors_def)

text \<open>
  C31: a range of bytes in a file that is added to the domain: position and size are rounded up to sectors;
  a range beyond the end of the source is an error; a range that begins at the first byte of the source is
  passed over without an error; every other range goes to \<open>add_to_domain_ccc\<close>.
\<close>

theorem add_domain_line_range:
  assumes "0 < ss" "0 \<le> p" "p < 2 ^ 63" "0 \<le> z" "z < 2 ^ 63"
  shows "add_domain_line ss upd (range_text p z) s =
    (if to_sectors ss p + to_sectors ss z > source_total_size s then (-1, s)
     else if p = 0 \<or> z = 0 then (0, s)
     else case add_to_domain upd (to_sectors ss p) (to_sectors ss z) s of (ret, t) \<Rightarrow> (if ret \<noteq> 0 then -1 else 0, t))"
proof -
  have "sint (word_of_int p :: 64 word) = p" "sint (word_of_int z :: 64 word) = z" using assms by (simp_all add: sint_back)
  then show ?thesis
    unfolding add_domain_line_def range_words Let_def
    by (simp add: assms to_sectors to_sectors_pos)
qed

lemma add_domain_line_range_witness:
  "add_domain_line 512 0 (range_text 0 20480) (demo_env demo_rows 100) = (0, demo_env demo_rows 100)"
  using add_domain_line_range [of 512 0 20480 0 "demo_env demo_rows 100"] by (simp add: to_sectors_def)

section \<open>Errors\<close>

lemma add_domain_lines_append:
  "add_domain_lines ss upd k (ls @ ms) y = add_domain_lines ss upd (k + length ls) ms (add_domain_lines ss upd k ls y)"
  by (induction ls arbitrary: k y) simp_all

text \<open>
  Errors in a file that is added to the domain, a line that cannot be read, a range beyond the
  end or a range that could not be added, are forgotten with the next line: when the last line is
  blank, the file is reported as good, whatever it holds.
\<close>

theorem add_file_forgets_errors:
  assumes "scan_words l = []"
  shows "fst (add_domain_lines ss upd k (ls @ [l]) y) = 0"
  using assms by (simp add: add_domain_lines_append add_domain_line_def)

lemma add_file_forgets_errors_witness:
  "fst (add_domain_line 512 0 (''nonsense'' @ [newline]) (demo_env demo_rows 100)) = -1 \<and>
   fst (add_domain_lines 512 (\<lambda>_. 0) 0 ([''nonsense'' @ [newline]] @ [[newline]]) (0, demo_env demo_rows 100)) = 0"
proof -
  have "scan_words (''nonsense'' @ [newline]) = [''nonsense'']"
    using scan_words_word [of "''nonsense''" newline "[]"] by (simp add: is_space_def)
  then have "fst (add_domain_line 512 0 (''nonsense'' @ [newline]) (demo_env demo_rows 100)) = -1"
    by (simp add: add_domain_line_def)
  moreover have "scan_words [newline] = []" by simp
  ultimately show ?thesis using add_file_forgets_errors [of "[newline]"] by blast
qed

end
