(* ===== verification/Script_Scan.thy ===== *)
theory Script_Scan
  imports C_Text
begin

text \<open>
  The lines of a tool script and the searches of \<open>src/commands.c\<close> for the line a control command
  belongs to.  A script is the list of its lines (\<open>script_line_pointer_ccc\<close>), and a line is numbered
  by its index.  \<open>find_command\<close> is the search for the next line with a command; \<open>match_if\<close>,
  \<open>match_elseif\<close> and \<open>match_while\<close> are the loops by which IF, ELSEIF and WHILE find their ELSE, ELSEIF,
  ENDIF and DONE.  The \<open>walk\<close> functions describe the same matching by one walk over the lines that
  counts levels; each loop is proved to compute what its walk does.
\<close>

section \<open>Lines\<close>

type_synonym script = "string list"

definition to_lower :: "char \<Rightarrow> char" where
  "to_lower c = (let k = of_char c :: nat in if 65 \<le> k \<and> k \<le> 90 then char_of (k + 32) else c)"

text \<open>\<open>strcasecmp (s, t) == 0\<close>\<close>

definition same_nocase :: "string \<Rightarrow> string \<Rightarrow> bool" where
  "same_nocase s t \<longleftrightarrow> map to_lower s = map to_lower t"

definition has_command :: "string \<Rightarrow> string \<Rightarrow> bool" where
  "has_command k l = (case scan_words l of [] \<Rightarrow> False | w # _ \<Rightarrow> same_nocase k w)"

function find_command :: "string \<Rightarrow> script \<Rightarrow> nat \<Rightarrow> nat option" where
  "find_command k ls n =
     (if n < length ls then if has_command k (ls ! n) then Some n else find_command k ls (Suc n) else None)"
  by pat_completeness auto

termination by (relation "measure (\<lambda>(k, ls, n). length ls - n)") auto

declare find_command.simps [simp del]

definition find_subroutine :: "script \<Rightarrow> string \<Rightarrow> nat \<Rightarrow> nat option" where
  "find_subroutine ls name n =
     (case filter (\<lambda>i. case scan_words (ls ! i) of
                         c # f # _ \<Rightarrow> (c = ''subroutine'' \<or> c = ''SUBROUTINE'') \<and> f = name
                       | _ \<Rightarrow> False) [n..<length ls] of
        [] \<Rightarrow> None | i # _ \<Rightarrow> Some i)"

lemma find_command_least:
  "(case find_command k ls n of
      None \<Rightarrow> \<forall>i. n \<le> i \<and> i < length ls \<longrightarrow> \<not> has_command k (ls ! i)
    | Some m \<Rightarrow> n \<le> m \<and> m < length ls \<and> has_command k (ls ! m) \<and> (\<forall>i. n \<le> i \<and> i < m \<longrightarrow> \<not> has_command k (ls ! i)))"
proof (induction "length ls - n" arbitrary: n rule: less_induct)
  case less
  have f: "find_command k ls n =
     (if n < length ls then if has_command k (ls ! n) then Some n else find_command k ls (Suc n) else None)"
    by (subst find_command.simps) simp
  show ?case
  proof (cases "n < length ls \<and> \<not> has_command k (ls ! n)")
    case True
    then have "find_command k ls n = find_command k ls (Suc n)" by (simp add: f)
    moreover have "n \<le> i \<longleftrightarrow> i = n \<or> Suc n \<le> i" for i by auto
    moreover have "length ls - Suc n < length ls - n" using True by auto
    ultimately show ?thesis using less [of "Suc n"] True by (cases "find_command k ls (Suc n)") auto
  qed (auto simp: f)
qed

lemma find_command_SomeD:
  assumes "find_command k ls n = Some m"
  shows "n \<le> m" "m < length ls" "has_command k (ls ! m)" "\<And>i. n \<le> i \<Longrightarrow> i < m \<Longrightarrow> \<not> has_command k (ls ! i)"
  using find_command_least [where k = k and ls = ls and n = n] assms by simp_all

lemma find_command_NoneD: "find_command k ls n = None \<Longrightarrow> n \<le> i \<Longrightarrow> i < length ls \<Longrightarrow> \<not> has_command k (ls ! i)"
  using find_command_least [where k = k and ls = ls and n = n] by simp

lemma find_command_bounds [termination_simp]:
  "find_command k ls n = Some m \<Longrightarrow> n \<le> m \<and> m < length ls"
  by (simp add: find_command_SomeD)

text \<open>\<open>before a b\<close>: the search of \<open>a\<close> stopped before that of \<open>b\<close>, or \<open>b\<close> was not found.\<close>

definition before :: "nat option \<Rightarrow> nat option \<Rightarrow> bool" where
  "before a b = (case a of None \<Rightarrow> False | Some i \<Rightarrow> (case b of None \<Rightarrow> True | Some j \<Rightarrow> i < j))"

section \<open>The loops of IF, ELSEIF and WHILE\<close>

text \<open>
  The loop of \<open>ifstate_ccc\<close>.  \<open>cur\<close> is \<open>current_line\<close>, \<open>level\<close>, \<open>e\<close> and \<open>ei\<close> the level and the
  matching ELSE and ELSEIF found so far; the result is \<open>None\<close> where the code prints an error and
  returns -1.  Scripts are read with two blank lines in front, so no command is on line 0 or 1 and
  the tests for a line below 1 or 2 are tests for \<open>None\<close>.
\<close>

function match_if :: "script \<Rightarrow> nat \<Rightarrow> nat \<Rightarrow> nat option \<Rightarrow> nat option \<Rightarrow> (nat option \<times> nat option \<times> nat) option" where
  "match_if ls cur level e ei =
     (let next_else = find_command ''else'' ls (cur + 1);
          next_elseif = find_command ''elseif'' ls (cur + 1);
          next_if = find_command ''if'' ls (cur + 1)
      in case find_command ''endif'' ls (cur + 1) of
           None \<Rightarrow> None
         | Some endif \<Rightarrow>
             if level = 1 \<and> e \<noteq> None \<and> before next_else next_if \<and> before next_else (Some endif) then None
             else let new_else = level = 1 \<and> e = None \<and> before next_else next_if \<and> before next_else (Some endif);
                      again = (if new_else then find_command ''else'' ls (the next_else + 1) else None)
                  in if new_else \<and> before again next_if \<and> before again (Some endif) then None
                     else let e = (if new_else then next_else else e);
                              ei = (if level = 1 \<and> ei = None \<and> before next_elseif next_if \<and> before next_elseif (Some endif)
                                    then next_elseif else ei)
                          in case (if before next_if (Some endif) then next_if else None) of
                               Some i \<Rightarrow> match_if ls i (level + 1) e ei
                             | None \<Rightarrow> if level = 1 then Some (e, ei, endif) else match_if ls endif (level - 1) e ei)"
  by pat_completeness auto

termination
  by (relation "measure (\<lambda>(ls, cur, level, e, ei). length ls - cur)")
    (auto dest!: find_command_bounds [OF sym] find_command_bounds split: if_splits)

declare match_if.simps [simp del]

text \<open>The loop of \<open>ccc_elseif_ccc\<close>: a second ELSE is no error here.\<close>

function match_elseif :: "script \<Rightarrow> nat \<Rightarrow> nat \<Rightarrow> nat option \<Rightarrow> nat option \<Rightarrow> (nat option \<times> nat option \<times> nat) option" where
  "match_elseif ls cur level e ei =
     (let next_else = find_command ''else'' ls (cur + 1);
          next_elseif = find_command ''elseif'' ls (cur + 1);
          next_if = find_command ''if'' ls (cur + 1)
      in case find_command ''endif'' ls (cur + 1) of
           None \<Rightarrow> None
         | Some endif \<Rightarrow>
             let e = (if level = 1 \<and> e = None \<and> before next_else next_if \<and> before next_else (Some endif) then next_else else e);
                 ei = (if level = 1 \<and> ei = None \<and> before next_elseif next_if \<and> before next_elseif (Some endif)
                       then next_elseif else ei)
             in case (if before next_if (Some endif) then next_if else None) of
                  Some i \<Rightarrow> match_elseif ls i (level + 1) e ei
                | None \<Rightarrow> if level = 1 then Some (e, ei, endif) else match_elseif ls endif (level - 1) e ei)"
  by pat_completeness auto

termination
  by (relation "measure (\<lambda>(ls, cur, level, e, ei). length ls - cur)")
    (auto dest!: find_command_bounds [OF sym] find_command_bounds split: if_splits)

declare match_elseif.simps [simp del]

text \<open>The loop of \<open>dowhile_ccc\<close>.\<close>

function match_while :: "script \<Rightarrow> nat \<Rightarrow> nat \<Rightarrow> nat option" where
  "match_while ls cur level =
     (let next_while = find_command ''while'' ls (cur + 1)
      in case find_command ''done'' ls (cur + 1) of
           None \<Rightarrow> None
         | Some d \<Rightarrow>
             (case (if before next_while (Some d) then next_while else None) of
                Some w \<Rightarrow> match_while ls w (level + 1)
              | None \<Rightarrow> if level = 1 then Some d else match_while ls d (level - 1)))"
  by pat_completeness auto

termination
  by (relation "measure (\<lambda>(ls, cur, level). length ls - cur)")
    (auto dest!: find_command_bounds [OF sym] find_command_bounds split: if_splits)

declare match_while.simps [simp del]

text \<open>
  What follows the loop in both \<open>ifstate_ccc\<close> and \<open>ccc_elseif_ccc\<close>: an ELSE before an ELSEIF is an
  error, and the next line to look at is the ELSEIF, else the ELSE, else the ENDIF.
\<close>

definition next_statement :: "(nat option \<times> nat option \<times> nat) option \<Rightarrow> (nat \<times> nat) option" where
  "next_statement r =
     (case r of
        None \<Rightarrow> None
      | Some (e, ei, endif) \<Rightarrow>
          (case (e, ei) of
             (Some i, Some j) \<Rightarrow> if i < j then None else Some (j, endif)
           | (None, Some j) \<Rightarrow> Some (j, endif)
           | (Some i, None) \<Rightarrow> Some (i, endif)
           | (None, None) \<Rightarrow> Some (endif, endif)))"

section \<open>The walks\<close>

text \<open>
  The matching, line by line: an IF opens a level, an ENDIF closes one, and the first ELSE and the
  first ELSEIF of the outermost level are remembered.  With \<open>strict\<close> a second ELSE there is an error.
\<close>

fun walk_if :: "bool \<Rightarrow> script \<Rightarrow> nat \<Rightarrow> nat \<Rightarrow> nat option \<Rightarrow> nat option \<Rightarrow> (nat option \<times> nat option \<times> nat) option" where
  "walk_if strict [] n level e ei = None"
| "walk_if strict (l # ls) n level e ei =
     (if has_command ''if'' l then walk_if strict ls (Suc n) (Suc level) e ei
      else if has_command ''endif'' l then
        (if level = 1 then Some (e, ei, n) else walk_if strict ls (Suc n) (level - 1) e ei)
      else if has_command ''else'' l \<and> level = 1 then
        (if e = None then walk_if strict ls (Suc n) level (Some n) ei
         else if strict then None else walk_if strict ls (Suc n) level e ei)
      else if has_command ''elseif'' l \<and> level = 1 \<and> ei = None then walk_if strict ls (Suc n) level e (Some n)
      else walk_if strict ls (Suc n) level e ei)"

fun walk_while :: "script \<Rightarrow> nat \<Rightarrow> nat \<Rightarrow> nat option" where
  "walk_while [] n level = None"
| "walk_while (l # ls) n level =
     (if has_command ''while'' l then walk_while ls (Suc n) (Suc level)
      else if has_command ''done'' l then (if level = 1 then Some n else walk_while ls (Suc n) (level - 1))
      else walk_while ls (Suc n) level)"

lemma has_command_unique: "has_command k l \<Longrightarrow> has_command k' l \<Longrightarrow> map to_lower k = map to_lower k'"
  by (auto simp: has_command_def same_nocase_def split: list.splits)

lemma keywords_differ:
  "map to_lower ''if'' = ''if''" "map to_lower ''endif'' = ''endif''" "map to_lower ''else'' = ''else''"
  "map to_lower ''elseif'' = ''elseif''" "map to_lower ''while'' = ''while''" "map to_lower ''done'' = ''done''"
  "map to_lower ''gosub'' = ''gosub''" "map to_lower ''subroutine'' = ''subroutine''" "map to_lower ''break'' = ''break''"
  "map to_lower ''endsubroutine'' = ''endsubroutine''" "map to_lower ''returnsub'' = ''returnsub''"
  by (simp_all add: to_lower_def)

lemma not_command:
  assumes "has_command k l" "map to_lower k \<noteq> map to_lower k'"
  shows "\<not> has_command k' l"
  using assms has_command_unique by blast

lemma find_command_at: "n < length ls \<Longrightarrow> has_command k (ls ! n) \<Longrightarrow> find_command k ls n = Some n"
  by (subst find_command.simps) simp

lemma find_command_skip: "\<not> has_command k (ls ! n) \<Longrightarrow> n < length ls \<Longrightarrow> find_command k ls n = find_command k ls (Suc n)"
  by (subst find_command.simps) simp

definition below :: "nat option \<Rightarrow> nat \<Rightarrow> nat option" where
  "below x m = (case x of None \<Rightarrow> None | Some i \<Rightarrow> if i < m then Some i else None)"

lemma below_at: "find_command k ls n = Some n \<Longrightarrow> n < m \<Longrightarrow> below (find_command k ls n) m = Some n"
  by (simp add: below_def)

lemma below_None [simp]: "below None m = None"
  by (simp add: below_def)

lemma below_Some: "below x m = Some k \<Longrightarrow> x = Some k"
  by (auto simp: below_def split: option.splits if_splits)

lemma below_end: "below (find_command k ls n) n = None"
  by (auto simp: below_def dest: find_command_bounds split: option.splits)

text \<open>Between lines \<open>a\<close> and \<open>m\<close> there is an ELSE beside the one found before, or there are two.\<close>

definition else_again :: "script \<Rightarrow> nat \<Rightarrow> nat \<Rightarrow> nat option \<Rightarrow> bool" where
  "else_again ls a m e =
     (if e = None then (case below (find_command ''else'' ls a) m of None \<Rightarrow> False
                        | Some i \<Rightarrow> below (find_command ''else'' ls (Suc i)) m \<noteq> None)
      else below (find_command ''else'' ls a) m \<noteq> None)"

text \<open>A stretch of lines without IF and ENDIF, at the outermost level and inside.\<close>

lemma walk_segment:
  assumes "a \<le> m" "m \<le> length ls"
    and "\<forall>i. a \<le> i \<and> i < m \<longrightarrow> \<not> has_command ''if'' (ls ! i) \<and> \<not> has_command ''endif'' (ls ! i)"
  shows "walk_if strict (drop a ls) a 1 e ei =
     (if strict \<and> else_again ls a m e
      then None
      else walk_if strict (drop m ls) m 1 (if e = None then below (find_command ''else'' ls a) m else e)
             (if ei = None then below (find_command ''elseif'' ls a) m else ei))"
  using assms
proof (induction "m - a" arbitrary: a e ei strict)
  case 0
  then have "a = m" by simp
  then show ?case by (simp add: else_again_def below_end)
next
  case (Suc d)
  then have a: "a < m" "a < length ls" "d = m - Suc a" by auto
  then have d: "drop a ls = ls ! a # drop (Suc a) ls" by (simp add: Cons_nth_drop_Suc)
  have n: "\<not> has_command ''if'' (ls ! a)" "\<not> has_command ''endif'' (ls ! a)" using Suc.prems(3) a by auto
  have "\<forall>i. Suc a \<le> i \<and> i < m \<longrightarrow> \<not> has_command ''if'' (ls ! i) \<and> \<not> has_command ''endif'' (ls ! i)" using Suc.prems(3) by auto
  note IH = Suc.hyps(1) [OF a(3) Suc_leI [OF a(1)] Suc.prems(2) this, unfolded One_nat_def]
  consider "has_command ''else'' (ls ! a)" | "has_command ''elseif'' (ls ! a)"
    | "\<not> has_command ''else'' (ls ! a)" "\<not> has_command ''elseif'' (ls ! a)" by blast
  then show ?case
  proof cases
    case 1
    then have "\<not> has_command ''elseif'' (ls ! a)" by (rule not_command) (simp add: keywords_differ)
    with 1 a show ?thesis
      by (cases strict; cases e; cases ei)
        (simp_all add: else_again_def d n IH find_command_at find_command_skip [of "''elseif''"] below_def [of "Some a"])
  next
    case 2
    then have "\<not> has_command ''else'' (ls ! a)" by (rule not_command) (simp add: keywords_differ)
    with 2 a show ?thesis
      by (cases strict; cases e; cases ei)
        (simp_all add: else_again_def d n IH find_command_at find_command_skip [of "''else''"] below_def [of "Some a"])
  next
    case 3
    then have "walk_if strict (drop a ls) a 1 e ei = walk_if strict (drop (Suc a) ls) (Suc a) 1 e ei" by (simp add: d n)
    then show ?thesis
      unfolding else_again_def find_command_skip [OF 3(1) a(2)] find_command_skip [OF 3(2) a(2)] One_nat_def by (simp only: IH else_again_def)
  qed
qed

lemma walk_inner_segment:
  assumes "a \<le> m" "m \<le> length ls" "level \<noteq> 1"
    and "\<forall>i. a \<le> i \<and> i < m \<longrightarrow> \<not> has_command ''if'' (ls ! i) \<and> \<not> has_command ''endif'' (ls ! i)"
  shows "walk_if strict (drop a ls) a level e ei = walk_if strict (drop m ls) m level e ei"
  using assms
proof (induction "m - a" arbitrary: a)
  case (Suc d)
  then have a: "a < m" "a < length ls" "d = m - Suc a" by auto
  then have d: "drop a ls = ls ! a # drop (Suc a) ls" by (simp add: Cons_nth_drop_Suc)
  have n: "\<not> has_command ''if'' (ls ! a)" "\<not> has_command ''endif'' (ls ! a)" using Suc.prems(4) a by auto
  have "walk_if strict (drop a ls) a level e ei = walk_if strict (drop (Suc a) ls) (Suc a) level e ei"
    using Suc.prems(3) by (simp add: d n)
  then show ?case using Suc a by simp
qed simp

text \<open>The next IF or ENDIF, and what the walk does there.\<close>

lemma next_level_line:
  assumes "find_command ''endif'' ls a = Some d" and "m = (if before (find_command ''if'' ls a) (Some d) then the (find_command ''if'' ls a) else d)"
  shows "a \<le> m" "m < length ls" "m \<le> d"
    and "\<forall>i. a \<le> i \<and> i < m \<longrightarrow> \<not> has_command ''if'' (ls ! i) \<and> \<not> has_command ''endif'' (ls ! i)"
    and "has_command (if before (find_command ''if'' ls a) (Some d) then ''if'' else ''endif'') (ls ! m)"
proof -
  note e = find_command_SomeD [OF assms(1)]
  have "a \<le> m \<and> m < length ls \<and> m \<le> d \<and>
    (\<forall>i. a \<le> i \<and> i < m \<longrightarrow> \<not> has_command ''if'' (ls ! i) \<and> \<not> has_command ''endif'' (ls ! i)) \<and>
    has_command (if before (find_command ''if'' ls a) (Some d) then ''if'' else ''endif'') (ls ! m)"
  proof (cases "find_command ''if'' ls a")
    case None
    then show ?thesis using assms(2) e find_command_NoneD [OF None] by (simp add: before_def)
  next
    case (Some i)
    note f = find_command_SomeD [OF Some]
    have "i \<noteq> d" using f(3) e(3) not_command [of "''if''" "ls ! i" "''endif''"] by (auto simp: keywords_differ)
    then show ?thesis using assms(2) e f Some by (cases "i < d") (auto simp: before_def)
  qed
  then show "a \<le> m" "m < length ls" "m \<le> d"
    "\<forall>i. a \<le> i \<and> i < m \<longrightarrow> \<not> has_command ''if'' (ls ! i) \<and> \<not> has_command ''endif'' (ls ! i)"
    "has_command (if before (find_command ''if'' ls a) (Some d) then ''if'' else ''endif'') (ls ! m)" by blast+
qed

lemma walk_if_line:
  assumes "has_command ''if'' (ls ! m)" "m < length ls"
  shows "walk_if strict (drop m ls) m level e ei = walk_if strict (drop (m + 1) ls) (m + 1) (level + 1) e ei"
  using assms by (simp add: Cons_nth_drop_Suc [symmetric])

lemma walk_endif_line:
  assumes "has_command ''endif'' (ls ! m)" "m < length ls"
  shows "walk_if strict (drop m ls) m level e ei =
    (if level = 1 then Some (e, ei, m) else walk_if strict (drop (m + 1) ls) (m + 1) (level - 1) e ei)"
proof -
  have "\<not> has_command ''if'' (ls ! m)" using assms(1) by (rule not_command) (simp add: keywords_differ)
  then show ?thesis using assms by (simp add: Cons_nth_drop_Suc [symmetric])
qed

lemma find_none_after: "find_command k ls n = None \<Longrightarrow> \<forall>l\<in>set (drop n ls). \<not> has_command k l"
  using find_command_NoneD [of k ls n] by (auto simp: in_set_conv_nth)

lemma walk_no_endif:
  assumes "\<forall>l\<in>set ls. \<not> has_command ''endif'' l"
  shows "walk_if strict ls n level e ei = None"
  using assms by (induction strict ls n level e ei rule: walk_if.induct) auto

lemma below_before:
  assumes "find_command ''endif'' ls a = Some d" and "m = (if before (find_command ''if'' ls a) (Some d) then the (find_command ''if'' ls a) else d)"
  shows "before x (find_command ''if'' ls a) \<and> before x (Some d) \<longleftrightarrow> below x m \<noteq> None"
  using assms by (auto simp: before_def below_def split: option.splits)

text \<open>From one level line to the next.\<close>

lemma walk_to_level_line:
  assumes d: "find_command ''endif'' ls a = Some d" and m: "m = (if before (find_command ''if'' ls a) (Some d) then the (find_command ''if'' ls a) else d)"
    and l: "1 \<le> level"
  shows "walk_if strict (drop a ls) a level e ei =
    (if level = 1 \<and> strict \<and> else_again ls a m e
     then None
     else let e' = (if level = 1 \<and> e = None then below (find_command ''else'' ls a) m else e);
              ei' = (if level = 1 \<and> ei = None then below (find_command ''elseif'' ls a) m else ei)
          in if before (find_command ''if'' ls a) (Some d) then walk_if strict (drop (m + 1) ls) (m + 1) (level + 1) e' ei'
             else if level = 1 then Some (e', ei', d) else walk_if strict (drop (d + 1) ls) (d + 1) (level - 1) e' ei')"
proof -
  note n = next_level_line [OF d m]
  have at: "walk_if strict (drop m ls) m level e' ei' =
    (if before (find_command ''if'' ls a) (Some d) then walk_if strict (drop (m + 1) ls) (m + 1) (level + 1) e' ei'
     else if level = 1 then Some (e', ei', d) else walk_if strict (drop (d + 1) ls) (d + 1) (level - 1) e' ei')" for e' ei'
  proof (cases "before (find_command ''if'' ls a) (Some d)")
    case True
    then have "has_command ''if'' (ls ! m)" using n(5) by simp
    with True show ?thesis by (simp add: walk_if_line [OF _ n(2)])
  next
    case False
    then have "m = d" "has_command ''endif'' (ls ! m)" using n(5) m by simp_all
    with False show ?thesis using walk_endif_line [OF _ n(2)] by simp
  qed
  have s: "walk_if strict (drop a ls) a 1 e ei =
    (if strict \<and> else_again ls a m e
      then None
      else walk_if strict (drop m ls) m 1 (if e = None then below (find_command ''else'' ls a) m else e)
             (if ei = None then below (find_command ''elseif'' ls a) m else ei))"
    using n(1) n(2) n(4) by (intro walk_segment) simp_all
  show ?thesis
  proof (cases "level = 1")
    case True
    show ?thesis unfolding True s Let_def at [unfolded True] by (simp only: simp_thms)
  next
    case False
    then have "walk_if strict (drop a ls) a level e ei = walk_if strict (drop m ls) m level e ei"
      using n(1,2,4) by (intro walk_inner_segment) simp_all
    then show ?thesis unfolding Let_def using at False by simp
  qed
qed

lemma match_if_step:
  assumes d: "find_command ''endif'' ls (cur + 1) = Some d"
    and m: "m = (if before (find_command ''if'' ls (cur + 1)) (Some d) then the (find_command ''if'' ls (cur + 1)) else d)"
  shows "match_if ls cur level e ei =
    (if level = 1 \<and> else_again ls (cur + 1) m e then None
     else let e' = (if level = 1 \<and> e = None then below (find_command ''else'' ls (cur + 1)) m else e);
              ei' = (if level = 1 \<and> ei = None then below (find_command ''elseif'' ls (cur + 1)) m else ei)
          in if before (find_command ''if'' ls (cur + 1)) (Some d) then match_if ls m (level + 1) e' ei'
             else if level = 1 then Some (e', ei', d) else match_if ls d (level - 1) e' ei')"
proof -
  note b = below_before [OF d m]
  have c: "before x (find_command ''if'' ls (cur + 1)) \<and> before x (Some d) \<and> R \<longleftrightarrow> below x m \<noteq> None \<and> R" for x R
    using b by blast
  define x where x: "x = find_command ''else'' ls (cur + 1)"
  define y where y: "y = find_command ''elseif'' ls (cur + 1)"
  define z where z: "z = before (find_command ''if'' ls (cur + 1)) (Some d)"
  have i: "(if z then find_command ''if'' ls (cur + 1) else None) = (if z then Some m else None)"
    using m unfolding z by (auto simp: before_def split: option.splits)
  have k: "\<not> z \<Longrightarrow> m = d" using m unfolding z by simp
  have X: "below x m = None \<or> (\<exists>k. x = Some k \<and> below x m = Some k)" using below_Some by (cases "below x m") auto
  have Y: "below y m = None \<or> (\<exists>k. y = Some k \<and> below y m = Some k)" using below_Some by (cases "below y m") auto
  show ?thesis
  proof (cases "level = 1")
    case True
    show ?thesis
      unfolding match_if.simps [where cur = cur] Let_def d option.case z [symmetric] i conj_assoc b c x [symmetric] y [symmetric] else_again_def
      using True X Y k
      by (cases e) ((cases z; cases ei; elim disjE exE conjE; simp)+)
  next
    case False
    then show ?thesis
      unfolding match_if.simps [where cur = cur] Let_def d option.case z [symmetric] i conj_assoc b c x [symmetric] y [symmetric] else_again_def
      using k by (cases z) simp_all
  qed
qed

lemma match_if_walk_level:
  "1 \<le> level \<Longrightarrow> match_if ls cur level e ei = walk_if True (drop (cur + 1) ls) (cur + 1) level e ei"
proof (induction "length ls - cur" arbitrary: cur level e ei rule: less_induct)
  case less
  show ?case
  proof (cases "find_command ''endif'' ls (cur + 1)")
    case None
    then have "walk_if True (drop (cur + 1) ls) (cur + 1) level e ei = None" by (intro walk_no_endif find_none_after)
    then show ?thesis using None by (simp add: match_if.simps [where cur = cur] Let_def)
  next
    case (Some d)
    define m where m: "m = (if before (find_command ''if'' ls (cur + 1)) (Some d) then the (find_command ''if'' ls (cur + 1)) else d)"
    note n = next_level_line [OF Some m]
    have IH: "match_if ls m l' e' ei' = walk_if True (drop (m + 1) ls) (m + 1) l' e' ei'" if "1 \<le> l'" for l' e' ei'
      using less.hyps [of m l' e' ei'] n(1,2) that by simp
    have w: "walk_if True (drop (cur + 1) ls) (cur + 1) level e ei = match_if ls cur level e ei"
      unfolding match_if_step [OF Some m] walk_to_level_line [OF Some m less.prems] Let_def
      using IH less.prems m by auto
    then show ?thesis by simp
  qed
qed

lemma match_elseif_step:
  assumes d: "find_command ''endif'' ls (cur + 1) = Some d"
    and m: "m = (if before (find_command ''if'' ls (cur + 1)) (Some d) then the (find_command ''if'' ls (cur + 1)) else d)"
  shows "match_elseif ls cur level e ei =
    (let e' = (if level = 1 \<and> e = None then below (find_command ''else'' ls (cur + 1)) m else e);
         ei' = (if level = 1 \<and> ei = None then below (find_command ''elseif'' ls (cur + 1)) m else ei)
     in if before (find_command ''if'' ls (cur + 1)) (Some d) then match_elseif ls m (level + 1) e' ei'
        else if level = 1 then Some (e', ei', d) else match_elseif ls d (level - 1) e' ei')"
proof -
  note b = below_before [OF d m]
  have c: "x = below x m" if "below x m \<noteq> None" for x using that below_Some by (cases "below x m") auto
  have e: "(if below x m \<noteq> None then x else None) = below x m" for x using c [of x] by (cases "below x m") auto
  have f: "(if level = 1 \<and> a = None \<and> below x m \<noteq> None then x else a) = (if level = 1 \<and> a = None then below x m else a)" for x a
    using e [of x] by auto
  have i: "(if before (find_command ''if'' ls (cur + 1)) (Some d) then find_command ''if'' ls (cur + 1) else None)
         = (if before (find_command ''if'' ls (cur + 1)) (Some d) then Some m else None)"
    using m by (auto simp: before_def split: option.splits)
  show ?thesis
    unfolding match_elseif.simps [where cur = cur] Let_def d option.case b f i using m by simp
qed

lemma match_elseif_walk_level:
  "1 \<le> level \<Longrightarrow> match_elseif ls cur level e ei = walk_if False (drop (cur + 1) ls) (cur + 1) level e ei"
proof (induction "length ls - cur" arbitrary: cur level e ei rule: less_induct)
  case less
  show ?case
  proof (cases "find_command ''endif'' ls (cur + 1)")
    case None
    then have "walk_if False (drop (cur + 1) ls) (cur + 1) level e ei = None" by (intro walk_no_endif find_none_after)
    then show ?thesis using None by (simp add: match_elseif.simps [where cur = cur] Let_def)
  next
    case (Some d)
    define m where m: "m = (if before (find_command ''if'' ls (cur + 1)) (Some d) then the (find_command ''if'' ls (cur + 1)) else d)"
    note n = next_level_line [OF Some m]
    have IH: "match_elseif ls m l' e' ei' = walk_if False (drop (m + 1) ls) (m + 1) l' e' ei'" if "1 \<le> l'" for l' e' ei'
      using less.hyps [of m l' e' ei'] n(1,2) that by simp
    have w: "walk_if False (drop (cur + 1) ls) (cur + 1) level e ei = match_elseif ls cur level e ei"
      unfolding match_elseif_step [OF Some m] walk_to_level_line [OF Some m less.prems] Let_def
      using IH less.prems m by auto
    then show ?thesis by simp
  qed
qed

lemma walk_while_segment:
  assumes "a \<le> m" "m \<le> length ls"
    and "\<forall>i. a \<le> i \<and> i < m \<longrightarrow> \<not> has_command ''while'' (ls ! i) \<and> \<not> has_command ''done'' (ls ! i)"
  shows "walk_while (drop a ls) a level = walk_while (drop m ls) m level"
  using assms
proof (induction "m - a" arbitrary: a)
  case (Suc d)
  then have a: "a < m" "a < length ls" "d = m - Suc a" by auto
  then have "drop a ls = ls ! a # drop (Suc a) ls" by (simp add: Cons_nth_drop_Suc)
  moreover have "\<not> has_command ''while'' (ls ! a)" "\<not> has_command ''done'' (ls ! a)" using Suc.prems(3) a by auto
  ultimately have "walk_while (drop a ls) a level = walk_while (drop (Suc a) ls) (Suc a) level" by simp
  then show ?case using Suc a by simp
qed simp

lemma walk_no_done: "\<forall>l\<in>set ls. \<not> has_command ''done'' l \<Longrightarrow> walk_while ls n level = None"
  by (induction ls n level rule: walk_while.induct) auto

lemma match_while_walk_level: "1 \<le> level \<Longrightarrow> match_while ls cur level = walk_while (drop (cur + 1) ls) (cur + 1) level"
proof (induction "length ls - cur" arbitrary: cur level rule: less_induct)
  case less
  show ?case
  proof (cases "find_command ''done'' ls (cur + 1)")
    case None
    then have "walk_while (drop (cur + 1) ls) (cur + 1) level = None" by (intro walk_no_done find_none_after)
    then show ?thesis using None by (simp add: match_while.simps [where cur = cur] Let_def)
  next
    case (Some d)
    note e = find_command_SomeD [OF Some]
    show ?thesis
    proof (cases "before (find_command ''while'' ls (cur + 1)) (Some d)")
      case True
      then obtain w where w: "find_command ''while'' ls (cur + 1) = Some w" "w < d" by (auto simp: before_def split: option.splits)
      note f = find_command_SomeD [OF w(1)]
      have "walk_while (drop (cur + 1) ls) (cur + 1) level = walk_while (drop w ls) w level"
        using f e(4) w(2) by (intro walk_while_segment) auto
      also have "\<dots> = walk_while (drop (w + 1) ls) (w + 1) (level + 1)" using f by (simp add: Cons_nth_drop_Suc [symmetric])
      also have "\<dots> = match_while ls w (level + 1)" using less.hyps [of w "level + 1"] f by simp
      finally show ?thesis using True Some w(1) by (subst match_while.simps) (simp add: Let_def)
    next
      case False
      have n: "\<not> has_command ''while'' (ls ! i)" if "cur + 1 \<le> i" "i \<le> d" for i
      proof (cases "find_command ''while'' ls (cur + 1)")
        case None
        then show ?thesis using find_command_NoneD [OF None that(1)] that e(2) by simp
      next
        case (Some w)
        note f = find_command_SomeD [OF Some]
        have "w \<noteq> d" using f(3) e(3) not_command [of "''while''" "ls ! w" "''done''"] by (auto simp: keywords_differ)
        with False Some have "d < w" by (simp add: before_def)
        with that show ?thesis using f(4) by simp
      qed
      have "walk_while (drop (cur + 1) ls) (cur + 1) level = walk_while (drop d ls) d level"
        using e n by (intro walk_while_segment) auto
      also have "\<dots> = (if level = 1 then Some d else walk_while (drop (d + 1) ls) (d + 1) (level - 1))"
        using e(2,3) n [of d] e(1) by (simp add: Cons_nth_drop_Suc [symmetric])
      also have "\<dots> = (if level = 1 then Some d else match_while ls d (level - 1))"
        using less.hyps [of d "level - 1"] e less.prems by simp
      finally show ?thesis using False Some by (subst match_while.simps) (simp add: Let_def)
    qed
  qed
qed

lemmas match_walk = match_if_walk_level [of 1, OF order_refl] match_elseif_walk_level [of 1, OF order_refl]
  match_while_walk_level [of 1, OF order_refl]

text \<open>
  C12: The loops by which IF, ELSEIF and WHILE look for the lines that belong to them - several searches
  per step and jumps to the nearest IF or ENDIF - find exactly what one walk over the lines with a
  level counter finds, errors included.
\<close>

theorem matching_is_walk:
  "match_if ls n 1 None None = walk_if True (drop (n + 1) ls) (n + 1) 1 None None \<and>
   match_elseif ls n 1 None None = walk_if False (drop (n + 1) ls) (n + 1) 1 None None \<and>
   match_while ls n 1 = walk_while (drop (n + 1) ls) (n + 1) 1"
  by (simp only: match_walk simp_thms)

end
