(* ===== verification/Script_Store.thy ===== *)
theory Script_Store
  imports C_Text "HOL-Library.Signed_Division"
begin

text \<open>
  What the commands of a tool script compute with: the tables of number and string variables of
  \<open>src/tool.c\<close>, the four byte buffers, and the output.  An operation that would read memory outside
  its arrays, read a variable that was never set, or trap in a division has the result \<open>None\<close>; an
  error of the script has the negative value the code returns.
\<close>

unbundle bit_operations_syntax

section \<open>The state\<close>

text \<open>
  A buffer is the memory allocated for it and the size the script has set (\<open>ccc_buffer_ccc\<close> and
  \<open>ccc_main_buffer_size_ccc\<close>, and so on).
\<close>

record buffer =
  memory :: "8 word list"
  limit :: "64 word"

record store =
  numbers :: "(string \<times> 64 word) list"
  strings :: "(string \<times> string) list"
  error_level :: "64 word"
  print_in_hex :: bool
  main_buffer :: buffer
  scratchpad :: buffer
  usb_buffer :: buffer
  sense_buffer :: buffer
  exit_code :: "8 word"
  printed :: string

section \<open>Variables\<close>

definition check_variable :: "store \<Rightarrow> string \<Rightarrow> int" where
  "check_variable s name =
     (let n = length (filter (\<lambda>v. fst v = name) (numbers s));
          m = length (filter (\<lambda>v. fst v = name) (strings s))
      in if 1 < n + m then - 1 else if 0 < n then 1 else if 0 < m then 2 else 0)"

fun find_variable :: "(string \<times> 'a) list \<Rightarrow> string \<Rightarrow> nat option" where
  "find_variable [] name = None"
| "find_variable (v # vs) name = (if fst v = name then Some 0 else map_option Suc (find_variable vs name))"

abbreviation set_at :: "(string \<times> 'a) list \<Rightarrow> nat \<Rightarrow> 'a \<Rightarrow> (string \<times> 'a) list" where
  "set_at vs i x \<equiv> vs[i := (fst (vs ! i), x)]"

text \<open>The value of a number variable: \<open>None\<close> when there is no such variable or it is no number.\<close>

definition number_value :: "store \<Rightarrow> string \<Rightarrow> 64 word option" where
  "number_value s name =
     (if check_variable s name = 1 then map_option (\<lambda>i. snd (numbers s ! i)) (find_variable (numbers s) name) else None)"

definition string_value :: "store \<Rightarrow> string \<Rightarrow> string option" where
  "string_value s name =
     (if check_variable s name = 2 then map_option (\<lambda>i. snd (strings s ! i)) (find_variable (strings s) name) else None)"

section \<open>Arithmetic\<close>

text \<open>
  \<open>scan_split t\<close> is \<open>sscanf (t, "%s %[^\n]")\<close>: the first word and, when there is more, the text after
  it up to the end of the line.
\<close>

definition first_word :: "string \<Rightarrow> (string \<times> string) option" where
  "first_word t =
     (case dropWhile is_space t of
        [] \<Rightarrow> None
      | c # u \<Rightarrow> Some (c # takeWhile (\<lambda>c. \<not> is_space c) u, dropWhile (\<lambda>c. \<not> is_space c) u))"

definition line_rest :: "string \<Rightarrow> string" where
  "line_rest t = takeWhile (\<lambda>c. c \<noteq> newline) (dropWhile is_space t)"

definition scan_split :: "string \<Rightarrow> (string \<times> string) option" where
  "scan_split t = map_option (\<lambda>(w, u). (w, line_rest u)) (first_word t)"

text \<open>\<open>strtoull\<close> with base 16.\<close>

definition strtoull16 :: "string \<Rightarrow> 64 word \<times> string" where
  "strtoull16 t =
     (let u = dropWhile is_space t; neg = (take 1 u = ''-'');
          v = (if neg \<or> take 1 u = ''+'' then drop 1 u else u);
          v = (if (take 2 v = ''0x'' \<or> take 2 v = ''0X'') \<and> begins_digit 16 (drop 2 v) then drop 2 v else v)
      in if begins_digit 16 v then
           (case scan_digits 16 0 v of
              (n, rest) \<Rightarrow> ((if n \<ge> 2 ^ 64 then - 1 else if neg then - of_nat n else of_nat n), rest))
         else (0, t))"

text \<open>
  An operand: \<open>None\<close> when its name overruns the 64 characters of \<open>var_name\<close> or is missing, \<open>Some None\<close>
  for an error of the script.
\<close>

definition operand :: "store \<Rightarrow> string \<Rightarrow> 64 word option option" where
  "operand s p =
     (if take 1 p = ''$'' then
        (if drop 1 p = [] \<or> 64 \<le> length (drop 1 p) then None else Some (number_value s (drop 1 p)))
      else (case strtoull p of (v, rest) \<Rightarrow> Some (if rest = [] then Some v else None)))"

text \<open>
  The operators on \<open>long long\<close>: sums, differences, products and left shifts wrap as the machine does,
  a division by 0 or of the least number by -1 traps, and a shift by a count outside 0 to 63 has no
  defined value.
\<close>

definition arith :: "string \<Rightarrow> 64 word \<Rightarrow> 64 word \<Rightarrow> 64 word option option" where
  "arith f a b =
     (if f = ''+'' then Some (Some (a + b))
      else if f = ''-'' then Some (Some (a - b))
      else if f = ''*'' then Some (Some (a * b))
      else if f = ''/'' \<or> f = ''%'' then
        (if b = 0 \<or> sint a = - (2 ^ 63) \<and> sint b = - 1 then None
         else Some (Some (word_of_int (if f = ''/'' then sint a sdiv sint b else sint a smod sint b))))
      else if f = ''&'' then Some (Some (a AND b))
      else if f = ''|'' then Some (Some (a OR b))
      else if f = ''^'' then Some (Some (a XOR b))
      else if f = ''<'' \<or> f = ''>'' then
        (if 0 \<le> sint b \<and> sint b < 64
         then Some (Some (if f = ''<'' then push_bit (unat b) a else signed_drop_bit (unat b) a)) else None)
      else Some None)"

text \<open>
  The loop that takes word number \<open>n\<close> (from 0) of a string variable.  The text after the last word is
  never set, so a count beyond it is noticed only when it is the next one.
\<close>

fun nth_word :: "nat \<Rightarrow> string \<Rightarrow> string option option" where
  "nth_word 0 t = map_option (\<lambda>(w, u). Some w) (scan_split t)"
| "nth_word (Suc n) t =
     (case scan_split t of
        Some (w, c # u) \<Rightarrow> nth_word n (c # u)
      | _ \<Rightarrow> if n = 0 then Some None else None)"

definition failed :: "store \<Rightarrow> 64 word \<Rightarrow> store \<times> 64 word" where
  "failed s e = (s\<lparr>error_level := e\<rparr>, 0)"

text \<open>Two words: a string variable and the number of a word in it.\<close>

definition math_element :: "store \<Rightarrow> string \<Rightarrow> string \<Rightarrow> (store \<times> 64 word) option" where
  "math_element s p q =
     (if take 1 p \<noteq> ''$'' then Some (failed s 1)
      else if drop 1 p = [] \<or> 64 \<le> length (drop 1 p) then None
      else (case string_value s (drop 1 p) of
              None \<Rightarrow> Some (failed s 1)
            | Some t \<Rightarrow>
                (case (if take 1 q = ''$'' then operand s q
                       else (case strtoll q of (v, rest) \<Rightarrow> Some (if rest = [] then Some v else None))) of
                   None \<Rightarrow> None
                 | Some None \<Rightarrow> Some (failed s 1)
                 | Some (Some v) \<Rightarrow>
                     (let n = sint (ucast v :: 32 word) in
                      if 128 < n then Some (failed s 1)
                      else if n < 0 then None
                      else (case nth_word (nat n) t of
                              None \<Rightarrow> None
                            | Some None \<Rightarrow> Some (failed s 2)
                            | Some (Some w) \<Rightarrow>
                                (case (if print_in_hex s then strtoull16 w else strtoull w) of
                                   (x, rest) \<Rightarrow> Some (if rest = [] then (s, x) else failed s 2)))))))"

text \<open>Three words: an operator between two operands.\<close>

definition math_binary :: "store \<Rightarrow> string \<Rightarrow> string \<Rightarrow> string \<Rightarrow> (store \<times> 64 word) option" where
  "math_binary s p f q =
     (case operand s p of
        None \<Rightarrow> None
      | Some None \<Rightarrow> Some (failed s 1)
      | Some (Some a) \<Rightarrow>
          (case operand s q of
             None \<Rightarrow> None
           | Some None \<Rightarrow> Some (failed s 1)
           | Some (Some b) \<Rightarrow>
               (case arith f a b of
                  None \<Rightarrow> None
                | Some None \<Rightarrow> Some (failed s 1)
                | Some (Some x) \<Rightarrow> Some (s, x))))"

definition math :: "store \<Rightarrow> string \<Rightarrow> (store \<times> 64 word) option" where
  "math s raw =
     (let s = s\<lparr>error_level := 0\<rparr> in
      case scan_words raw of
        [p] \<Rightarrow> (case operand s p of
                  None \<Rightarrow> None
                | Some None \<Rightarrow> Some (failed s 1)
                | Some (Some v) \<Rightarrow> Some (s, v))
      | [p, q] \<Rightarrow> math_element s p q
      | [p, f, q] \<Rightarrow> math_binary s p f q
      | _ \<Rightarrow> Some (failed s 1))"

section \<open>Setting variables\<close>

definition set_number :: "store \<Rightarrow> nat \<Rightarrow> string \<Rightarrow> (store \<times> int) option" where
  "set_number s i raw =
     (case math s raw of
        None \<Rightarrow> None
      | Some (s, v) \<Rightarrow>
          (case find_variable (numbers s) ''error_level'' of
             None \<Rightarrow> Some (s, - 1)
           | Some k \<Rightarrow>
               (let s = s\<lparr>numbers := set_at (numbers s) k (error_level s)\<rparr> in
                if error_level s = 1 then Some (s, - 1)
                else Some (s\<lparr>numbers := set_at (numbers s) i v\<rparr>, 0))))"

text \<open>
  A new variable.  Its name is part of a line and fits in its row; the row grows when the table is
  full.  The cell of a number variable is set by \<open>set_number\<close>, except when the table has no
  \<open>error_level\<close>, which is created first of all: the 0 stands for that cell.
\<close>

definition create_number_variable :: "store \<Rightarrow> string \<Rightarrow> (store \<times> int) option" where
  "create_number_variable s name =
     (let r = check_variable s name in
      if r \<noteq> 0 then Some (s, r)
      else let s = s\<lparr>numbers := numbers s @ [(name, 0)]\<rparr> in
           case find_variable (numbers s) name of
             None \<Rightarrow> None
           | Some i \<Rightarrow> map_option (\<lambda>(s, _). (s, 0)) (set_number s i ''0''))"

definition create_string_variable :: "store \<Rightarrow> string \<Rightarrow> store \<times> int" where
  "create_string_variable s name =
     (let r = check_variable s name in
      if r \<noteq> 0 then (s, r) else (s\<lparr>strings := strings s @ [(name, [])]\<rparr>, 0))"

text \<open>\<open>set_number_variable_value_ccc\<close> and \<open>set_string_variable_value_ccc\<close>, by the name with its \<open>$\<close>.\<close>

definition set_number_value :: "store \<Rightarrow> string \<Rightarrow> 64 word \<Rightarrow> (store \<times> int) option" where
  "set_number_value s raw v =
     (if drop 1 raw = [] then Some (s, - 1)
      else if check_variable s (drop 1 raw) \<noteq> 1 then Some (s, - 1)
      else (case find_variable (numbers s) (drop 1 raw) of
              None \<Rightarrow> None
            | Some i \<Rightarrow> map_option (\<lambda>(s, r). (s, if r = - 1 then - 1 else 0)) (set_number s i (print_dec (sint v)))))"

definition set_string_value :: "store \<Rightarrow> string \<Rightarrow> string \<Rightarrow> store \<times> int" where
  "set_string_value s raw t =
     (if drop 1 raw = [] then (s, - 1)
      else if check_variable s (drop 1 raw) \<noteq> 2 then (s, - 1)
      else (case find_variable (strings s) (drop 1 raw) of
              None \<Rightarrow> (s, - 1)
            | Some i \<Rightarrow> (s\<lparr>strings := set_at (strings s) i t\<rparr>, 0)))"

end
