(* ===== verification/Script_Commands.thy ===== *)
theory Script_Commands
  imports Script_Store
begin

text \<open>
  The commands of \<open>src/commands.c\<close> that work on the store alone: SETI, SETS and ECHO with their
  variables and quotes, comparisons, the copies between the buffers, WORDFLIP and STRINGTO.  Each has
  the flag \<open>check\<close> (\<open>perform_check\<close>) of the pass that only looks for errors.  The result is the store
  and the value returned; \<open>None\<close> stands for an access outside the memory of a buffer or to a value
  that was never set.
\<close>

section \<open>Comparisons\<close>

definition compare_words :: "string \<Rightarrow> 64 word \<Rightarrow> 64 word \<Rightarrow> bool" where
  "compare_words f a b =
     (if f = ''='' then a = b
      else if f = ''!='' then a \<noteq> b
      else if f = ''>'' then sint b < sint a
      else if f = ''<'' then sint a < sint b
      else if f = ''>='' then sint b \<le> sint a
      else sint a \<le> sint b)"

text \<open>The two sides: the first one decides whether numbers or strings are compared.\<close>

datatype side = Number "64 word" | Text string

definition first_side :: "store \<Rightarrow> string \<Rightarrow> side option" where
  "first_side s p =
     (if take 1 p = ''$'' then
        (case number_value s (drop 1 p) of
           Some v \<Rightarrow> Some (Number v)
         | None \<Rightarrow> map_option Text (string_value s (drop 1 p)))
      else (case strtoll p of (v, rest) \<Rightarrow> Some (if rest = [] then Number v else Text p)))"

definition second_side :: "store \<Rightarrow> string \<Rightarrow> side \<Rightarrow> string \<Rightarrow> side option" where
  "second_side s p first q =
     (case first of
        Number a \<Rightarrow>
          (if take 1 q = ''$'' then map_option Number (number_value s (drop 1 q))
           else (case strtoll q of (v, rest) \<Rightarrow> if rest = [] then Some (Number v) else None))
      | Text t \<Rightarrow>
          (if take 1 q = ''$'' then map_option Text (string_value s (drop 1 q))
           else if take 1 p = ''$'' then Some (Text q) else None))"

definition compare_ccc :: "bool \<Rightarrow> store \<Rightarrow> string \<Rightarrow> int" where
  "compare_ccc check s t =
     (case scan_words t of
        [p, f, q] \<Rightarrow>
          (if f \<notin> {''='', ''!='', ''>'', ''<'', ''>='', ''<=''} then - 1
           else (case first_side s p of
                   None \<Rightarrow> - 1
                 | Some a \<Rightarrow>
                     (case second_side s p a q of
                        None \<Rightarrow> - 1
                      | Some b \<Rightarrow>
                          (case (a, b) of
                             (Text x, Text y) \<Rightarrow>
                               (if f = ''='' then of_bool (\<not> check \<and> x = y)
                                else if f = ''!='' then of_bool (\<not> check \<and> x \<noteq> y) else - 1)
                           | (Number x, Number y) \<Rightarrow> of_bool (\<not> check \<and> compare_words f x y)
                           | _ \<Rightarrow> - 1))))
      | _ \<Rightarrow> - 1)"

section \<open>Quoted text\<close>

definition number_text :: "store \<Rightarrow> 64 word \<Rightarrow> string" where
  "number_text s v = (if print_in_hex s then hex False (unat v) else print_dec (sint v))"

text \<open>
  The loop of ECHO and of SETS over the characters.  \<open>acc\<close> is the text so far.  A quote opens a text
  whose first character is taken as it is, two equal quotes are dropped together with the character
  behind them.  ECHO prints the NUL behind a quote that ends the line (\<open>echo\<close>), and SETS stops when
  the text is longer than 255 characters.
\<close>

definition append_text :: "bool \<Rightarrow> string \<Rightarrow> string \<Rightarrow> string" where
  "append_text check acc t = (if check then acc else acc @ t)"

function quoted :: "bool \<Rightarrow> bool \<Rightarrow> store \<Rightarrow> bool \<Rightarrow> bool \<Rightarrow> string \<Rightarrow> string \<Rightarrow> string \<times> int" where
  "quoted echo check s pr dq acc t =
     (if \<not> echo \<and> 255 < length acc then (acc, - 2)
      else case t of
        [] \<Rightarrow> (acc, 0)
      | c # u \<Rightarrow>
          if \<not> pr then
            if c = CHR ''$'' then
              (case first_word u of
                 None \<Rightarrow> (acc, - 1)
               | Some (w, _) \<Rightarrow>
                   (case number_value s w of
                      Some v \<Rightarrow> quoted echo check s False dq (append_text check acc (number_text s v)) (drop (length w) u)
                    | None \<Rightarrow>
                        (case string_value s w of
                           Some x \<Rightarrow> quoted echo check s False dq (append_text check acc x) (drop (length w) u)
                         | None \<Rightarrow> (acc, - 2))))
            else if (c = CHR 0x22 \<or> c = CHR 0x27) \<and> take 1 u = [c] then quoted echo check s False dq acc (drop 2 u)
            else if c = CHR 0x22 \<or> c = CHR 0x27 then
              quoted echo check s True (c = CHR 0x22)
                (append_text check acc (if u = [] \<and> echo then [CHR 0x00] else take 1 u)) (drop 1 u)
            else if c = CHR '' '' then quoted echo check s False dq acc u
            else (acc, - 2)
          else if c = CHR 0x22 \<and> dq \<or> c = CHR 0x27 \<and> \<not> dq then quoted echo check s False dq acc u
          else quoted echo check s True dq (append_text check acc [c]) u)"
  by pat_completeness auto

termination by (relation "measure (\<lambda>(echo, check, s, pr, dq, acc, t). length t)") auto

declare quoted.simps [simp del]

definition echo_ccc :: "bool \<Rightarrow> store \<Rightarrow> string \<Rightarrow> store \<times> int" where
  "echo_ccc check s t =
     (case quoted True check s False False (printed s) t of
        (out, r) \<Rightarrow>
          if r < 0 then (s\<lparr>printed := out\<rparr>, r) else (s\<lparr>printed := (if check then out else out @ [newline])\<rparr>, 0))"

section \<open>Arguments\<close>

text \<open>An offset or a size: a number variable, or a number that is the whole word.\<close>

definition number_argument :: "store \<Rightarrow> string \<Rightarrow> 64 word option" where
  "number_argument s w =
     (if take 1 w = ''$'' then number_value s (drop 1 w)
      else (case strtoll w of (v, rest) \<Rightarrow> if rest = [] then Some v else None))"

text \<open>Offsets and sizes are kept as \<open>unsigned int\<close>; a sum of two is compared with a limit of 64 bits.\<close>

definition argument32 :: "store \<Rightarrow> string \<Rightarrow> 32 word option" where
  "argument32 s w = map_option ucast (number_argument s w)"

definition past_limit :: "32 word \<Rightarrow> 64 word \<Rightarrow> bool" where
  "past_limit e lim \<longleftrightarrow> lim < ucast e"

text \<open>\<open>sscanf (t, "%s = %[^\n]")\<close>\<close>

definition scan_assignment :: "string \<Rightarrow> (string \<times> string) option" where
  "scan_assignment t =
     (case first_word t of
        None \<Rightarrow> None
      | Some (w, u) \<Rightarrow>
          (case dropWhile is_space u of
             [] \<Rightarrow> None
           | c # v \<Rightarrow> if c = CHR ''='' \<and> line_rest v \<noteq> [] then Some (w, line_rest v) else None))"

section \<open>SETI\<close>

definition little_endian :: "8 word list \<Rightarrow> nat" where
  "little_endian bs = foldr (\<lambda>b n. unat b + 256 * n) bs 0"

definition value_bytes :: "string \<Rightarrow> nat option" where
  "value_bytes t =
     (if t = ''b'' then Some 1 else if t = ''w'' then Some 2 else if t = ''dw'' then Some 4
      else if t = ''qw'' then Some 8 else None)"

text \<open>
  The value of \<open>n\<close> bytes of a buffer as the text that replaces the right side of the assignment.  That
  text is cut to the length of the arguments of the command, \<open>len\<close>, which is the size of the array
  \<open>value\<close>.
\<close>

definition fetch :: "nat \<Rightarrow> 8 word list \<Rightarrow> 32 word \<Rightarrow> nat \<Rightarrow> string option" where
  "fetch len m off n =
     (if unat off + n \<le> length m
      then Some (take len (''0x'' @ hex False (little_endian (take n (drop (unat off) m))))) else None)"

text \<open>
  \<open>buffer\<close>, \<open>usbbuffer\<close> and \<open>scratchpad\<close> on the right side: an offset and the width of the value.
  \<open>lim\<close> is the size the end is compared with, in the second pass only, and the end of the value is
  computed with 32 bits.
\<close>

definition seti_memory :: "bool \<Rightarrow> store \<Rightarrow> nat \<Rightarrow> 8 word list \<Rightarrow> 64 word \<Rightarrow> string \<Rightarrow> string option option" where
  "seti_memory check s len m lim t =
     (let read = (\<lambda>w n. case argument32 s w of
                           None \<Rightarrow> Some None
                         | Some off \<Rightarrow>
                             (if \<not> check \<and> lim \<le> ucast (off + of_nat n - 1) then Some None
                              else map_option Some (fetch len m off n)))
      in case scan_words t of
           [w] \<Rightarrow> read w 1
         | [w, k] \<Rightarrow> (case value_bytes k of None \<Rightarrow> Some None | Some n \<Rightarrow> read w n)
         | _ \<Rightarrow> Some None)"

text \<open>\<open>sensebuffer\<close>: one byte.\<close>

definition seti_sense :: "bool \<Rightarrow> store \<Rightarrow> nat \<Rightarrow> string \<Rightarrow> string option option" where
  "seti_sense check s len t =
     (case scan_words t of
        [w] \<Rightarrow>
          (case argument32 s w of
             None \<Rightarrow> Some None
           | Some off \<Rightarrow>
               (if \<not> check \<and> limit (sense_buffer s) \<le> ucast off then Some None
                else map_option Some (fetch len (memory (sense_buffer s)) off 1)))
      | _ \<Rightarrow> Some None)"

text \<open>
  The right side.  The text behind \<open>usbbuffer\<close> is taken one character too late, which reads behind the
  end of a value that has no other character, and its end is compared with the size of the scratchpad.
\<close>

definition seti_value :: "bool \<Rightarrow> store \<Rightarrow> nat \<Rightarrow> string \<Rightarrow> string option option" where
  "seti_value check s len v =
     (if take 6 v \<in> {''buffer'', ''BUFFER''} then
        seti_memory check s len (memory (main_buffer s)) (limit (main_buffer s)) (drop 6 v)
      else if take 9 v \<in> {''usbbuffer'', ''USBBUFFER''} then
        (if length v < 10 then None
         else seti_memory check s len (memory (usb_buffer s)) (limit (scratchpad s)) (drop 10 v))
      else if take 10 v \<in> {''scratchpad'', ''SCRATCHPAD''} then
        seti_memory check s len (memory (scratchpad s)) (limit (scratchpad s)) (drop 10 v)
      else if take 11 v \<in> {''sensebuffer'', ''SENSEBUFFER''} then seti_sense check s len (drop 11 v)
      else Some (Some v))"

definition seti_ccc :: "bool \<Rightarrow> store \<Rightarrow> string \<Rightarrow> (store \<times> int) option" where
  "seti_ccc check s t =
     (case scan_assignment t of
        None \<Rightarrow> Some (s, - 1)
      | Some (x, v) \<Rightarrow>
          (case seti_value check s (length t) v of
             None \<Rightarrow> None
           | Some None \<Rightarrow> Some (s, - 1)
           | Some (Some v) \<Rightarrow>
               (if take 1 x \<noteq> ''$'' \<or> drop 1 x = [] then Some (s, - 1)
                else (case create_number_variable s (drop 1 x) of
                        None \<Rightarrow> None
                      | Some (s, r) \<Rightarrow>
                          (if r \<noteq> 0 \<and> r \<noteq> 1 then Some (s, - 1)
                           else if check then Some (s, 0)
                           else (case find_variable (numbers s) (drop 1 x) of
                                   None \<Rightarrow> None
                                 | Some i \<Rightarrow> map_option (\<lambda>(s, r). (s, if r = - 1 then - 1 else 0)) (set_number s i v)))))))"

section \<open>SETS\<close>

text \<open>\<open>strncpy\<close> from a buffer: up to a zero byte or \<open>n\<close> bytes.\<close>

definition fetch_text :: "8 word list \<Rightarrow> nat \<Rightarrow> nat \<Rightarrow> string option" where
  "fetch_text m off n =
     (let bs = takeWhile (\<lambda>b. b \<noteq> 0) (take n (drop off m)) in
      if off + n \<le> length m \<or> off + length bs < length m then Some (map (\<lambda>b. char_of (unat b)) bs) else None)"

definition sets_memory :: "bool \<Rightarrow> store \<Rightarrow> buffer \<Rightarrow> string \<Rightarrow> string option option" where
  "sets_memory check s b t =
     (case scan_words t of
        [w, k] \<Rightarrow>
          (case argument32 s w of
             None \<Rightarrow> Some None
           | Some off \<Rightarrow>
               (case argument32 s k of
                  None \<Rightarrow> Some None
                | Some n \<Rightarrow>
                    (if \<not> check \<and> past_limit (n + off) (limit b) then Some None
                     else if 254 < n then Some None
                     else if check then Some (Some [])
                     else map_option Some (fetch_text (memory b) (unat off) (unat n)))))
      | _ \<Rightarrow> Some None)"

definition sets_ccc :: "bool \<Rightarrow> store \<Rightarrow> string \<Rightarrow> (store \<times> int) option" where
  "sets_ccc check s t =
     (case scan_assignment t of
        None \<Rightarrow> Some (s, - 1)
      | Some (x, v) \<Rightarrow>
          (if take 1 x \<noteq> ''$'' \<or> drop 1 x = [] then Some (s, - 1)
           else (case create_string_variable s (drop 1 x) of
                   (s, r) \<Rightarrow>
                     (if r \<noteq> 0 \<and> r \<noteq> 2 then Some (s, - 1)
                      else let assign = (\<lambda>x'. if check then Some (s, 0)
                                     else (case find_variable (strings s) (drop 1 x) of
                                             None \<Rightarrow> None
                                           | Some i \<Rightarrow> Some (s\<lparr>strings := set_at (strings s) i x'\<rparr>, 0)))
                           in if take 6 v \<in> {''buffer'', ''BUFFER''} then
                                (case sets_memory check s (main_buffer s) (drop 6 v) of
                                   None \<Rightarrow> None | Some None \<Rightarrow> Some (s, - 1) | Some (Some x') \<Rightarrow> assign x')
                              else if take 6 v \<in> {''scratc'', ''SCRATC''} then
                                (if length v < 10 then None
                                 else (case sets_memory check s (scratchpad s) (drop 10 v) of
                                         None \<Rightarrow> None | Some None \<Rightarrow> Some (s, - 1) | Some (Some x') \<Rightarrow> assign x'))
                              else (case quoted False check s False False [] v of
                                      (x', r) \<Rightarrow> if r < 0 then Some (s, r) else assign x')))))"

text \<open>VARIABLECHECK: the kind of a variable, and whether it was given on the command line.\<close>

definition check_arguments :: "store \<Rightarrow> string list \<Rightarrow> string \<Rightarrow> int" where
  "check_arguments s args name =
     of_bool (strings s \<noteq> [] \<and> (\<exists>a\<in>set args. CHR ''='' \<in> set a \<and> takeWhile (\<lambda>c. c \<noteq> CHR ''='') a = name))"

definition variable_check_ccc :: "string list \<Rightarrow> bool \<Rightarrow> store \<Rightarrow> string \<Rightarrow> store \<times> int" where
  "variable_check_ccc args check s t =
     (case scan_words t of
        [x] \<Rightarrow>
          (if take 1 x \<noteq> ''$'' \<or> drop 1 x = [] then (s, - 1)
           else (case find_variable (numbers s) ''error_level'' of
                   None \<Rightarrow> (s, - 1)
                 | Some k \<Rightarrow>
                     (if check then (s, 0)
                      else (s\<lparr>numbers := set_at (numbers s) k
                              (word_of_int (check_variable s (drop 1 x) + 16 * check_arguments s args (drop 1 x)))\<rparr>, 0))))
      | _ \<Rightarrow> (s, - 1))"

text \<open>EXIT with its code.\<close>

definition exit_with_code_ccc :: "bool \<Rightarrow> store \<Rightarrow> string \<Rightarrow> store \<times> int" where
  "exit_with_code_ccc check s t =
     (case scan_words t of
        [w] \<Rightarrow> (case number_argument s w of
                  None \<Rightarrow> (s, - 1)
                | Some v \<Rightarrow> if check then (s, 0) else (s\<lparr>exit_code := ucast v\<rparr>, - 101))
      | _ \<Rightarrow> (s, - 1))"

end
