(* ===== verification/Script_Buffers.thy ===== *)
theory Script_Buffers
  imports Script_Commands
begin

text \<open>
  The commands of \<open>src/commands.c\<close> that move bytes between the three buffers of a script: the copies,
  WORDFLIP and STRINGTO.  Offsets and sizes are \<open>unsigned int\<close>, so their sum, which is compared with the
  size of a buffer, wraps at \<open>2 ^ 32\<close>.
\<close>

datatype place = Main | Scratch | Usb

fun buffer_at :: "place \<Rightarrow> store \<Rightarrow> buffer" where
  "buffer_at Main s = main_buffer s"
| "buffer_at Scratch s = scratchpad s"
| "buffer_at Usb s = usb_buffer s"

definition set_memory :: "place \<Rightarrow> 8 word list \<Rightarrow> store \<Rightarrow> store" where
  "set_memory p m s =
     (case p of
        Main \<Rightarrow> s\<lparr>main_buffer := (main_buffer s)\<lparr>memory := m\<rparr>\<rparr>
      | Scratch \<Rightarrow> s\<lparr>scratchpad := (scratchpad s)\<lparr>memory := m\<rparr>\<rparr>
      | Usb \<Rightarrow> s\<lparr>usb_buffer := (usb_buffer s)\<lparr>memory := m\<rparr>\<rparr>)"

definition write_bytes :: "8 word list \<Rightarrow> nat \<Rightarrow> 8 word list \<Rightarrow> 8 word list option" where
  "write_bytes m off bs = (if off + length bs \<le> length m then Some (take off m @ bs @ drop (off + length bs) m) else None)"

definition read_bytes :: "8 word list \<Rightarrow> nat \<Rightarrow> nat \<Rightarrow> 8 word list option" where
  "read_bytes m off n = (if off + n \<le> length m then Some (take n (drop off m)) else None)"

section \<open>Copies\<close>

text \<open>\<open>COPY...TO...\<close> with the offset in the source, the offset in the target and the size.\<close>

definition copy_bytes :: "place \<Rightarrow> place \<Rightarrow> bool \<Rightarrow> store \<Rightarrow> string \<Rightarrow> (store \<times> int) option" where
  "copy_bytes src dst check s t =
     (case scan_words t of
        [a, b, c] \<Rightarrow>
          (case (argument32 s a, argument32 s b, argument32 s c) of
             (Some i, Some j, Some n) \<Rightarrow>
               (if check then Some (s, 0)
                else if past_limit (n + i) (limit (buffer_at src s)) \<or> past_limit (n + j) (limit (buffer_at dst s)) then Some (s, - 1)
                else (case read_bytes (memory (buffer_at src s)) (unat i) (unat n) of
                        None \<Rightarrow> None
                      | Some bs \<Rightarrow> map_option (\<lambda>m. (set_memory dst m s, 0)) (write_bytes (memory (buffer_at dst s)) (unat j) bs)))
           | _ \<Rightarrow> Some (s, - 1))
      | _ \<Rightarrow> Some (s, - 1))"

definition copy_buffer_to_scratch_ccc :: "bool \<Rightarrow> store \<Rightarrow> string \<Rightarrow> (store \<times> int) option" where
  "copy_buffer_to_scratch_ccc = copy_bytes Main Scratch"

definition copy_scratch_to_buffer_ccc :: "bool \<Rightarrow> store \<Rightarrow> string \<Rightarrow> (store \<times> int) option" where
  "copy_scratch_to_buffer_ccc = copy_bytes Scratch Main"

definition copy_usbbuffer_to_buffer_ccc :: "bool \<Rightarrow> store \<Rightarrow> string \<Rightarrow> (store \<times> int) option" where
  "copy_usbbuffer_to_buffer_ccc = copy_bytes Usb Main"

definition copy_buffer_to_usbbuffer_ccc :: "bool \<Rightarrow> store \<Rightarrow> string \<Rightarrow> (store \<times> int) option" where
  "copy_buffer_to_usbbuffer_ccc = copy_bytes Main Usb"

definition copy_usbbuffer_to_scratch_ccc :: "bool \<Rightarrow> store \<Rightarrow> string \<Rightarrow> (store \<times> int) option" where
  "copy_usbbuffer_to_scratch_ccc = copy_bytes Usb Scratch"

definition copy_scratch_to_usbbuffer_ccc :: "bool \<Rightarrow> store \<Rightarrow> string \<Rightarrow> (store \<times> int) option" where
  "copy_scratch_to_usbbuffer_ccc = copy_bytes Scratch Usb"

section \<open>WORDFLIP\<close>

text \<open>
  The loop: pairs of bytes from \<open>i\<close> on, while \<open>i\<close> is below \<open>n\<close>, which is the size less one as an
  \<open>unsigned int\<close>: \<open>2 ^ 32 - 1\<close> for the size 0.
\<close>

function flip_words :: "nat \<Rightarrow> nat \<Rightarrow> nat \<Rightarrow> 8 word list \<Rightarrow> 8 word list option" where
  "flip_words n off i m =
     (if i < n then
        (if off + i + 1 < length m
         then flip_words n off (i + 2) (m[off + i := m ! (off + i + 1), off + i + 1 := m ! (off + i)]) else None)
      else Some m)"
  by pat_completeness auto

termination by (relation "measure (\<lambda>(n, off, i, m). n - i)") auto

declare flip_words.simps [simp del]

definition wordflip :: "place \<Rightarrow> bool \<Rightarrow> store \<Rightarrow> string \<Rightarrow> (store \<times> int) option" where
  "wordflip p check s t =
     (case scan_words t of
        [a, b] \<Rightarrow>
          (case (argument32 s a, argument32 s b) of
             (Some off, Some n) \<Rightarrow>
               (if past_limit (n + off) (limit (buffer_at p s)) then Some (s, - 1)
                else if check then Some (s, 0)
                else map_option (\<lambda>m. (set_memory p m s, 0)) (flip_words (unat (n - 1)) (unat off) 0 (memory (buffer_at p s))))
           | _ \<Rightarrow> Some (s, - 1))
      | _ \<Rightarrow> Some (s, - 1))"

definition wordflip_buffer_ccc :: "bool \<Rightarrow> store \<Rightarrow> string \<Rightarrow> (store \<times> int) option" where
  "wordflip_buffer_ccc = wordflip Main"

definition wordflip_scratchpad_ccc :: "bool \<Rightarrow> store \<Rightarrow> string \<Rightarrow> (store \<times> int) option" where
  "wordflip_scratchpad_ccc = wordflip Scratch"

definition wordflip_usbbuffer_ccc :: "bool \<Rightarrow> store \<Rightarrow> string \<Rightarrow> (store \<times> int) option" where
  "wordflip_usbbuffer_ccc = wordflip Usb"

section \<open>STRINGTO\<close>

text \<open>An offset, a size and the name of a string variable, which is copied into 64 characters.\<close>

definition string_to :: "place \<Rightarrow> bool \<Rightarrow> store \<Rightarrow> string \<Rightarrow> (store \<times> int) option" where
  "string_to p check s t =
     (case scan_words t of
        [a, b, x] \<Rightarrow>
          (case (argument32 s a, argument32 s b) of
             (Some off, Some n) \<Rightarrow>
               (if take 1 x \<noteq> ''$'' then Some (s, - 1)
                else if drop 1 x = [] \<or> 64 \<le> length (drop 1 x) then None
                else (case string_value s (drop 1 x) of
                        None \<Rightarrow> Some (s, - 1)
                      | Some text \<Rightarrow>
                          (if past_limit (n + off) (limit (buffer_at p s)) then Some (s, - 1)
                           else if check then Some (s, 0)
                           else map_option (\<lambda>m. (set_memory p m s, 0))
                                  (write_bytes (memory (buffer_at p s)) (unat off) (map of_char (take (unat n) text))))))
           | _ \<Rightarrow> Some (s, - 1))
      | _ \<Rightarrow> Some (s, - 1))"

definition string_to_buffer_ccc :: "bool \<Rightarrow> store \<Rightarrow> string \<Rightarrow> (store \<times> int) option" where
  "string_to_buffer_ccc = string_to Main"

definition string_to_scratchpad_ccc :: "bool \<Rightarrow> store \<Rightarrow> string \<Rightarrow> (store \<times> int) option" where
  "string_to_scratchpad_ccc = string_to Scratch"

definition string_to_usbbuffer_ccc :: "bool \<Rightarrow> store \<Rightarrow> string \<Rightarrow> (store \<times> int) option" where
  "string_to_usbbuffer_ccc = string_to Usb"

end
