(* ===== verification/Script_Flow.thy ===== *)
theory Script_Flow
  imports Script_Scan Script_Buffers
begin

text \<open>
  The control commands of a tool script (\<open>src/commands.c\<close>) and the loops that check and run a script
  (\<open>process_lines_ccc\<close> of \<open>src/tool.c\<close>).  IF, WHILE and GOSUB keep their lines on three stacks, which
  are arrays of 256 entries with a counter each; an access outside them has the result \<open>None\<close>.  A
  command returns 0 to go on with the next line, a positive number to go on behind that line, and a
  negative number to stop.
\<close>

record script_state =
  data :: store
  sub_lines :: "nat \<Rightarrow> nat"
  sub_whiles :: "nat \<Rightarrow> int"
  sub_endifs :: "nat \<Rightarrow> int"
  sub_count :: int
  endif_lines :: "nat \<Rightarrow> nat"
  conditions :: "nat \<Rightarrow> bool"
  endif_count :: int
  while_lines :: "nat \<Rightarrow> nat"
  while_endifs :: "nat \<Rightarrow> int"
  done_lines :: "nat \<Rightarrow> nat"
  while_conds :: "nat \<Rightarrow> bool"
  while_count :: int
  sub_checks :: int
  return_checks :: int
  if_level :: int
  while_level :: int

definition in_stack :: "int \<Rightarrow> bool" where
  "in_stack k \<longleftrightarrow> 0 \<le> k \<and> k < 256"

type_synonym command_outcome = "(script_state \<times> int) option"

section \<open>Subroutines\<close>

text \<open>The level is tested after the entry is written, so the entry with index 256 is lost first.\<close>

definition gosub_ccc :: "bool \<Rightarrow> script \<Rightarrow> script_state \<Rightarrow> nat \<Rightarrow> string \<Rightarrow> command_outcome" where
  "gosub_ccc check ls st n t =
     (case first_word t of
        None \<Rightarrow> Some (st, - 1)
      | Some (name, _) \<Rightarrow>
          (case find_subroutine ls name 0 of
             None \<Rightarrow> Some (st, - 1)
           | Some i \<Rightarrow>
               (if i = 0 then Some (st, - 1)
                else if check then Some (st, if find_subroutine ls name (i + 1) \<noteq> None then - 1 else 0)
                else if \<not> in_stack (sub_count st) then None
                else let k = nat (sub_count st) in
                     Some (st\<lparr>sub_lines := (sub_lines st)(k := n), sub_whiles := (sub_whiles st)(k := while_count st),
                              sub_endifs := (sub_endifs st)(k := endif_count st), sub_count := sub_count st + 1\<rparr>, int i))))"

definition subroutine_ccc :: "bool \<Rightarrow> script \<Rightarrow> script_state \<Rightarrow> nat \<Rightarrow> command_outcome" where
  "subroutine_ccc check ls st n =
     (let st = (if check then st\<lparr>sub_checks := sub_checks st + 1\<rparr> else st) in
      if check \<and> sub_checks st \<noteq> return_checks st + 1 then Some (st, - 1)
      else (case find_command ''endsubroutine'' ls (n + 1) of
              None \<Rightarrow> Some (st, - 1)
            | Some i \<Rightarrow> Some (st, if check then 0 else int i)))"

definition endsubroutine_ccc :: "bool \<Rightarrow> script_state \<Rightarrow> command_outcome" where
  "endsubroutine_ccc check st =
     (if check then
        (let st = st\<lparr>return_checks := return_checks st + 1\<rparr> in
         Some (st, if return_checks st \<noteq> sub_checks st then - 1 else 0))
      else let st = st\<lparr>sub_count := sub_count st - 1\<rparr> in
           if sub_count st < 0 then Some (st, - 1)
           else if \<not> in_stack (sub_count st) then None
           else Some (st, int (sub_lines st (nat (sub_count st)))))"

definition returnsub_ccc :: "bool \<Rightarrow> script_state \<Rightarrow> command_outcome" where
  "returnsub_ccc check st =
     (if check then Some (st, if sub_checks st < 1 then - 1 else 0)
      else let st = st\<lparr>sub_count := sub_count st - 1\<rparr>; k = nat (sub_count st) in
           if sub_count st < 0 then Some (st, - 1)
           else if \<not> in_stack (sub_count st) then None
           else Some (st\<lparr>while_count := sub_whiles st k, endif_count := sub_endifs st k\<rparr>, int (sub_lines st k)))"

section \<open>IF\<close>

definition ifstate_ccc :: "bool \<Rightarrow> script \<Rightarrow> script_state \<Rightarrow> nat \<Rightarrow> string \<Rightarrow> command_outcome" where
  "ifstate_ccc check ls st n t =
     (case next_statement (match_if ls n 1 None None) of
        None \<Rightarrow> Some (st, - 1)
      | Some (i, endif) \<Rightarrow>
          (let st = (if check then st\<lparr>if_level := if_level st + 1\<rparr> else st);
               r = compare_ccc check (data st) t; k = nat (endif_count st)
           in if r < 0 then Some (st, - 1)
              else if check then Some (st, 0)
              else if \<not> in_stack (endif_count st) then None
              else Some (st\<lparr>endif_lines := (endif_lines st)(k := endif), conditions := (conditions st)(k := r = 1),
                            endif_count := endif_count st + 1\<rparr>, if r = 0 then int i - 1 else 0)))"

definition endif_ccc :: "bool \<Rightarrow> script_state \<Rightarrow> command_outcome" where
  "endif_ccc check st =
     (if check then
        (let st = st\<lparr>if_level := if_level st - 1\<rparr> in Some (st, if if_level st < 0 then - 1 else 0))
      else let st = st\<lparr>endif_count := endif_count st - 1\<rparr> in Some (st, if endif_count st < 0 then - 1 else 0))"

definition elsestate_ccc :: "bool \<Rightarrow> script_state \<Rightarrow> string \<Rightarrow> command_outcome" where
  "elsestate_ccc check st t =
     (let k = nat (endif_count st - 1) in
      if first_word t \<noteq> None then Some (st, - 1)
      else if check then Some (st, if if_level st < 1 then - 1 else 0)
      else if endif_count st < 1 then Some (st, - 1)
      else if \<not> in_stack (endif_count st - 1) then None
      else Some (st, if conditions st k then int (endif_lines st k) - 1 else 0))"

text \<open>
  ELSEIF in the first pass returns before anything but the level is looked at, as long as the stack of
  open IF commands is empty.  In the second pass it clears the entry above its own.
\<close>

definition elseif_ccc :: "bool \<Rightarrow> script \<Rightarrow> script_state \<Rightarrow> nat \<Rightarrow> string \<Rightarrow> command_outcome" where
  "elseif_ccc check ls st n t =
     (let k = nat (endif_count st - 1) in
      if check \<and> if_level st < 1 then Some (st, - 1)
      else if \<not> check \<and> endif_count st < 1 then Some (st, - 1)
      else if endif_count st < 1 then Some (st, 0)
      else if \<not> in_stack (endif_count st - 1) then None
      else if conditions st k then Some (st, int (endif_lines st k) - 1)
      else (case next_statement (match_elseif ls n 1 None None) of
              None \<Rightarrow> Some (st, - 1)
            | Some (i, endif) \<Rightarrow>
                (let r = compare_ccc check (data st) t in
                 if r < 0 then Some (st, - 1)
                 else if check then Some (st, 0)
                 else if \<not> in_stack (endif_count st) then None
                 else Some (st\<lparr>conditions := (conditions st)(Suc k := False, k := r = 1)\<rparr>, if r = 0 then int i - 1 else 0))))"

section \<open>WHILE\<close>

text \<open>
  A WHILE whose line is on top of the stack with a true condition goes on with that loop; any other
  starts a new one.
\<close>

definition dowhile_ccc :: "bool \<Rightarrow> script \<Rightarrow> script_state \<Rightarrow> nat \<Rightarrow> string \<Rightarrow> command_outcome" where
  "dowhile_ccc check ls st n t =
     (let k = nat (while_count st - 1); r = compare_ccc check (data st) t in
      if \<not> check \<and> 0 < while_count st \<and> \<not> in_stack (while_count st - 1) then None
      else if \<not> check \<and> 0 < while_count st \<and> while_conds st k \<and> while_lines st k = n then
        (if r < 0 then Some (st, - 1)
         else if r = 0 then
           Some (st\<lparr>while_conds := (while_conds st)(k := False), while_count := while_count st - 1\<rparr>, int (done_lines st k))
         else Some (st, 0))
      else (case match_while ls n 1 of
              None \<Rightarrow> Some (st, - 1)
            | Some d \<Rightarrow>
                (let st = (if check then st\<lparr>while_level := while_level st + 1\<rparr> else st); j = nat (while_count st) in
                 if r < 0 then Some (st, - 1)
                 else if check then Some (st, 0)
                 else if \<not> in_stack (while_count st) then None
                 else Some (st\<lparr>done_lines := (done_lines st)(j := d), while_lines := (while_lines st)(j := n),
                               while_conds := (while_conds st)(j := r = 1),
                               while_endifs := (while_endifs st)(j := endif_count st),
                               while_count := while_count st + 1\<rparr>, if r = 0 then int d - 1 else 0))))"

definition done_ccc :: "bool \<Rightarrow> script_state \<Rightarrow> command_outcome" where
  "done_ccc check st =
     (if check then
        (let st = st\<lparr>while_level := while_level st - 1\<rparr> in Some (st, if while_level st < 0 then - 1 else 0))
      else let k = nat (while_count st - 1) in
           if \<not> in_stack (while_count st - 1) then None
           else if while_conds st k then Some (st, int (while_lines st k) - 1)
           else Some (st\<lparr>while_count := while_count st - 1\<rparr>, 0))"

definition dobreak_ccc :: "bool \<Rightarrow> script_state \<Rightarrow> command_outcome" where
  "dobreak_ccc check st =
     (if check then Some (st, if while_level st < 1 then - 1 else 0)
      else let st = st\<lparr>while_count := while_count st - 1\<rparr>; k = nat (while_count st) in
           if while_count st < 0 then Some (st, - 1)
           else if \<not> in_stack (while_count st) then None
           else Some (st\<lparr>endif_count := while_endifs st k\<rparr>, int (done_lines st k)))"

section \<open>One line\<close>

text \<open>
  The commands that change the store only.  Those that reach the device, other files, the user or the
  bytes of a data block are the parameter \<open>other\<close>, which also has the answer for a word that is no
  command at all.
\<close>

type_synonym other_commands = "bool \<Rightarrow> store \<Rightarrow> string \<Rightarrow> string \<Rightarrow> (store \<times> int) option"

definition clear_memory :: "place \<Rightarrow> store \<Rightarrow> (store \<times> int) option" where
  "clear_memory p s =
     (let b = buffer_at p s; n = unat (limit b) in
      if n \<le> length (memory b) then Some (set_memory p (replicate n 0 @ drop n (memory b)) s, 0) else None)"

definition store_command :: "other_commands \<Rightarrow> string list \<Rightarrow> bool \<Rightarrow> store \<Rightarrow> string \<Rightarrow> string \<Rightarrow> (store \<times> int) option" where
  "store_command other args check s c t =
     (if take 1 c = ''#'' then Some (s, 0)
      else if same_nocase c ''echo'' then Some (echo_ccc check s t)
      else if same_nocase c ''seti'' then seti_ccc check s t
      else if same_nocase c ''sets'' then sets_ccc check s t
      else if same_nocase c ''exit'' then Some (exit_with_code_ccc check s t)
      else if same_nocase c ''end'' then Some (s, - 100)
      else if same_nocase c ''hex'' then Some (if check then s else s\<lparr>print_in_hex := True\<rparr>, 0)
      else if same_nocase c ''decimal'' then Some (if check then s else s\<lparr>print_in_hex := False\<rparr>, 0)
      else if same_nocase c ''clearbuffer'' then clear_memory Main s
      else if same_nocase c ''stringtobuffer'' then string_to_buffer_ccc check s t
      else if same_nocase c ''stringtoscratchpad'' then string_to_scratchpad_ccc check s t
      else if same_nocase c ''wordflipscratchpad'' then wordflip_scratchpad_ccc check s t
      else if same_nocase c ''wordflipbuffer'' then wordflip_buffer_ccc check s t
      else if same_nocase c ''clearscratchpad'' then clear_memory Scratch s
      else if same_nocase c ''copyscratchpadtobuffer'' then copy_scratch_to_buffer_ccc check s t
      else if same_nocase c ''copybuffertoscratchpad'' then copy_buffer_to_scratch_ccc check s t
      else if same_nocase c ''variablecheck'' then Some (variable_check_ccc args check s t)
      else if same_nocase c ''clearusbbuffer'' then clear_memory Usb s
      else if same_nocase c ''stringtousbbuffer'' then string_to_usbbuffer_ccc check s t
      else if same_nocase c ''wordflipusbbuffer'' then wordflip_usbbuffer_ccc check s t
      else if same_nocase c ''copyusbtobuffer'' then copy_usbbuffer_to_buffer_ccc check s t
      else if same_nocase c ''copybuffertousb'' then copy_buffer_to_usbbuffer_ccc check s t
      else if same_nocase c ''copyusbtoscratchpad'' then copy_usbbuffer_to_scratch_ccc check s t
      else if same_nocase c ''copyscratchpadtousb'' then copy_scratch_to_usbbuffer_ccc check s t
      else other check s c t)"

definition execute_line :: "other_commands \<Rightarrow> string list \<Rightarrow> bool \<Rightarrow> script \<Rightarrow> script_state \<Rightarrow> nat \<Rightarrow> string \<Rightarrow> string \<Rightarrow> command_outcome" where
  "execute_line other args check ls st n c t =
     (if same_nocase c ''gosub'' then gosub_ccc check ls st n t
      else if same_nocase c ''subroutine'' then subroutine_ccc check ls st n
      else if same_nocase c ''endsubroutine'' then endsubroutine_ccc check st
      else if same_nocase c ''returnsub'' then returnsub_ccc check st
      else if same_nocase c ''if'' then ifstate_ccc check ls st n t
      else if same_nocase c ''endif'' then endif_ccc check st
      else if same_nocase c ''else'' then elsestate_ccc check st t
      else if same_nocase c ''elseif'' then elseif_ccc check ls st n t
      else if same_nocase c ''while'' then dowhile_ccc check ls st n t
      else if same_nocase c ''done'' then done_ccc check st
      else if same_nocase c ''break'' then dobreak_ccc check st
      else map_option (\<lambda>(s, r). (st\<lparr>data := s\<rparr>, r)) (store_command other args check (data st) c t))"

section \<open>Checking and running\<close>

text \<open>How a run ends: the script stopped by itself with a value, memory was left, or the fuel was too small.\<close>

datatype final = Ended int script_state | Undefined | Running

fun final_state :: "final \<Rightarrow> script_state option" where
  "final_state (Ended r st) = Some st"
| "final_state Undefined = None"
| "final_state Running = None"

text \<open>The first loop of \<open>process_lines_ccc\<close>, from line \<open>n\<close> on.\<close>

function check_script :: "other_commands \<Rightarrow> string list \<Rightarrow> script \<Rightarrow> nat \<Rightarrow> script_state \<Rightarrow> final" where
  "check_script other args ls n st =
     (if n < length ls then
        (case scan_split (ls ! n) of
           None \<Rightarrow> check_script other args ls (n + 1) st
         | Some (c, t) \<Rightarrow>
             (case execute_line other args True ls st n c t of
                None \<Rightarrow> Undefined
              | Some (st, r) \<Rightarrow> if r < 0 \<and> - 100 < r then Ended r st else check_script other args ls (n + 1) st))
      else Ended 0 st)"
  by pat_completeness auto

termination by (relation "measure (\<lambda>(other, args, ls, n, st). length ls - n)") auto

declare check_script.simps [simp del]

text \<open>The second loop.  After a positive value \<open>r\<close> the next line is \<open>r + 1\<close>.\<close>

fun run_lines :: "nat \<Rightarrow> other_commands \<Rightarrow> string list \<Rightarrow> script \<Rightarrow> nat \<Rightarrow> script_state \<Rightarrow> final" where
  "run_lines 0 other args ls n st = Running"
| "run_lines (Suc fuel) other args ls n st =
     (if n < length ls then
        (case scan_split (ls ! n) of
           None \<Rightarrow> run_lines fuel other args ls (n + 1) st
         | Some (c, t) \<Rightarrow>
             (case execute_line other args False ls st n c t of
                None \<Rightarrow> Undefined
              | Some (st, r) \<Rightarrow>
                  if r < 0 then Ended r st
                  else run_lines fuel other args ls (if 0 < r then nat r + 1 else n + 1) st))
      else Ended 0 st)"

text \<open>
  \<open>process_lines_ccc\<close> for a script that is both checked and run: 0 at its end, 1 for LOADSCRIPT, and
  \<open>exit (1)\<close> after an error.  The run starts with buffers of 512 bytes; the disk could be opened.
\<close>

datatype ending = Script_end | Load_script | Exit_failure

definition ending_of :: "int \<Rightarrow> ending" where
  "ending_of r =
     (if r = - 200 then Load_script else if r \<in> {- 102, - 101, - 100, 0} then Script_end else Exit_failure)"

definition begin_run :: "script_state \<Rightarrow> script_state" where
  "begin_run st =
     st\<lparr>data := (data st)\<lparr>main_buffer := (main_buffer (data st))\<lparr>limit := 512\<rparr>,
                           scratchpad := \<lparr>memory = replicate 512 0, limit = 512\<rparr>\<rparr>\<rparr>"

definition process_lines :: "nat \<Rightarrow> other_commands \<Rightarrow> string list \<Rightarrow> script \<Rightarrow> script_state \<Rightarrow> (ending \<times> script_state) option" where
  "process_lines fuel other args ls st =
     (let st = st\<lparr>data := (data st)\<lparr>print_in_hex := False\<rparr>, if_level := 0\<rparr> in
      case check_script other args ls 0 st of
        Ended r st \<Rightarrow>
          (if r \<noteq> 0 \<or> if_level st \<noteq> 0 \<or> while_level st \<noteq> 0 then Some (Exit_failure, st)
           else (case run_lines fuel other args ls 0 (begin_run st) of
                   Ended r st \<Rightarrow> Some (ending_of r, st)
                 | _ \<Rightarrow> None))
      | _ \<Rightarrow> None)"

end
