(* ===== verification/Script_Code.thy ===== *)
theory Script_Code
  imports Script_Flow
begin

text \<open>
  Scripts as their authors mean them: blocks, alternatives, loops and subroutines.  A \<open>code\<close> keeps the
  lines it is written with, so \<open>lines_of\<close> gives back the script, and \<open>meaning\<close> says what it does
  without line numbers, searches or stacks.  The walks that find the parts of an IF and of a WHILE
  are computed on such scripts here.
\<close>

section \<open>Structured scripts\<close>

datatype code =
    Empty
  | Plain string
  | Seq code code
  | Cond string code tail
  | Loop string code string
  | Call string
  | Break string
  | Return string
and tail =
    Endif string
  | Else string code string
  | Elseif string code tail

text \<open>A script is its main code in several pieces, with subroutines between them.\<close>

datatype item = Main_code code | Routine string code string

primrec lines_of :: "code \<Rightarrow> script" and tail_lines :: "tail \<Rightarrow> script" where
  "lines_of Empty = []"
| "lines_of (Plain l) = [l]"
| "lines_of (Seq c d) = lines_of c @ lines_of d"
| "lines_of (Cond l c t) = l # lines_of c @ tail_lines t"
| "lines_of (Loop l c d) = l # lines_of c @ [d]"
| "lines_of (Call l) = [l]"
| "lines_of (Break l) = [l]"
| "lines_of (Return l) = [l]"
| "tail_lines (Endif l) = [l]"
| "tail_lines (Else l c d) = l # lines_of c @ [d]"
| "tail_lines (Elseif l c t) = l # lines_of c @ tail_lines t"

primrec item_lines :: "item \<Rightarrow> script" where
  "item_lines (Main_code c) = lines_of c"
| "item_lines (Routine l c d) = l # lines_of c @ [d]"

definition program_lines :: "item list \<Rightarrow> script" where
  "program_lines items = concat (map item_lines items)"

text \<open>The lines have the commands their places ask for.\<close>

definition control_words :: "string list" where
  "control_words = [''if'', ''endif'', ''else'', ''elseif'', ''while'', ''done'', ''gosub'', ''subroutine'',
     ''endsubroutine'', ''returnsub'', ''break'']"

definition plain_line :: "string \<Rightarrow> bool" where
  "plain_line l \<longleftrightarrow> (\<forall>k\<in>set control_words. \<not> has_command k l)"

primrec well_formed :: "code \<Rightarrow> bool" and well_formed_tail :: "tail \<Rightarrow> bool" where
  "well_formed Empty = True"
| "well_formed (Plain l) = plain_line l"
| "well_formed (Seq c d) = (well_formed c \<and> well_formed d)"
| "well_formed (Cond l c t) = (has_command ''if'' l \<and> well_formed c \<and> well_formed_tail t)"
| "well_formed (Loop l c d) = (has_command ''while'' l \<and> well_formed c \<and> has_command ''done'' d)"
| "well_formed (Call l) = has_command ''gosub'' l"
| "well_formed (Break l) = has_command ''break'' l"
| "well_formed (Return l) = has_command ''returnsub'' l"
| "well_formed_tail (Endif l) = has_command ''endif'' l"
| "well_formed_tail (Else l c d) = (has_command ''else'' l \<and> length (scan_words l) = 1 \<and> well_formed c \<and> has_command ''endif'' d)"
| "well_formed_tail (Elseif l c t) = (has_command ''elseif'' l \<and> well_formed c \<and> well_formed_tail t)"

primrec well_formed_item :: "item \<Rightarrow> bool" where
  "well_formed_item (Main_code c) = well_formed c"
| "well_formed_item (Routine l c d) = (has_command ''subroutine'' l \<and> well_formed c \<and> has_command ''endsubroutine'' d)"

section \<open>Meaning\<close>

text \<open>The arguments of a line, as the run reads them.\<close>

definition arguments :: "string \<Rightarrow> string" where
  "arguments l = (case scan_split l of None \<Rightarrow> [] | Some (c, t) \<Rightarrow> t)"

definition subroutine_name :: "string \<Rightarrow> string option" where
  "subroutine_name l =
     (case scan_words l of
        c # f # _ \<Rightarrow> if c = ''subroutine'' \<or> c = ''SUBROUTINE'' then Some f else None
      | _ \<Rightarrow> None)"

fun routine :: "item list \<Rightarrow> string \<Rightarrow> code option" where
  "routine [] f = None"
| "routine (Main_code c # items) f = routine items f"
| "routine (Routine l c d # items) f = (if subroutine_name l = Some f then Some c else routine items f)"

text \<open>A command of a plain line; nothing happens on a blank one.\<close>

definition plain_step :: "other_commands \<Rightarrow> string list \<Rightarrow> store \<Rightarrow> string \<Rightarrow> (store \<times> int) option" where
  "plain_step other args s l =
     (case scan_split l of None \<Rightarrow> Some (s, 0) | Some (c, t) \<Rightarrow> store_command other args False s c t)"

datatype signal = Done | Broken | Returned | Stopped int

text \<open>
  \<open>meaning other args items A w i (c, s) (g, s')\<close>: the code \<open>c\<close>, started with the store \<open>s\<close> inside \<open>w\<close>
  loops and \<open>i\<close> alternatives and with the subroutines \<open>A\<close> entered and not left, ends with the store
  \<open>s'\<close> as \<open>g\<close> says.  There are 256 places for open loops, alternatives and calls.  A subroutine that is
  entered a second time before it is left has no meaning here.
\<close>

inductive meaning :: "other_commands \<Rightarrow> string list \<Rightarrow> item list \<Rightarrow> string list \<Rightarrow> nat \<Rightarrow> nat \<Rightarrow> code \<times> store \<Rightarrow> signal \<times> store \<Rightarrow> bool"
  and tail_meaning :: "other_commands \<Rightarrow> string list \<Rightarrow> item list \<Rightarrow> string list \<Rightarrow> nat \<Rightarrow> nat \<Rightarrow> tail \<times> store \<Rightarrow> signal \<times> store \<Rightarrow> bool"
  and loop_meaning :: "other_commands \<Rightarrow> string list \<Rightarrow> item list \<Rightarrow> string list \<Rightarrow> nat \<Rightarrow> nat \<Rightarrow> string \<times> code \<times> store \<Rightarrow> signal \<times> store \<Rightarrow> bool"
  for other args items where
  Empty: "meaning other args items A w i (Empty, s) (Done, s)"
| Plain: "plain_step other args s l = Some (s', 0) \<Longrightarrow> meaning other args items A w i (Plain l, s) (Done, s')"
| Plain_stop: "plain_step other args s l = Some (s', r) \<Longrightarrow> r < 0 \<Longrightarrow> meaning other args items A w i (Plain l, s) (Stopped r, s')"
| Seq: "meaning other args items A w i (c, s) (Done, s1) \<Longrightarrow> meaning other args items A w i (d, s1) r \<Longrightarrow>
    meaning other args items A w i (Seq c d, s) r"
| Seq_left: "meaning other args items A w i (c, s) (g, s1) \<Longrightarrow> g \<noteq> Done \<Longrightarrow> meaning other args items A w i (Seq c d, s) (g, s1)"
| Cond_error: "compare_ccc False s (arguments l) < 0 \<Longrightarrow> meaning other args items A w i (Cond l c t, s) (Stopped (- 1), s)"
| Cond_true: "compare_ccc False s (arguments l) = 1 \<Longrightarrow> i < 256 \<Longrightarrow> meaning other args items A w (Suc i) (c, s) r \<Longrightarrow>
    meaning other args items A w i (Cond l c t, s) r"
| Cond_false: "compare_ccc False s (arguments l) = 0 \<Longrightarrow> i < 256 \<Longrightarrow> tail_meaning other args items A w (Suc i) (t, s) r \<Longrightarrow>
    meaning other args items A w i (Cond l c t, s) r"
| Endif: "tail_meaning other args items A w i (Endif l, s) (Done, s)"
| Else: "meaning other args items A w i (c, s) r \<Longrightarrow> tail_meaning other args items A w i (Else l c d, s) r"
| Elseif_error: "compare_ccc False s (arguments l) < 0 \<Longrightarrow> tail_meaning other args items A w i (Elseif l c t, s) (Stopped (- 1), s)"
| Elseif_true: "compare_ccc False s (arguments l) = 1 \<Longrightarrow> i < 256 \<Longrightarrow> meaning other args items A w i (c, s) r \<Longrightarrow>
    tail_meaning other args items A w i (Elseif l c t, s) r"
| Elseif_false: "compare_ccc False s (arguments l) = 0 \<Longrightarrow> i < 256 \<Longrightarrow> tail_meaning other args items A w i (t, s) r \<Longrightarrow>
    tail_meaning other args items A w i (Elseif l c t, s) r"
| Loop_error: "compare_ccc False s (arguments l) < 0 \<Longrightarrow> meaning other args items A w i (Loop l c d, s) (Stopped (- 1), s)"
| Loop_false: "compare_ccc False s (arguments l) = 0 \<Longrightarrow> w < 256 \<Longrightarrow> meaning other args items A w i (Loop l c d, s) (Done, s)"
| Loop_true: "compare_ccc False s (arguments l) = 1 \<Longrightarrow> w < 256 \<Longrightarrow> loop_meaning other args items A w i (l, c, s) r \<Longrightarrow>
    meaning other args items A w i (Loop l c d, s) r"
| Round: "meaning other args items A (Suc w) i (c, s) (Done, s1) \<Longrightarrow> compare_ccc False s1 (arguments l) = 1 \<Longrightarrow>
    loop_meaning other args items A w i (l, c, s1) r \<Longrightarrow> loop_meaning other args items A w i (l, c, s) r"
| Round_last: "meaning other args items A (Suc w) i (c, s) (Done, s1) \<Longrightarrow> compare_ccc False s1 (arguments l) = 0 \<Longrightarrow>
    loop_meaning other args items A w i (l, c, s) (Done, s1)"
| Round_error: "meaning other args items A (Suc w) i (c, s) (Done, s1) \<Longrightarrow> compare_ccc False s1 (arguments l) < 0 \<Longrightarrow>
    loop_meaning other args items A w i (l, c, s) (Stopped (- 1), s1)"
| Round_break: "meaning other args items A (Suc w) i (c, s) (Broken, s1) \<Longrightarrow> loop_meaning other args items A w i (l, c, s) (Done, s1)"
| Round_left: "meaning other args items A (Suc w) i (c, s) (g, s1) \<Longrightarrow> g = Returned \<or> g = Stopped r \<Longrightarrow>
    loop_meaning other args items A w i (l, c, s) (g, s1)"
| Call: "first_word (arguments l) = Some (f, u) \<Longrightarrow> routine items f = Some c \<Longrightarrow> f \<notin> set A \<Longrightarrow> length A < 256 \<Longrightarrow>
    meaning other args items (f # A) w i (c, s) (g, s') \<Longrightarrow> g = Done \<or> g = Returned \<Longrightarrow>
    meaning other args items A w i (Call l, s) (Done, s')"
| Call_stop: "first_word (arguments l) = Some (f, u) \<Longrightarrow> routine items f = Some c \<Longrightarrow> f \<notin> set A \<Longrightarrow> length A < 256 \<Longrightarrow>
    meaning other args items (f # A) w i (c, s) (Stopped r, s') \<Longrightarrow> meaning other args items A w i (Call l, s) (Stopped r, s')"
| Call_missing: "first_word (arguments l) = None \<or> first_word (arguments l) = Some (f, u) \<and> routine items f = None \<Longrightarrow>
    meaning other args items A w i (Call l, s) (Stopped (- 1), s)"
| Break: "meaning other args items A w i (Break l, s) (Broken, s)"
| Return: "meaning other args items A w i (Return l, s) (Returned, s)"

text \<open>The whole script: the pieces of the main code one after the other.\<close>

inductive program_meaning :: "other_commands \<Rightarrow> string list \<Rightarrow> item list \<Rightarrow> item list \<times> store \<Rightarrow> int \<times> store \<Rightarrow> bool"
  for other args items where
  Finish: "program_meaning other args items ([], s) (0, s)"
| Skip_routine: "program_meaning other args items (rest, s) r \<Longrightarrow> program_meaning other args items (Routine l c d # rest, s) r"
| Main: "meaning other args items [] 0 0 (c, s) (Done, s1) \<Longrightarrow> program_meaning other args items (rest, s1) r \<Longrightarrow>
    program_meaning other args items (Main_code c # rest, s) r"
| Main_stop: "meaning other args items [] 0 0 (c, s) (Stopped r, s1) \<Longrightarrow>
    program_meaning other args items (Main_code c # rest, s) (r, s1)"

section \<open>The walks over structured scripts\<close>

lemma plain_not [simp]: "plain_line l \<Longrightarrow> k \<in> set control_words \<Longrightarrow> \<not> has_command k l"
  by (simp add: plain_line_def)

lemma in_control_words [simp]:
  "''if'' \<in> set control_words" "''endif'' \<in> set control_words" "''else'' \<in> set control_words" "''elseif'' \<in> set control_words"
  "''while'' \<in> set control_words" "''done'' \<in> set control_words" "''gosub'' \<in> set control_words"
  "''subroutine'' \<in> set control_words" "''endsubroutine'' \<in> set control_words" "''returnsub'' \<in> set control_words"
  "''break'' \<in> set control_words"
  by (simp_all add: control_words_def)

text \<open>A line has one command.\<close>

lemma one_command:
  assumes "has_command k l" "k \<in> set control_words" "k' \<in> set control_words" "k \<noteq> k'"
  shows "\<not> has_command k' l"
proof -
  have "map to_lower x = x" if "x \<in> set control_words" for x
    using that by (auto simp: control_words_def to_lower_def)
  then show ?thesis using assms not_command by metis
qed

lemma walk_if_skips:
  "well_formed c \<Longrightarrow> walk_if st (lines_of c @ ys) n (Suc level) e ei = walk_if st ys (n + length (lines_of c)) (Suc level) e ei"
  "well_formed_tail t \<Longrightarrow>
    walk_if st (tail_lines t @ ys) n (Suc (Suc level)) e ei = walk_if st ys (n + length (tail_lines t)) (Suc level) e ei"
proof (induction c and t arbitrary: ys n level e ei and ys n level e ei)
  case (Loop l c d)
  then show ?case using one_command [of "''while''" l] one_command [of "''done''" d] by (simp add: ac_simps)
next
  case (Call l)
  then show ?case using one_command [of "''gosub''" l] by (simp add: ac_simps)
next
  case (Break l)
  then show ?case using one_command [of "''break''" l] by (simp add: ac_simps)
next
  case (Return l)
  then show ?case using one_command [of "''returnsub''" l] by (simp add: ac_simps)
next
  case (Endif l)
  then show ?case using one_command [of "''endif''" l] by (simp add: ac_simps)
next
  case (Else l c d)
  then show ?case using one_command [of "''else''" l] one_command [of "''endif''" d] by (simp add: ac_simps)
next
  case (Elseif l c t)
  then show ?case using one_command [of "''elseif''" l] by (simp add: ac_simps)
qed (simp_all add: ac_simps)

lemma walk_while_skips:
  "well_formed c \<Longrightarrow> walk_while (lines_of c @ ys) n (Suc level) = walk_while ys (n + length (lines_of c)) (Suc level)"
  "well_formed_tail t \<Longrightarrow> walk_while (tail_lines t @ ys) n (Suc level) = walk_while ys (n + length (tail_lines t)) (Suc level)"
proof (induction c and t arbitrary: ys n level and ys n level)
  case (Cond l c t)
  then show ?case using one_command [of "''if''" l] by (simp add: ac_simps)
next
  case (Loop l c d)
  then show ?case using one_command [of "''while''" l] one_command [of "''done''" d] by (simp add: ac_simps)
next
  case (Call l)
  then show ?case using one_command [of "''gosub''" l] by (simp add: ac_simps)
next
  case (Break l)
  then show ?case using one_command [of "''break''" l] by (simp add: ac_simps)
next
  case (Return l)
  then show ?case using one_command [of "''returnsub''" l] by (simp add: ac_simps)
next
  case (Endif l)
  then show ?case using one_command [of "''endif''" l] by (simp add: ac_simps)
next
  case (Else l c d)
  then show ?case using one_command [of "''else''" l] one_command [of "''endif''" d] by (simp add: ac_simps)
next
  case (Elseif l c t)
  then show ?case using one_command [of "''elseif''" l] by (simp add: ac_simps)
qed (simp_all add: ac_simps)

text \<open>Where the alternatives of an IF and of an ELSEIF are.\<close>

lemma next_after_elseif:
  "well_formed_tail t \<Longrightarrow> j < n \<Longrightarrow>
    next_statement (walk_if st (tail_lines t @ ys) n 1 None (Some j)) = Some (j, n + length (tail_lines t) - 1)"
proof (induction "length (tail_lines t)" arbitrary: t n rule: less_induct)
  case less
  show ?case
  proof (cases t)
    case (Endif l)
    then show ?thesis using less.prems one_command [of "''endif''" l] by (simp add: next_statement_def)
  next
    case (Else l c d)
    then show ?thesis using less.prems one_command [of "''else''" l] one_command [of "''endif''" d]
      by (simp add: next_statement_def walk_if_skips [where level = 0, simplified])
  next
    case (Elseif l c t')
    then show ?thesis using less.prems one_command [of "''elseif''" l] less.hyps [of t' "Suc (n + length (lines_of c))"]
      by (simp add: walk_if_skips [where level = 0, simplified])
  qed
qed

lemma next_after_block:
  assumes "well_formed_tail t"
  shows "next_statement (walk_if st (tail_lines t @ ys) n 1 None None) = Some (n, n + length (tail_lines t) - 1)"
proof (cases t)
  case (Endif l)
  then show ?thesis using assms one_command [of "''endif''" l] by (simp add: next_statement_def)
next
  case (Else l c d)
  then show ?thesis using assms one_command [of "''else''" l] one_command [of "''endif''" d]
    by (simp add: next_statement_def walk_if_skips [where level = 0, simplified])
next
  case (Elseif l c t')
  then show ?thesis using assms one_command [of "''elseif''" l] next_after_elseif [of t' n "Suc (n + length (lines_of c))"]
    by (simp add: walk_if_skips [where level = 0, simplified])
qed

lemma block_then_tail:
  assumes "well_formed c" "well_formed_tail t"
  shows "next_statement (walk_if st (lines_of c @ tail_lines t @ ys) n 1 None None) =
    Some (n + length (lines_of c), n + length (lines_of c) + length (tail_lines t) - 1)"
  using walk_if_skips(1) [OF assms(1), of st "tail_lines t @ ys" n 0] next_after_block [OF assms(2)] by simp

lemma loop_end:
  assumes "well_formed c" "has_command ''done'' d"
  shows "walk_while (lines_of c @ d # ys) n 1 = Some (n + length (lines_of c))"
  using walk_while_skips(1) [OF assms(1), of "d # ys" n 0] assms(2) one_command [of "''done''" d] by simp

text \<open>No subroutine begins or ends inside a block.\<close>

lemma no_subroutine_lines:
  "well_formed c \<Longrightarrow> \<forall>l\<in>set (lines_of c). \<not> has_command ''subroutine'' l \<and> \<not> has_command ''endsubroutine'' l"
  "well_formed_tail t \<Longrightarrow> \<forall>l\<in>set (tail_lines t). \<not> has_command ''subroutine'' l \<and> \<not> has_command ''endsubroutine'' l"
proof (induction c and t)
qed (use one_command in \<open>fastforce+\<close>)

lemma tail_lines_nonempty [simp]: "tail_lines t \<noteq> []"
  by (cases t) simp_all

end
