(* ===== verification/Script_Run.thy ===== *)
theory Script_Run
  imports Script_Code
begin

text \<open>
  Runs of a script, and what every command of a structured script does to the line and the stacks.
  \<open>ends\<close> is the end of a run for enough fuel, and \<open>leads\<close> relates two points of a run with the same end.
  A point is a line and a state.
\<close>

section \<open>Points of a run\<close>

definition ends :: "other_commands \<Rightarrow> string list \<Rightarrow> script \<Rightarrow> nat \<Rightarrow> script_state \<Rightarrow> final \<Rightarrow> bool" where
  "ends other args ls n st r \<longleftrightarrow> r \<noteq> Running \<and> (\<exists>fuel. run_lines fuel other args ls n st = r)"

definition leads :: "other_commands \<Rightarrow> string list \<Rightarrow> script \<Rightarrow> nat \<Rightarrow> script_state \<Rightarrow> nat \<Rightarrow> script_state \<Rightarrow> bool" where
  "leads other args ls n st n' st' \<longleftrightarrow> (\<forall>r. ends other args ls n st r \<longleftrightarrow> ends other args ls n' st' r)"

lemma leads_refl [simp]: "leads other args ls n st n st"
  by (simp add: leads_def)

lemma leads_trans [trans]:
  "leads other args ls n st n1 st1 \<Longrightarrow> leads other args ls n1 st1 n2 st2 \<Longrightarrow> leads other args ls n st n2 st2"
  by (simp add: leads_def)

lemma leads_sym: "leads other args ls n st n1 st1 \<Longrightarrow> leads other args ls n1 st1 n st"
  by (simp add: leads_def)

lemma leads_ends: "leads other args ls n st n1 st1 \<Longrightarrow> ends other args ls n1 st1 r \<Longrightarrow> ends other args ls n st r"
  by (simp add: leads_def)

text \<open>More fuel gives the same end.\<close>

lemma run_lines_Suc: "run_lines fuel other args ls n st \<noteq> Running \<Longrightarrow> run_lines (Suc fuel) other args ls n st = run_lines fuel other args ls n st"
proof (induction fuel arbitrary: n st)
  case (Suc fuel)
  consider "length ls \<le> n" | "n < length ls" "scan_split (ls ! n) = None"
    | c t where "n < length ls" "scan_split (ls ! n) = Some (c, t)" by (cases "scan_split (ls ! n)"; cases "n < length ls") (simp, simp add: not_less, force, simp add: not_less)
  then show ?case
  proof cases
    case 2
    then have e: "run_lines (Suc f) other args ls n st = run_lines f other args ls (n + 1) st" for f by simp
    show ?thesis using Suc unfolding e by blast
  next
    case 3
    then show ?thesis
    proof (cases "execute_line other args False ls st n c t")
      case (Some sr)
      obtain st' r where sr: "sr = (st', r)" by (cases sr)
      show ?thesis
      proof (cases "r < 0")
        case False
        define m where "m = (if 0 < r then nat r + 1 else n + 1)"
        have e: "run_lines (Suc f) other args ls n st = run_lines f other args ls m st'" for f
          using 3 Some sr False by (simp add: m_def)
        show ?thesis using Suc unfolding e by blast
      qed (use 3 Some sr in simp)
    qed simp
  qed simp
qed simp

lemma run_lines_more:
  "run_lines fuel other args ls n st \<noteq> Running \<Longrightarrow> run_lines (fuel + k) other args ls n st = run_lines fuel other args ls n st"
proof (induction k)
  case (Suc k)
  then show ?case using run_lines_Suc [of "fuel + k"] by simp
qed simp

lemma ends_step:
  assumes "\<And>fuel. run_lines (Suc fuel) other args ls n st = run_lines fuel other args ls n' st'"
  shows "leads other args ls n st n' st'"
proof -
  have "(\<exists>fuel. run_lines fuel other args ls n st = r) \<longleftrightarrow> (\<exists>fuel. run_lines fuel other args ls n' st' = r)" if "r \<noteq> Running" for r
  proof
    assume "\<exists>fuel. run_lines fuel other args ls n st = r"
    then obtain fuel where f: "run_lines fuel other args ls n st = r" by blast
    with that obtain k where "fuel = Suc k" by (cases fuel) auto
    with f show "\<exists>fuel. run_lines fuel other args ls n' st' = r" using assms [of k] by auto
  next
    assume "\<exists>fuel. run_lines fuel other args ls n' st' = r"
    then show "\<exists>fuel. run_lines fuel other args ls n st = r" using assms by blast
  qed
  then show ?thesis by (auto simp: leads_def ends_def)
qed

lemma blank_step: "n < length ls \<Longrightarrow> scan_split (ls ! n) = None \<Longrightarrow> leads other args ls n st (n + 1) st"
  by (rule ends_step) simp

lemma command_step:
  assumes "n < length ls" "scan_split (ls ! n) = Some (c, t)" "execute_line other args False ls st n c t = Some (st', r)"
    and "0 \<le> r" "n' = (if 0 < r then nat r + 1 else n + 1)"
  shows "leads other args ls n st n' st'"
  by (rule ends_step) (use assms in simp)

lemma command_stop:
  assumes "n < length ls" "scan_split (ls ! n) = Some (c, t)" "execute_line other args False ls st n c t = Some (st', r)" "r < 0"
  shows "ends other args ls n st (Ended r st')"
proof -
  have "run_lines (Suc 0) other args ls n st = Ended r st'" using assms by simp
  then show ?thesis unfolding ends_def by blast
qed

lemma script_end: "length ls \<le> n \<Longrightarrow> ends other args ls n st (Ended 0 st)"
proof -
  assume "length ls \<le> n"
  then have "run_lines (Suc 0) other args ls n st = Ended 0 st" by simp
  then show ?thesis unfolding ends_def by blast
qed

section \<open>Control lines\<close>

lemma scan_words_first: "scan_words t = (case first_word t of None \<Rightarrow> [] | Some (w, u) \<Rightarrow> w # scan_words u)"
  unfolding scan_words.simps [of t] first_word_def by (cases "dropWhile is_space t") (simp_all only: list.case option.case prod.case)

text \<open>The command of a line and its arguments, as the run takes them apart.\<close>

lemma has_command_split:
  assumes "has_command k l"
  shows "\<exists>c. scan_split l = Some (c, arguments l) \<and> same_nocase c k"
proof -
  obtain w u where w: "first_word l = Some (w, u)" "same_nocase k w"
    using assms unfolding has_command_def scan_words_first [of l] by (auto split: option.splits)
  then show ?thesis by (auto simp: scan_split_def arguments_def same_nocase_def)
qed

lemma same_nocase_keyword:
  assumes "same_nocase c k" "k \<in> set control_words" "k' \<in> set control_words"
  shows "same_nocase c k' \<longleftrightarrow> k = k'"
proof -
  have "map to_lower x = x" if "x \<in> set control_words" for x
    using that by (auto simp: control_words_def to_lower_def)
  then show ?thesis using assms by (auto simp: same_nocase_def)
qed

lemma keyword_tests:
  assumes "same_nocase c k" "k \<in> set control_words"
  shows "same_nocase c ''gosub'' \<longleftrightarrow> k = ''gosub''"
    "same_nocase c ''subroutine'' \<longleftrightarrow> k = ''subroutine''"
    "same_nocase c ''endsubroutine'' \<longleftrightarrow> k = ''endsubroutine''"
    "same_nocase c ''returnsub'' \<longleftrightarrow> k = ''returnsub''"
    "same_nocase c ''if'' \<longleftrightarrow> k = ''if''"
    "same_nocase c ''endif'' \<longleftrightarrow> k = ''endif''"
    "same_nocase c ''else'' \<longleftrightarrow> k = ''else''"
    "same_nocase c ''elseif'' \<longleftrightarrow> k = ''elseif''"
    "same_nocase c ''while'' \<longleftrightarrow> k = ''while''"
    "same_nocase c ''done'' \<longleftrightarrow> k = ''done''"
    "same_nocase c ''break'' \<longleftrightarrow> k = ''break''"
  using assms by (auto simp: same_nocase_keyword)

lemma execute_control:
  assumes "same_nocase c k"
  shows "k = ''gosub'' \<Longrightarrow> execute_line other args False ls st n c t = gosub_ccc False ls st n t"
    "k = ''subroutine'' \<Longrightarrow> execute_line other args False ls st n c t = subroutine_ccc False ls st n"
    "k = ''endsubroutine'' \<Longrightarrow> execute_line other args False ls st n c t = endsubroutine_ccc False st"
    "k = ''returnsub'' \<Longrightarrow> execute_line other args False ls st n c t = returnsub_ccc False st"
    "k = ''if'' \<Longrightarrow> execute_line other args False ls st n c t = ifstate_ccc False ls st n t"
    "k = ''endif'' \<Longrightarrow> execute_line other args False ls st n c t = endif_ccc False st"
    "k = ''else'' \<Longrightarrow> execute_line other args False ls st n c t = elsestate_ccc False st t"
    "k = ''elseif'' \<Longrightarrow> execute_line other args False ls st n c t = elseif_ccc False ls st n t"
    "k = ''while'' \<Longrightarrow> execute_line other args False ls st n c t = dowhile_ccc False ls st n t"
    "k = ''done'' \<Longrightarrow> execute_line other args False ls st n c t = done_ccc False st"
    "k = ''break'' \<Longrightarrow> execute_line other args False ls st n c t = dobreak_ccc False st"
  unfolding execute_line_def by (simp_all add: keyword_tests [OF assms])

text \<open>What a control line does in a run, for a result of its command.\<close>

lemma control_step:
  assumes "n < length ls" "has_command k (ls ! n)"
    and "\<And>c. same_nocase c k \<Longrightarrow> execute_line other args False ls st n c (arguments (ls ! n)) = Some (st', r)"
    and "0 \<le> r" "n' = (if 0 < r then nat r + 1 else n + 1)"
  shows "leads other args ls n st n' st'"
proof -
  obtain c where "scan_split (ls ! n) = Some (c, arguments (ls ! n))" "same_nocase c k"
    using has_command_split [OF assms(2)] by blast
  then show ?thesis using command_step assms by metis
qed

lemma control_stop:
  assumes "n < length ls" "has_command k (ls ! n)"
    and "\<And>c. same_nocase c k \<Longrightarrow> execute_line other args False ls st n c (arguments (ls ! n)) = Some (st', r)" "r < 0"
  shows "ends other args ls n st (Ended r st')"
proof -
  obtain c where "scan_split (ls ! n) = Some (c, arguments (ls ! n))" "same_nocase c k"
    using has_command_split [OF assms(2)] by blast
  then show ?thesis using command_stop assms by metis
qed

section \<open>Lines in their place\<close>

definition at :: "script \<Rightarrow> nat \<Rightarrow> script \<Rightarrow> bool" where
  "at ls p xs \<longleftrightarrow> p + length xs \<le> length ls \<and> take (length xs) (drop p ls) = xs"

lemma at_append: "at ls p (xs @ ys) \<longleftrightarrow> at ls p xs \<and> at ls (p + length xs) ys"
proof -
  have "take (length xs + length ys) (drop p ls) = take (length xs) (drop p ls) @ take (length ys) (drop (p + length xs) ls)"
    by (simp add: take_add add.commute)
  moreover have "length (take (length xs) (drop p ls)) = length xs" if "p + (length xs + length ys) \<le> length ls"
    using that by simp
  ultimately show ?thesis unfolding at_def by (auto simp: append_eq_append_conv)
qed

lemma at_Cons: "at ls p (x # xs) \<longleftrightarrow> p < length ls \<and> ls ! p = x \<and> at ls (p + 1) xs"
proof (cases "p < length ls")
  case True
  then have "drop p ls = ls ! p # drop (Suc p) ls" by (simp add: Cons_nth_drop_Suc)
  then show ?thesis using True by (auto simp: at_def)
qed (simp add: at_def)

lemma at_Nil [simp]: "at ls p [] \<longleftrightarrow> p \<le> length ls"
  by (simp add: at_def)

lemma at_drop: "at ls p xs \<Longrightarrow> drop p ls = xs @ drop (p + length xs) ls"
  unfolding at_def by (metis add.commute append_take_drop_id drop_drop)

lemma at_here: "at ls (length pre) xs" if "ls = pre @ xs @ post"
  using that by (simp add: at_def)

section \<open>Stacks\<close>

text \<open>The three counters, within their arrays.\<close>

definition counts :: "script_state \<Rightarrow> nat \<Rightarrow> nat \<Rightarrow> nat \<Rightarrow> bool" where
  "counts st w i k \<longleftrightarrow> while_count st = int w \<and> endif_count st = int i \<and> sub_count st = int k \<and> w \<le> 256 \<and> i \<le> 256 \<and> k \<le> 256"

text \<open>The same entries below the given heights.\<close>

definition agree :: "script_state \<Rightarrow> script_state \<Rightarrow> nat \<Rightarrow> nat \<Rightarrow> nat \<Rightarrow> bool" where
  "agree st st' w i k \<longleftrightarrow>
     (\<forall>j<w. while_lines st' j = while_lines st j \<and> while_endifs st' j = while_endifs st j \<and>
            done_lines st' j = done_lines st j \<and> while_conds st' j = while_conds st j) \<and>
     (\<forall>j<i. endif_lines st' j = endif_lines st j \<and> conditions st' j = conditions st j) \<and>
     (\<forall>j<k. sub_lines st' j = sub_lines st j \<and> sub_whiles st' j = sub_whiles st j \<and> sub_endifs st' j = sub_endifs st j)"

lemma agree_refl [simp]: "agree st st w i k"
  by (simp add: agree_def)

lemma agree_trans: "agree st st1 w i k \<Longrightarrow> agree st1 st2 w i k \<Longrightarrow> agree st st2 w i k"
  by (simp add: agree_def)

lemma agree_mono: "agree st st' w i k \<Longrightarrow> w' \<le> w \<Longrightarrow> i' \<le> i \<Longrightarrow> k' \<le> k \<Longrightarrow> agree st st' w' i' k'"
  by (auto simp: agree_def)

lemma agree_below: "agree st st1 w i k \<Longrightarrow> agree st1 st2 w' i' k' \<Longrightarrow> w' \<le> w \<Longrightarrow> i' \<le> i \<Longrightarrow> k' \<le> k \<Longrightarrow> agree st st2 w' i' k'"
  using agree_mono agree_trans by blast

text \<open>The heights that the entries on top go back to are not above the present ones.\<close>

definition frames_ok :: "script_state \<Rightarrow> nat \<Rightarrow> nat \<Rightarrow> nat \<Rightarrow> bool" where
  "frames_ok st w i k \<longleftrightarrow>
     (0 < w \<longrightarrow> 0 \<le> while_endifs st (w - 1) \<and> while_endifs st (w - 1) \<le> int i) \<and>
     (0 < k \<longrightarrow> 0 \<le> sub_whiles st (k - 1) \<and> sub_whiles st (k - 1) \<le> int w \<and>
                0 \<le> sub_endifs st (k - 1) \<and> sub_endifs st (k - 1) \<le> int i)"

lemma frames_ok_agree: "frames_ok st w i k \<Longrightarrow> agree st st' w i k \<Longrightarrow> frames_ok st' w i k"
  by (auto simp: frames_ok_def agree_def)

text \<open>
  Where a run comes to with the signal \<open>g\<close>: behind the code, behind the DONE of the innermost loop,
  behind the GOSUB, or to its end; and the stacks there.
\<close>

definition arrives :: "other_commands \<Rightarrow> string list \<Rightarrow> script \<Rightarrow> nat \<Rightarrow> script_state \<Rightarrow> nat \<Rightarrow> nat \<Rightarrow> nat \<Rightarrow> nat \<Rightarrow> signal \<times> store \<Rightarrow> bool" where
  "arrives other args ls p st q w i k r =
     (case r of (g, s) \<Rightarrow>
        (case g of
           Done \<Rightarrow> \<exists>st'. leads other args ls p st q st' \<and> data st' = s \<and> counts st' w i k \<and> agree st st' w i k
         | Broken \<Rightarrow>
             (if w = 0 then \<exists>st'. ends other args ls p st (Ended (- 1) st') \<and> data st' = s
              else \<exists>st'. leads other args ls p st (done_lines st (w - 1) + 1) st' \<and> data st' = s \<and>
                         counts st' (w - 1) (nat (while_endifs st (w - 1))) k \<and>
                         agree st st' (w - 1) (nat (while_endifs st (w - 1))) k)
         | Returned \<Rightarrow>
             (if k = 0 then \<exists>st'. ends other args ls p st (Ended (- 1) st') \<and> data st' = s
              else \<exists>st'. leads other args ls p st (sub_lines st (k - 1) + 1) st' \<and> data st' = s \<and>
                         counts st' (nat (sub_whiles st (k - 1))) (nat (sub_endifs st (k - 1))) (k - 1) \<and>
                         agree st st' (nat (sub_whiles st (k - 1))) (nat (sub_endifs st (k - 1))) (k - 1))
         | Stopped n \<Rightarrow> \<exists>st'. ends other args ls p st (Ended n st') \<and> data st' = s))"

text \<open>
  Steps in front, and leaving alternatives and loops: a signal other than \<open>Done\<close> passes through them.
\<close>

lemma arrives_before:
  assumes l: "leads other args ls p st p1 st1" and a: "agree st st1 w i k" and f: "frames_ok st w i k"
    and r: "arrives other args ls p1 st1 q' w' i' k (g, s)"
    and h: "w \<le> w'" "i \<le> i'" "g = Done \<longrightarrow> q' = q \<and> w' = w \<and> i' = i" "g = Broken \<longrightarrow> w' = w"
  shows "arrives other args ls p st q w i k (g, s)"
proof (cases g)
  case Done
  then show ?thesis using r h l a unfolding arrives_def by (auto intro: leads_trans agree_trans)
next
  case Broken
  show ?thesis
  proof (cases "w = 0")
    case False
    then have e: "done_lines st1 (w - 1) = done_lines st (w - 1)" "while_endifs st1 (w - 1) = while_endifs st (w - 1)"
      using a by (auto simp: agree_def)
    obtain st' where s: "leads other args ls p1 st1 (done_lines st (w - 1) + 1) st'" "data st' = s"
      "counts st' (w - 1) (nat (while_endifs st (w - 1))) k" "agree st1 st' (w - 1) (nat (while_endifs st (w - 1))) k"
      using r Broken h False unfolding arrives_def by (auto simp: e [unfolded One_nat_def])
    have "nat (while_endifs st (w - 1)) \<le> i" using f False by (auto simp: frames_ok_def)
    then have "agree st st' (w - 1) (nat (while_endifs st (w - 1))) k" using agree_below [OF a s(4)] by simp
    then show ?thesis using Broken False s leads_trans [OF l s(1)] unfolding arrives_def by auto
  qed (use Broken r h l in \<open>auto simp: arrives_def intro: leads_ends\<close>)
next
  case Returned
  show ?thesis
  proof (cases "k = 0")
    case False
    then have e: "sub_lines st1 (k - 1) = sub_lines st (k - 1)" "sub_whiles st1 (k - 1) = sub_whiles st (k - 1)"
      "sub_endifs st1 (k - 1) = sub_endifs st (k - 1)" using a by (auto simp: agree_def)
    obtain st' where s: "leads other args ls p1 st1 (sub_lines st (k - 1) + 1) st'" "data st' = s"
      "counts st' (nat (sub_whiles st (k - 1))) (nat (sub_endifs st (k - 1))) (k - 1)"
      "agree st1 st' (nat (sub_whiles st (k - 1))) (nat (sub_endifs st (k - 1))) (k - 1)"
      using r Returned False unfolding arrives_def by (auto simp: e [unfolded One_nat_def])
    have "nat (sub_whiles st (k - 1)) \<le> w" "nat (sub_endifs st (k - 1)) \<le> i" using f False by (auto simp: frames_ok_def)
    then have "agree st st' (nat (sub_whiles st (k - 1))) (nat (sub_endifs st (k - 1))) (k - 1)"
      using agree_below [OF a s(4)] by simp
    then show ?thesis using Returned False s leads_trans [OF l s(1)] unfolding arrives_def by auto
  qed (use Returned r l in \<open>auto simp: arrives_def intro: leads_ends\<close>)
next
  case (Stopped n)
  then show ?thesis using r l unfolding arrives_def by (auto intro: leads_ends)
qed

end
