(* ===== verification/Script_Steps.thy ===== *)
theory Script_Steps
  imports Script_Run
begin

text \<open>
  One lemma for every control command in its place in a structured script: where the run goes and what
  is on the stacks then.
\<close>

section \<open>IF\<close>

definition push_if :: "script_state \<Rightarrow> nat \<Rightarrow> nat \<Rightarrow> bool \<Rightarrow> script_state" where
  "push_if st i e b = st\<lparr>endif_lines := (endif_lines st)(i := e), conditions := (conditions st)(i := b), endif_count := int (Suc i)\<rparr>"

lemma compare_range: "compare_ccc check s t \<in> {- 1, 0, 1}"
  by (simp add: compare_ccc_def split: list.splits option.splits side.splits)

lemma found_if:
  assumes "at ls p (l # lines_of c @ tail_lines t)" "well_formed c" "well_formed_tail t"
  shows "next_statement (match_if ls p (Suc 0) None None) =
      Some (p + 1 + length (lines_of c), p + length (lines_of c) + length (tail_lines t))"
    "next_statement (match_elseif ls p (Suc 0) None None) =
      Some (p + 1 + length (lines_of c), p + length (lines_of c) + length (tail_lines t))"
proof -
  have "at ls (p + 1) (lines_of c @ tail_lines t)" using assms(1) by (simp add: at_Cons)
  note d = at_drop [OF this, unfolded append_assoc]
  show "next_statement (match_if ls p (Suc 0) None None) =
      Some (p + 1 + length (lines_of c), p + length (lines_of c) + length (tail_lines t))"
    "next_statement (match_elseif ls p (Suc 0) None None) =
      Some (p + 1 + length (lines_of c), p + length (lines_of c) + length (tail_lines t))"
    unfolding One_nat_def [symmetric] match_walk d block_then_tail [OF assms(2,3)] by simp_all
qed

lemma if_step:
  assumes a: "at ls p (l # lines_of c @ tail_lines t)" and w: "has_command ''if'' l" "well_formed c" "well_formed_tail t"
    and k: "counts st w i k" "i < 256" "1 \<le> p" and r: "compare_ccc False (data st) (arguments l) = r" "0 \<le> r"
  shows "leads other args ls p st (if r = 0 then p + 1 + length (lines_of c) else p + 1)
    (push_if st i (p + length (lines_of c) + length (tail_lines t)) (r = 1))"
proof -
  have l: "p < length ls" "ls ! p = l" using a by (simp_all add: at_Cons)
  have e: "endif_count st = int i" using k by (simp add: counts_def)
  have x: "ifstate_ccc False ls st p (arguments l) =
    Some (push_if st i (p + length (lines_of c) + length (tail_lines t)) (r = 1), if r = 0 then int p + int (length (lines_of c)) else 0)"
    using k(2) r by (simp add: ifstate_ccc_def found_if [OF a w(2,3)] Let_def e in_stack_def push_if_def add.commute)
  show ?thesis
    by (rule control_step [of p ls "''if''" other args st _ "if r = 0 then int p + int (length (lines_of c)) else 0"])
      (use l w k(3) in \<open>auto simp: execute_control(5) x\<close>)
qed

lemma if_error:
  assumes a: "at ls p (l # lines_of c @ tail_lines t)" and w: "has_command ''if'' l" "well_formed c" "well_formed_tail t"
    and r: "compare_ccc False (data st) (arguments l) < 0"
  shows "ends other args ls p st (Ended (- 1) st)"
proof -
  have l: "p < length ls" "ls ! p = l" using a by (simp_all add: at_Cons)
  have x: "ifstate_ccc False ls st p (arguments l) = Some (st, - 1)"
    using r by (simp add: ifstate_ccc_def found_if [OF a w(2,3)] Let_def)
  show ?thesis by (rule control_stop [of p ls "''if''"]) (use l w in \<open>simp_all add: execute_control(5) x\<close>)
qed

lemma endif_step:
  assumes "at ls p [l]" "has_command ''endif'' l" "endif_count st = int (Suc i)"
  shows "leads other args ls p st (p + 1) (st\<lparr>endif_count := int i\<rparr>)"
proof -
  have l: "p < length ls" "ls ! p = l" using assms(1) by (simp_all add: at_Cons)
  show ?thesis
    by (rule control_step [of p ls "''endif''" other args st _ 0])
      (use l assms in \<open>simp_all add: execute_control(6) endif_ccc_def Let_def\<close>)
qed

text \<open>An ELSE has no arguments.\<close>

lemma one_word_arguments: "length (scan_words l) = 1 \<Longrightarrow> first_word (arguments l) = None"
proof -
  assume a: "length (scan_words l) = 1"
  then obtain w u where w: "first_word l = Some (w, u)" "scan_words u = []"
    by (subst (asm) scan_words_first) (auto split: option.splits)
  then have "first_word u = None" by (subst (asm) scan_words_first) (simp split: option.splits prod.splits)
  then have "dropWhile is_space u = []" by (auto simp: first_word_def split: list.splits)
  then have "arguments l = []" using w(1) by (simp only: arguments_def scan_split_def line_rest_def option.case option.map prod.case takeWhile.simps)
  then show ?thesis by (simp add: first_word_def)
qed

lemma else_step:
  assumes a: "at ls p [l]" "has_command ''else'' l" "length (scan_words l) = 1" and k: "counts st w (Suc i) k" "1 \<le> p"
    and e: "conditions st i \<Longrightarrow> endif_lines st i = e \<and> p < e"
  shows "leads other args ls p st (if conditions st i then e else p + 1) st"
proof -
  have l: "p < length ls" "ls ! p = l" using a(1) by (simp_all add: at_Cons)
  have x: "elsestate_ccc False st (arguments l) = Some (st, if conditions st i then int e - 1 else 0)"
    using k e by (auto simp: elsestate_ccc_def one_word_arguments [OF a(3)] counts_def in_stack_def)
  show ?thesis
    by (rule control_step [of p ls "''else''" other args st _ "if conditions st i then int e - 1 else 0"])
      (use l a k e in \<open>auto simp: execute_control(7) x\<close>)
qed

lemma elseif_skip:
  assumes a: "at ls p [l]" "has_command ''elseif'' l" and k: "counts st w (Suc i) k" "1 \<le> p"
    and e: "conditions st i" "endif_lines st i = e" "p < e"
  shows "leads other args ls p st e st"
proof -
  have l: "p < length ls" "ls ! p = l" using a(1) by (simp_all add: at_Cons)
  have x: "elseif_ccc False ls st p (arguments l) = Some (st, int e - 1)"
    using k e by (auto simp: elseif_ccc_def counts_def in_stack_def)
  show ?thesis
    by (rule control_step [of p ls "''elseif''" other args st _ "int e - 1"]) (use l a k e in \<open>auto simp: execute_control(8) x\<close>)
qed

definition set_condition :: "script_state \<Rightarrow> nat \<Rightarrow> bool \<Rightarrow> script_state" where
  "set_condition st i b = st\<lparr>conditions := (conditions st)(Suc i := False, i := b)\<rparr>"

lemma elseif_step:
  assumes a: "at ls p (l # lines_of c @ tail_lines t)" and w: "has_command ''elseif'' l" "well_formed c" "well_formed_tail t"
    and k: "counts st w (Suc i) k" "Suc i < 256" "1 \<le> p" and r: "compare_ccc False (data st) (arguments l) = r" "0 \<le> r"
    and n: "\<not> conditions st i"
  shows "leads other args ls p st (if r = 0 then p + 1 + length (lines_of c) else p + 1) (set_condition st i (r = 1))"
proof -
  have l: "p < length ls" "ls ! p = l" using a by (simp_all add: at_Cons)
  have x: "elseif_ccc False ls st p (arguments l) =
    Some (set_condition st i (r = 1), if r = 0 then int p + int (length (lines_of c)) else 0)"
    using k n r by (simp add: elseif_ccc_def found_if [OF a w(2,3)] Let_def counts_def in_stack_def set_condition_def)
  show ?thesis
    by (rule control_step [of p ls "''elseif''" other args st _ "if r = 0 then int p + int (length (lines_of c)) else 0"])
      (use l w k(3) in \<open>auto simp: execute_control(8) x\<close>)
qed

lemma elseif_error:
  assumes a: "at ls p (l # lines_of c @ tail_lines t)" and w: "has_command ''elseif'' l" "well_formed c" "well_formed_tail t"
    and k: "counts st w (Suc i) k" and r: "compare_ccc False (data st) (arguments l) < 0" and n: "\<not> conditions st i"
  shows "ends other args ls p st (Ended (- 1) st)"
proof -
  have l: "p < length ls" "ls ! p = l" using a by (simp_all add: at_Cons)
  have x: "elseif_ccc False ls st p (arguments l) = Some (st, - 1)"
    using k n r by (simp add: elseif_ccc_def found_if [OF a w(2,3)] Let_def counts_def in_stack_def)
  show ?thesis by (rule control_stop [of p ls "''elseif''"]) (use l w in \<open>simp_all add: execute_control(8) x\<close>)
qed

section \<open>WHILE\<close>

definition push_while :: "script_state \<Rightarrow> nat \<Rightarrow> nat \<Rightarrow> nat \<Rightarrow> bool \<Rightarrow> script_state" where
  "push_while st w p d b =
     st\<lparr>done_lines := (done_lines st)(w := d), while_lines := (while_lines st)(w := p), while_conds := (while_conds st)(w := b),
        while_endifs := (while_endifs st)(w := endif_count st), while_count := int (Suc w)\<rparr>"

lemma found_done:
  assumes "at ls p (l # lines_of c @ [d])" "well_formed c" "has_command ''done'' d"
  shows "match_while ls p (Suc 0) = Some (p + 1 + length (lines_of c))"
proof -
  have "at ls (p + 1) (lines_of c @ [d])" using assms(1) by (simp add: at_Cons)
  note e = at_drop [OF this, unfolded append_assoc append.simps]
  show ?thesis unfolding One_nat_def [symmetric] match_walk e loop_end [OF assms(2,3)] by simp
qed

lemma while_step:
  assumes a: "at ls p (l # lines_of c @ [d])" and w: "has_command ''while'' l" "well_formed c" "has_command ''done'' d"
    and k: "counts st w i k" "w < 256" "1 \<le> p" and r: "compare_ccc False (data st) (arguments l) = r" "0 \<le> r"
    and n: "\<not> (0 < w \<and> while_conds st (w - 1) \<and> while_lines st (w - 1) = p)"
  shows "leads other args ls p st (if r = 0 then p + 1 + length (lines_of c) else p + 1)
    (push_while st w p (p + 1 + length (lines_of c)) (r = 1))"
proof -
  have l: "p < length ls" "ls ! p = l" using a by (simp_all add: at_Cons)
  have j: "nat (int w - 1) = w - 1" by simp
  have x: "dowhile_ccc False ls st p (arguments l) =
    Some (push_while st w p (p + 1 + length (lines_of c)) (r = 1), if r = 0 then int p + int (length (lines_of c)) else 0)"
    using k n r by (auto simp: dowhile_ccc_def found_done [OF a w(2,3)] Let_def counts_def in_stack_def push_while_def j)
  show ?thesis
    by (rule control_step [of p ls "''while''" other args st _ "if r = 0 then int p + int (length (lines_of c)) else 0"])
      (use l w k(3) in \<open>auto simp: execute_control(9) x\<close>)
qed

lemma while_error:
  assumes a: "at ls p (l # lines_of c @ [d])" and w: "has_command ''while'' l" "well_formed c" "has_command ''done'' d"
    and k: "counts st w i k" and r: "compare_ccc False (data st) (arguments l) < 0"
  shows "ends other args ls p st (Ended (- 1) st)"
proof -
  have l: "p < length ls" "ls ! p = l" using a by (simp_all add: at_Cons)
  have x: "dowhile_ccc False ls st p (arguments l) = Some (st, - 1)"
    using r k by (auto simp: dowhile_ccc_def found_done [OF a w(2,3)] Let_def counts_def in_stack_def)
  show ?thesis by (rule control_stop [of p ls "''while''"]) (use l w in \<open>simp_all add: execute_control(9) x\<close>)
qed

text \<open>The WHILE of a loop that is on top of the stack.\<close>

lemma while_again:
  assumes a: "at ls p [l]" "has_command ''while'' l" and k: "counts st (Suc w) i k"
    and e: "while_conds st w" "while_lines st w = p" "done_lines st w = d" "1 \<le> d"
    and r: "compare_ccc False (data st) (arguments l) = r" "0 \<le> r"
  shows "leads other args ls p st (if r = 0 then d + 1 else p + 1)
    (if r = 0 then st\<lparr>while_conds := (while_conds st)(w := False), while_count := int w\<rparr> else st)"
proof -
  have l: "p < length ls" "ls ! p = l" using a by (simp_all add: at_Cons)
  have x: "dowhile_ccc False ls st p (arguments l) =
    Some (if r = 0 then st\<lparr>while_conds := (while_conds st)(w := False), while_count := int w\<rparr> else st, if r = 0 then int d else 0)"
    using k e r by (simp add: dowhile_ccc_def Let_def counts_def in_stack_def)
  show ?thesis
    by (rule control_step [of p ls "''while''" other args st _ "if r = 0 then int d else 0"])
      (use l a(2) e(4) in \<open>auto simp: execute_control(9) x\<close>)
qed

lemma while_again_error:
  assumes a: "at ls p [l]" "has_command ''while'' l" and k: "counts st (Suc w) i k"
    and e: "while_conds st w" "while_lines st w = p" and r: "compare_ccc False (data st) (arguments l) < 0"
  shows "ends other args ls p st (Ended (- 1) st)"
proof -
  have l: "p < length ls" "ls ! p = l" using a by (simp_all add: at_Cons)
  have x: "dowhile_ccc False ls st p (arguments l) = Some (st, - 1)"
    using k e r by (simp add: dowhile_ccc_def Let_def counts_def in_stack_def)
  show ?thesis by (rule control_stop [of p ls "''while''"]) (use l a in \<open>simp_all add: execute_control(9) x\<close>)
qed

lemma done_step:
  assumes a: "at ls p [l]" "has_command ''done'' l" and k: "counts st (Suc w) i k" and e: "while_conds st w \<Longrightarrow> 2 \<le> while_lines st w"
  shows "leads other args ls p st (if while_conds st w then while_lines st w else p + 1)
    (if while_conds st w then st else st\<lparr>while_count := int w\<rparr>)"
proof -
  have l: "p < length ls" "ls ! p = l" using a by (simp_all add: at_Cons)
  have x: "done_ccc False st = Some (if while_conds st w then st else st\<lparr>while_count := int w\<rparr>,
      if while_conds st w then int (while_lines st w) - 1 else 0)"
    using k by (simp add: done_ccc_def Let_def counts_def in_stack_def)
  show ?thesis
    by (rule control_step [of p ls "''done''" other args st _ "if while_conds st w then int (while_lines st w) - 1 else 0"])
      (use l a(2) e in \<open>auto simp: execute_control(10) x\<close>)
qed

lemma break_step:
  assumes a: "at ls p [l]" "has_command ''break'' l" and k: "counts st (Suc w) i k" "1 \<le> done_lines st w"
  shows "leads other args ls p st (done_lines st w + 1) (st\<lparr>while_count := int w, endif_count := while_endifs st w\<rparr>)"
proof -
  have l: "p < length ls" "ls ! p = l" using a by (simp_all add: at_Cons)
  have x: "dobreak_ccc False st = Some (st\<lparr>while_count := int w, endif_count := while_endifs st w\<rparr>, int (done_lines st w))"
    using k by (simp add: dobreak_ccc_def Let_def counts_def in_stack_def)
  show ?thesis
    by (rule control_step [of p ls "''break''" other args st _ "int (done_lines st w)"])
      (use l a(2) k(2) in \<open>auto simp: execute_control(11) x\<close>)
qed

section \<open>Subroutines\<close>

definition push_sub :: "script_state \<Rightarrow> nat \<Rightarrow> nat \<Rightarrow> script_state" where
  "push_sub st k n =
     st\<lparr>sub_lines := (sub_lines st)(k := n), sub_whiles := (sub_whiles st)(k := while_count st),
        sub_endifs := (sub_endifs st)(k := endif_count st), sub_count := int (Suc k)\<rparr>"

lemma at_nth: "at ls p xs \<Longrightarrow> j < length xs \<Longrightarrow> ls ! (p + j) = xs ! j"
  unfolding at_def by (metis add_leD1 nth_drop nth_take)

lemma find_command_first:
  assumes "n \<le> m" "m < length ls" "has_command k (ls ! m)" "\<And>j. n \<le> j \<Longrightarrow> j < m \<Longrightarrow> \<not> has_command k (ls ! j)"
  shows "find_command k ls n = Some m"
proof (cases "find_command k ls n")
  case None
  then show ?thesis using find_command_NoneD [OF None assms(1,2)] assms(3) by simp
next
  case (Some i)
  note d = find_command_SomeD [OF Some]
  have "i = m" using d(1,3) d(4) [OF assms(1)] assms(3) assms(4) [OF d(1)] by (meson linorder_neqE_nat)
  with Some show ?thesis by simp
qed

lemma gosub_step:
  assumes a: "at ls p [l]" "has_command ''gosub'' l" and f: "first_word (arguments l) = Some (f, u)" "find_subroutine ls f 0 = Some h" "1 \<le> h"
    and k: "counts st w i k" "k < 256"
  shows "leads other args ls p st (h + 1) (push_sub st k p)"
proof -
  have l: "p < length ls" "ls ! p = l" using a by (simp_all add: at_Cons)
  have x: "gosub_ccc False ls st p (arguments l) = Some (push_sub st k p, int h)"
    using k f by (simp add: gosub_ccc_def Let_def counts_def in_stack_def push_sub_def)
  show ?thesis
    by (rule control_step [of p ls "''gosub''" other args st _ "int h"]) (use l a(2) f(3) in \<open>auto simp: execute_control(1) x\<close>)
qed

lemma gosub_missing:
  assumes a: "at ls p [l]" "has_command ''gosub'' l"
    and f: "first_word (arguments l) = None \<or> first_word (arguments l) = Some (f, u) \<and> find_subroutine ls f 0 = None"
  shows "ends other args ls p st (Ended (- 1) st)"
proof -
  have l: "p < length ls" "ls ! p = l" using a by (simp_all add: at_Cons)
  have x: "gosub_ccc False ls st p (arguments l) = Some (st, - 1)" using f by (auto simp: gosub_ccc_def)
  show ?thesis by (rule control_stop [of p ls "''gosub''"]) (use l a in \<open>simp_all add: execute_control(1) x\<close>)
qed

lemma endsubroutine_step:
  assumes a: "at ls p [l]" "has_command ''endsubroutine'' l" and k: "counts st w i (Suc k)" "1 \<le> sub_lines st k"
  shows "leads other args ls p st (sub_lines st k + 1) (st\<lparr>sub_count := int k\<rparr>)"
proof -
  have l: "p < length ls" "ls ! p = l" using a by (simp_all add: at_Cons)
  have x: "endsubroutine_ccc False st = Some (st\<lparr>sub_count := int k\<rparr>, int (sub_lines st k))"
    using k by (simp add: endsubroutine_ccc_def Let_def counts_def in_stack_def)
  show ?thesis
    by (rule control_step [of p ls "''endsubroutine''" other args st _ "int (sub_lines st k)"])
      (use l a(2) k(2) in \<open>auto simp: execute_control(3) x\<close>)
qed

lemma return_step:
  assumes a: "at ls p [l]" "has_command ''returnsub'' l" and k: "counts st w i (Suc k)" "1 \<le> sub_lines st k"
  shows "leads other args ls p st (sub_lines st k + 1)
    (st\<lparr>sub_count := int k, while_count := sub_whiles st k, endif_count := sub_endifs st k\<rparr>)"
proof -
  have l: "p < length ls" "ls ! p = l" using a by (simp_all add: at_Cons)
  have x: "returnsub_ccc False st =
      Some (st\<lparr>sub_count := int k, while_count := sub_whiles st k, endif_count := sub_endifs st k\<rparr>, int (sub_lines st k))"
    using k by (simp add: returnsub_ccc_def Let_def counts_def in_stack_def)
  show ?thesis
    by (rule control_step [of p ls "''returnsub''" other args st _ "int (sub_lines st k)"])
      (use l a(2) k(2) in \<open>auto simp: execute_control(4) x\<close>)
qed

text \<open>A subroutine that the main code comes to is jumped over.\<close>

lemma subroutine_step:
  assumes a: "at ls p (l # lines_of c @ [d])" "has_command ''subroutine'' l" "has_command ''endsubroutine'' d" "well_formed c"
  shows "leads other args ls p st (p + length (lines_of c) + 2) st"
proof -
  have l: "p < length ls" "ls ! p = l" using a by (simp_all add: at_Cons)
  have b: "at ls (p + 1) (lines_of c)" "at ls (p + 1 + length (lines_of c)) [d]" using a(1) by (simp_all add: at_Cons at_append)
  have e: "find_command ''endsubroutine'' ls (p + 1) = Some (p + 1 + length (lines_of c))"
  proof (rule find_command_first)
    show "p + 1 \<le> p + 1 + length (lines_of c)" "p + 1 + length (lines_of c) < length ls" using b(2) by (simp_all add: at_Cons)
    show "has_command ''endsubroutine'' (ls ! (p + 1 + length (lines_of c)))" using b(2) a(3) by (simp add: at_Cons)
    fix j assume "p + 1 \<le> j" "j < p + 1 + length (lines_of c)"
    then have "ls ! j \<in> set (lines_of c)" using at_nth [OF b(1), of "j - (p + 1)"] by auto
    then show "\<not> has_command ''endsubroutine'' (ls ! j)" using no_subroutine_lines(1) [OF a(4)] by blast
  qed
  have x: "subroutine_ccc False ls st p = Some (st, int (p + 1 + length (lines_of c)))"
    by (simp add: subroutine_ccc_def e [simplified])
  show ?thesis
    by (rule control_step [of p ls "''subroutine''" other args st _ "int (p + 1 + length (lines_of c))"])
      (use l a(2) in \<open>auto simp: execute_control(2) x\<close>)
qed

end
