(* ===== verification/Script_Refine.thy ===== *)
theory Script_Refine
  imports Script_Steps
begin

text \<open>
  A run of a structured script does what the script means: induction over the meaning, with the place
  of the code among the lines and the entries on the stacks.
\<close>

section \<open>Places\<close>

text \<open>The line of a subroutine and its code, for items that begin on line \<open>n\<close>.\<close>

fun routine_at :: "item list \<Rightarrow> nat \<Rightarrow> string \<Rightarrow> (nat \<times> code) option" where
  "routine_at [] n f = None"
| "routine_at (Main_code c # items) n f = routine_at items (n + length (lines_of c)) f"
| "routine_at (Routine l c d # items) n f =
     (if subroutine_name l = Some f then Some (n, c) else routine_at items (n + length (lines_of c) + 2) f)"

definition region :: "item list \<Rightarrow> nat \<Rightarrow> string \<Rightarrow> nat set" where
  "region items n f =
     (case routine_at items n f of None \<Rightarrow> {} | Some (h, c) \<Rightarrow> {h..<h + length (lines_of c) + 2})"

text \<open>What the simulation uses of the lines of a program.\<close>

definition layout :: "script \<Rightarrow> item list \<Rightarrow> bool" where
  "layout ls items \<longleftrightarrow>
     (\<forall>f. (routine items f = None \<longrightarrow> find_subroutine ls f 0 = None) \<and>
          (\<forall>c. routine items f = Some c \<longrightarrow>
             (\<exists>h e. routine_at items 2 f = Some (h, c) \<and> find_subroutine ls f 0 = Some h \<and> 2 \<le> h \<and> well_formed c \<and>
                at ls (h + 1) (lines_of c @ [e]) \<and> has_command ''endsubroutine'' e))) \<and>
     (\<forall>f g. f \<noteq> g \<longrightarrow> region items 2 f \<inter> region items 2 g = {})"

text \<open>
  The lines \<open>P\<close> of a piece of code are outside the subroutines not entered, and so is the WHILE on
  top of the stack, which is not among \<open>P\<close> either.
\<close>

definition apart :: "item list \<Rightarrow> string list \<Rightarrow> nat set \<Rightarrow> bool" where
  "apart items A P \<longleftrightarrow> (\<forall>f. f \<notin> set A \<longrightarrow> region items 2 f \<inter> P = {})"

definition fresh :: "item list \<Rightarrow> string list \<Rightarrow> script_state \<Rightarrow> nat \<Rightarrow> nat set \<Rightarrow> bool" where
  "fresh items A st w P \<longleftrightarrow>
     (0 < w \<and> while_conds st (w - 1) \<longrightarrow>
        while_lines st (w - 1) \<notin> P \<and> (\<forall>f. f \<notin> set A \<longrightarrow> while_lines st (w - 1) \<notin> region items 2 f))"

lemma apart_subset: "apart items A P \<Longrightarrow> Q \<subseteq> P \<Longrightarrow> apart items A Q"
  by (auto simp: apart_def)

lemma fresh_subset: "fresh items A st w P \<Longrightarrow> Q \<subseteq> P \<Longrightarrow> fresh items A st w Q"
  by (auto simp: fresh_def)

lemma fresh_agree: "fresh items A st w P \<Longrightarrow> agree st st' w i k \<Longrightarrow> fresh items A st' w P"
  by (auto simp: fresh_def agree_def)

text \<open>Code in its place, with the state in which it is run.\<close>

definition ready_to_run :: "item list \<Rightarrow> string list \<Rightarrow> script_state \<Rightarrow> nat \<Rightarrow> nat \<Rightarrow> nat \<Rightarrow> nat set \<Rightarrow> bool" where
  "ready_to_run items A st w i p P \<longleftrightarrow>
     2 \<le> p \<and> counts st w i (length A) \<and> frames_ok st w i (length A) \<and> (\<forall>j<length A. 2 \<le> sub_lines st j) \<and>
     (\<forall>j<w. 2 \<le> done_lines st j) \<and> fresh items A st w P \<and> apart items A P"

lemma ready_part:
  "ready_to_run items A st w i p P \<Longrightarrow> p \<le> q \<Longrightarrow> Q \<subseteq> P \<Longrightarrow> ready_to_run items A st w i q Q"
  by (auto simp: ready_to_run_def intro: fresh_subset apart_subset)

lemma ready_later:
  assumes "ready_to_run items A st w i p P" "agree st st' w i (length A)" "counts st' w i (length A)" "p \<le> q" "Q \<subseteq> P"
  shows "ready_to_run items A st' w i q Q"
proof -
  have "\<forall>j<length A. sub_lines st' j = sub_lines st j" "\<forall>j<w. done_lines st' j = done_lines st j" using assms(2) by (simp_all add: agree_def)
  moreover have "fresh items A st' w Q" using assms fresh_agree fresh_subset by (metis ready_to_run_def)
  moreover have "frames_ok st' w i (length A)" using assms(1) frames_ok_agree [OF _ assms(2)] by (simp add: ready_to_run_def)
  moreover have "apart items A Q" using assms apart_subset by (auto simp: ready_to_run_def)
  ultimately show ?thesis using assms by (simp add: ready_to_run_def)
qed

section \<open>The simulation of each construct\<close>

text \<open>The state after the test of an IF.\<close>

lemma push_if_data [simp]: "data (push_if st i e b) = data st"
  by (simp add: push_if_def)

lemma push_if_agree [simp]: "agree st (push_if st i e b) w i k"
  by (simp add: agree_def push_if_def)

lemma push_if_top [simp]: "endif_lines (push_if st i e b) i = e" "conditions (push_if st i e b) i = b"
  by (simp_all add: push_if_def)

lemma push_if_counts: "counts st w i k \<Longrightarrow> i < 256 \<Longrightarrow> counts (push_if st i e b) w (Suc i) k"
  by (simp add: counts_def push_if_def)

lemma frames_ok_higher: "frames_ok st w i k \<Longrightarrow> frames_ok st w (Suc i) k"
  by (auto simp: frames_ok_def)

lemma push_if_ready:
  assumes "ready_to_run items A st w i p P" "i < 256" "p \<le> q" "Q \<subseteq> P"
  shows "ready_to_run items A (push_if st i e b) w (Suc i) q Q"
proof -
  note a = push_if_agree [of st i e b w "length A"]
  have "frames_ok (push_if st i e b) w (Suc i) (length A)"
    using assms(1) frames_ok_agree [OF _ a] by (intro frames_ok_higher) (simp add: ready_to_run_def)
  moreover have "fresh items A (push_if st i e b) w Q" using assms fresh_agree [OF _ a] fresh_subset by (metis ready_to_run_def)
  moreover have "apart items A Q" using assms apart_subset by (auto simp: ready_to_run_def)
  moreover have "sub_lines (push_if st i e b) = sub_lines st" "done_lines (push_if st i e b) = done_lines st" by (simp_all add: push_if_def)
  ultimately show ?thesis using assms push_if_counts by (simp add: ready_to_run_def)
qed

lemma tail_last: "well_formed_tail t \<Longrightarrow> \<exists>xs m. tail_lines t = xs @ [m] \<and> has_command ''endif'' m"
proof (induction "length (tail_lines t)" arbitrary: t rule: less_induct)
  case less
  show ?case
  proof (cases t)
    case (Elseif l c u)
    then obtain xs m where "tail_lines u = xs @ [m]" "has_command ''endif'' m" using less.hyps [of u] less.prems by auto
    then show ?thesis using Elseif by (intro exI [of _ "l # lines_of c @ xs"]) simp
  next
    case (Else l c d)
    then show ?thesis using less.prems by (intro exI [of _ "l # lines_of c"]) simp
  qed (use less.prems in simp)
qed

text \<open>Behind the first branch of an IF that was taken, the rest is jumped over.\<close>

lemma skip_tail:
  assumes a: "at ls p (tail_lines t)" "well_formed_tail t" and k: "counts st w (Suc i) k" "1 \<le> p"
    and e: "conditions st i" "endif_lines st i = p + length (tail_lines t) - 1"
  shows "leads other args ls p st (p + length (tail_lines t)) (st\<lparr>endif_count := int i\<rparr>)"
proof -
  have c: "endif_count st = int (Suc i)" using k by (simp add: counts_def)
  show ?thesis
  proof (cases t)
    case (Endif l)
    then show ?thesis using endif_step [OF _ _ c, of ls p l] a by simp
  next
    case (Else l d m)
    let ?e = "p + 1 + length (lines_of d)"
    have "at ls p [l]" "at ls ?e [m]" using a(1) Else by (simp_all add: at_Cons at_append)
    then have "leads other args ls p st ?e st"
      using else_step [of ls p l st w i k ?e] a(2) k e Else by simp
    also have "leads other args ls ?e st (?e + 1) (st\<lparr>endif_count := int i\<rparr>)"
      using endif_step [OF \<open>at ls ?e [m]\<close> _ c] a(2) Else by simp
    finally show ?thesis using Else by simp
  next
    case (Elseif l d u)
    let ?e = "p + length (tail_lines t) - 1"
    obtain ys m where y: "tail_lines u = ys @ [m]" "has_command ''endif'' m" using tail_last [of u] a(2) Elseif by auto
    then have x: "tail_lines t = l # (lines_of d @ ys) @ [m]" using Elseif by simp
    have l: "at ls p [l]" "at ls ?e [m]" using a(1) x by (simp_all add: at_Cons at_append add.assoc)
    have "leads other args ls p st ?e st"
      using elseif_skip [of ls p l st w i k ?e] l a(2) k e x Elseif by simp
    also have "leads other args ls ?e st (?e + 1) (st\<lparr>endif_count := int i\<rparr>)"
      using endif_step [OF l(2) y(2) c] by simp
    finally show ?thesis using x by simp
  qed
qed

text \<open>A branch that is left by its end goes on behind the ENDIF; any other signal passes.\<close>

lemma sim_branch:
  assumes l: "leads other args ls p st p1 st1" "agree st st1 w i k" "frames_ok st w i k" "i < 256"
    and r: "arrives other args ls p1 st1 q1 w (Suc i) k (g, s)"
    and e: "\<And>st'. g = Done \<Longrightarrow> counts st' w (Suc i) k \<Longrightarrow> agree st1 st' w (Suc i) k \<Longrightarrow>
      leads other args ls q1 st' q (st'\<lparr>endif_count := int i\<rparr>)"
  shows "arrives other args ls p st q w i k (g, s)"
proof (cases "g = Done")
  case True
  then obtain st' where s: "leads other args ls p1 st1 q1 st'" "data st' = s" "counts st' w (Suc i) k" "agree st1 st' w (Suc i) k"
    using r unfolding arrives_def by auto
  let ?t = "st'\<lparr>endif_count := int i\<rparr>"
  have "leads other args ls p st q ?t" using leads_trans [OF leads_trans [OF l(1) s(1)] e [OF True s(3,4)]] .
  moreover have "agree st' ?t w i k" by (simp add: agree_def)
  then have "agree st ?t w i k" using agree_trans [OF l(2)] agree_below [OF s(4)] by simp
  moreover have "counts ?t w i k" using s(3) by (simp add: counts_def)
  ultimately show ?thesis using True s(2) unfolding arrives_def by auto
next
  case False
  then show ?thesis using arrives_before [OF l(1-3) r] by simp
qed

lemma sim_cond_true:
  assumes a: "at ls p (l # lines_of c @ tail_lines t)" and w: "has_command ''if'' l" "well_formed c" "well_formed_tail t"
    and d: "ready_to_run items A st w i p P" and r: "compare_ccc False (data st) (arguments l) = 1" "i < 256"
    and b: "arrives other args ls (p + 1) (push_if st i (p + length (lines_of c) + length (tail_lines t)) True)
      (p + 1 + length (lines_of c)) w (Suc i) (length A) (g, s)"
  shows "arrives other args ls p st (p + 1 + length (lines_of c) + length (tail_lines t)) w i (length A) (g, s)"
proof (rule sim_branch [OF _ _ _ r(2) b])
  have k: "counts st w i (length A)" "2 \<le> p" "frames_ok st w i (length A)" using d by (simp_all add: ready_to_run_def)
  then show "frames_ok st w i (length A)" by blast
  show "leads other args ls p st (p + 1) (push_if st i (p + length (lines_of c) + length (tail_lines t)) True)"
    using if_step [OF a w k(1) r(2) _ r(1)] k(2) by simp
  show "agree st (push_if st i (p + length (lines_of c) + length (tail_lines t)) True) w i (length A)" by simp
  fix st' assume n: "counts st' w (Suc i) (length A)"
    "agree (push_if st i (p + length (lines_of c) + length (tail_lines t)) True) st' w (Suc i) (length A)"
  have "conditions st' i" "endif_lines st' i = p + length (lines_of c) + length (tail_lines t)" using n(2) by (simp_all add: agree_def)
  moreover have "at ls (p + 1 + length (lines_of c)) (tail_lines t)" using a by (simp add: at_Cons at_append)
  ultimately show "leads other args ls (p + 1 + length (lines_of c)) st' (p + 1 + length (lines_of c) + length (tail_lines t))
      (st'\<lparr>endif_count := int i\<rparr>)"
    using skip_tail [where p = "p + 1 + length (lines_of c)" and t = t and other = other and args = args, OF _ w(3) n(1)] by simp
qed

lemma sim_cond_false:
  assumes a: "at ls p (l # lines_of c @ tail_lines t)" and w: "has_command ''if'' l" "well_formed c" "well_formed_tail t"
    and d: "ready_to_run items A st w i p P" and r: "compare_ccc False (data st) (arguments l) = 0" "i < 256"
    and b: "arrives other args ls (p + 1 + length (lines_of c)) (push_if st i (p + length (lines_of c) + length (tail_lines t)) False)
      q w i (length A) (g, s)"
  shows "arrives other args ls p st q w i (length A) (g, s)"
proof (rule arrives_before [OF _ _ _ b])
  show "leads other args ls p st (p + 1 + length (lines_of c)) (push_if st i (p + length (lines_of c) + length (tail_lines t)) False)"
    using if_step [where w = w and k = "length A" and other = other and args = args, OF a w _ r(2) _ r(1)] d by (simp add: ready_to_run_def)
qed (use d in \<open>simp_all add: ready_to_run_def\<close>)

lemma sim_else:
  assumes a: "at ls p (l # lines_of c @ [m])" and w: "has_command ''else'' l" "length (scan_words l) = 1" "has_command ''endif'' m"
    and d: "counts st w (Suc i) k" "frames_ok st w i k" "1 \<le> p" and e: "\<not> conditions st i"
    and b: "arrives other args ls (p + 1) st (p + 1 + length (lines_of c)) w (Suc i) k (g, s)"
  shows "arrives other args ls p st (p + length (lines_of c) + 2) w i k (g, s)"
proof (rule sim_branch [OF _ _ _ _ b])
  have l: "at ls p [l]" "at ls (p + 1 + length (lines_of c)) [m]" using a by (simp_all add: at_Cons at_append)
  show "leads other args ls p st (p + 1) st" using else_step [OF l(1) w(1,2) d(1,3)] e by simp
  show "i < 256" using d(1) by (simp add: counts_def)
  fix st' assume "counts st' w (Suc i) k"
  then have "endif_count st' = int (Suc i)" by (simp add: counts_def)
  then show "leads other args ls (p + 1 + length (lines_of c)) st' (p + length (lines_of c) + 2) (st'\<lparr>endif_count := int i\<rparr>)"
    using endif_step [OF l(2) w(3)] by simp
qed (use d in simp_all)

lemma set_condition_facts:
  "agree st (set_condition st i b) w i k" "conditions (set_condition st i b) i = b" "data (set_condition st i b) = data st"
  "endif_lines (set_condition st i b) = endif_lines st" "counts (set_condition st i b) w' i' k' = counts st w' i' k'"
  by (simp_all add: agree_def set_condition_def counts_def)

lemma sim_elseif_true:
  assumes a: "at ls p (l # lines_of c @ tail_lines t)" and w: "has_command ''elseif'' l" "well_formed c" "well_formed_tail t"
    and d: "counts st w (Suc i) k" "frames_ok st w i k" "1 \<le> p"
    and e: "\<not> conditions st i" "endif_lines st i = p + length (lines_of c) + length (tail_lines t)"
    and r: "compare_ccc False (data st) (arguments l) = 1" "Suc i < 256"
    and b: "arrives other args ls (p + 1) (set_condition st i True) (p + 1 + length (lines_of c)) w (Suc i) k (g, s)"
  shows "arrives other args ls p st (p + 1 + length (lines_of c) + length (tail_lines t)) w i k (g, s)"
proof (rule sim_branch [OF _ _ _ _ b])
  show "leads other args ls p st (p + 1) (set_condition st i True)" using elseif_step [OF a w d(1) r(2) d(3) r(1) _ e(1)] by simp
  show "agree st (set_condition st i True) w i k" by (rule set_condition_facts)
  show "i < 256" using r by simp
  fix st' assume n: "counts st' w (Suc i) k" "agree (set_condition st i True) st' w (Suc i) k"
  have "conditions st' i" "endif_lines st' i = p + length (lines_of c) + length (tail_lines t)"
    using n(2) e(2) by (simp_all add: agree_def set_condition_facts)
  moreover have "at ls (p + 1 + length (lines_of c)) (tail_lines t)" using a by (simp add: at_Cons at_append)
  ultimately show "leads other args ls (p + 1 + length (lines_of c)) st' (p + 1 + length (lines_of c) + length (tail_lines t))
      (st'\<lparr>endif_count := int i\<rparr>)"
    using skip_tail [where p = "p + 1 + length (lines_of c)" and t = t and other = other and args = args, OF _ w(3) n(1)] by simp
qed (use d in simp)

text \<open>Loops.\<close>

definition in_loop :: "script_state \<Rightarrow> nat \<Rightarrow> nat \<Rightarrow> nat \<Rightarrow> nat \<Rightarrow> bool" where
  "in_loop st w i p d \<longleftrightarrow> while_conds st w \<and> while_lines st w = p \<and> done_lines st w = d \<and> while_endifs st w = int i"

lemma in_loop_agree: "in_loop st w i p d \<Longrightarrow> agree st st' (Suc w) i' k \<Longrightarrow> in_loop st' w i p d"
  by (simp add: in_loop_def agree_def)

lemma push_while_facts:
  "agree st (push_while st w p d b) w i k" "data (push_while st w p d b) = data st"
  "endif_count st = int i \<Longrightarrow> in_loop (push_while st w p d True) w i p d" "\<not> while_conds (push_while st w p d False) w"
  by (simp_all add: agree_def push_while_def in_loop_def)

lemma push_while_counts: "counts st w i k \<Longrightarrow> w < 256 \<Longrightarrow> counts (push_while st w p d b) (Suc w) i k"
  by (simp add: counts_def push_while_def)

lemma push_while_ready:
  assumes "ready_to_run items A st w i p P" "w < 256" "Q \<subseteq> P - {p}" "p \<in> P" "2 \<le> d"
  shows "ready_to_run items A (push_while st w p d b) (Suc w) i (p + 1) Q"
proof -
  have r: "2 \<le> p" "counts st w i (length A)" "frames_ok st w i (length A)" "\<forall>j<length A. 2 \<le> sub_lines st j" "\<forall>j<w. 2 \<le> done_lines st j"
    "apart items A P" using assms(1) by (simp_all add: ready_to_run_def)
  have "frames_ok (push_while st w p d b) (Suc w) i (length A)"
    using r(2,3) by (auto simp: frames_ok_def push_while_def counts_def)
  moreover have "fresh items A (push_while st w p d b) (Suc w) Q"
    using assms(3,4) r(6) by (auto simp: fresh_def push_while_def apart_def)
  moreover have "apart items A Q" using r(6) assms(3) by (auto intro: apart_subset)
  moreover have "\<forall>j<Suc w. 2 \<le> done_lines (push_while st w p d b) j" using r(5) assms(5) by (simp add: push_while_def less_Suc_eq)
  moreover have "sub_lines (push_while st w p d b) = sub_lines st" by (simp add: push_while_def)
  ultimately show ?thesis using r push_while_counts [OF r(2) assms(2)] by (simp add: ready_to_run_def)
qed

lemma not_on_top: "ready_to_run items A st w i p P \<Longrightarrow> p \<in> P \<Longrightarrow> \<not> (0 < w \<and> while_conds st (w - 1) \<and> while_lines st (w - 1) = p)"
  by (auto simp: ready_to_run_def fresh_def)

lemma sim_loop_true:
  assumes a: "at ls p (l # lines_of c @ [d])" and w: "has_command ''while'' l" "well_formed c" "has_command ''done'' d"
    and r: "ready_to_run items A st w i p P" "p \<in> P" and c: "compare_ccc False (data st) (arguments l) = 1" "w < 256"
    and b: "arrives other args ls (p + 1) (push_while st w p (p + 1 + length (lines_of c)) True) q w i (length A) (g, s)"
  shows "arrives other args ls p st q w i (length A) (g, s)"
proof (rule arrives_before [OF _ _ _ b])
  show "leads other args ls p st (p + 1) (push_while st w p (p + 1 + length (lines_of c)) True)"
    using while_step [where i = i and k = "length A" and other = other and args = args, OF a w _ c(2) _ c(1) _ not_on_top [OF r]] r
    by (simp add: ready_to_run_def)
qed (use r in \<open>simp_all add: ready_to_run_def push_while_facts\<close>)

lemma sim_loop_false:
  assumes a: "at ls p (l # lines_of c @ [d])" and w: "has_command ''while'' l" "well_formed c" "has_command ''done'' d"
    and r: "ready_to_run items A st w i p P" "p \<in> P" and c: "compare_ccc False (data st) (arguments l) = 0" "w < 256"
  shows "arrives other args ls p st (p + length (lines_of c) + 2) w i (length A) (Done, data st)"
proof -
  define e where "e = p + 1 + length (lines_of c)"
  define u where "u = push_while st w p e False"
  have k: "counts st w i (length A)" "2 \<le> p" using r by (simp_all add: ready_to_run_def)
  have 1: "leads other args ls p st e u"
    unfolding e_def u_def using while_step [OF a w k(1) c(2) _ c(1) _ not_on_top [OF r]] k(2) by simp
  have d: "at ls e [d]" using a by (simp add: e_def at_Cons at_append)
  have u: "counts u (Suc w) i (length A)" "\<not> while_conds u w" "agree st u w i (length A)" "data u = data st"
    using push_while_counts [OF k(1) c(2)] by (simp_all add: u_def push_while_facts)
  have 2: "leads other args ls e u (e + 1) (u\<lparr>while_count := int w\<rparr>)"
    using done_step [where other = other and args = args, OF d w(3) u(1)] u(2) by simp
  have "counts (u\<lparr>while_count := int w\<rparr>) w i (length A)" using u(1) by (simp add: counts_def)
  moreover have "agree u (u\<lparr>while_count := int w\<rparr>) w i (length A)" by (simp add: agree_def)
  then have "agree st (u\<lparr>while_count := int w\<rparr>) w i (length A)" using agree_trans [OF u(3)] by blast
  ultimately show ?thesis
    using leads_trans [OF 1 2] u(4) unfolding arrives_def e_def by auto
qed

text \<open>The end of a round: the run is back at the WHILE.\<close>

lemma loop_back:
  assumes a: "at ls p (l # lines_of c @ [d])" "has_command ''done'' d" and r: "2 \<le> p" "in_loop st w i p e"
    and b: "arrives other args ls (p + 1) st (p + 1 + length (lines_of c)) (Suc w) i k (Done, s)"
  shows "\<exists>st1. leads other args ls (p + 1) st p st1 \<and> data st1 = s \<and> counts st1 (Suc w) i k \<and> agree st st1 (Suc w) i k \<and> in_loop st1 w i p e"
proof -
  obtain st1 where s: "leads other args ls (p + 1) st (p + 1 + length (lines_of c)) st1" "data st1 = s"
    "counts st1 (Suc w) i k" "agree st st1 (Suc w) i k" using b unfolding arrives_def by auto
  have l: "in_loop st1 w i p e" using in_loop_agree [OF r(2) s(4)] .
  have "at ls (p + 1 + length (lines_of c)) [d]" using a by (simp add: at_Cons at_append)
  then have "leads other args ls (p + 1 + length (lines_of c)) st1 p st1"
    using done_step [where other = other and args = args, OF _ a(2) s(3)] l r(1) by (simp add: in_loop_def)
  then show ?thesis using leads_trans [OF s(1)] s l by blast
qed

lemma sim_round:
  assumes a: "at ls p (l # lines_of c @ [d])" and w: "has_command ''while'' l" "has_command ''done'' d"
    and r: "2 \<le> p" "in_loop st w i p (p + 1 + length (lines_of c))" "frames_ok st w i k"
    and b: "arrives other args ls (p + 1) st (p + 1 + length (lines_of c)) (Suc w) i k (Done, s1)"
    and c: "compare_ccc False s1 (arguments l) = n"
    and i: "n = 1 \<Longrightarrow> \<forall>st1. data st1 = s1 \<and> counts st1 (Suc w) i k \<and> agree st st1 (Suc w) i k \<longrightarrow>
      arrives other args ls (p + 1) st1 (p + length (lines_of c) + 2) w i k (g, s)"
    and e: "n = 0 \<Longrightarrow> g = Done \<and> s = s1" "n < 0 \<Longrightarrow> g = Stopped (- 1) \<and> s = s1"
  shows "arrives other args ls (p + 1) st (p + length (lines_of c) + 2) w i k (g, s)"
proof -
  obtain st1 where t: "leads other args ls (p + 1) st p st1" "data st1 = s1" "counts st1 (Suc w) i k" "agree st st1 (Suc w) i k"
    "in_loop st1 w i p (p + 1 + length (lines_of c))" using loop_back [OF a w(2) r(1,2) b] by blast
  have l: "at ls p [l]" using a by (simp add: at_Cons)
  have g: "agree st st1 w i k" using agree_mono [OF t(4)] by simp
  have n: "n \<in> {- 1, 0, 1}" using compare_range c by blast
  show ?thesis
  proof (cases "n < 0")
    case True
    then have "ends other args ls p st1 (Ended (- 1) st1)"
      using while_again_error [OF l w(1) t(3)] t(2,5) c by (simp add: in_loop_def)
    then show ?thesis using e(2) [OF True] leads_ends [OF t(1)] t(2) unfolding arrives_def by auto
  next
    case False
    then have s: "leads other args ls p st1 (if n = 0 then p + 1 + length (lines_of c) + 1 else p + 1)
      (if n = 0 then st1\<lparr>while_conds := (while_conds st1)(w := False), while_count := int w\<rparr> else st1)"
      using while_again [OF l w(1) t(3)] t(2,5) c by (simp add: in_loop_def)
    show ?thesis
    proof (cases "n = 0")
      case True
      let ?t = "st1\<lparr>while_conds := (while_conds st1)(w := False), while_count := int w\<rparr>"
      have "agree st1 ?t w i k" "counts ?t w i k" using t(3) by (simp_all add: agree_def counts_def)
      then show ?thesis
        using leads_trans [OF t(1) s] e(1) [OF True] True t(2) agree_trans [OF g] unfolding arrives_def by auto
    next
      case False
      then have "n = 1" using n \<open>\<not> n < 0\<close> by auto
      then have "leads other args ls (p + 1) st (p + 1) st1" using leads_trans [OF t(1) s] by simp
      moreover have "arrives other args ls (p + 1) st1 (p + length (lines_of c) + 2) w i k (g, s)" using i \<open>n = 1\<close> t by blast
      ultimately show ?thesis using arrives_before [OF _ g r(3)] by simp
    qed
  qed
qed

lemma sim_round_break:
  assumes r: "in_loop st w i p (p + 1 + length (lines_of c))"
    and b: "arrives other args ls (p + 1) st q (Suc w) i k (Broken, s)"
  shows "arrives other args ls (p + 1) st (p + length (lines_of c) + 2) w i k (Done, s)"
  using b r unfolding arrives_def in_loop_def by auto

text \<open>Plain lines, BREAK and RETURNSUB.\<close>

lemma execute_plain:
  assumes "plain_line l" "scan_split l = Some (c, t)"
  shows "execute_line other args False ls st n c t = map_option (\<lambda>(s, r). (st\<lparr>data := s\<rparr>, r)) (store_command other args False (data st) c t)"
proof -
  obtain u where "first_word l = Some (c, u)" using assms(2) by (auto simp: scan_split_def)
  then have "has_command k l \<longleftrightarrow> same_nocase k c" for k unfolding has_command_def scan_words_first [of l] by simp
  then have "\<not> same_nocase c k" if "k \<in> set control_words" for k
    using assms(1) that by (auto simp: plain_line_def same_nocase_def)
  then show ?thesis unfolding execute_line_def by simp
qed

lemma sim_plain:
  assumes a: "at ls p [l]" "plain_line l" and k: "counts st w i k" and x: "plain_step other args (data st) l = Some (s', r)" "r \<le> 0"
  shows "arrives other args ls p st (p + 1) w i k (if r < 0 then Stopped r else Done, s')"
proof (cases "scan_split l")
  case None
  then have "leads other args ls p st (p + 1) st" "r = 0" "s' = data st"
    using a blank_step [of p ls other args st] x by (auto simp: at_Cons plain_step_def)
  then show ?thesis using k unfolding arrives_def by auto
next
  case (Some ct)
  obtain c t where c: "scan_split l = Some (c, t)" using Some by (cases ct) auto
  have e: "execute_line other args False ls st p c t = Some (st\<lparr>data := s'\<rparr>, r)"
    using x c by (simp add: execute_plain [OF a(2) c] plain_step_def)
  have l: "p < length ls" "scan_split (ls ! p) = Some (c, t)" using a(1) c by (simp_all add: at_Cons)
  have d: "counts (st\<lparr>data := s'\<rparr>) w i k" "agree st (st\<lparr>data := s'\<rparr>) w i k" using k by (simp_all add: counts_def agree_def)
  show ?thesis
  proof (cases "r < 0")
    case True
    have "ends other args ls p st (Ended r (st\<lparr>data := s'\<rparr>))" using command_stop [OF l e True] .
    then show ?thesis using True unfolding arrives_def by auto
  next
    case False
    then have "leads other args ls p st (p + 1) (st\<lparr>data := s'\<rparr>)" using command_step [OF l e] x(2) by simp
    then show ?thesis using False d unfolding arrives_def by auto
  qed
qed

lemma sim_break:
  assumes a: "at ls p [l]" "has_command ''break'' l" and r: "ready_to_run items A st w i p P"
  shows "arrives other args ls p st q w i (length A) (Broken, data st)"
proof (cases w)
  case 0
  have l: "p < length ls" "ls ! p = l" using a(1) by (simp_all add: at_Cons)
  have "dobreak_ccc False st = Some (st\<lparr>while_count := - 1\<rparr>, - 1)" using r 0 by (simp add: ready_to_run_def counts_def dobreak_ccc_def Let_def)
  then have "ends other args ls p st (Ended (- 1) (st\<lparr>while_count := - 1\<rparr>))"
    using l a(2) by (intro control_stop [of p ls "''break''"]) (simp_all add: execute_control(11))
  then show ?thesis using 0 unfolding arrives_def by auto
next
  case (Suc v)
  then have k: "counts st (Suc v) i (length A)" "2 \<le> done_lines st v" "0 \<le> while_endifs st v" "while_endifs st v \<le> int i"
    using r by (auto simp: ready_to_run_def frames_ok_def)
  let ?t = "st\<lparr>while_count := int v, endif_count := while_endifs st v\<rparr>"
  have "leads other args ls p st (done_lines st v + 1) ?t" using break_step [OF a k(1)] k(2) by simp
  moreover have "counts ?t v (nat (while_endifs st v)) (length A)" using k by (auto simp: counts_def)
  moreover have "agree st ?t v (nat (while_endifs st v)) (length A)" by (simp add: agree_def)
  ultimately show ?thesis using Suc unfolding arrives_def by auto
qed

lemma sim_return:
  assumes a: "at ls p [l]" "has_command ''returnsub'' l" and r: "ready_to_run items A st w i p P"
  shows "arrives other args ls p st q w i (length A) (Returned, data st)"
proof (cases "length A")
  case 0
  have l: "p < length ls" "ls ! p = l" using a(1) by (simp_all add: at_Cons)
  have "returnsub_ccc False st = Some (st\<lparr>sub_count := - 1\<rparr>, - 1)" using r 0 by (simp add: ready_to_run_def counts_def returnsub_ccc_def Let_def)
  then have "ends other args ls p st (Ended (- 1) (st\<lparr>sub_count := - 1\<rparr>))"
    using l a(2) by (intro control_stop [of p ls "''returnsub''"]) (simp_all add: execute_control(4))
  then show ?thesis using 0 unfolding arrives_def by auto
next
  case (Suc v)
  then have k: "counts st w i (Suc v)" "2 \<le> sub_lines st v" "0 \<le> sub_whiles st v" "sub_whiles st v \<le> int w"
      "0 \<le> sub_endifs st v" "sub_endifs st v \<le> int i"
    using r by (auto simp: ready_to_run_def frames_ok_def)
  let ?t = "st\<lparr>sub_count := int v, while_count := sub_whiles st v, endif_count := sub_endifs st v\<rparr>"
  have "leads other args ls p st (sub_lines st v + 1) ?t" using return_step [OF a k(1)] k(2) by simp
  moreover have "counts ?t (nat (sub_whiles st v)) (nat (sub_endifs st v)) v" using k by (auto simp: counts_def)
  moreover have "agree st ?t (nat (sub_whiles st v)) (nat (sub_endifs st v)) v" by (simp add: agree_def)
  ultimately show ?thesis using Suc unfolding arrives_def by auto
qed

text \<open>Calls.\<close>

lemma push_sub_facts:
  "agree st (push_sub st k p) w i k" "data (push_sub st k p) = data st" "sub_lines (push_sub st k p) k = p"
  "sub_whiles (push_sub st k p) k = while_count st" "sub_endifs (push_sub st k p) k = endif_count st"
  by (simp_all add: agree_def push_sub_def)

lemma push_sub_ready:
  assumes "ready_to_run items A st w i p P" "length A < 256" "f \<notin> set A" "Q \<subseteq> region items 2 f" "2 \<le> q"
    and "\<And>g. g \<noteq> f \<Longrightarrow> region items 2 g \<inter> region items 2 f = {}"
  shows "ready_to_run items (f # A) (push_sub st (length A) p) w i q Q"
proof -
  have r: "2 \<le> p" "counts st w i (length A)" "frames_ok st w i (length A)" "\<forall>j<length A. 2 \<le> sub_lines st j" "\<forall>j<w. 2 \<le> done_lines st j"
    "fresh items A st w P" using assms(1) by (simp_all add: ready_to_run_def)
  have "frames_ok (push_sub st (length A) p) w i (Suc (length A))"
    using r(2,3) by (auto simp: frames_ok_def push_sub_def counts_def)
  moreover have "fresh items (f # A) (push_sub st (length A) p) w Q"
    using r(6) assms(3,4) by (auto simp: fresh_def push_sub_def)
  moreover have "apart items (f # A) Q" using assms(4,6) by (auto simp: apart_def)
  moreover have "\<forall>j<Suc (length A). 2 \<le> sub_lines (push_sub st (length A) p) j" using r(1,4) by (simp add: push_sub_def less_Suc_eq)
  moreover have "counts (push_sub st (length A) p) w i (Suc (length A))" using r(2) assms(2) by (simp add: counts_def push_sub_def)
  moreover have "done_lines (push_sub st (length A) p) = done_lines st" by (simp add: push_sub_def)
  ultimately show ?thesis using r(5) assms(5) by (simp add: ready_to_run_def)
qed

lemma sim_call:
  assumes a: "at ls p [l]" "has_command ''gosub'' l" and f: "first_word (arguments l) = Some (f, u)" "find_subroutine ls f 0 = Some h" "2 \<le> h"
    and e: "at ls (h + 1) (lines_of c @ [e])" "has_command ''endsubroutine'' e"
    and r: "ready_to_run items A st w i p P" "length A < 256"
    and b: "arrives other args ls (h + 1) (push_sub st (length A) p) (h + 1 + length (lines_of c)) w i (Suc (length A)) (g, s)"
    and g: "g = Done \<or> g = Returned \<or> g = Stopped n"
  shows "arrives other args ls p st (p + 1) w i (length A) (if g = Returned then Done else g, s)"
proof -
  define k where "k = length A"
  define v where "v = push_sub st k p"
  note b = b [folded k_def, folded v_def]
  have c: "counts st w i k" "2 \<le> p" using r(1) by (simp_all add: ready_to_run_def k_def)
  have l: "leads other args ls p st (h + 1) v"
    unfolding v_def using gosub_step [where other = other and args = args, OF a f(1,2) _ c(1)] f(3) r(2) by (simp add: k_def)
  have v: "agree st v w i k" "sub_lines v k = p" "sub_whiles v k = int w" "sub_endifs v k = int i"
    using c(1) by (simp_all add: v_def push_sub_facts counts_def)
  show ?thesis
  proof (cases g)
    case Done
    then obtain st' where s: "leads other args ls (h + 1) v (h + 1 + length (lines_of c)) st'" "data st' = s"
      "counts st' w i (Suc k)" "agree v st' w i (Suc k)" using b unfolding arrives_def by auto
    have p: "sub_lines st' k = p" using s(4) v(2) by (simp add: agree_def)
    have "at ls (h + 1 + length (lines_of c)) [e]" using e(1) by (simp add: at_append at_Cons)
    then have "leads other args ls (h + 1 + length (lines_of c)) st' (p + 1) (st'\<lparr>sub_count := int k\<rparr>)"
      using endsubroutine_step [where other = other and args = args, OF _ e(2) s(3)] p c(2) by simp
    moreover have "counts (st'\<lparr>sub_count := int k\<rparr>) w i k" using s(3) by (simp add: counts_def)
    moreover have "agree st' (st'\<lparr>sub_count := int k\<rparr>) w i k" by (simp add: agree_def)
    then have "agree st (st'\<lparr>sub_count := int k\<rparr>) w i k"
      using agree_trans [OF v(1)] agree_below [OF s(4)] by simp
    moreover from calculation(1) have "leads other args ls p st (p + 1) (st'\<lparr>sub_count := int k\<rparr>)"
      by (rule leads_trans [OF leads_trans [OF l s(1)]])
    ultimately show ?thesis using Done s(2) unfolding arrives_def k_def by (auto intro!: exI [of _ "st'\<lparr>sub_count := int (length A)\<rparr>"])
  next
    case Returned
    then obtain st' where s: "leads other args ls (h + 1) v (p + 1) st'" "data st' = s" "counts st' w i k" "agree v st' w i k"
      using b v unfolding arrives_def by auto
    then show ?thesis using Returned leads_trans [OF l s(1)] agree_trans [OF v(1) s(4)] unfolding arrives_def k_def by auto
  next
    case (Stopped m)
    then show ?thesis using b leads_ends [OF l] unfolding arrives_def by auto
  qed (use g in simp)
qed

section \<open>The simulation\<close>

definition sim_code :: "other_commands \<Rightarrow> string list \<Rightarrow> script \<Rightarrow> item list \<Rightarrow> string list \<Rightarrow> nat \<Rightarrow> nat \<Rightarrow> code \<times> store \<Rightarrow> signal \<times> store \<Rightarrow> bool" where
  "sim_code other args ls items A w i cs r \<longleftrightarrow>
     (\<forall>p st. at ls p (lines_of (fst cs)) \<longrightarrow> well_formed (fst cs) \<longrightarrow>
        ready_to_run items A st w i p {p..<p + length (lines_of (fst cs))} \<longrightarrow> data st = snd cs \<longrightarrow>
        arrives other args ls p st (p + length (lines_of (fst cs))) w i (length A) r)"

definition sim_tail :: "other_commands \<Rightarrow> string list \<Rightarrow> script \<Rightarrow> item list \<Rightarrow> string list \<Rightarrow> nat \<Rightarrow> nat \<Rightarrow> tail \<times> store \<Rightarrow> signal \<times> store \<Rightarrow> bool" where
  "sim_tail other args ls items A w i ts r \<longleftrightarrow>
     (\<forall>p st j. i = Suc j \<longrightarrow> at ls p (tail_lines (fst ts)) \<longrightarrow> well_formed_tail (fst ts) \<longrightarrow>
        ready_to_run items A st w (Suc j) p {p..<p + length (tail_lines (fst ts))} \<longrightarrow> frames_ok st w j (length A) \<longrightarrow>
        \<not> conditions st j \<longrightarrow> endif_lines st j = p + length (tail_lines (fst ts)) - 1 \<longrightarrow> data st = snd ts \<longrightarrow>
        arrives other args ls p st (p + length (tail_lines (fst ts))) w j (length A) r)"

definition sim_loop :: "other_commands \<Rightarrow> string list \<Rightarrow> script \<Rightarrow> item list \<Rightarrow> string list \<Rightarrow> nat \<Rightarrow> nat \<Rightarrow> string \<times> code \<times> store \<Rightarrow> signal \<times> store \<Rightarrow> bool" where
  "sim_loop other args ls items A w i lcs r \<longleftrightarrow>
     (case lcs of (l, c, s) \<Rightarrow>
        \<forall>p st d. at ls p (l # lines_of c @ [d]) \<longrightarrow> has_command ''while'' l \<longrightarrow> well_formed c \<longrightarrow> has_command ''done'' d \<longrightarrow> 2 \<le> p \<longrightarrow>
          ready_to_run items A st (Suc w) i (p + 1) {p + 1..<p + 1 + length (lines_of c)} \<longrightarrow>
          in_loop st w i p (p + 1 + length (lines_of c)) \<longrightarrow> frames_ok st w i (length A) \<longrightarrow> data st = s \<longrightarrow>
          arrives other args ls (p + 1) st (p + length (lines_of c) + 2) w i (length A) r)"

lemma sim_codeI:
  assumes "\<And>p st. at ls p (lines_of c) \<Longrightarrow> well_formed c \<Longrightarrow> ready_to_run items A st w i p {p..<p + length (lines_of c)} \<Longrightarrow> data st = s \<Longrightarrow>
      arrives other args ls p st (p + length (lines_of c)) w i (length A) r"
  shows "sim_code other args ls items A w i (c, s) r"
  using assms by (simp add: sim_code_def)

lemma sim_codeD:
  assumes "sim_code other args ls items A w i (c, s) r" "at ls p (lines_of c)" "well_formed c"
    "ready_to_run items A st w i p {p..<p + length (lines_of c)}" "data st = s"
  shows "arrives other args ls p st (p + length (lines_of c)) w i (length A) r"
  using assms by (simp add: sim_code_def)

lemma sim_tailD:
  assumes "sim_tail other args ls items A w (Suc j) (t, s) r" "at ls p (tail_lines t)" "well_formed_tail t"
    "ready_to_run items A st w (Suc j) p {p..<p + length (tail_lines t)}" "frames_ok st w j (length A)" "\<not> conditions st j"
    "endif_lines st j = p + length (tail_lines t) - 1" "data st = s"
  shows "arrives other args ls p st (p + length (tail_lines t)) w j (length A) r"
  using assms by (simp add: sim_tail_def)

lemma ready_counts: "ready_to_run items A st w i p P \<Longrightarrow> counts st w i (length A) \<and> frames_ok st w i (length A) \<and> 2 \<le> p"
  by (simp add: ready_to_run_def)

lemma sim_seq:
  assumes c: "sim_code other args ls items A w i (c, s) (Done, s1)" and d: "sim_code other args ls items A w i (d, s1) (g, s')"
  shows "sim_code other args ls items A w i (Seq c d, s) (g, s')"
proof (rule sim_codeI)
  fix p st
  assume a: "at ls p (lines_of (Seq c d))" "well_formed (Seq c d)" "ready_to_run items A st w i p {p..<p + length (lines_of (Seq c d))}" "data st = s"
  let ?n = "length (lines_of c)" let ?m = "length (lines_of d)"
  have "ready_to_run items A st w i p {p..<p + ?n}" by (rule ready_part [OF a(3)]) auto
  then have "arrives other args ls p st (p + ?n) w i (length A) (Done, s1)"
    using sim_codeD [OF c] a by (simp add: at_append)
  then obtain st1 where t: "leads other args ls p st (p + ?n) st1" "data st1 = s1" "counts st1 w i (length A)" "agree st st1 w i (length A)"
    unfolding arrives_def by auto
  have "ready_to_run items A st1 w i (p + ?n) {p + ?n..<p + ?n + ?m}" by (rule ready_later [OF a(3) t(4,3)]) auto
  then have "arrives other args ls (p + ?n) st1 (p + ?n + ?m) w i (length A) (g, s')"
    using sim_codeD [OF d] a(1,2) t(2) by (simp add: at_append)
  then show "arrives other args ls p st (p + length (lines_of (Seq c d))) w i (length A) (g, s')"
    using arrives_before [OF t(1,4)] ready_counts [OF a(3)] by (simp add: add.assoc)
qed

lemma sim_seq_left:
  assumes c: "sim_code other args ls items A w i (c, s) (g, s1)" "g \<noteq> Done"
  shows "sim_code other args ls items A w i (Seq c d, s) (g, s1)"
proof (rule sim_codeI)
  fix p st
  assume a: "at ls p (lines_of (Seq c d))" "well_formed (Seq c d)" "ready_to_run items A st w i p {p..<p + length (lines_of (Seq c d))}" "data st = s"
  let ?n = "length (lines_of c)"
  have "ready_to_run items A st w i p {p..<p + ?n}" by (rule ready_part [OF a(3)]) auto
  then have "arrives other args ls p st (p + ?n) w i (length A) (g, s1)"
    using sim_codeD [OF c(1)] a by (simp add: at_append)
  then show "arrives other args ls p st (p + length (lines_of (Seq c d))) w i (length A) (g, s1)"
    using arrives_before [OF leads_refl agree_refl, of st w i "length A"] ready_counts [OF a(3)] c(2) by simp
qed

lemma pass_true:
  assumes r: "compare_ccc False s (arguments l) = 1" "i < 256" and c: "sim_code other args ls items A w (Suc i) (c, s) (g, s')"
  shows "sim_code other args ls items A w i (Cond l c t, s) (g, s')"
proof (rule sim_codeI)
  fix p st
  assume a: "at ls p (lines_of (Cond l c t))" "well_formed (Cond l c t)" "ready_to_run items A st w i p {p..<p + length (lines_of (Cond l c t))}" "data st = s"
  let ?n = "length (lines_of c)" let ?m = "length (tail_lines t)" let ?u = "push_if st i (p + ?n + ?m) True"
  have b: "at ls (p + 1) (lines_of c)" using a(1) by (simp add: at_Cons at_append)
  have "ready_to_run items A ?u w (Suc i) (p + 1) {p + 1..<p + 1 + ?n}" by (rule push_if_ready [OF a(3) r(2)]) auto
  then have "arrives other args ls (p + 1) ?u (p + 1 + ?n) w (Suc i) (length A) (g, s')"
    using sim_codeD [OF c b] a(2,4) by simp
  then have "arrives other args ls p st (p + 1 + ?n + ?m) w i (length A) (g, s')"
    using sim_cond_true [of ls p l c t items A st w i] a r by simp
  then show "arrives other args ls p st (p + length (lines_of (Cond l c t))) w i (length A) (g, s')" by (simp add: add.assoc)
qed

lemma pass_false:
  assumes r: "compare_ccc False s (arguments l) = 0" "i < 256" and c: "sim_tail other args ls items A w (Suc i) (t, s) (g, s')"
  shows "sim_code other args ls items A w i (Cond l c t, s) (g, s')"
proof (rule sim_codeI)
  fix p st
  assume a: "at ls p (lines_of (Cond l c t))" "well_formed (Cond l c t)" "ready_to_run items A st w i p {p..<p + length (lines_of (Cond l c t))}" "data st = s"
  let ?n = "length (lines_of c)" let ?m = "length (tail_lines t)" let ?u = "push_if st i (p + ?n + ?m) False"
  have b: "at ls (p + 1 + ?n) (tail_lines t)" using a(1) by (simp add: at_Cons at_append)
  have "ready_to_run items A ?u w (Suc i) (p + 1 + ?n) {p + 1 + ?n..<p + 1 + ?n + ?m}" by (rule push_if_ready [OF a(3) r(2)]) auto
  moreover have "frames_ok ?u w i (length A)" using frames_ok_agree [OF _ push_if_agree] ready_counts [OF a(3)] by blast
  ultimately have "arrives other args ls (p + 1 + ?n) ?u (p + 1 + ?n + ?m) w i (length A) (g, s')"
    using sim_tailD [OF c b] a(2,4) by simp
  then have "arrives other args ls p st (p + 1 + ?n + ?m) w i (length A) (g, s')"
    using sim_cond_false [of ls p l c t items A st w i] a r by simp
  then show "arrives other args ls p st (p + length (lines_of (Cond l c t))) w i (length A) (g, s')" by (simp add: add.assoc)
qed

lemma pass_error:
  assumes r: "compare_ccc False s (arguments l) < 0"
  shows "sim_code other args ls items A w i (Cond l c t, s) (Stopped (- 1), s)"
proof (rule sim_codeI)
  fix p and st :: script_state
  assume a: "at ls p (lines_of (Cond l c t))" "well_formed (Cond l c t)" "data st = s"
  then have "ends other args ls p st (Ended (- 1) st)" using if_error [of ls p l c t st] r by simp
  then show "arrives other args ls p st (p + length (lines_of (Cond l c t))) w i (length A) (Stopped (- 1), s)"
    using a(3) unfolding arrives_def by auto
qed

lemma pass_endif: "sim_tail other args ls items A w i (Endif l, s) (Done, s)"
  unfolding sim_tail_def fst_conv snd_conv
proof (intro allI impI)
  fix p st j
  assume a: "at ls p (tail_lines (Endif l))" "well_formed_tail (Endif l)"
    "ready_to_run items A st w (Suc j) p {p..<p + length (tail_lines (Endif l))}" "data st = s"
  let ?u = "st\<lparr>endif_count := int j\<rparr>"
  have k: "counts st w (Suc j) (length A)" using ready_counts [OF a(3)] by blast
  then have "leads other args ls p st (p + 1) ?u" using endif_step [of ls p l st j] a by (simp add: counts_def)
  moreover have "counts ?u w j (length A)" "agree st ?u w j (length A)" using k by (simp_all add: counts_def agree_def)
  ultimately show "arrives other args ls p st (p + length (tail_lines (Endif l))) w j (length A) (Done, s)"
    using a(4) unfolding arrives_def by auto
qed

lemma pass_else:
  assumes c: "sim_code other args ls items A w i (c, s) (g, s')"
  shows "sim_tail other args ls items A w i (Else l c d, s) (g, s')"
  unfolding sim_tail_def fst_conv snd_conv
proof (intro allI impI)
  fix p st j
  assume i: "i = Suc j" and a: "at ls p (tail_lines (Else l c d))" "well_formed_tail (Else l c d)"
    "ready_to_run items A st w (Suc j) p {p..<p + length (tail_lines (Else l c d))}" "frames_ok st w j (length A)" "\<not> conditions st j" "data st = s"
  let ?n = "length (lines_of c)"
  have b: "at ls (p + 1) (lines_of c)" using a(1) by (simp add: at_Cons at_append)
  have "ready_to_run items A st w (Suc j) (p + 1) {p + 1..<p + 1 + ?n}" by (rule ready_part [OF a(3)]) auto
  then have "arrives other args ls (p + 1) st (p + 1 + ?n) w (Suc j) (length A) (g, s')"
    using sim_codeD [OF c b] a(2,6) i by simp
  then have "arrives other args ls p st (p + ?n + 2) w j (length A) (g, s')"
    using sim_else [of ls p l c d st w j "length A"] a ready_counts [OF a(3)] by simp
  then show "arrives other args ls p st (p + length (tail_lines (Else l c d))) w j (length A) (g, s')" by simp
qed

text \<open>The test of an ELSEIF changes nothing that the code behind it relies on.\<close>

lemma set_condition_ready:
  assumes "ready_to_run items A st w (Suc j) p P" "p \<le> q" "Q \<subseteq> P"
  shows "ready_to_run items A (set_condition st j b) w (Suc j) q Q"
proof -
  have "frames_ok (set_condition st j b) w (Suc j) (length A) = frames_ok st w (Suc j) (length A)"
    "fresh items A (set_condition st j b) w Q = fresh items A st w Q"
    by (simp_all add: frames_ok_def fresh_def set_condition_def)
  moreover have "sub_lines (set_condition st j b) = sub_lines st" "done_lines (set_condition st j b) = done_lines st"
    by (simp_all add: set_condition_def)
  ultimately show ?thesis using ready_part [OF assms] by (simp add: ready_to_run_def set_condition_facts)
qed

lemma pass_elseif_true:
  assumes r: "compare_ccc False s (arguments l) = 1" "i < 256" and c: "sim_code other args ls items A w i (c, s) (g, s')"
  shows "sim_tail other args ls items A w i (Elseif l c t, s) (g, s')"
  unfolding sim_tail_def fst_conv snd_conv
proof (intro allI impI)
  fix p st j
  assume i: "i = Suc j" and a: "at ls p (tail_lines (Elseif l c t))" "well_formed_tail (Elseif l c t)"
    "ready_to_run items A st w (Suc j) p {p..<p + length (tail_lines (Elseif l c t))}" "frames_ok st w j (length A)" "\<not> conditions st j"
    "endif_lines st j = p + length (tail_lines (Elseif l c t)) - 1" "data st = s"
  let ?n = "length (lines_of c)" let ?m = "length (tail_lines t)"
  have b: "at ls (p + 1) (lines_of c)" using a(1) by (simp add: at_Cons at_append)
  have "ready_to_run items A (set_condition st j True) w (Suc j) (p + 1) {p + 1..<p + 1 + ?n}" by (rule set_condition_ready [OF a(3)]) auto
  then have "arrives other args ls (p + 1) (set_condition st j True) (p + 1 + ?n) w (Suc j) (length A) (g, s')"
    using sim_codeD [OF c b] a(2,7) i by (simp add: set_condition_facts)
  then have "arrives other args ls p st (p + 1 + ?n + ?m) w j (length A) (g, s')"
    using sim_elseif_true [of ls p l c t st w j "length A"] a ready_counts [OF a(3)] r i by simp
  then show "arrives other args ls p st (p + length (tail_lines (Elseif l c t))) w j (length A) (g, s')" by (simp add: add.assoc)
qed

lemma pass_elseif_false:
  assumes r: "compare_ccc False s (arguments l) = 0" "i < 256" and c: "sim_tail other args ls items A w i (t, s) (g, s')"
  shows "sim_tail other args ls items A w i (Elseif l c t, s) (g, s')"
  unfolding sim_tail_def [of _ _ _ _ _ _ _ "(Elseif l c t, s)"] fst_conv snd_conv
proof (intro allI impI)
  fix p st j
  assume i: "i = Suc j" and a: "at ls p (tail_lines (Elseif l c t))" "well_formed_tail (Elseif l c t)"
    "ready_to_run items A st w (Suc j) p {p..<p + length (tail_lines (Elseif l c t))}" "frames_ok st w j (length A)" "\<not> conditions st j"
    "endif_lines st j = p + length (tail_lines (Elseif l c t)) - 1" "data st = s"
  let ?n = "length (lines_of c)" let ?m = "length (tail_lines t)" let ?u = "set_condition st j False"
  have b: "at ls (p + 1 + ?n) (tail_lines t)" using a(1) by (simp add: at_Cons at_append)
  have "ready_to_run items A ?u w (Suc j) (p + 1 + ?n) {p + 1 + ?n..<p + 1 + ?n + ?m}" by (rule set_condition_ready [OF a(3)]) auto
  moreover have "frames_ok ?u w j (length A)" using frames_ok_agree [OF a(4) set_condition_facts(1)] .
  moreover have "endif_lines ?u j = p + 1 + ?n + ?m - 1" using a(6) by (simp add: set_condition_facts)
  ultimately have b: "arrives other args ls (p + 1 + ?n) ?u (p + 1 + ?n + ?m) w j (length A) (g, s')"
    using sim_tailD [OF c [unfolded i] b] a(2,7) by (simp add: set_condition_facts)
  have "leads other args ls p st (p + 1 + ?n) ?u"
    using elseif_step [of ls p l c t st w j "length A" 0] a ready_counts [OF a(3)] r i by simp
  then have "arrives other args ls p st (p + 1 + ?n + ?m) w j (length A) (g, s')"
    using arrives_before [OF _ set_condition_facts(1) a(4) b] by simp
  then show "arrives other args ls p st (p + length (tail_lines (Elseif l c t))) w j (length A) (g, s')" by (simp add: add.assoc)
qed

lemma pass_elseif_error:
  assumes r: "compare_ccc False s (arguments l) < 0"
  shows "sim_tail other args ls items A w i (Elseif l c t, s) (Stopped (- 1), s)"
  unfolding sim_tail_def fst_conv snd_conv
proof (intro allI impI)
  fix p st j
  assume a: "at ls p (tail_lines (Elseif l c t))" "well_formed_tail (Elseif l c t)"
    "ready_to_run items A st w (Suc j) p {p..<p + length (tail_lines (Elseif l c t))}" "\<not> conditions st j" "data st = s"
  then have "ends other args ls p st (Ended (- 1) st)"
    using elseif_error [of ls p l c t st w j "length A"] r ready_counts [OF a(3)] by simp
  then show "arrives other args ls p st (p + length (tail_lines (Elseif l c t))) w j (length A) (Stopped (- 1), s)"
    using a(5) unfolding arrives_def by auto
qed

lemma pass_loop_true:
  assumes r: "compare_ccc False s (arguments l) = 1" "w < 256" and c: "sim_loop other args ls items A w i (l, c, s) (g, s')"
  shows "sim_code other args ls items A w i (Loop l c d, s) (g, s')"
proof (rule sim_codeI)
  fix p st
  assume a: "at ls p (lines_of (Loop l c d))" "well_formed (Loop l c d)" "ready_to_run items A st w i p {p..<p + length (lines_of (Loop l c d))}" "data st = s"
  let ?n = "length (lines_of c)" let ?u = "push_while st w p (p + 1 + length (lines_of c)) True"
  have k: "counts st w i (length A)" "frames_ok st w i (length A)" "2 \<le> p" using ready_counts [OF a(3)] by simp_all
  have "ready_to_run items A ?u (Suc w) i (p + 1) {p + 1..<p + 1 + ?n}"
    by (rule push_while_ready [OF a(3) r(2)]) (use k in auto)
  moreover have "in_loop ?u w i p (p + 1 + ?n)" using k(1) by (intro push_while_facts(3)) (simp add: counts_def)
  moreover have "frames_ok ?u w i (length A)" using frames_ok_agree [OF k(2) push_while_facts(1)] .
  ultimately have "arrives other args ls (p + 1) ?u (p + ?n + 2) w i (length A) (g, s')"
    using c a(1,2,4) k(3) unfolding sim_loop_def by (simp add: push_while_facts)
  then show "arrives other args ls p st (p + length (lines_of (Loop l c d))) w i (length A) (g, s')"
    using sim_loop_true [where l = l and c = c and d = d and other = other and args = args, OF _ _ _ _ a(3) _ _ r(2)] a(1,2,4) r(1) by simp
qed

lemma pass_loop_false:
  assumes r: "compare_ccc False s (arguments l) = 0" "w < 256"
  shows "sim_code other args ls items A w i (Loop l c d, s) (Done, s)"
proof (rule sim_codeI)
  fix p st
  assume a: "at ls p (lines_of (Loop l c d))" "well_formed (Loop l c d)" "ready_to_run items A st w i p {p..<p + length (lines_of (Loop l c d))}" "data st = s"
  then show "arrives other args ls p st (p + length (lines_of (Loop l c d))) w i (length A) (Done, s)"
    using sim_loop_false [where l = l and c = c and d = d and other = other and args = args, OF _ _ _ _ a(3) _ _ r(2)] r(1) by simp
qed

lemma pass_loop_error:
  assumes r: "compare_ccc False s (arguments l) < 0"
  shows "sim_code other args ls items A w i (Loop l c d, s) (Stopped (- 1), s)"
proof (rule sim_codeI)
  fix p st
  assume a: "at ls p (lines_of (Loop l c d))" "well_formed (Loop l c d)" "ready_to_run items A st w i p {p..<p + length (lines_of (Loop l c d))}" "data st = s"
  then have "ends other args ls p st (Ended (- 1) st)"
    using while_error [of ls p l c d st w i "length A"] r ready_counts [OF a(3)] by simp
  then show "arrives other args ls p st (p + length (lines_of (Loop l c d))) w i (length A) (Stopped (- 1), s)"
    using a(4) unfolding arrives_def by auto
qed

lemma pass_round:
  assumes c: "sim_code other args ls items A (Suc w) i (c, s) (Done, s1)" and r: "compare_ccc False s1 (arguments l) = n"
    and i: "n = 1 \<Longrightarrow> sim_loop other args ls items A w i (l, c, s1) (g, s')"
    and e: "n = 0 \<Longrightarrow> g = Done \<and> s' = s1" "n < 0 \<Longrightarrow> g = Stopped (- 1) \<and> s' = s1"
  shows "sim_loop other args ls items A w i (l, c, s) (g, s')"
  unfolding sim_loop_def prod.case
proof (intro allI impI)
  fix p st d
  assume a: "at ls p (l # lines_of c @ [d])" "has_command ''while'' l" "well_formed c" "has_command ''done'' d" "2 \<le> p"
    and b: "ready_to_run items A st (Suc w) i (p + 1) {p + 1..<p + 1 + length (lines_of c)}"
    "in_loop st w i p (p + 1 + length (lines_of c))" "frames_ok st w i (length A)" "data st = s"
  have l: "at ls (p + 1) (lines_of c)" using a(1) by (simp add: at_Cons at_append)
  show "arrives other args ls (p + 1) st (p + length (lines_of c) + 2) w i (length A) (g, s')"
  proof (rule sim_round [OF a(1,2,4,5) b(2,3) sim_codeD [OF c l a(3) b(1,4)] r])
    assume n: "n = 1"
    show "\<forall>st1. data st1 = s1 \<and> counts st1 (Suc w) i (length A) \<and> agree st st1 (Suc w) i (length A) \<longrightarrow>
      arrives other args ls (p + 1) st1 (p + length (lines_of c) + 2) w i (length A) (g, s')"
    proof (intro allI impI, elim conjE)
      fix st1
      assume t: "data st1 = s1" "counts st1 (Suc w) i (length A)" "agree st st1 (Suc w) i (length A)"
      have "ready_to_run items A st1 (Suc w) i (p + 1) {p + 1..<p + 1 + length (lines_of c)}"
        by (rule ready_later [OF b(1) t(3,2)]) auto
      moreover have "frames_ok st1 w i (length A)"
        using frames_ok_agree [OF b(3) agree_mono [OF t(3)]] by simp
      ultimately show "arrives other args ls (p + 1) st1 (p + length (lines_of c) + 2) w i (length A) (g, s')"
        using i [OF n] a in_loop_agree [OF b(2) t(3)] t(1) unfolding sim_loop_def by simp
    qed
  qed (use e in simp_all)
qed

lemma pass_round_break:
  assumes c: "sim_code other args ls items A (Suc w) i (c, s) (Broken, s1)"
  shows "sim_loop other args ls items A w i (l, c, s) (Done, s1)"
  unfolding sim_loop_def prod.case
proof (intro allI impI)
  fix p st d
  assume a: "at ls p (l # lines_of c @ [d])" "well_formed c"
    and b: "ready_to_run items A st (Suc w) i (p + 1) {p + 1..<p + 1 + length (lines_of c)}"
    "in_loop st w i p (p + 1 + length (lines_of c))" "data st = s"
  have l: "at ls (p + 1) (lines_of c)" using a(1) by (simp add: at_Cons at_append)
  show "arrives other args ls (p + 1) st (p + length (lines_of c) + 2) w i (length A) (Done, s1)"
    using sim_round_break [OF b(2) sim_codeD [OF c l a(2) b(1,3)]] .
qed

lemma pass_round_left:
  assumes c: "sim_code other args ls items A (Suc w) i (c, s) (g, s1)" and g: "g = Returned \<or> g = Stopped r"
  shows "sim_loop other args ls items A w i (l, c, s) (g, s1)"
  unfolding sim_loop_def prod.case
proof (intro allI impI)
  fix p st d
  assume a: "at ls p (l # lines_of c @ [d])" "well_formed c"
    and b: "ready_to_run items A st (Suc w) i (p + 1) {p + 1..<p + 1 + length (lines_of c)}" "frames_ok st w i (length A)" "data st = s"
  have l: "at ls (p + 1) (lines_of c)" using a(1) by (simp add: at_Cons at_append)
  show "arrives other args ls (p + 1) st (p + length (lines_of c) + 2) w i (length A) (g, s1)"
    by (rule arrives_before [OF leads_refl agree_refl b(2) sim_codeD [OF c l a(2) b(1,3)]]) (use g in auto)
qed

lemma pass_call:
  assumes L: "layout ls items" and f: "first_word (arguments l) = Some (f, u)" "routine items f = Some c" "f \<notin> set A" "length A < 256"
    and c: "sim_code other args ls items (f # A) w i (c, s) (g, s')" and g: "g = Done \<or> g = Returned \<or> g = Stopped r"
  shows "sim_code other args ls items A w i (Call l, s) (if g = Returned then Done else g, s')"
proof (rule sim_codeI)
  fix p st
  assume a: "at ls p (lines_of (Call l))" "well_formed (Call l)" "ready_to_run items A st w i p {p..<p + length (lines_of (Call l))}" "data st = s"
  obtain h e where h: "routine_at items 2 f = Some (h, c)" "find_subroutine ls f 0 = Some h" "2 \<le> h" "well_formed c"
    "at ls (h + 1) (lines_of c @ [e])" "has_command ''endsubroutine'' e"
    using L f(2) unfolding layout_def by metis
  have d: "region items 2 k \<inter> region items 2 f = {}" if "k \<noteq> f" for k using L that by (simp add: layout_def)
  have q: "ready_to_run items (f # A) (push_sub st (length A) p) w i (h + 1) {h + 1..<h + 1 + length (lines_of c)}"
    by (rule push_sub_ready [OF a(3) f(4,3) _ _ d]) (use h in \<open>auto simp: region_def\<close>)
  have "at ls (h + 1) (lines_of c)" using h(5) by (simp add: at_append)
  then have b: "arrives other args ls (h + 1) (push_sub st (length A) p) (h + 1 + length (lines_of c)) w i (Suc (length A)) (g, s')"
    using sim_codeD [OF c _ h(4) q] a(4) by (simp add: push_sub_facts)
  show "arrives other args ls p st (p + length (lines_of (Call l))) w i (length A) (if g = Returned then Done else g, s')"
    using sim_call [OF _ _ f(1) h(2,3,5,6) a(3) f(4) b g] a(1,2) by simp
qed

lemma pass_call_missing:
  assumes L: "layout ls items" and f: "first_word (arguments l) = None \<or> first_word (arguments l) = Some (f, u) \<and> routine items f = None"
  shows "sim_code other args ls items A w i (Call l, s) (Stopped (- 1), s)"
proof (rule sim_codeI)
  fix p and st :: script_state
  assume a: "at ls p (lines_of (Call l))" "well_formed (Call l)" "data st = s"
  have "first_word (arguments l) = None \<or> first_word (arguments l) = Some (f, u) \<and> find_subroutine ls f 0 = None"
    using f L by (auto simp: layout_def)
  then have "ends other args ls p st (Ended (- 1) st)" using gosub_missing [of ls p l f u] a by simp
  then show "arrives other args ls p st (p + length (lines_of (Call l))) w i (length A) (Stopped (- 1), s)"
    using a(3) unfolding arrives_def by auto
qed

lemma pass_plain:
  assumes "plain_step other args s l = Some (s', r)" "r \<le> 0"
  shows "sim_code other args ls items A w i (Plain l, s) (if r < 0 then Stopped r else Done, s')"
proof (rule sim_codeI)
  fix p st
  assume a: "at ls p (lines_of (Plain l))" "well_formed (Plain l)" "ready_to_run items A st w i p {p..<p + length (lines_of (Plain l))}" "data st = s"
  then show "arrives other args ls p st (p + length (lines_of (Plain l))) w i (length A) (if r < 0 then Stopped r else Done, s')"
    using sim_plain [of ls p l st w i "length A" other args s' r] assms ready_counts [OF a(3)] by simp
qed

lemma pass_empty: "sim_code other args ls items A w i (Empty, s) (Done, s)"
proof (rule sim_codeI)
  fix p st
  assume a: "ready_to_run items A st w i p {p..<p + length (lines_of Empty)}" "data st = s"
  then show "arrives other args ls p st (p + length (lines_of Empty)) w i (length A) (Done, s)"
    using ready_counts [OF a(1)] unfolding arrives_def by (auto intro: exI [of _ st])
qed

lemma pass_break: "sim_code other args ls items A w i (Break l, s) (Broken, s)"
  using sim_break by (intro sim_codeI) force

lemma pass_return: "sim_code other args ls items A w i (Return l, s) (Returned, s)"
  using sim_return by (intro sim_codeI) force

text \<open>The same lemmas for a result that is not taken apart.\<close>

lemmas pass_rules = sim_seq [where g = "fst r" and s' = "snd r" for r, unfolded prod.collapse]
  pass_true [where g = "fst r" and s' = "snd r" for r, unfolded prod.collapse]
  pass_false [where g = "fst r" and s' = "snd r" for r, unfolded prod.collapse]
  pass_else [where g = "fst r" and s' = "snd r" for r, unfolded prod.collapse]
  pass_elseif_true [where g = "fst r" and s' = "snd r" for r, unfolded prod.collapse]
  pass_elseif_false [where g = "fst r" and s' = "snd r" for r, unfolded prod.collapse]
  pass_loop_true [where g = "fst r" and s' = "snd r" for r, unfolded prod.collapse]

lemma pass_next_round:
  assumes "sim_code other args ls items A (Suc w) i (c, s) (Done, s1)" "compare_ccc False s1 (arguments l) = 1"
    "sim_loop other args ls items A w i (l, c, s1) r"
  shows "sim_loop other args ls items A w i (l, c, s) r"
  using pass_round [where l = l and g = "fst r" and s' = "snd r", OF assms(1,2)] assms(3) by simp

lemma pass_last_round:
  assumes "sim_code other args ls items A (Suc w) i (c, s) (Done, s1)" "compare_ccc False s1 (arguments l) = 0"
  shows "sim_loop other args ls items A w i (l, c, s) (Done, s1)"
  using pass_round [where l = l and g = Done and s' = s1, OF assms] by simp

lemma pass_failed_round:
  assumes "sim_code other args ls items A (Suc w) i (c, s) (Done, s1)" "compare_ccc False s1 (arguments l) < 0"
  shows "sim_loop other args ls items A w i (l, c, s) (Stopped (- 1), s1)"
  using pass_round [where l = l and g = "Stopped (- 1)" and s' = s1, OF assms(1) refl] assms(2) by simp

lemma pass_called:
  assumes L: "layout ls items" and f: "first_word (arguments l) = Some (f, u)" "routine items f = Some c" "f \<notin> set A" "length A < 256"
    and c: "sim_code other args ls items (f # A) w i (c, s) (g, s')"
  shows "g = Done \<or> g = Returned \<Longrightarrow> sim_code other args ls items A w i (Call l, s) (Done, s')"
    and "g = Stopped r \<Longrightarrow> sim_code other args ls items A w i (Call l, s) (Stopped r, s')"
  using pass_call [OF L f c] by auto

lemma pass_command:
  assumes "plain_step other args s l = Some (s', r)"
  shows "r = 0 \<Longrightarrow> sim_code other args ls items A w i (Plain l, s) (Done, s')"
    and "r < 0 \<Longrightarrow> sim_code other args ls items A w i (Plain l, s) (Stopped r, s')"
  using pass_plain [where ls = ls and items = items and A = A and w = w and i = i, OF assms] by auto

lemma simulation:
  assumes L: "layout ls items"
  shows "meaning other args items A w i cs r \<Longrightarrow> sim_code other args ls items A w i cs r"
    and "tail_meaning other args items A w i ts r \<Longrightarrow> sim_tail other args ls items A w i ts r"
    and "loop_meaning other args items A w i lcs r \<Longrightarrow> sim_loop other args ls items A w i lcs r"
proof (induction rule: meaning_tail_meaning_loop_meaning.inducts)
qed (blast intro: pass_empty pass_command sim_seq_left pass_error pass_endif pass_elseif_error pass_loop_error pass_loop_false
    pass_round_break pass_round_left pass_call_missing [OF L] pass_break pass_return pass_rules pass_next_round pass_last_round
    pass_failed_round pass_called [OF L])+

end
