(* ===== verification/Script_Theorems.thy ===== *)
theory Script_Theorems
  imports Script_Refine
begin

text \<open>
  The theorems on tool scripts: a script that is built of blocks, alternatives, loops and subroutines
  runs as it reads, and what the variables, the arithmetic and the buffers of a script promise.
\<close>

section \<open>Where the subroutines are\<close>

lemma program_lines_simps [simp]:
  "program_lines [] = []" "program_lines (x # items) = item_lines x @ program_lines items"
  "program_lines (xs @ ys) = program_lines xs @ program_lines ys"
  by (simp_all add: program_lines_def)

lemma routine_at_append:
  "routine_at (xs @ ys) n f = (case routine_at xs n f of None \<Rightarrow> routine_at ys (n + length (program_lines xs)) f | Some r \<Rightarrow> Some r)"
proof (induction xs arbitrary: n)
  case (Cons x xs)
  then show ?case by (cases x) (simp_all add: add.assoc split: option.splits)
qed (simp split: option.splits)

lemma routine_at_range:
  "routine_at items n f = Some (h, c) \<Longrightarrow> n \<le> h \<and> h + length (lines_of c) + 2 \<le> n + length (program_lines items)"
proof (induction items arbitrary: n)
  case (Cons x items)
  show ?case
  proof (cases x)
    case (Main_code d)
    then show ?thesis using Cons.prems Cons.IH [of "n + length (lines_of d)"] by simp
  next
    case (Routine l d m)
    then show ?thesis using Cons.prems Cons.IH [of "n + length (lines_of d) + 2"] by (auto split: if_splits)
  qed
qed simp

lemma region_range: "region items n f \<subseteq> {n..<n + length (program_lines items)}"
  using routine_at_range [of items n f] by (fastforce simp: region_def split: option.splits)

lemma region_Cons:
  "region (Main_code c # items) n f = region items (n + length (lines_of c)) f"
  "region (Routine l c d # items) n f =
    (if subroutine_name l = Some f then {n..<n + length (lines_of c) + 2} else region items (n + length (lines_of c) + 2) f)"
  by (simp_all add: region_def)

lemma regions_apart: "f \<noteq> g \<Longrightarrow> region items n f \<inter> region items n g = {}"
proof (induction items arbitrary: n)
  case (Cons x items)
  show ?case
  proof (cases x)
    case (Main_code c)
    then show ?thesis using Cons by (simp add: region_Cons)
  next
    case (Routine l c d)
    then show ?thesis
      using Cons region_range [of items "n + length (lines_of c) + 2" f] region_range [of items "n + length (lines_of c) + 2" g]
      by (auto simp: region_Cons)
  qed
qed (simp add: region_def)

lemma main_apart: "region (pre @ Main_code c # rest) n f \<inter> {n + length (program_lines pre)..<n + length (program_lines pre) + length (lines_of c)} = {}"
proof -
  let ?m = "n + length (program_lines pre)"
  have "region (pre @ Main_code c # rest) n f \<subseteq> {n..<?m} \<union> {?m + length (lines_of c)..}"
  proof (cases "routine_at pre n f")
    case None
    then have "region (pre @ Main_code c # rest) n f = region rest (?m + length (lines_of c)) f"
      by (simp add: region_def routine_at_append)
    then show ?thesis using region_range [of rest "?m + length (lines_of c)" f] by auto
  next
    case (Some r)
    then have "region (pre @ Main_code c # rest) n f = region pre n f" by (simp add: region_def routine_at_append)
    then show ?thesis using region_range [of pre n f] by auto
  qed
  then show ?thesis by fastforce
qed

section \<open>The lines of a program\<close>

lemma subroutine_spellings: "same_nocase ''subroutine'' ''subroutine''" "same_nocase ''subroutine'' ''SUBROUTINE''"
  by (simp add: same_nocase_def, code_simp)

lemma subroutine_name_command: "subroutine_name l = Some f \<Longrightarrow> has_command ''subroutine'' l"
  using subroutine_spellings by (auto simp: subroutine_name_def has_command_def split: list.splits if_splits)

lemma find_subroutine_name:
  "find_subroutine ls f n = (case filter (\<lambda>i. subroutine_name (ls ! i) = Some f) [n..<length ls] of [] \<Rightarrow> None | i # _ \<Rightarrow> Some i)"
proof -
  have "(case scan_words l of c # g # _ \<Rightarrow> (c = ''subroutine'' \<or> c = ''SUBROUTINE'') \<and> g = f | _ \<Rightarrow> False) \<longleftrightarrow>
      subroutine_name l = Some f" for l
    by (simp add: subroutine_name_def split: list.splits)
  then show ?thesis unfolding find_subroutine_def by presburger
qed

lemma find_subroutine_none: "(\<And>i. i < length ls \<Longrightarrow> subroutine_name (ls ! i) \<noteq> Some f) \<Longrightarrow> find_subroutine ls f n = None"
  by (auto simp: find_subroutine_name filter_empty_conv split: list.splits)

lemma find_subroutine_first:
  assumes "h < length ls" "subroutine_name (ls ! h) = Some f" "\<And>i. i < h \<Longrightarrow> subroutine_name (ls ! i) \<noteq> Some f"
  shows "find_subroutine ls f 0 = Some h"
proof -
  have "[0..<length ls] = [0..<h] @ h # [Suc h..<length ls]"
    using assms(1) by (metis le_add2 le_add_same_cancel2 less_imp_le_nat upt_add_eq_append upt_conv_Cons le_add_diff_inverse add_0)
  moreover have "filter (\<lambda>i. subroutine_name (ls ! i) = Some f) [0..<h] = []" using assms(3) by (simp add: filter_empty_conv)
  ultimately show ?thesis using assms(2) by (simp add: find_subroutine_name)
qed

lemma code_has_no_name: "well_formed c \<Longrightarrow> l \<in> set (lines_of c) \<Longrightarrow> subroutine_name l \<noteq> Some f"
  using no_subroutine_lines(1) [of c] subroutine_name_command by blast

text \<open>Line by line: the place of a subroutine that is defined, and no such line before it.\<close>

lemma routine_in_place:
  assumes "at ls n (program_lines items)" "\<forall>x\<in>set items. well_formed_item x"
  shows "(routine items f = None \<longrightarrow> (\<forall>i. n \<le> i \<and> i < n + length (program_lines items) \<longrightarrow> subroutine_name (ls ! i) \<noteq> Some f)) \<and>
    (\<forall>c. routine items f = Some c \<longrightarrow>
       (\<exists>h e. routine_at items n f = Some (h, c) \<and> n \<le> h \<and> h < length ls \<and> well_formed c \<and> at ls (h + 1) (lines_of c @ [e]) \<and>
          has_command ''endsubroutine'' e \<and> subroutine_name (ls ! h) = Some f \<and>
          (\<forall>i. n \<le> i \<and> i < h \<longrightarrow> subroutine_name (ls ! i) \<noteq> Some f)))"
  using assms
proof (induction items arbitrary: n)
  case (Cons x items)
  define m where "m = n + length (item_lines x)"
  have a: "at ls n (item_lines x)" "at ls m (program_lines items)" using Cons.prems(1) by (simp_all add: at_append m_def)
  note IH = Cons.IH [OF a(2)]
  show ?case
  proof (cases "\<exists>i. n \<le> i \<and> i < m \<and> subroutine_name (ls ! i) = Some f")
    case False
    have "routine (x # items) f = routine items f \<and> routine_at (x # items) n f = routine_at items m f"
    proof (cases x)
      case (Routine l c d)
      then have "subroutine_name l \<noteq> Some f" using False a(1) by (auto simp: m_def at_Cons)
      then show ?thesis using Routine by (simp add: m_def add.assoc)
    qed (simp add: m_def)
    moreover have "i < m \<or> m \<le> i" for i by auto
    ultimately show ?thesis using IH Cons.prems(2) False by (simp add: m_def add.assoc) (metis add_leD1)
  next
    case True
    then obtain i where i: "n \<le> i" "i < m" "subroutine_name (ls ! i) = Some f" by blast
    have j: "ls ! i \<in> set (item_lines x)" using at_nth [OF a(1), of "i - n"] i by (simp add: m_def)
    obtain l c d where x: "x = Routine l c d"
      using j i(3) Cons.prems(2) code_has_no_name by (cases x) auto
    then have w: "has_command ''endsubroutine'' d" "well_formed c" "subroutine_name d \<noteq> Some f"
      using Cons.prems(2) one_command [of "''endsubroutine''" d "''subroutine''"] subroutine_name_command [of d f] by auto
    then have l: "subroutine_name l = Some f" using j i(3) x code_has_no_name by auto
    have "n < length ls" "ls ! n = l" "at ls (n + 1) (lines_of c @ [d])" using a(1) x by (simp_all add: at_Cons)
    then show ?thesis using x l w by auto
  qed
qed auto

text \<open>A script has two blank lines in front.\<close>

definition script_text :: "item list \<Rightarrow> script" where
  "script_text items = [[newline], [newline]] @ program_lines items"

lemma blank_lines: "scan_split [newline] = None" "subroutine_name [newline] = None"
  by (simp_all add: scan_split_def first_word_def is_space_def subroutine_name_def)

lemma script_layout:
  assumes "\<forall>x\<in>set items. well_formed_item x"
  shows "layout (script_text items) items"
proof -
  let ?ls = "script_text items"
  have p: "at ?ls 2 (program_lines items)" using at_here [of ?ls "[[newline], [newline]]" "program_lines items" "[]"] by (simp add: script_text_def numeral_2_eq_2)
  have n: "length ?ls = 2 + length (program_lines items)" by (simp add: script_text_def)
  have b: "subroutine_name (?ls ! i) = None" if "i < 2" for i
    using that blank_lines(2) by (cases i) (auto simp: script_text_def less_Suc_eq)
  note r = routine_in_place [OF p assms]
  show ?thesis unfolding layout_def
  proof (intro conjI allI impI)
    fix f assume "routine items f = None"
    then have "subroutine_name (?ls ! i) \<noteq> Some f" if "i < length ?ls" for i
      using r [of f] b [of i] that n by (cases "i < 2") auto
    then show "find_subroutine ?ls f 0 = None" by (rule find_subroutine_none)
  next
    fix f c assume "routine items f = Some c"
    then obtain h e where h: "routine_at items 2 f = Some (h, c)" "2 \<le> h" "h < length ?ls" "well_formed c"
        "at ?ls (h + 1) (lines_of c @ [e])" "has_command ''endsubroutine'' e" "subroutine_name (?ls ! h) = Some f"
        "\<forall>i. 2 \<le> i \<and> i < h \<longrightarrow> subroutine_name (?ls ! i) \<noteq> Some f" using r [of f] by blast
    have "subroutine_name (?ls ! i) \<noteq> Some f" if "i < h" for i using h(8) b [of i] that by (cases "i < 2") auto
    then have "find_subroutine ?ls f 0 = Some h" using find_subroutine_first h by blast
    then show "\<exists>h e. routine_at items 2 f = Some (h, c) \<and> find_subroutine ?ls f 0 = Some h \<and> 2 \<le> h \<and> well_formed c \<and>
        at ?ls (h + 1) (lines_of c @ [e]) \<and> has_command ''endsubroutine'' e" using h by blast
  next
    fix f g :: string assume "f \<noteq> g"
    then show "region items 2 f \<inter> region items 2 g = {}" by (rule regions_apart)
  qed
qed

section \<open>Structured scripts run as they read\<close>

lemma ready_at_top:
  assumes "counts st 0 0 0" "2 \<le> p" "\<And>f. region items 2 f \<inter> P = {}"
  shows "ready_to_run items [] st 0 0 p P"
  using assms by (simp add: ready_to_run_def frames_ok_def fresh_def apart_def)

lemma program_runs:
  assumes L: "layout ls items" and m: "program_meaning other args items rs r"
  shows "items = pre @ fst rs \<Longrightarrow> at ls (2 + length (program_lines pre)) (program_lines (fst rs)) \<Longrightarrow>
    length ls = 2 + length (program_lines items) \<Longrightarrow> \<forall>x\<in>set (fst rs). well_formed_item x \<Longrightarrow> counts st 0 0 0 \<Longrightarrow> data st = snd rs \<Longrightarrow>
    \<exists>st'. ends other args ls (2 + length (program_lines pre)) st (Ended (fst r) st') \<and> data st' = snd r"
  using m
proof (induction arbitrary: pre st rule: program_meaning.induct)
  case (Finish s)
  then show ?case using script_end [of ls "2 + length (program_lines pre)" other args st] by auto
next
  case (Skip_routine rest s r l c d)
  let ?p = "2 + length (program_lines pre)"
  have a: "at ls ?p (l # lines_of c @ [d])" "at ls (?p + length (lines_of c) + 2) (program_lines rest)"
    using Skip_routine.prems(2) by (simp_all add: at_append at_Cons add.assoc)
  have "leads other args ls ?p st (?p + length (lines_of c) + 2) st"
    using subroutine_step [OF a(1)] Skip_routine.prems(4) by simp
  moreover have "2 + length (program_lines (pre @ [Routine l c d])) = ?p + length (lines_of c) + 2" by simp
  ultimately show ?case
    using Skip_routine.IH [of "pre @ [Routine l c d]" st] Skip_routine.prems a(2) leads_ends by (simp del: add_2_eq_Suc) blast
next
  case (Main c s s1 rest r)
  let ?p = "2 + length (program_lines pre)"
  have a: "at ls ?p (lines_of c)" "at ls (?p + length (lines_of c)) (program_lines rest)" "well_formed c"
    using Main.prems(2,4) by (simp_all add: at_append)
  have i: "items = pre @ Main_code c # rest" using Main.prems(1) by simp
  have "ready_to_run items [] st 0 0 ?p {?p..<?p + length (lines_of c)}"
    using main_apart [of pre c rest 2] unfolding i by (intro ready_at_top Main.prems(5)) simp_all
  then have "arrives other args ls ?p st (?p + length (lines_of c)) 0 0 0 (Done, s1)"
    using sim_codeD [OF simulation(1) [OF L Main.hyps(1)] a(1,3)] Main.prems(6) by simp
  then obtain st1 where t: "leads other args ls ?p st (?p + length (lines_of c)) st1" "data st1 = s1" "counts st1 0 0 0"
    unfolding arrives_def by auto
  have "2 + length (program_lines (pre @ [Main_code c])) = ?p + length (lines_of c)" by simp
  then show ?case
    using Main.IH [of "pre @ [Main_code c]" st1] Main.prems a(2) t leads_ends [OF t(1)] by simp blast
next
  case (Main_stop c s r s1 rest)
  let ?p = "2 + length (program_lines pre)"
  have a: "at ls ?p (lines_of c)" "well_formed c" using Main_stop.prems(2,4) by (simp_all add: at_append)
  have i: "items = pre @ Main_code c # rest" using Main_stop.prems(1) by simp
  have "ready_to_run items [] st 0 0 ?p {?p..<?p + length (lines_of c)}"
    using main_apart [of pre c rest 2] unfolding i by (intro ready_at_top Main_stop.prems(5)) simp_all
  then have "arrives other args ls ?p st (?p + length (lines_of c)) 0 0 0 (Stopped r, s1)"
    using sim_codeD [OF simulation(1) [OF L Main_stop.hyps(1)] a(1,2)] Main_stop.prems(6) by simp
  then show ?case unfolding arrives_def by auto
qed

lemma script_runs_rule:
  assumes w: "\<forall>x\<in>set items. well_formed_item x" and m: "program_meaning other args items (items, s) (r, s')"
    and k: "counts st 0 0 0" "data st = s"
  shows "\<exists>fuel st'. (\<forall>extra. run_lines (fuel + extra) other args (script_text items) 0 st = Ended r st') \<and> data st' = s'"
proof -
  let ?ls = "script_text items"
  have n: "length ?ls = 2 + length (program_lines items)" by (simp add: script_text_def)
  have a: "at ?ls 2 (program_lines items)"
    using at_here [of ?ls "[[newline], [newline]]" "program_lines items" "[]"] by (simp add: script_text_def numeral_2_eq_2)
  obtain st' where e: "ends other args ?ls 2 st (Ended r st')" "data st' = s'"
    using program_runs [OF script_layout [OF w] m, of "[]" st] a n w k by auto
  have "leads other args ?ls 0 st (0 + 1) st" "leads other args ?ls 1 st (1 + 1) st"
    by (rule blank_step; simp add: script_text_def blank_lines)+
  then have "leads other args ?ls 0 st 2 st" using leads_trans by (fastforce simp: numeral_2_eq_2)
  then have "ends other args ?ls 0 st (Ended r st')" using e(1) leads_ends by blast
  then obtain fuel where f: "run_lines fuel other args ?ls 0 st = Ended r st'" unfolding ends_def by blast
  then have "run_lines (fuel + extra) other args ?ls 0 st = Ended r st'" for extra
    using run_lines_more [of fuel other args ?ls 0 st extra] by simp
  with e(2) show ?thesis by blast
qed

end
