(* ===== verification/Script_Values.thy ===== *)
theory Script_Values
  imports Script_Theorems
begin

text \<open>
  The variables of a script keep distinct names in every run, a number that is stored can be read
  again, and SETI stores the value of an expression or of the bytes of a buffer.
\<close>

section \<open>Distinct names\<close>

definition variables_ok :: "store \<Rightarrow> bool" where
  "variables_ok s \<longleftrightarrow> distinct (map fst (numbers s) @ map fst (strings s)) \<and> ''error_level'' \<in> fst ` set (numbers s)"

lemma find_variable_None: "find_variable vs x = None \<longleftrightarrow> x \<notin> fst ` set vs"
  by (induction vs) auto

lemma find_variable_Some: "find_variable vs x = Some i \<Longrightarrow> i < length vs \<and> fst (vs ! i) = x"
  by (induction vs arbitrary: i) (auto split: if_splits)

lemma names_set_at [simp]: "map fst (set_at vs i v) = map fst vs"
  by (cases "i < length vs") (simp_all add: map_update list_update_same_conv list_update_beyond)

lemma count_name: "distinct (map fst vs) \<Longrightarrow> length (filter (\<lambda>v. fst v = x) vs) = of_bool (x \<in> fst ` set vs)"
  by (induction vs) (auto simp: filter_empty_conv)

lemma check_variable_ok:
  assumes "variables_ok s"
  shows "check_variable s x = (if x \<in> fst ` set (numbers s) then 1 else if x \<in> fst ` set (strings s) then 2 else 0)"
proof -
  have "distinct (map fst (numbers s))" "distinct (map fst (strings s))" "fst ` set (numbers s) \<inter> fst ` set (strings s) = {}"
    using assms by (auto simp: variables_ok_def)
  then show ?thesis by (auto simp: check_variable_def count_name Let_def)
qed

lemma variables_ok_numbers: "map fst n = map fst (numbers s) \<Longrightarrow> variables_ok (s\<lparr>numbers := n\<rparr>) = variables_ok s"
  unfolding variables_ok_def by (simp flip: set_map)

lemma variables_ok_strings: "map fst n = map fst (strings s) \<Longrightarrow> variables_ok (s\<lparr>strings := n\<rparr>) = variables_ok s"
  unfolding variables_ok_def by simp

lemma variables_ok_cong: "numbers s' = numbers s \<Longrightarrow> strings s' = strings s \<Longrightarrow> variables_ok s' = variables_ok s"
  by (simp add: variables_ok_def)

lemma math_tables: "math s raw = Some (s', v) \<Longrightarrow> numbers s' = numbers s \<and> strings s' = strings s"
  by (auto simp: math_def math_element_def math_binary_def failed_def Let_def split: list.splits option.splits if_splits prod.splits)

lemma set_number_names: "set_number s i raw = Some (s', r) \<Longrightarrow> map fst (numbers s') = map fst (numbers s) \<and> strings s' = strings s"
  using math_tables by (fastforce simp: set_number_def Let_def split: option.splits if_splits)

lemma set_number_ok: "set_number s i raw = Some (s', r) \<Longrightarrow> variables_ok s' = variables_ok s"
  using set_number_names [of s i raw s' r] by (simp add: variables_ok_def flip: set_map)

lemma create_number_ok:
  assumes "variables_ok s" "create_number_variable s x = Some (s', r)"
  shows "variables_ok s'"
proof (cases "check_variable s x = 0")
  case True
  then have "x \<notin> fst ` set (numbers s)" "x \<notin> fst ` set (strings s)" using check_variable_ok [OF assms(1)] by (auto split: if_splits)
  then have "variables_ok (s\<lparr>numbers := numbers s @ [(x, 0)]\<rparr>)" using assms(1) by (auto simp: variables_ok_def)
  then show ?thesis
    using assms(2) True by (auto simp: create_number_variable_def Let_def set_number_ok split: option.splits)
qed (use assms in \<open>simp add: create_number_variable_def Let_def\<close>)

lemma create_string_ok:
  assumes "variables_ok s" "create_string_variable s x = (s', r)"
  shows "variables_ok s'"
proof (cases "check_variable s x = 0")
  case True
  then have "x \<notin> fst ` set (numbers s)" "x \<notin> fst ` set (strings s)" using check_variable_ok [OF assms(1)] by (auto split: if_splits)
  then have "variables_ok (s\<lparr>strings := strings s @ [(x, [])]\<rparr>)" using assms(1) by (auto simp: variables_ok_def)
  then show ?thesis using assms(2) True by (auto simp: create_string_variable_def Let_def)
qed (use assms in \<open>simp add: create_string_variable_def Let_def\<close>)

lemma if_resultE: "(if b then x else y) = z \<Longrightarrow> (x = z \<Longrightarrow> P) \<Longrightarrow> (y = z \<Longrightarrow> P) \<Longrightarrow> P"
  by (simp split: if_splits)

lemma case_optionE:
  "(case z of None \<Rightarrow> x | Some v \<Rightarrow> f v) = y \<Longrightarrow> (z = None \<Longrightarrow> x = y \<Longrightarrow> P) \<Longrightarrow> (\<And>v. z = Some v \<Longrightarrow> f v = y \<Longrightarrow> P) \<Longrightarrow> P"
  by (cases z) auto

lemma seti_ok: "variables_ok s \<Longrightarrow> seti_ccc check s t = Some (s', r) \<Longrightarrow> variables_ok s'"
  unfolding seti_ccc_def
  by (elim if_resultE case_optionE; clarsimp?) (elim if_resultE case_optionE; auto simp: set_number_ok dest: create_number_ok)+

lemma sets_ok:
  assumes "variables_ok s" "sets_ccc check s t = Some (s', r)"
  shows "variables_ok s'"
proof (cases "scan_assignment t")
  case (Some a)
  then obtain x v where x: "scan_assignment t = Some (x, v)" by (cases a) auto
  obtain u k where c: "create_string_variable s (drop 1 x) = (u, k)" by fastforce
  have u: "variables_ok u" using create_string_ok [OF assms(1) c] .
  obtain y e where q: "quoted False check u False False [] v = (y, e)" by fastforce
  note r = assms(2) [unfolded sets_ccc_def x Let_def option.case prod.case c q]
  show ?thesis
    using r assms(1) u by (elim if_resultE case_optionE case_prodE)
      (auto simp: variables_ok_strings)
qed (use assms in \<open>simp add: sets_ccc_def\<close>)

lemma set_memory_tables [simp]: "numbers (set_memory p m s) = numbers s" "strings (set_memory p m s) = strings s"
  by (simp_all add: set_memory_def split: place.splits)

lemma set_memory_ok [simp]: "variables_ok (set_memory p m s) = variables_ok s"
  by (rule variables_ok_cong) simp_all

lemma buffer_commands_ok:
  "copy_bytes p q check s t = Some (s', r) \<Longrightarrow> variables_ok s' = variables_ok s"
  "wordflip p check s t = Some (s', r) \<Longrightarrow> variables_ok s' = variables_ok s"
  "string_to p check s t = Some (s', r) \<Longrightarrow> variables_ok s' = variables_ok s"
  "clear_memory p s = Some (s', r) \<Longrightarrow> variables_ok s' = variables_ok s"
  by (auto simp: copy_bytes_def wordflip_def string_to_def clear_memory_def Let_def
      split: list.splits option.splits if_splits)

lemmas buffer_command_defs = copy_buffer_to_scratch_ccc_def copy_scratch_to_buffer_ccc_def copy_usbbuffer_to_buffer_ccc_def
  copy_buffer_to_usbbuffer_ccc_def copy_usbbuffer_to_scratch_ccc_def copy_scratch_to_usbbuffer_ccc_def wordflip_buffer_ccc_def
  wordflip_scratchpad_ccc_def wordflip_usbbuffer_ccc_def string_to_buffer_ccc_def string_to_scratchpad_ccc_def
  string_to_usbbuffer_ccc_def

lemma variables_ok_fields [simp]:
  "variables_ok (s\<lparr>print_in_hex := b\<rparr>) = variables_ok s" "variables_ok (s\<lparr>printed := x\<rparr>) = variables_ok s"
  "variables_ok (s\<lparr>exit_code := e\<rparr>) = variables_ok s"
  by (simp_all add: variables_ok_def)

lemma other_store_commands_ok:
  "echo_ccc check s t = (s', r) \<Longrightarrow> variables_ok s' = variables_ok s"
  "exit_with_code_ccc check s t = (s', r) \<Longrightarrow> variables_ok s' = variables_ok s"
  by (auto simp: echo_ccc_def exit_with_code_ccc_def
      split: prod.splits list.splits option.splits if_splits)

lemma variable_check_ok: "variable_check_ccc args check s t = (s', r) \<Longrightarrow> variables_ok s' = variables_ok s"
  by (auto simp: variable_check_ccc_def variables_ok_numbers split: list.splits option.splits if_splits)

lemma store_command_ok:
  assumes "\<And>s s' check c t r. other check s c t = Some (s', r) \<Longrightarrow> variables_ok s \<Longrightarrow> variables_ok s'"
    and "variables_ok s" "store_command other args check s c t = Some (s', r)"
  shows "variables_ok s'"
proof -
  note cases = seti_ok [OF assms(2)] sets_ok [OF assms(2)] assms(1) [OF _ assms(2)]
    buffer_commands_ok [THEN iffD2, OF _ assms(2)] other_store_commands_ok [THEN iffD2, OF _ assms(2)]
    variable_check_ok [THEN iffD2, OF _ assms(2)]
  show ?thesis
    using assms(3,2) unfolding store_command_def buffer_command_defs
    by (elim if_resultE) (auto dest: cases)
qed


lemma flow_commands_keep_data:
  "gosub_ccc check ls st n t = Some (st', r) \<Longrightarrow> data st' = data st"
  "subroutine_ccc check ls st n = Some (st', r) \<Longrightarrow> data st' = data st"
  "endsubroutine_ccc check st = Some (st', r) \<Longrightarrow> data st' = data st"
  "returnsub_ccc check st = Some (st', r) \<Longrightarrow> data st' = data st"
  "ifstate_ccc check ls st n t = Some (st', r) \<Longrightarrow> data st' = data st"
  "endif_ccc check st = Some (st', r) \<Longrightarrow> data st' = data st"
  "elsestate_ccc check st t = Some (st', r) \<Longrightarrow> data st' = data st"
  "elseif_ccc check ls st n t = Some (st', r) \<Longrightarrow> data st' = data st"
  "dowhile_ccc check ls st n t = Some (st', r) \<Longrightarrow> data st' = data st"
  "done_ccc check st = Some (st', r) \<Longrightarrow> data st' = data st"
  "dobreak_ccc check st = Some (st', r) \<Longrightarrow> data st' = data st"
  unfolding gosub_ccc_def subroutine_ccc_def endsubroutine_ccc_def returnsub_ccc_def ifstate_ccc_def endif_ccc_def
    elsestate_ccc_def elseif_ccc_def dowhile_ccc_def done_ccc_def dobreak_ccc_def Let_def
  by ((elim if_resultE case_optionE case_prodE; auto elim!: case_optionE split: prod.split_asm)[])+

definition keeps_variables :: "other_commands \<Rightarrow> bool" where
  "keeps_variables other \<longleftrightarrow> (\<forall>check s c t s' r. other check s c t = Some (s', r) \<longrightarrow> variables_ok s \<longrightarrow> variables_ok s')"

lemma execute_line_ok:
  assumes "keeps_variables other" "variables_ok (data st)" "execute_line other args check ls st n c t = Some (st', r)"
  shows "variables_ok (data st')"
proof -
  have other: "variables_ok s'" if "other check s c t = Some (s', r)" "variables_ok s" for s s' check c t r
    using assms(1) that unfolding keeps_variables_def by blast
  have store: "variables_ok s'" if "store_command other args check (data st) c t = Some (s', r)" for s'
    using store_command_ok [OF _ assms(2) that] other by blast
  show ?thesis
    using assms(3,2) unfolding execute_line_def
    by (elim if_resultE) (auto dest: flow_commands_keep_data store)
qed

lemma check_lines_ok:
  assumes "keeps_variables other"
  shows "variables_ok (data st) \<Longrightarrow> check_script other args ls n st = Ended r st' \<Longrightarrow> variables_ok (data st')"
proof (induction "length ls - n" arbitrary: n st rule: less_induct)
  case less
  show ?case
  proof (cases "n < length ls")
    case True
    then have "length ls - (n + 1) < length ls - n" by simp
    note IH = less.hyps [OF this]
    show ?thesis
      using less.prems True IH execute_line_ok [OF assms less.prems(1)]
      by (subst (asm) check_script.simps) (fastforce split: option.split_asm prod.split_asm if_split_asm)
  qed (use less.prems in \<open>subst (asm) check_script.simps, simp\<close>)
qed

lemma run_lines_ok:
  assumes "keeps_variables other"
  shows "variables_ok (data st) \<Longrightarrow> run_lines fuel other args ls n st = Ended r st' \<Longrightarrow> variables_ok (data st')"
proof (induction fuel arbitrary: n st)
  case (Suc fuel)
  then show ?case using execute_line_ok [OF assms Suc.prems(1)]
    by (fastforce split: option.split_asm prod.split_asm if_split_asm)
qed simp


lemma process_lines_ok:
  assumes "keeps_variables other" "variables_ok (data st)" "process_lines fuel other args ls st = Some (e, st')"
  shows "variables_ok (data st')"
proof -
  let ?st = "st\<lparr>data := (data st)\<lparr>print_in_hex := False\<rparr>, if_level := 0\<rparr>"
  have start: "variables_ok (data (begin_run u)) = variables_ok (data u)" for u
    by (simp add: begin_run_def variables_ok_def)
  have run: "variables_ok (data v)" if "run_lines fuel other args ls 0 (begin_run u) = Ended r v" "variables_ok (data u)" for u v r
    using run_lines_ok [OF assms(1) _ that(1)] that(2) start by blast
  have check: "variables_ok (data u)" if "check_script other args ls 0 ?st = Ended r u" for u r
    using check_lines_ok [OF assms(1) _ that] assms(2) by simp
  show ?thesis
    using assms(3) unfolding process_lines_def Let_def
    by (auto dest: check run split: final.split_asm if_split_asm)
qed

section \<open>What SETI stores\<close>

lemma number_value_map: "variables_ok s \<Longrightarrow> number_value s x = map_of (numbers s) x"
proof -
  assume ok: "variables_ok s"
  have f: "map_option (\<lambda>i. snd (vs ! i)) (find_variable vs x) = map_of vs x" for vs :: "(string \<times> 64 word) list"
    by (induction vs) (auto simp: option.map_comp comp_def)
  show ?thesis
    using check_variable_ok [OF ok, of x] f [of "numbers s"] find_variable_None [of "numbers s" x]
    by (cases "x \<in> fst ` set (numbers s)") (simp_all add: number_value_def map_of_eq_None_iff [THEN iffD2])
qed

lemma map_of_set_at:
  "distinct (map fst vs) \<Longrightarrow> i < length vs \<Longrightarrow> map_of (set_at vs i v) = (map_of vs)(fst (vs ! i) \<mapsto> v)"
proof (induction vs arbitrary: i)
  case (Cons u vs)
  have "fst (vs ! k) \<noteq> fst u" if "k < length vs" for k using Cons.prems(1) nth_mem [OF that] by (metis distinct.simps(2) image_eqI list.set_map list.simps(9))
  with Cons show ?case by (cases i) (auto simp: fun_eq_iff)
qed simp

lemma set_number_stores:
  assumes ok: "variables_ok s" and m: "math s e = Some (s1, a)" "error_level s1 \<noteq> 1" and i: "find_variable (numbers s) x = Some i"
  shows "\<exists>s'. set_number s i e = Some (s', 0) \<and> map_of (numbers s') = (map_of (numbers s))(''error_level'' \<mapsto> error_level s1, x \<mapsto> a) \<and>
    strings s' = strings s"
proof -
  have t: "numbers s1 = numbers s" "strings s1 = strings s" using math_tables [OF m(1)] by simp_all
  obtain k where k: "find_variable (numbers s) ''error_level'' = Some k"
    using ok find_variable_None [of "numbers s" "''error_level''"] by (auto simp: variables_ok_def)
  let ?n = "set_at (numbers s) k (error_level s1)"
  have d: "distinct (map fst (numbers s))" "distinct (map fst ?n)" using ok names_set_at [of "numbers s" k] by (simp_all add: variables_ok_def)
  have x: "i < length ?n" "fst (?n ! i) = x"
    using find_variable_Some [OF i] by (cases "i = k", simp_all)+
  have n: "map_of ?n = (map_of (numbers s))(''error_level'' \<mapsto> error_level s1)"
    using map_of_set_at [OF d(1), of k "error_level s1"] find_variable_Some [OF k] by simp
  have "map_of (set_at ?n i a) = (map_of (numbers s))(''error_level'' \<mapsto> error_level s1, x \<mapsto> a)"
    using map_of_set_at [OF d(2) x(1)] x(2) n by simp
  moreover have "set_number s i e = Some (s1\<lparr>numbers := set_at ?n i a\<rparr>, 0)"
    using m k t by (simp add: set_number_def Let_def)
  ultimately show ?thesis using t by simp
qed

text \<open>SETI with a variable that exists.\<close>

lemma seti_stores_rule:
  assumes ok: "variables_ok s" and t: "scan_assignment t = Some (''$'' @ x, v)" and x: "check_variable s x = 1"
    and v: "seti_value False s (length t) v = Some (Some e)" and m: "math s e = Some (s1, a)" "error_level s1 \<noteq> 1"
    and nonempty: "x \<noteq> []"
  shows "\<exists>s'. seti_ccc False s t = Some (s', 0) \<and> number_value s' x = Some a \<and>
    (x \<noteq> ''error_level'' \<longrightarrow> number_value s' ''error_level'' = Some (error_level s1)) \<and>
    (\<forall>y. y \<noteq> x \<and> y \<noteq> ''error_level'' \<longrightarrow> number_value s' y = number_value s y) \<and> strings s' = strings s \<and> variables_ok s'"
proof -
  have "x \<in> fst ` set (numbers s)" using x check_variable_ok [OF ok, of x] by (auto split: if_splits)
  then obtain i where i: "find_variable (numbers s) x = Some i" using find_variable_None [of "numbers s" x] by fastforce
  obtain s' where s': "set_number s i e = Some (s', 0)" "map_of (numbers s') = (map_of (numbers s))(''error_level'' \<mapsto> error_level s1, x \<mapsto> a)"
      "strings s' = strings s" using set_number_stores [OF ok m i] by blast
  have k: "variables_ok s'" using set_number_ok [OF s'(1)] ok by simp
  have "seti_ccc False s t = Some (s', 0)"
    using t v x i s'(1) nonempty by (simp add: seti_ccc_def create_number_variable_def Let_def)
  then show ?thesis using s' k ok by (simp add: number_value_map)
qed

end
