(* ===== verification/Script_Demo.thy ===== *)
theory Script_Demo
  imports Script_Values
begin

text \<open>
  Two concrete scripts that count a variable down: one calls a subroutine from a loop, in the other the
  subroutine with the loop calls itself.  The values of their lines are computed here.
\<close>

section \<open>A loop that calls a subroutine\<close>

definition empty_buffer :: buffer where
  "empty_buffer = \<lparr>memory = [], limit = 0\<rparr>"

definition demo_store :: "bool \<Rightarrow> 64 word \<Rightarrow> store" where
  "demo_store h n = \<lparr>numbers = [(''error_level'', 0), (''n'', n)], strings = [], error_level = 0, print_in_hex = h,
     main_buffer = empty_buffer, scratchpad = empty_buffer, usb_buffer = empty_buffer, sense_buffer = empty_buffer,
     exit_code = 0, printed = []\<rparr>"

definition demo_items :: "item list" where
  "demo_items =
     [Main_code (Loop ''while $n > 0'' (Call ''gosub f'') ''done''),
      Routine ''subroutine f''
        (Seq (Cond ''if $n = 2'' (Plain ''hex'') (Endif ''endif'')) (Seq (Plain ''seti $n = $n - 1'') (Return ''returnsub'')))
        ''endsubroutine'']"

lemma demo_well_formed: "\<forall>x\<in>set demo_items. well_formed_item x" by code_simp

lemma while_words: "scan_words (arguments ''while $n > 0'') = [''$n'', ''>'', ''0'']" by code_simp
lemma if_words: "scan_words (arguments ''if $n = 2'') = [''$n'', ''='', ''2'']" by code_simp
lemma zero_text: "strtoll ''0'' = (0, [])" by code_simp
lemma two_text: "strtoll ''2'' = (2, [])" by code_simp
lemmas demo_words = while_words if_words zero_text two_text

lemma demo_value: "number_value (demo_store h n) ''n'' = Some n"
  by (simp add: number_value_def check_variable_def demo_store_def)

lemma demo_compare:
  "compare_ccc False (demo_store h n) (arguments ''while $n > 0'') = of_bool (0 < sint n)"
  "compare_ccc False (demo_store h n) (arguments ''if $n = 2'') = of_bool (n = 2)"
  by (simp_all add: compare_ccc_def demo_words demo_value first_side_def second_side_def compare_words_def del: scan_words.simps)

lemma hex_split: "scan_split ''hex'' = Some (''hex'', [])" by code_simp
lemma seti_split: "scan_split ''seti $n = $n - 1'' = Some (''seti'', ''$n = $n - 1'')" by code_simp
lemma seti_assignment: "scan_assignment ''$n = $n - 1'' = Some (''$n'', ''$n - 1'')" by code_simp
lemma difference_words: "scan_words ''$n - 1'' = [''$n'', ''-'', ''1'']" by code_simp
lemma one_number: "scan_number ''1'' = Some (False, 1, [])" by code_simp
lemma one_text: "strtoull ''1'' = (1, [])" by (simp add: strtoull_def one_number)
lemmas demo_scan = hex_split seti_split seti_assignment difference_words one_text

lemma demo_hex: "store_command other args False (demo_store False n) ''hex'' [] = Some (demo_store True n, 0)"
  by (simp add: store_command_def same_nocase_def to_lower_def demo_store_def)

lemma demo_math: "math (demo_store h n) ''$n - 1'' = Some (demo_store h n, n - 1)"
  by (simp add: math_def demo_scan math_binary_def operand_def number_value_def check_variable_def demo_store_def arith_def)

lemma demo_seti: "seti_ccc False (demo_store h n) ''$n = $n - 1'' = Some (demo_store h (n - 1), 0)"
  using demo_math [of h n]
  by (simp add: seti_ccc_def demo_scan seti_value_def create_number_variable_def check_variable_def demo_store_def set_number_def)

lemma demo_seti_command: "store_command other args False (demo_store h n) ''seti'' t = seti_ccc False (demo_store h n) t"
  by (simp add: store_command_def same_nocase_def to_lower_def)

lemma demo_call: "first_word (arguments ''gosub f'') = Some (''f'', [])" "routine demo_items ''f'' = Some 
        (Seq (Cond ''if $n = 2'' (Plain ''hex'') (Endif ''endif'')) (Seq (Plain ''seti $n = $n - 1'') (Return ''returnsub'')))"
  by code_simp+

lemma demo_step: "plain_step other args (demo_store h n) ''seti $n = $n - 1'' = Some (demo_store h (n - 1), 0)"
  "plain_step other args (demo_store False n) ''hex'' = Some (demo_store True n, 0)"
  by (simp_all add: plain_step_def demo_scan demo_seti_command demo_seti demo_hex)

lemmas demo_intros = meaning_tail_meaning_loop_meaning.intros

lemma demo_hex_block:
    "meaning other args demo_items A w 0 (Cond ''if $n = 2'' (Plain ''hex'') (Endif ''endif''), demo_store (n \<noteq> 2) n) (Done, demo_store True n)"
proof (cases "n = 2")
  case True
  show ?thesis
    by (rule meaning_tail_meaning_loop_meaning.Cond_true, simp add: demo_compare True, simp,
      rule meaning_tail_meaning_loop_meaning.Plain, simp add: True demo_step)
next
  case False
  show ?thesis using False
    by (intro meaning_tail_meaning_loop_meaning.Cond_false) (simp_all add: demo_compare meaning_tail_meaning_loop_meaning.Endif)
qed

lemma demo_round:
  "meaning other args demo_items [] (Suc 0) 0 (Call ''gosub f'', demo_store (n \<noteq> 2) n) (Done, demo_store True (n - 1))"
proof -
  have "meaning other args demo_items [''f''] (Suc 0) 0 (Seq (Plain ''seti $n = $n - 1'') (Return ''returnsub''), demo_store True n)
      (Returned, demo_store True (n - 1))"
    by (rule meaning_tail_meaning_loop_meaning.Seq meaning_tail_meaning_loop_meaning.Plain meaning_tail_meaning_loop_meaning.Return demo_step)+
  then have "meaning other args demo_items [''f''] (Suc 0) 0
      (Seq (Cond ''if $n = 2'' (Plain ''hex'') (Endif ''endif'')) (Seq (Plain ''seti $n = $n - 1'') (Return ''returnsub'')), demo_store (n \<noteq> 2) n)
      (Returned, demo_store True (n - 1))"
    by (rule meaning_tail_meaning_loop_meaning.Seq [OF demo_hex_block])
  then show ?thesis using meaning_tail_meaning_loop_meaning.Call [OF demo_call] by fastforce
qed

lemma demo_meaning: "program_meaning other args demo_items (demo_items, demo_store False 2) (0, demo_store True 0)"
proof -
  have a: "meaning other args demo_items [] (Suc 0) 0 (Call ''gosub f'', demo_store False 2) (Done, demo_store True 1)"
    "meaning other args demo_items [] (Suc 0) 0 (Call ''gosub f'', demo_store True 1) (Done, demo_store True 0)"
    using demo_round [of other args 2] demo_round [of other args 1] by simp_all
  have "loop_meaning other args demo_items [] 0 0 (''while $n > 0'', Call ''gosub f'', demo_store True 1) (Done, demo_store True 0)"
    by (rule meaning_tail_meaning_loop_meaning.Round_last [OF a(2)]) (simp add: demo_compare)
  then have "loop_meaning other args demo_items [] 0 0 (''while $n > 0'', Call ''gosub f'', demo_store False 2) (Done, demo_store True 0)"
    by (rule meaning_tail_meaning_loop_meaning.Round [OF a(1), rotated]) (simp add: demo_compare)
  then have m: "meaning other args demo_items [] 0 0 (Loop ''while $n > 0'' (Call ''gosub f'') ''done'', demo_store False 2) (Done, demo_store True 0)"
    by (rule meaning_tail_meaning_loop_meaning.Loop_true [rotated 2]) (simp_all add: demo_compare)
  have "program_meaning other args demo_items
      ([Main_code (Loop ''while $n > 0'' (Call ''gosub f'') ''done''), Routine ''subroutine f'' c d], demo_store False 2) (0, demo_store True 0)" for c d
    by (intro program_meaning.Main [OF m] program_meaning.Skip_routine program_meaning.Finish)
  then show ?thesis by (subst (2) demo_items_def)
qed

definition start_state :: "store \<Rightarrow> script_state" where
  "start_state s = \<lparr>data = s, sub_lines = (\<lambda>_. 0), sub_whiles = (\<lambda>_. 0), sub_endifs = (\<lambda>_. 0), sub_count = 0,
     endif_lines = (\<lambda>_. 0), conditions = (\<lambda>_. False), endif_count = 0, while_lines = (\<lambda>_. 0), while_endifs = (\<lambda>_. 0),
     done_lines = (\<lambda>_. 0), while_conds = (\<lambda>_. False), while_count = 0, sub_checks = 0, return_checks = 0, if_level = 0, while_level = 0\<rparr>"

section \<open>A loop that calls itself\<close>

definition recursive_items :: "item list" where
  "recursive_items =
     [Main_code (Call ''gosub f''),
      Routine ''subroutine f'' (Loop ''while $n > 0'' (Seq (Plain ''seti $n = $n - 1'') (Call ''gosub f'')) ''done'') ''endsubroutine'']"

lemma recursive_well_formed: "\<forall>x\<in>set recursive_items. well_formed_item x"
  by code_simp

lemma recursive_lines:
  "at (script_text recursive_items) 2 [''gosub f'']"
  "at (script_text recursive_items) 4 (''while $n > 0'' # lines_of (Seq (Plain ''seti $n = $n - 1'') (Call ''gosub f'')) @ [''done''])"
  "at (script_text recursive_items) 8 [''endsubroutine'']"
  by (simp_all add: at_def script_text_def program_lines_def recursive_items_def)

lemma recursive_places:
  "at (script_text recursive_items) 4 [''while $n > 0'']" "at (script_text recursive_items) 5 [''seti $n = $n - 1'']"
  "at (script_text recursive_items) 6 [''gosub f'']" "at (script_text recursive_items) 7 [''done'']"
  using recursive_lines(2) by (simp_all add: at_Cons)

lemma recursive_commands: "has_command ''gosub'' ''gosub f''" "has_command ''while'' ''while $n > 0''" "has_command ''done'' ''done''"
   "has_command ''endsubroutine'' ''endsubroutine''" "well_formed (Seq (Plain ''seti $n = $n - 1'') (Call ''gosub f''))"
  by code_simp+

lemma recursive_subroutine: "find_subroutine (script_text recursive_items) ''f'' 0 = Some 3"
  by code_simp

lemma seti_line:
  assumes "at ls p [''seti $n = $n - 1'']" "data st = demo_store h n"
  shows "leads other args ls p st (p + 1) (st\<lparr>data := demo_store h (n - 1)\<rparr>)"
proof (rule command_step [of p ls "''seti''" "''$n = $n - 1''" other args st _ 0])
  show "execute_line other args False ls st p ''seti'' ''$n = $n - 1'' = Some (st\<lparr>data := demo_store h (n - 1)\<rparr>, 0)"
    using assms(2) by (simp add: execute_line_def same_nocase_def to_lower_def demo_seti_command demo_seti)
qed (use assms(1) in \<open>simp_all add: at_Cons demo_scan\<close>)

text \<open>The run: the inner WHILE goes on with the loop of the caller and closes it, so the DONE of the caller has no loop.\<close>

lemma recursive_run:
  "leads other args (script_text recursive_items) 0 st 2 st"
  "counts st 0 0 0 \<Longrightarrow> data st = demo_store h 1 \<Longrightarrow>
    ends other args (script_text recursive_items) 2 st Undefined"
proof -
  let ?ls = "script_text recursive_items"
  have "leads other args ?ls 0 st (0 + 1) st" "leads other args ?ls 1 st (1 + 1) st"
    by (rule blank_step; simp add: script_text_def blank_lines)+
  then show "leads other args ?ls 0 st 2 st" using leads_trans by (fastforce simp: numeral_2_eq_2)
next
  let ?ls = "script_text recursive_items"
  assume k: "counts st 0 0 0" and d: "data st = demo_store h 1"
  note gosub = gosub_step [OF _ recursive_commands(1) demo_call(1) recursive_subroutine, simplified]
  define a where "a = push_sub st 0 2"
  define b where "b = push_while a 0 4 7 True"
  define c where "c = push_sub (b\<lparr>data := demo_store h 0\<rparr>) 1 6"
  define e where "e = c\<lparr>while_conds := (while_conds c)(0 := False), while_count := 0\<rparr>"
  have "leads other args ?ls 2 st 4 a" unfolding a_def using gosub [OF recursive_lines(1) k] by simp
  also have "leads other args ?ls 4 a 5 b"
    unfolding b_def using while_step [OF recursive_lines(2) recursive_commands(2,5,3), of a 0 0 1 1 other args] k d
    by (simp add: a_def push_sub_def counts_def demo_compare)
  also have "leads other args ?ls 5 b 6 (b\<lparr>data := demo_store h 0\<rparr>)"
    using seti_line [OF recursive_places(2), of b h 1] d by (simp add: b_def a_def push_sub_def push_while_def)
  also have "leads other args ?ls 6 (b\<lparr>data := demo_store h 0\<rparr>) 4 c"
    unfolding c_def using gosub [OF recursive_places(3), of "b\<lparr>data := demo_store h 0\<rparr>" 1 0 1] k
    by (simp add: b_def a_def push_sub_def push_while_def counts_def)
  also have "leads other args ?ls 4 c 8 e"
    unfolding e_def using while_again [OF recursive_places(1) recursive_commands(2), of c 0 0 2 7 0 other args] k
    by (simp add: c_def b_def a_def push_sub_def push_while_def counts_def demo_compare)
  also have "leads other args ?ls 8 e 7 (e\<lparr>sub_count := 1\<rparr>)"
    using endsubroutine_step [OF recursive_lines(3) recursive_commands(4), of e 0 0 1 other args] k
    by (simp add: e_def c_def b_def a_def push_sub_def push_while_def counts_def)
  finally have l: "leads other args ?ls 2 st 7 (e\<lparr>sub_count := 1\<rparr>)" .
  have "done_ccc False (e\<lparr>sub_count := 1\<rparr>) = None" by (simp add: done_ccc_def e_def in_stack_def)
  then have "run_lines 1 other args ?ls 7 (e\<lparr>sub_count := 1\<rparr>) = Undefined"
    using recursive_places(4) has_command_split [OF recursive_commands(3)] execute_control(10) [of _ "''done''"]
    by (auto simp: at_Cons)
  then have "ends other args ?ls 7 (e\<lparr>sub_count := 1\<rparr>) Undefined" unfolding ends_def by blast
  then show "ends other args ?ls 2 st Undefined" using l leads_ends by blast
qed

end
