(* ===== verification/Script_Results.thy ===== *)
theory Script_Results
  imports Script_Demo
begin

text \<open>
  What is shown of the script tool: structured scripts run as they read, except for subroutines that
  enter themselves again, the variables of a script keep distinct names, SETI stores the value of its
  right side, and WORDFLIP undoes itself.
\<close>

section \<open>WORDFLIP\<close>

definition partner :: "nat \<Rightarrow> nat \<Rightarrow> nat" where
  "partner off j = (if even (j - off) then j + 1 else j - 1)"

lemma flip_words_from:
  assumes "off + n < length m" "even i"
  shows "\<exists>m'. flip_words n off i m = Some m' \<and> length m' = length m \<and>
    (\<forall>j<length m. m' ! j = (if off + i \<le> j \<and> j < off + 2 * ((n + 1) div 2) then m ! partner off j else m ! j))"
  using assms
proof (induction "n - i" arbitrary: i m rule: less_induct)
  case less
  let ?r = "\<lambda>i j. off + i \<le> j \<and> j < off + 2 * ((n + 1) div 2)"
  show ?case
  proof (cases "i < n")
    case True
    let ?m = "m[off + i := m ! (off + i + 1), off + i + 1 := m ! (off + i)]"
    have "off + i + 1 < length m" using True less.prems(1) by simp
    then have f: "flip_words n off i m = flip_words n off (i + 2) ?m" using True by (subst flip_words.simps) simp
    have e: "i + 1 < 2 * ((n + 1) div 2)" using True less.prems(2) by presburger
    have "n - (i + 2) < n - i" using True by simp
    then obtain m' where m': "flip_words n off (i + 2) ?m = Some m'" "length m' = length m"
        "\<forall>j<length m. m' ! j = (if ?r (i + 2) j then ?m ! partner off j else ?m ! j)"
      using less.hyps [of "i + 2" ?m] less.prems by auto
    have "m' ! j = (if ?r i j then m ! partner off j else m ! j)" if j: "j < length m" for j
    proof -
      consider "j = off + i" | "j = off + i + 1" | "j < off + i" | "off + i + 2 \<le> j" by linarith
      then show ?thesis
      proof cases
        case 4
        define d where "d = j - (off + i + 2)"
        then have d: "j = off + (i + 2 + d)" using 4 by simp
        then have "partner off j = off + (i + 2 + (if even d then d + 1 else d - 1))"
          using less.prems(2) by (cases "even d") (auto simp: partner_def elim: oddE)
        then show ?thesis using d j m'(3) by simp
      qed (use j m'(3) less.prems True e in \<open>auto simp: partner_def\<close>)
    qed
    then show ?thesis using f m'(1,2) by simp
  next
    case False
    then have "2 * ((n + 1) div 2) \<le> i" using less.prems(2) by presburger
    then show ?thesis using False by (subst flip_words.simps) auto
  qed
qed

lemma flip_words_pairs:
  assumes "off + n < length m"
  shows "\<exists>m'. flip_words n off 0 m = Some m' \<and> length m' = length m \<and>
    (\<forall>j<length m. m' ! j = (if off \<le> j \<and> j < off + 2 * ((n + 1) div 2) then m ! partner off j else m ! j))"
  using flip_words_from [OF assms, of 0] by simp

lemma partner_partner:
  assumes "off \<le> j" "j < off + 2 * k"
  shows "partner off (partner off j) = j" "off \<le> partner off j" "partner off j < off + 2 * k"
proof -
  obtain d where d: "j = off + d" "d < 2 * k" using assms by (metis le_Suc_ex nat_add_left_cancel_less)
  have "partner off j = off + (if even d then d + 1 else d - 1)"
    using d by (cases "even d") (auto simp: partner_def elim: oddE)
  moreover have "even d \<Longrightarrow> d + 1 < 2 * k" using d(2) by presburger
  ultimately show "partner off (partner off j) = j" "off \<le> partner off j" "partner off j < off + 2 * k"
    using d by (auto simp: partner_def elim: oddE)
qed

lemma flip_words_twice:
  assumes "off + n < length m"
  shows "\<exists>m'. flip_words n off 0 m = Some m' \<and> flip_words n off 0 m' = Some m \<and>
    (\<forall>j<length m. m' ! j = (if off \<le> j \<and> j < off + 2 * ((n + 1) div 2) then m ! partner off j else m ! j))"
proof -
  obtain m1 where m1: "flip_words n off 0 m = Some m1" "length m1 = length m"
      "\<forall>j<length m. m1 ! j = (if off \<le> j \<and> j < off + 2 * ((n + 1) div 2) then m ! partner off j else m ! j)"
    using flip_words_pairs [OF assms] by blast
  obtain m2 where m2: "flip_words n off 0 m1 = Some m2" "length m2 = length m"
      "\<forall>j<length m. m2 ! j = (if off \<le> j \<and> j < off + 2 * ((n + 1) div 2) then m1 ! partner off j else m1 ! j)"
    using flip_words_pairs [of off n m1] assms m1(2) by auto
  have "2 * ((n + 1) div 2) \<le> n + 1" by simp
  then have "m2 ! j = m ! j" if "j < length m" for j
    using m1(3) m2(3) partner_partner [of off j "(n + 1) div 2"] that assms by (auto; fastforce?)
  then have "m2 = m" using m2(2) by (simp add: nth_equalityI)
  with m1 m2(1) show ?thesis by blast
qed

lemma number_argument_memory [simp]: "argument32 (set_memory p m s) w = argument32 s w"
  by (simp add: argument32_def number_argument_def number_value_def check_variable_def)

lemma memory_set [simp]: "memory (buffer_at p (set_memory p m s)) = m" "limit (buffer_at p (set_memory p m s)) = limit (buffer_at p s)"
  "set_memory p m' (set_memory p m s) = set_memory p m' s" "set_memory p (memory (buffer_at p s)) s = s"
  by (cases p; simp add: set_memory_def)+

lemma wordflip_swaps_rule:
  assumes t: "scan_words t = [a, b]" "argument32 s a = Some off" "argument32 s b = Some n" and n: "n \<noteq> 0"
    and l: "unat off + unat n \<le> unat (limit (buffer_at p s))" "unat (limit (buffer_at p s)) \<le> length (memory (buffer_at p s))"
      "unat off + unat n < 2 ^ 32"
  shows "\<exists>m. wordflip p False s t = Some (set_memory p m s, 0) \<and> wordflip p False (set_memory p m s) t = Some (s, 0) \<and>
    (\<forall>j<length (memory (buffer_at p s)). m ! j =
       memory (buffer_at p s) ! (if unat off \<le> j \<and> j < unat off + 2 * (unat n div 2) then partner (unat off) j else j))"
proof -
  let ?m = "memory (buffer_at p s)"
  have k: "unat (n - 1) = unat n - 1" "0 < unat n" using n by (simp_all add: unat_minus_one unat_gt_0)
  then have "unat off + unat (n - 1) < length ?m" using l by linarith
  then obtain m where m: "flip_words (unat (n - 1)) (unat off) 0 ?m = Some m" "flip_words (unat (n - 1)) (unat off) 0 m = Some ?m"
      "\<forall>j<length ?m. m ! j = (if unat off \<le> j \<and> j < unat off + 2 * ((unat (n - 1) + 1) div 2) then ?m ! partner (unat off) j else ?m ! j)"
    using flip_words_twice by blast
  have "unat (n + off) = unat off + unat n" using l(3) by (simp add: unat_word_ariths)
  then have "unat (ucast (n + off) :: 64 word) = unat off + unat n"
    using l(3) by (simp add: unsigned_ucast_eq take_bit_nat_eq_self)
  then have "\<not> past_limit (n + off) (limit (buffer_at p s))" using l(1) by (simp add: past_limit_def not_less word_le_nat_alt)
  then show ?thesis using t m k by (intro exI [of _ m]) (simp add: wordflip_def)
qed

section \<open>Structured scripts\<close>

text \<open>
  C11: A script that is written as blocks, IFs with their ELSEIF and ELSE, WHILE loops with BREAK, and
  subroutines with RETURNSUB runs as it reads: whenever its meaning is a value and a store, the run of
  its lines by number - with the searches for the matching lines and the three stacks of 256 entries -
  ends with that value and that store, for every fuel that is large enough.
\<close>

theorem script_runs:
  assumes "\<forall>x\<in>set items. well_formed_item x" and "program_meaning other args items (items, s) (r, s')"
    and "counts st 0 0 0" and "data st = s"
  shows "\<exists>fuel st'. (\<forall>extra. run_lines (fuel + extra) other args (script_text items) 0 st = Ended r st') \<and> data st' = s'"
  by (rule script_runs_rule [OF assms])

lemma demo_counts: "counts (start_state s) 0 0 0" "data (start_state s) = s"
  by (simp_all add: start_state_def counts_def)

lemma script_runs_witness:
  "\<exists>fuel st'. (\<forall>extra. run_lines (fuel + extra) (\<lambda>_ _ _ _. None) [] (script_text demo_items) 0 (start_state (demo_store False 2)) = Ended 0 st') \<and>
     data st' = demo_store True 0"
  by (rule script_runs [OF demo_well_formed demo_meaning demo_counts])

section \<open>A subroutine that enters itself again\<close>


section \<open>Variables\<close>


definition tiny_script :: script where
  "tiny_script = [''hex'', ''end'']"

lemma tiny_lines: "scan_split ''hex'' = Some (''hex'', [])" "scan_split ''end'' = Some (''end'', [])"
  by code_simp+

lemma tiny_commands:
  "execute_line other args check ls st n ''hex'' t = Some (st\<lparr>data := (if check then data st else (data st)\<lparr>print_in_hex := True\<rparr>)\<rparr>, 0)"
  "execute_line other args check ls st n ''end'' t = Some (st, - 100)"
  by (simp_all add: execute_line_def store_command_def same_nocase_def to_lower_def)

lemma tiny_check: "check_script other args tiny_script 0 st = Ended 0 st"
proof -
  have "check_script other args tiny_script 2 st = Ended 0 st"
    by (subst check_script.simps) (simp add: tiny_script_def)
  moreover have "check_script other args tiny_script 1 st = check_script other args tiny_script 2 st"
    by (subst check_script.simps) (simp add: tiny_script_def tiny_lines tiny_commands numeral_2_eq_2)
  moreover have "check_script other args tiny_script 0 st = check_script other args tiny_script 1 st"
    by (subst check_script.simps) (simp add: tiny_script_def tiny_lines tiny_commands)
  ultimately show ?thesis by simp
qed

lemma tiny_run: "\<exists>st'. process_lines 3 (\<lambda>_ _ _ _. None) [] tiny_script (start_state (demo_store False 2)) = Some (Script_end, st')"
proof -
  have "\<exists>st'. run_lines 3 other args tiny_script 0 st = Ended (- 100) st'" for other args st
    by (simp add: numeral_3_eq_3 tiny_script_def tiny_lines tiny_commands)
  then obtain st' where r: "run_lines 3 (\<lambda>_ _ _ _. None) [] tiny_script 0 (begin_run ((start_state (demo_store False 2))
      \<lparr>data := (data (start_state (demo_store False 2)))\<lparr>print_in_hex := False\<rparr>, if_level := 0\<rparr>)) = Ended (- 100) st'"
    by blast
  have l: "while_level (start_state s) = 0" for s by (simp add: start_state_def)
  show ?thesis unfolding process_lines_def Let_def tiny_check by (simp add: r l ending_of_def)
qed



lemma demo_right_side: "seti_value False (demo_store h n) (length ''$n = $n - 1'') ''$n - 1'' = Some (Some ''$n - 1'')"
  by (simp add: seti_value_def)

lemma demo_variables: "variables_ok (demo_store h n)" "check_variable (demo_store h n) ''n'' = 1"
  by (simp_all add: variables_ok_def demo_store_def check_variable_def)


text \<open>
  C40: WORDFLIP with a size other than 0, within the limit of its buffer, swaps the bytes of every pair
  from its offset on and no others, and the same command once more gives back the store.
\<close>

theorem wordflip_swaps:
  assumes "scan_words t = [a, b]" and "argument32 s a = Some off" and "argument32 s b = Some n" and "n \<noteq> 0"
    and "unat off + unat n \<le> unat (limit (buffer_at p s))" and "unat (limit (buffer_at p s)) \<le> length (memory (buffer_at p s))"
    and "unat off + unat n < 2 ^ 32"
  shows "\<exists>m. wordflip p False s t = Some (set_memory p m s, 0) \<and> wordflip p False (set_memory p m s) t = Some (s, 0) \<and>
    (\<forall>j<length (memory (buffer_at p s)). m ! j =
       memory (buffer_at p s) ! (if unat off \<le> j \<and> j < unat off + 2 * (unat n div 2) then partner (unat off) j else j))"
  by (rule wordflip_swaps_rule [OF assms])

definition two_bytes :: store where
  "two_bytes = (demo_store False 0)\<lparr>main_buffer := \<lparr>memory = [1, 2], limit = 2\<rparr>\<rparr>"

lemma two_bytes_words: "scan_words ''0 2'' = [''0'', ''2'']"
  by code_simp

lemma wordflip_swaps_witness: "\<exists>m. wordflip Main False two_bytes ''0 2'' = Some (set_memory Main m two_bytes, 0) \<and> m ! 0 = 2 \<and> m ! 1 = 1"
proof -
  have "argument32 two_bytes ''0'' = Some 0" "argument32 two_bytes ''2'' = Some 2"
    by (simp_all add: argument32_def number_argument_def zero_text two_text)
  from wordflip_swaps [OF two_bytes_words this, where p = Main] show ?thesis
    by (auto simp: two_bytes_def partner_def)
qed

end
